(* ===== verification/Prelude.thy ===== *)
theory Prelude
  imports Main "HOL-Library.Word"
begin

text \<open>
  The vocabulary every component shares.

  Machine integers are words of their C++ width. A NUL-terminated C string is the list of
  the characters before its terminator; a nullable \<^verbatim>\<open>const char*\<close> is a \<open>string option\<close>; a
  pointer and length pair is a list of characters that may hold NUL bytes. Copies into a
  fixed buffer keep the truncation of \<^verbatim>\<open>strncpy\<close>. The loops of the source that scan an array
  for the first slot with a property are all \<open>find_index\<close>.
\<close>

section \<open>Types and proof collections\<close>

type_synonym u8 = "8 word"
type_synonym u16 = "16 word"
type_synonym u32 = "32 word"
type_synonym u64 = "64 word"

named_theorems inv_defs \<open>definitions of the component invariants\<close>
named_theorems op_defs \<open>definitions of the component operations\<close>

section \<open>Characters and C strings\<close>

definition NUL :: char where
  "NUL = CHR 0x00"

text \<open>What a C string function reads from a buffer: the characters before the first NUL.\<close>

definition cstr :: "string \<Rightarrow> string" where
  "cstr s = takeWhile (\<lambda>c. c \<noteq> NUL) s"

text \<open>\<open>strncpy\<close> of at most \<open>n\<close> characters into a zeroed buffer of \<open>n + 1\<close> bytes.\<close>

definition strncpy_z :: "nat \<Rightarrow> string \<Rightarrow> string" where
  "strncpy_z n s = take n s"

text \<open>\<open>strncmp (a, b, n) == 0\<close> on C strings.\<close>

definition strncmp_eq :: "nat \<Rightarrow> string \<Rightarrow> string \<Rightarrow> bool" where
  "strncmp_eq n a b \<longleftrightarrow> take n a = take n b"

text \<open>\<open>strcmp (a, b) < 0\<close>: bytes compare as unsigned, a proper prefix is smaller.\<close>

fun str_less :: "string \<Rightarrow> string \<Rightarrow> bool" where
  "str_less _ [] \<longleftrightarrow> False"
| "str_less [] (_ # _) \<longleftrightarrow> True"
| "str_less (a # as) (b # bs) \<longleftrightarrow>
     (of_char a :: nat) < of_char b \<or> a = b \<and> str_less as bs"

definition char_code :: "char \<Rightarrow> nat" where
  "char_code c = of_char c"

definition char_byte :: "char \<Rightarrow> u8" where
  "char_byte c = word_of_nat (char_code c)"

definition is_digit :: "char \<Rightarrow> bool" where
  "is_digit c \<longleftrightarrow> 48 \<le> char_code c \<and> char_code c \<le> 57"

definition digit_val :: "char \<Rightarrow> nat" where
  "digit_val c = char_code c - 48"

text \<open>\<open>isspace\<close> and \<open>tolower\<close> of the C locale.\<close>

definition isspace :: "char \<Rightarrow> bool" where
  "isspace c \<longleftrightarrow> char_code c = 32 \<or> 9 \<le> char_code c \<and> char_code c \<le> 13"

definition tolower :: "char \<Rightarrow> char" where
  "tolower c = (if 65 \<le> char_code c \<and> char_code c \<le> 90 then char_of (char_code c + 32) else c)"

definition iequal :: "string \<Rightarrow> string \<Rightarrow> bool" where
  "iequal a b \<longleftrightarrow> map tolower a = map tolower b"

section \<open>Decimal and hexadecimal printing\<close>

definition digit_char :: "nat \<Rightarrow> char" where
  "digit_char d = char_of (48 + d)"

fun show_nat :: "nat \<Rightarrow> string" where
  "show_nat n = (if n < 10 then [digit_char n] else show_nat (n div 10) @ [digit_char (n mod 10)])"

declare show_nat.simps [simp del]

definition show_u64 :: "u64 \<Rightarrow> string" where
  "show_u64 w = show_nat (unat w)"

definition show_u32 :: "u32 \<Rightarrow> string" where
  "show_u32 w = show_nat (unat w)"

definition hex_char :: "nat \<Rightarrow> char" where
  "hex_char d = (if d < 10 then char_of (48 + d) else char_of (87 + d))"

text \<open>\<open>%016llx\<close>: sixteen lower-case digits, most significant first.\<close>

definition hex16 :: "u64 \<Rightarrow> string" where
  "hex16 w = map (\<lambda>i. hex_char (unat (take_bit 4 (drop_bit (4 * i) w)))) (rev [0..<16])"

section \<open>Scanning\<close>

fun find_index :: "('a \<Rightarrow> bool) \<Rightarrow> 'a list \<Rightarrow> nat option" where
  "find_index P [] = None"
| "find_index P (x # xs) = (if P x then Some 0 else map_option Suc (find_index P xs))"

text \<open>Several slots can be skipped at once: \<open>find_index\<close> is the least position with the property.\<close>

lemma find_index_Some_iff:
  "find_index P xs = Some i \<longleftrightarrow> i < length xs \<and> P (xs ! i) \<and> (\<forall>j<i. \<not> P (xs ! j))"
proof (induction xs arbitrary: i)
  case Nil
  then show ?case by simp
next
  case (Cons x xs)
  show ?case
  proof (cases i)
    case 0
    then show ?thesis by auto
  next
    case (Suc k)
    show ?thesis
      by (auto simp: Suc Cons.IH All_less_Suc2)
  qed
qed

lemma find_index_upt_iff:
  "find_index P [0..<n] = Some i \<longleftrightarrow> i < n \<and> P i \<and> (\<forall>j<i. \<not> P j)"
  unfolding find_index_Some_iff by auto

lemma find_index_None_iff: "find_index P xs = None \<longleftrightarrow> (\<forall>x\<in>set xs. \<not> P x)"
  by (induction xs) auto

lemma find_index_SomeD:
  assumes "find_index P xs = Some i"
  shows "i < length xs" and "P (xs ! i)" and "\<And>j. j < i \<Longrightarrow> \<not> P (xs ! j)"
  using assms by (auto simp: find_index_Some_iff)

lemma find_index_exists: "x \<in> set xs \<Longrightarrow> P x \<Longrightarrow> \<exists>i. find_index P xs = Some i"
  by (metis find_index_None_iff not_None_eq)

lemma find_index_unique:
  assumes "i < length xs" and "P (xs ! i)" and "\<And>j. j < length xs \<Longrightarrow> P (xs ! j) \<Longrightarrow> j = i"
  shows "find_index P xs = Some i"
  unfolding find_index_Some_iff
proof (intro conjI allI impI notI)
  fix j
  assume "j < i" and "P (xs ! j)"
  with assms(1) have "j = i" by (intro assms(3)) auto
  with \<open>j < i\<close> show False by simp
qed (fact assms)+

lemma find_index_cong:
  "(\<And>x. x \<in> set xs \<Longrightarrow> P x \<longleftrightarrow> Q x) \<Longrightarrow> find_index P xs = find_index Q xs"
  by (induction xs) auto

lemma find_index_append:
  "find_index P (xs @ ys) =
     (case find_index P xs of Some i \<Rightarrow> Some i
      | None \<Rightarrow> map_option (\<lambda>i. length xs + i) (find_index P ys))"
  by (induction xs; cases "find_index P ys") (auto split: option.splits)

section \<open>Word bounds\<close>

lemma unat_u64_less: "unat (w :: u64) < 2 ^ 64"
  by (rule order_less_le_trans [OF unsigned_less]) simp

lemma unat_u32_less: "unat (w :: u32) < 2 ^ 32"
  by (rule order_less_le_trans [OF unsigned_less]) simp

section \<open>Separated text\<close>

fun join :: "string \<Rightarrow> string list \<Rightarrow> string" where
  "join sep [] = []"
| "join sep (x # xs) = x @ concat (map ((@) sep) xs)"

text \<open>The first separator of a text splits it in one way.\<close>

lemma append_sep_eq:
  assumes "c \<notin> set a" and "c \<notin> set b"
  shows "a @ c # x = b @ c # y \<longleftrightarrow> a = b \<and> x = y"
  using assms
proof (induction a arbitrary: b)
  case Nil
  then show ?case by (cases b) auto
next
  case (Cons d a)
  then show ?case by (cases b) auto
qed

lemma join_Cons_Cons: "join sep (x # y # ys) = x @ sep @ join sep (y # ys)"
  by simp

lemma join_inj:
  assumes "\<forall>x\<in>set xs. x \<noteq> [] \<and> c \<notin> set x" and "\<forall>y\<in>set ys. y \<noteq> [] \<and> c \<notin> set y"
    and "join [c] xs = join [c] ys"
  shows "xs = ys"
  using assms
proof (induction xs arbitrary: ys)
  case Nil
  then show ?case by (cases ys) auto
next
  case (Cons x xs)
  note xs = Cons.prems(1) and eq = Cons.prems(3)
  from eq xs obtain y ys' where ys: "ys = y # ys'" by (cases ys) auto
  have c: "c \<notin> set x" "c \<notin> set y" using xs Cons.prems(2) ys by simp_all
  show ?case
  proof (cases xs)
    case Nil
    with eq ys have "x = y @ concat (map ((@) [c]) ys')" by simp
    with c(1) Nil ys show ?thesis by (cases ys') auto
  next
    case (Cons x2 xs2)
    show ?thesis
    proof (cases ys')
      case Nil
      with eq ys Cons have "y = x @ c # join [c] xs" by simp
      with c(2) show ?thesis by (metis in_set_conv_decomp)
    next
      case (Cons y2 ys2)
      with eq ys \<open>xs = x2 # xs2\<close> have "x @ c # join [c] xs = y @ c # join [c] ys'" by simp
      then have "x = y" "join [c] xs = join [c] ys'" by (simp_all only: append_sep_eq [OF c])
      moreover have "xs = ys'"
        by (rule Cons.IH [OF _ _ \<open>join [c] xs = join [c] ys'\<close>]) (use xs Cons.prems(2) ys in simp_all)
      ultimately show ?thesis using ys by simp
    qed
  qed
qed

section \<open>Facts about printing\<close>

lemma char_code_less [simp]: "char_code c < 256"
  by (simp add: char_code_def)

lemma char_code_eq_iff: "char_code a = char_code b \<longleftrightarrow> a = b"
  by (simp add: char_code_def)

lemma char_code_char_of [simp]: "n < 256 \<Longrightarrow> char_code (char_of n) = n"
  by (simp add: char_code_def)

lemma char_byte_eq_iff [simp]: "char_byte a = char_byte b \<longleftrightarrow> a = b"
proof
  assume "char_byte a = char_byte b"
  then have "unat (char_byte a) = unat (char_byte b)" by simp
  then show "a = b"
    by (simp add: char_byte_def unat_of_nat char_code_eq_iff)
qed simp

lemma digit_char_inj: "a < 10 \<Longrightarrow> b < 10 \<Longrightarrow> digit_char a = digit_char b \<longleftrightarrow> a = b"
  by (auto simp: digit_char_def dest: arg_cong [where f = char_code])

lemma is_digit_digit_char [simp]: "d < 10 \<Longrightarrow> is_digit (digit_char d)"
  by (simp add: is_digit_def digit_char_def)

lemma digit_val_digit_char [simp]: "d < 10 \<Longrightarrow> digit_val (digit_char d) = d"
  by (simp add: digit_val_def digit_char_def)

lemma show_nat_nonempty [simp]: "show_nat n \<noteq> []"
  by (subst show_nat.simps) simp

lemma show_nat_digits: "c \<in> set (show_nat n) \<Longrightarrow> is_digit c"
proof (induction n rule: show_nat.induct)
  case (1 n)
  then show ?case
    by (subst (asm) show_nat.simps) (auto split: if_splits)
qed

text \<open>The value of a digit string; it reads back what \<open>show_nat\<close> prints.\<close>

definition digits_val :: "string \<Rightarrow> nat" where
  "digits_val s = foldl (\<lambda>n c. 10 * n + digit_val c) 0 s"

lemma digits_val_show_nat [simp]: "digits_val (show_nat n) = n"
proof (induction n rule: show_nat.induct)
  case (1 n)
  show ?case
  proof (cases "n < 10")
    case True
    then show ?thesis by (subst show_nat.simps) (simp add: digits_val_def)
  next
    case False
    then have "digits_val (show_nat (n div 10)) = n div 10" by (rule "1.IH")
    with False show ?thesis
      by (subst show_nat.simps) (simp add: digits_val_def)
  qed
qed

lemma show_nat_inj [simp]: "show_nat m = show_nat n \<longleftrightarrow> m = n"
  by (metis digits_val_show_nat)

lemma show_u64_inj [simp]: "show_u64 a = show_u64 b \<longleftrightarrow> a = b"
  by (simp add: show_u64_def word_unat_eq_iff)

lemma show_u64_digits: "c \<in> set (show_u64 w) \<Longrightarrow> is_digit c"
  by (simp add: show_u64_def show_nat_digits)

lemma show_nat_length_le: "n < 10 ^ Suc k \<Longrightarrow> length (show_nat n) \<le> Suc k"
proof (induction k arbitrary: n)
  case 0
  then show ?case by (subst show_nat.simps) simp
next
  case (Suc k)
  show ?case
  proof (cases "n < 10")
    case True
    then show ?thesis by (subst show_nat.simps) simp
  next
    case False
    from Suc.prems have "n < 10 ^ Suc k * 10" by simp
    then have "n div 10 < 10 ^ Suc k" by (rule less_mult_imp_div_less)
    then have "length (show_nat (n div 10)) \<le> Suc k" by (rule Suc.IH)
    with False show ?thesis by (subst show_nat.simps) simp
  qed
qed

lemma show_u64_length: "length (show_u64 w) \<le> 20"
proof -
  have "unat w < 2 ^ 64"
    by (rule order_less_le_trans [OF unsigned_less]) simp
  moreover have "(2 :: nat) ^ 64 \<le> 10 ^ Suc 19" by simp
  ultimately have "unat w < 10 ^ Suc 19" by (rule order_less_le_trans)
  then have "length (show_nat (unat w)) \<le> Suc 19" by (rule show_nat_length_le)
  then show ?thesis by (simp add: show_u64_def)
qed

lemma hex16_length [simp]: "length (hex16 w) = 16"
  by (simp add: hex16_def)

lemma cstr_idem [simp]: "cstr (cstr s) = cstr s"
  unfolding cstr_def by (rule takeWhile_idem)

lemma cstr_no_NUL: "NUL \<notin> set (cstr s)"
  by (auto simp: cstr_def dest: set_takeWhileD)

lemma cstr_id: "NUL \<notin> set s \<Longrightarrow> cstr s = s"
  unfolding cstr_def by (rule takeWhile_eq_all_conv [THEN iffD2]) auto

lemma strncpy_z_id [simp]: "length s \<le> n \<Longrightarrow> strncpy_z n s = s"
  by (simp add: strncpy_z_def)

lemma length_strncpy_z [simp]: "length (strncpy_z n s) \<le> n"
  by (simp add: strncpy_z_def)

lemma strncmp_eq_refl [simp]: "strncmp_eq n a a"
  by (simp add: strncmp_eq_def)

lemma strncmp_eq_long: "length a \<le> n \<Longrightarrow> length b \<le> n \<Longrightarrow> strncmp_eq n a b \<longleftrightarrow> a = b"
  by (simp add: strncmp_eq_def)

end
