(* ===== verification/Policy.thy ===== *)
theory Policy
  imports Prelude
begin

text \<open>
  The route policy of \<^verbatim>\<open>include/policy\<close> and the per-feature validators of \<^verbatim>\<open>src/policy\<close>.

  Every struct is a record with the fields of the source in their order; an array with its
  count is a list (the count is its length); a nullable string is a \<open>string option\<close>. A
  validator returns the \<^verbatim>\<open>const char*\<close> of the source: \<open>None\<close> for \<^verbatim>\<open>nullptr\<close> (accepted),
  \<open>Some msg\<close> for the first rule that fails. The constants ending in \<open>_default\<close> are the
  structs' default member initialisers.
\<close>

section \<open>Enumerations\<close>

datatype RouteMatchKind = MatchPrefix | MatchExact

datatype MutationMode = MutationDisabled | MutationHeadersOnly | MutationFull

datatype FailureMode = FailOpen | FailClosed

datatype HttpMethod = MethodAny | MethodGet | MethodPost | MethodPut | MethodDelete | MethodPatch

datatype CacheBehavior = CacheDefault | CacheBypass | CacheStore

datatype CacheInvalidationStrategy = InvalidateRouteEpoch | InvalidateExactKey | InvalidatePrefix

datatype CacheInvalidationTiming = AfterSuccessfulUpstreamResponse

datatype CoalescingMode = CacheAssisted

datatype CompressionAlgorithm = AlgNone | AlgGzip | AlgBrotli | AlgZstd

datatype AlreadyEncodedBehavior = EncodedSkip | EncodedPassthrough

datatype FieldFilterMode = FilterNone | FilterAllowlist | FilterDenylist

datatype PaginationMode = PageNone | PageLimitOffset | PageCursor

section \<open>Limits\<close>

definition kMaxFields :: nat where "kMaxFields = 16"
definition kMaxFieldNameLen :: nat where "kMaxFieldNameLen = 64"
definition kMaxCacheVaryHeaders :: nat where "kMaxCacheVaryHeaders = 8"
definition kMaxCacheInvalidationTargets :: nat where "kMaxCacheInvalidationTargets = 8"
definition kMaxCompressionAlgorithms :: nat where "kMaxCompressionAlgorithms = 4"
definition kMaxEligibleContentTypes :: nat where "kMaxEligibleContentTypes = 8"
definition kPolicyIdentityMaxLen :: nat where "kPolicyIdentityMaxLen = 64"

lemmas limit_defs = kMaxFields_def kMaxFieldNameLen_def kMaxCacheVaryHeaders_def
  kMaxCacheInvalidationTargets_def kMaxCompressionAlgorithms_def
  kMaxEligibleContentTypes_def kPolicyIdentityMaxLen_def

section \<open>Records\<close>

record FieldFilterPolicy =
  ff_mode :: FieldFilterMode
  ff_fields :: "string list"

record FieldVariantCachePolicy =
  fv_enabled :: bool
  fv_max_variants_per_route :: u32
  fv_min_field_count :: u32
  fv_max_field_count :: u32
  fv_admission_threshold :: u32
  fv_ttl_max_ms :: u32

record CacheL1Policy =
  l1_enabled :: bool
  l1_capacity_entries :: u32

record CacheL2Policy =
  l2_enabled :: bool
  l2_path :: string

record CacheVaryHeaderPolicy =
  vary_names :: "string list"

record CacheInvalidationTargetPolicy =
  tgt_route_id :: string
  tgt_strategy :: CacheInvalidationStrategy

record CacheInvalidationPolicy =
  inv_enabled :: bool
  inv_on_patch :: bool
  inv_on_put :: bool
  inv_on_delete :: bool
  inv_timing :: CacheInvalidationTiming
  inv_success_status_min :: u16
  inv_success_status_max :: u16
  inv_targets :: "CacheInvalidationTargetPolicy list"

record CachePolicy =
  cache_behavior :: CacheBehavior
  cache_ttl_seconds :: u32
  cache_enabled :: bool
  cache_l1 :: CacheL1Policy
  cache_l2 :: CacheL2Policy
  cache_private :: bool
  cache_auth_scope_header :: string
  cache_field_variant :: FieldVariantCachePolicy
  cache_vary_headers :: CacheVaryHeaderPolicy
  cache_invalidation :: CacheInvalidationPolicy

record CoalescingPolicy =
  co_enabled :: bool
  co_mode :: CoalescingMode
  co_backend_timeout_ms :: u32
  co_handoff_buffer_ms :: u32
  co_result_ready_retention_ms :: u32
  co_max_waiters_per_key :: u32
  co_require_cache_enabled :: bool
  co_allow_authenticated :: bool
  co_max_follower_wait_budget_ms :: u32
  co_max_active_follower_waiters :: u32
  co_max_active_follower_waiters_per_shard :: u32

record CompressionPolicy =
  cmp_enabled :: bool
  cmp_min_size_bytes :: u32
  cmp_eligible_content_types :: "string list"
  cmp_preferred_algorithms :: "CompressionAlgorithm list"
  cmp_already_encoded_behavior :: AlreadyEncodedBehavior

record PaginationPolicy =
  pag_enabled :: bool
  pag_mode :: PaginationMode
  pag_limit_param :: string
  pag_offset_param :: string
  pag_default_limit :: u32
  pag_max_limit :: u32
  pag_upstream_supports_pagination :: bool
  pag_max_response_bytes_warning :: u32

record RoutePolicy =
  route_id :: "string option"
  policy_identity :: string
  match_prefix :: "string option"
  match_kind :: RouteMatchKind
  mutation :: MutationMode
  allowed_method :: HttpMethod
  field_filter :: FieldFilterPolicy
  max_response_bytes :: u32
  cache :: CachePolicy
  failure_mode :: FailureMode
  pagination :: PaginationPolicy
  compression :: CompressionPolicy
  coalescing :: CoalescingPolicy

section \<open>Default member initialisers\<close>

definition FieldFilterPolicy_default :: FieldFilterPolicy where
  "FieldFilterPolicy_default = \<lparr>ff_mode = FilterNone, ff_fields = []\<rparr>"

definition FieldVariantCachePolicy_default :: FieldVariantCachePolicy where
  "FieldVariantCachePolicy_default =
     \<lparr>fv_enabled = False, fv_max_variants_per_route = 8, fv_min_field_count = 1,
      fv_max_field_count = 8, fv_admission_threshold = 2, fv_ttl_max_ms = 0\<rparr>"

definition CacheInvalidationPolicy_default :: CacheInvalidationPolicy where
  "CacheInvalidationPolicy_default =
     \<lparr>inv_enabled = False, inv_on_patch = False, inv_on_put = False, inv_on_delete = False,
      inv_timing = AfterSuccessfulUpstreamResponse, inv_success_status_min = 200,
      inv_success_status_max = 299, inv_targets = []\<rparr>"

definition CachePolicy_default :: CachePolicy where
  "CachePolicy_default =
     \<lparr>cache_behavior = CacheDefault, cache_ttl_seconds = 0, cache_enabled = False,
      cache_l1 = \<lparr>l1_enabled = False, l1_capacity_entries = 0\<rparr>,
      cache_l2 = \<lparr>l2_enabled = False, l2_path = ''''\<rparr>,
      cache_private = False, cache_auth_scope_header = '''',
      cache_field_variant = FieldVariantCachePolicy_default,
      cache_vary_headers = \<lparr>vary_names = []\<rparr>,
      cache_invalidation = CacheInvalidationPolicy_default\<rparr>"

definition CoalescingPolicy_default :: CoalescingPolicy where
  "CoalescingPolicy_default =
     \<lparr>co_enabled = False, co_mode = CacheAssisted, co_backend_timeout_ms = 500,
      co_handoff_buffer_ms = 250, co_result_ready_retention_ms = 50,
      co_max_waiters_per_key = 64, co_require_cache_enabled = True,
      co_allow_authenticated = False, co_max_follower_wait_budget_ms = 0,
      co_max_active_follower_waiters = 0, co_max_active_follower_waiters_per_shard = 0\<rparr>"

definition CompressionPolicy_default :: CompressionPolicy where
  "CompressionPolicy_default =
     \<lparr>cmp_enabled = False, cmp_min_size_bytes = 0, cmp_eligible_content_types = [],
      cmp_preferred_algorithms = [], cmp_already_encoded_behavior = EncodedSkip\<rparr>"

definition PaginationPolicy_default :: PaginationPolicy where
  "PaginationPolicy_default =
     \<lparr>pag_enabled = False, pag_mode = PageNone, pag_limit_param = ''limit'',
      pag_offset_param = ''offset'', pag_default_limit = 0, pag_max_limit = 0,
      pag_upstream_supports_pagination = False, pag_max_response_bytes_warning = 0\<rparr>"

definition RoutePolicy_default :: RoutePolicy where
  "RoutePolicy_default =
     \<lparr>route_id = None, policy_identity = '''', match_prefix = None, match_kind = MatchPrefix,
      mutation = MutationDisabled, allowed_method = MethodAny,
      field_filter = FieldFilterPolicy_default, max_response_bytes = 0,
      cache = CachePolicy_default, failure_mode = FailOpen,
      pagination = PaginationPolicy_default, compression = CompressionPolicy_default,
      coalescing = CoalescingPolicy_default\<rparr>"

lemmas default_defs = FieldFilterPolicy_default_def FieldVariantCachePolicy_default_def
  CacheInvalidationPolicy_default_def CachePolicy_default_def CoalescingPolicy_default_def
  CompressionPolicy_default_def PaginationPolicy_default_def RoutePolicy_default_def

section \<open>Enum values\<close>

text \<open>The numeric values of the enumerators, where the code casts them.\<close>

fun http_method_code :: "HttpMethod \<Rightarrow> u8" where
  "http_method_code MethodAny = 0"
| "http_method_code MethodGet = 1"
| "http_method_code MethodPost = 2"
| "http_method_code MethodPut = 3"
| "http_method_code MethodDelete = 4"
| "http_method_code MethodPatch = 5"

fun mutation_code :: "MutationMode \<Rightarrow> u8" where
  "mutation_code MutationDisabled = 0"
| "mutation_code MutationHeadersOnly = 1"
| "mutation_code MutationFull = 2"

fun failure_mode_code :: "FailureMode \<Rightarrow> u8" where
  "failure_mode_code FailOpen = 0"
| "failure_mode_code FailClosed = 1"

fun match_kind_code :: "RouteMatchKind \<Rightarrow> u8" where
  "match_kind_code MatchPrefix = 0"
| "match_kind_code MatchExact = 1"

fun filter_mode_code :: "FieldFilterMode \<Rightarrow> u8" where
  "filter_mode_code FilterNone = 0"
| "filter_mode_code FilterAllowlist = 1"
| "filter_mode_code FilterDenylist = 2"

fun cache_behavior_code :: "CacheBehavior \<Rightarrow> u8" where
  "cache_behavior_code CacheDefault = 0"
| "cache_behavior_code CacheBypass = 1"
| "cache_behavior_code CacheStore = 2"

fun inv_timing_code :: "CacheInvalidationTiming \<Rightarrow> u8" where
  "inv_timing_code AfterSuccessfulUpstreamResponse = 0"

fun inv_strategy_code :: "CacheInvalidationStrategy \<Rightarrow> u8" where
  "inv_strategy_code InvalidateRouteEpoch = 0"
| "inv_strategy_code InvalidateExactKey = 1"
| "inv_strategy_code InvalidatePrefix = 2"

fun pagination_mode_code :: "PaginationMode \<Rightarrow> u8" where
  "pagination_mode_code PageNone = 0"
| "pagination_mode_code PageLimitOffset = 1"
| "pagination_mode_code PageCursor = 2"

fun compression_alg_code :: "CompressionAlgorithm \<Rightarrow> u8" where
  "compression_alg_code AlgNone = 0"
| "compression_alg_code AlgGzip = 1"
| "compression_alg_code AlgBrotli = 2"
| "compression_alg_code AlgZstd = 3"

fun already_encoded_code :: "AlreadyEncodedBehavior \<Rightarrow> u8" where
  "already_encoded_code EncodedSkip = 0"
| "already_encoded_code EncodedPassthrough = 1"

fun coalescing_mode_code :: "CoalescingMode \<Rightarrow> u8" where
  "coalescing_mode_code CacheAssisted = 0"

section \<open>Methods and field filters\<close>

definition method_table :: "(HttpMethod \<times> string) list" where
  "method_table = [(MethodGet, ''GET''), (MethodPost, ''POST''), (MethodPut, ''PUT''),
     (MethodDelete, ''DELETE''), (MethodPatch, ''PATCH'')]"

definition match_method :: "HttpMethod \<Rightarrow> string option \<Rightarrow> bool" where
  "match_method allowed request_method =
     (case request_method of None \<Rightarrow> False
      | Some m \<Rightarrow>
          if allowed = MethodAny then True
          else (case map_of method_table allowed of
                  Some name \<Rightarrow> iequal m name
                | None \<Rightarrow> False))"

definition parse_http_method :: "string option \<Rightarrow> HttpMethod" where
  "parse_http_method method =
     (case method of None \<Rightarrow> MethodAny
      | Some m \<Rightarrow>
          if m = '''' then MethodAny
          else if length m = 3 \<and> (m = ''GET'' \<or> m = ''get'') then MethodGet
          else if length m = 4 \<and> (m = ''POST'' \<or> m = ''post'') then MethodPost
          else if length m = 3 \<and> (m = ''PUT'' \<or> m = ''put'') then MethodPut
          else if length m = 6 \<and> (m = ''DELETE'' \<or> m = ''delete'') then MethodDelete
          else if length m = 5 \<and> (m = ''PATCH'' \<or> m = ''patch'') then MethodPatch
          else MethodAny)"

text \<open>The loop over the listed fields returns at the first hit, so membership decides it.\<close>

fun filter_scan :: "FieldFilterMode \<Rightarrow> string list \<Rightarrow> string \<Rightarrow> bool" where
  "filter_scan mode [] name \<longleftrightarrow> mode = FilterDenylist"
| "filter_scan mode (f # fs) name \<longleftrightarrow>
     (if name = f then mode = FilterAllowlist else filter_scan mode fs name)"

definition apply_field_filter :: "FieldFilterPolicy \<Rightarrow> string option \<Rightarrow> bool" where
  "apply_field_filter flt field_name =
     (case field_name of None \<Rightarrow> False
      | Some name \<Rightarrow>
          if ff_mode flt = FilterNone then True
          else filter_scan (ff_mode flt) (ff_fields flt) name)"

definition exceeds_max_response_bytes :: "RoutePolicy \<Rightarrow> u32 \<Rightarrow> bool" where
  "exceeds_max_response_bytes p response_size \<longleftrightarrow>
     (if max_response_bytes p = 0 then False else max_response_bytes p < response_size)"

section \<open>Validators\<close>

definition validate_cache_invalidation :: "CachePolicy \<Rightarrow> string option" where
  "validate_cache_invalidation policy = (let inv = cache_invalidation policy in
     if \<not> inv_enabled inv then None
     else if \<not> inv_on_patch inv \<and> \<not> inv_on_put inv \<and> \<not> inv_on_delete inv then
       Some ''cache.invalidation requires at least one method in on_methods''
     else if length (inv_targets inv) = 0 then
       Some ''cache.invalidation requires at least one target''
     else if length (inv_targets inv) > kMaxCacheInvalidationTargets then
       Some ''cache.invalidation target count exceeds maximum allowed''
     else if inv_success_status_min inv < 100 then
       Some ''cache.invalidation success_status min must be >= 100''
     else if inv_success_status_max inv > 599 then
       Some ''cache.invalidation success_status max must be <= 599''
     else if inv_success_status_min inv > inv_success_status_max inv then
       Some ''cache.invalidation success_status min cannot be greater than max''
     else if list_ex (\<lambda>t. tgt_route_id t = '''') (inv_targets inv) then
       Some ''cache.invalidation target route_id must not be empty''
     else if cache_enabled policy \<and> cache_behavior policy = CacheStore then
       Some ''route cannot declare both cache store and cache invalidation''
     else None)"

definition validate_cache_policy :: "CachePolicy \<Rightarrow> string option" where
  "validate_cache_policy policy =
     (case validate_cache_invalidation policy of
        Some err \<Rightarrow> Some err
      | None \<Rightarrow>
          if \<not> cache_enabled policy then None
          else if cache_ttl_seconds policy = 0 then
            Some ''cache.ttl_seconds required when cache is enabled''
          else if \<not> l1_enabled (cache_l1 policy) \<and> \<not> l2_enabled (cache_l2 policy) then
            Some ''at least one cache layer (l1 or l2) must be enabled''
          else if l2_enabled (cache_l2 policy) \<and> l2_path (cache_l2 policy) = '''' then
            Some ''cache.layers.l2.path required when L2 cache is enabled''
          else None)"

definition validate_cache_policy_safe :: "CachePolicy \<Rightarrow> HttpMethod \<Rightarrow> string option" where
  "validate_cache_policy_safe policy route_method =
     (case validate_cache_policy policy of
        Some err \<Rightarrow> Some err
      | None \<Rightarrow>
          if \<not> cache_enabled policy then None
          else if route_method \<noteq> MethodGet \<and> route_method \<noteq> MethodAny then
            Some ''cache not supported for non-GET routes''
          else if cache_private policy \<and> cache_auth_scope_header policy = '''' then
            Some ''cache.private_cache requires auth_scope_header to be set''
          else None)"

definition validate_coalescing_policy :: "CoalescingPolicy \<Rightarrow> string option" where
  "validate_coalescing_policy policy =
     (if \<not> co_enabled policy then None
      else if co_backend_timeout_ms policy = 0 then Some ''backend_timeout_ms must be > 0''
      else if co_backend_timeout_ms policy > 30000 then
        Some ''backend_timeout_ms must be <= 30000''
      else if co_handoff_buffer_ms policy = 0 then Some ''handoff_buffer_ms must be > 0''
      else if co_handoff_buffer_ms policy > 5000 then Some ''handoff_buffer_ms must be <= 5000''
      else if co_result_ready_retention_ms policy < 10 then
        Some ''result_ready_retention_ms must be >= 10''
      else if co_result_ready_retention_ms policy > 1000 then
        Some ''result_ready_retention_ms must be <= 1000''
      else if co_result_ready_retention_ms policy \<ge> co_backend_timeout_ms policy then
        Some ''result_ready_retention_ms must be < backend_timeout_ms''
      else if co_max_waiters_per_key policy = 0 then
        Some ''coalescing.max_waiters_per_key must be > 0''
      else None)"

text \<open>The sum of the two budgets is 32-bit addition, which wraps.\<close>

definition validate_coalescing_policy_safe ::
  "CoalescingPolicy \<Rightarrow> CachePolicy option \<Rightarrow> string option" where
  "validate_coalescing_policy_safe policy cache_policy =
     (case validate_coalescing_policy policy of
        Some err \<Rightarrow> Some err
      | None \<Rightarrow>
          if \<not> co_enabled policy then None
          else if co_backend_timeout_ms policy + co_handoff_buffer_ms policy > 30000 then
            Some ''coalescing total wait budget exceeds 30000ms''
          else if co_handoff_buffer_ms policy > co_backend_timeout_ms policy then
            Some ''coalescing handoff_buffer_ms exceeds backend_timeout_ms''
          else if co_max_follower_wait_budget_ms policy > 0 \<and>
                  co_max_follower_wait_budget_ms policy < co_handoff_buffer_ms policy then
            Some ''coalescing max_follower_wait_budget_ms must be >= handoff_buffer_ms''
          else if co_max_active_follower_waiters policy > 0 \<and>
                  co_max_active_follower_waiters_per_shard policy
                    > co_max_active_follower_waiters policy then
            Some (''coalescing max_active_follower_waiters_per_shard must be <= '' @
                  ''max_active_follower_waiters'')
          else if co_mode policy \<noteq> CacheAssisted then Some ''unsupported coalescing mode''
          else if co_require_cache_enabled policy \<and>
                  (case cache_policy of None \<Rightarrow> True | Some c \<Rightarrow> \<not> cache_enabled c) then
            Some ''coalescing requires cache to be enabled''
          else if co_allow_authenticated policy \<and>
                  (case cache_policy of None \<Rightarrow> True | Some c \<Rightarrow> cache_auth_scope_header c = '''') then
            Some ''coalescing.allow_authenticated=true requires cache.auth_scope_header to be set''
          else None)"

definition validate_compression_policy :: "CompressionPolicy \<Rightarrow> string option" where
  "validate_compression_policy policy =
     (if \<not> cmp_enabled policy then None
      else if length (cmp_eligible_content_types policy) > kMaxEligibleContentTypes then
        Some ''compression.eligible_content_types exceeds maximum count''
      else if length (cmp_preferred_algorithms policy) > kMaxCompressionAlgorithms then
        Some ''compression.preferred_algorithms exceeds maximum count''
      else None)"

definition quoted :: "string \<Rightarrow> string" where
  "quoted s = CHR 0x27 # s @ [CHR 0x27]"

definition validate_compression_policy_safe :: "CompressionPolicy \<Rightarrow> string option" where
  "validate_compression_policy_safe policy =
     (case validate_compression_policy policy of
        Some err \<Rightarrow> Some err
      | None \<Rightarrow>
          if \<not> cmp_enabled policy then None
          else if cmp_min_size_bytes policy = 0 then
            Some ''compression enabled with min_size_bytes <= 0''
          else if length (cmp_eligible_content_types policy) = 0 then
            Some ''compression enabled with empty eligible_content_types''
          else if length (cmp_preferred_algorithms policy) = 0 then
            Some ''compression enabled with no preferred_algorithms''
          else if list_ex (\<lambda>a. a = AlgNone) (cmp_preferred_algorithms policy) then
            Some (''compression.preferred_algorithms contains '' @ quoted ''none'')
          else if cmp_already_encoded_behavior policy \<noteq> EncodedSkip then
            Some (''compression.already_encoded_behavior must be '' @ quoted ''skip'')
          else None)"

definition validate_pagination_policy :: "PaginationPolicy \<Rightarrow> string option" where
  "validate_pagination_policy policy =
     (if \<not> pag_enabled policy then None
      else if pag_mode policy = PageCursor then Some ''cursor_mode_not_implemented''
      else if pag_mode policy = PageNone then
        Some ''pagination.mode required when pagination is enabled''
      else if pag_default_limit policy = 0 then
        Some ''pagination.default_limit required when pagination is enabled''
      else if pag_max_limit policy > 0 \<and> pag_max_limit policy < pag_default_limit policy then
        Some ''pagination.max_limit must not be less than default_limit''
      else if pag_limit_param policy = '''' then Some ''pagination.limit_param must not be empty''
      else if pag_offset_param policy = '''' then
        Some ''pagination.offset_param must not be empty''
      else None)"

definition validate_pagination_policy_safe :: "PaginationPolicy \<Rightarrow> string option" where
  "validate_pagination_policy_safe policy =
     (if \<not> pag_enabled policy then None
      else case validate_pagination_policy policy of
        Some err \<Rightarrow> Some err
      | None \<Rightarrow>
          if pag_max_limit policy = 0 then
            Some ''pagination.max_limit required when pagination is enabled''
          else None)"

section \<open>What an accepted policy guarantees\<close>

text \<open>The field filter is decided by membership in the listed names.\<close>

lemma filter_scan_iff:
  "filter_scan mode fs name \<longleftrightarrow>
     (if name \<in> set fs then mode = FilterAllowlist else mode = FilterDenylist)"
  by (induction fs) auto

text \<open>
  The field filter keeps a named field exactly when the mode is none, or it is listed
  under an allowlist, or it is not listed under a denylist; a null name is never kept.
\<close>

theorem apply_field_filter_iff:
  "apply_field_filter flt nm \<longleftrightarrow>
     (\<exists>name. nm = Some name \<and>
       (case ff_mode flt of FilterNone \<Rightarrow> True | FilterAllowlist \<Rightarrow> name \<in> set (ff_fields flt)
        | FilterDenylist \<Rightarrow> name \<notin> set (ff_fields flt)))"
  by (auto simp: apply_field_filter_def filter_scan_iff split: option.splits FieldFilterMode.splits)

lemma unat_add_no_wrap_u32:
  fixes a b :: u32
  assumes "a \<le> 30000" and "b \<le> 5000"
  shows "unat (a + b) = unat a + unat b"
proof -
  have "unat a \<le> 30000" "unat b \<le> 5000"
    using assms by (simp_all add: word_le_nat_alt)
  then have "unat a + unat b < 2 ^ LENGTH(32)" by simp
  then show ?thesis by (simp add: unat_word_ariths(1))
qed

text \<open>
  An enabled coalescing policy that passes the validators has a follower wait budget of
  at most 30000 ms: the 32-bit sum of backend timeout and handoff buffer does not wrap. The
  hand-off buffer is positive and does not exceed the timeout, the result is retained at least
  10 ms and shorter than the timeout, and a policy that requires the cache has it enabled.
\<close>

theorem coalescing_accepted_budget:
  assumes "validate_coalescing_policy_safe p c = None" and "co_enabled p"
  shows "unat (co_backend_timeout_ms p) + unat (co_handoff_buffer_ms p) \<le> 30000 \<and>
    0 < co_handoff_buffer_ms p \<and> co_handoff_buffer_ms p \<le> co_backend_timeout_ms p \<and>
    10 \<le> co_result_ready_retention_ms p \<and> co_result_ready_retention_ms p < co_backend_timeout_ms p \<and>
    0 < co_max_waiters_per_key p \<and>
    (co_require_cache_enabled p \<longrightarrow> (\<exists>cp. c = Some cp \<and> cache_enabled cp)) \<and>
    (co_allow_authenticated p \<longrightarrow> (\<exists>cp. c = Some cp \<and> cache_auth_scope_header cp \<noteq> ''''))"
proof -
  have v: "validate_coalescing_policy p = None"
    using assms(1) by (simp add: validate_coalescing_policy_safe_def split: option.splits)
  then have b: "0 < co_handoff_buffer_ms p" "10 \<le> co_result_ready_retention_ms p"
    "co_result_ready_retention_ms p < co_backend_timeout_ms p" "0 < co_max_waiters_per_key p"
    "co_backend_timeout_ms p \<le> 30000" "co_handoff_buffer_ms p \<le> 5000"
    using assms(2)
    by (auto simp: validate_coalescing_policy_def word_gt_0 not_less not_le split: if_splits)
  have s: "co_backend_timeout_ms p + co_handoff_buffer_ms p \<le> 30000"
    "co_handoff_buffer_ms p \<le> co_backend_timeout_ms p"
    "co_require_cache_enabled p \<longrightarrow> (\<exists>cp. c = Some cp \<and> cache_enabled cp)"
    "co_allow_authenticated p \<longrightarrow> (\<exists>cp. c = Some cp \<and> cache_auth_scope_header cp \<noteq> '''')"
    using assms v
    by (auto simp: validate_coalescing_policy_safe_def not_less split: if_splits option.splits)
  have "unat (co_backend_timeout_ms p) + unat (co_handoff_buffer_ms p) \<le> 30000"
    using unat_add_no_wrap_u32 [OF b(5,6)] s(1) by (simp add: word_le_nat_alt)
  with b s show ?thesis by blast
qed

theorem coalescing_accepted_budget_witness:
  "let p = CoalescingPolicy_default\<lparr>co_enabled := True\<rparr>;
       c = Some (CachePolicy_default\<lparr>cache_enabled := True\<rparr>)
   in validate_coalescing_policy_safe p c = None \<and> co_enabled p \<and>
      unat (co_backend_timeout_ms p) + unat (co_handoff_buffer_ms p) \<le> 30000"
proof -
  have "validate_coalescing_policy_safe (CoalescingPolicy_default\<lparr>co_enabled := True\<rparr>)
      (Some (CachePolicy_default\<lparr>cache_enabled := True\<rparr>)) = None"
    by (simp add: validate_coalescing_policy_safe_def validate_coalescing_policy_def default_defs)
  from this coalescing_accepted_budget [OF this] show ?thesis by (simp add: Let_def)
qed

text \<open>
  (C26) A cache policy that passes the validators and is enabled has a positive time to live
  and at least one layer, is on a GET or ANY route, names its scope header when private, and
  does not declare a mutation that invalidates while it stores.
\<close>

theorem cache_accepted_safe:
  assumes "validate_cache_policy_safe p m = None" and "cache_enabled p"
  shows "0 < cache_ttl_seconds p \<and> (l1_enabled (cache_l1 p) \<or> l2_enabled (cache_l2 p)) \<and>
    (m = MethodGet \<or> m = MethodAny) \<and>
    (cache_private p \<longrightarrow> cache_auth_scope_header p \<noteq> '''') \<and>
    (cache_behavior p = CacheStore \<longrightarrow> \<not> inv_enabled (cache_invalidation p))"
proof -
  have v: "validate_cache_policy p = None"
    using assms(1) by (simp add: validate_cache_policy_safe_def split: option.splits)
  then have i: "validate_cache_invalidation p = None"
    by (simp add: validate_cache_policy_def split: option.splits)
  then have "cache_behavior p = CacheStore \<longrightarrow> \<not> inv_enabled (cache_invalidation p)"
    using assms(2) by (auto simp: validate_cache_invalidation_def Let_def split: if_splits)
  moreover have "0 < cache_ttl_seconds p" "l1_enabled (cache_l1 p) \<or> l2_enabled (cache_l2 p)"
    using v i assms(2) by (auto simp: validate_cache_policy_def word_gt_0 split: if_splits)
  moreover have "m = MethodGet \<or> m = MethodAny"
    "cache_private p \<longrightarrow> cache_auth_scope_header p \<noteq> ''''"
    using assms v by (auto simp: validate_cache_policy_safe_def split: if_splits)
  ultimately show ?thesis by blast
qed

theorem cache_accepted_safe_witness:
  "let p = CachePolicy_default\<lparr>cache_enabled := True, cache_behavior := CacheStore,
         cache_ttl_seconds := 60, cache_l1 := \<lparr>l1_enabled = True, l1_capacity_entries = 0\<rparr>\<rparr>
   in validate_cache_policy_safe p MethodGet = None \<and> cache_enabled p \<and>
      \<not> inv_enabled (cache_invalidation p)"
proof -
  let ?p = "CachePolicy_default\<lparr>cache_enabled := True, cache_behavior := CacheStore,
         cache_ttl_seconds := 60, cache_l1 := \<lparr>l1_enabled = True, l1_capacity_entries = 0\<rparr>\<rparr>"
  have "validate_cache_policy_safe ?p MethodGet = None"
    by (simp add: validate_cache_policy_safe_def validate_cache_policy_def
        validate_cache_invalidation_def default_defs)
  from this cache_accepted_safe [OF this] show ?thesis by (simp add: Let_def default_defs)
qed

text \<open>What the pagination validator gives the request mutation.\<close>

lemma pagination_accepted:
  assumes "validate_pagination_policy_safe p = None" and "pag_enabled p"
  shows "pag_mode p = PageLimitOffset" and "0 < pag_default_limit p"
    and "pag_default_limit p \<le> pag_max_limit p" and "pag_limit_param p \<noteq> ''''"
    and "pag_offset_param p \<noteq> ''''"
  using assms
  by (auto simp: validate_pagination_policy_safe_def validate_pagination_policy_def word_gt_0 not_less
      split: if_splits option.splits) (metis PaginationMode.exhaust)

text \<open>What the compression validator gives the compression decision.\<close>

lemma compression_accepted:
  assumes "validate_compression_policy_safe p = None" and "cmp_enabled p"
  shows "0 < cmp_min_size_bytes p" and "cmp_eligible_content_types p \<noteq> []"
    and "cmp_preferred_algorithms p \<noteq> []" and "AlgNone \<notin> set (cmp_preferred_algorithms p)"
    and "length (cmp_preferred_algorithms p) \<le> kMaxCompressionAlgorithms"
    and "length (cmp_eligible_content_types p) \<le> kMaxEligibleContentTypes"
  using assms
  by (auto simp: validate_compression_policy_safe_def validate_compression_policy_def word_gt_0
      list_ex_iff split: if_splits option.splits)

end
