(* ===== verification/Metrics.thy ===== *)
theory Metrics
  imports Prelude
begin

text \<open>
  The event counters of \<^verbatim>\<open>src/metrics\<close>. Each metrics struct is one atomic 64-bit counter per
  event of its enumeration, so it is a function from events to counters; a nullable
  metrics pointer is an option. The \<^verbatim>\<open>record_*_event\<close> functions add one (relaxed
  \<^verbatim>\<open>fetch_add\<close>, wrapping at 64 bits) to the counter of their event and nothing else.
\<close>

datatype CacheMetricEvent =
    CM_L1Hit | CM_L1Miss | CM_L2Hit | CM_L2Miss | CM_Store | CM_Expired | CM_Bypass
    | CM_L1StoreAttempt | CM_L1StoreSuccess | CM_L1StoreSkipped | CM_L1StoreSkippedBodyTooLarge
    | CM_L1EvictionRingOverwrite | CM_L1DuplicateOverwrite | CM_L1ExpiredMiss
    | CM_L1LookupSlotScanned | CM_L1StoreAdmitted | CM_L1StoreRejectedBodyTooLarge
    | CM_L1StoreRejectedInvalidBody | CM_InvalidationPrepareAttempt | CM_InvalidationPrepared
    | CM_InvalidationPrepareSkipped | CM_InvalidationApplyAttempt | CM_InvalidationApplied
    | CM_InvalidationSkipped | CM_InvalidationFailed | CM_InvalidationStatusNotSuccessful
    | CM_InvalidationNoPolicy | CM_InvalidationMethodNotEnabled
    | CM_InvalidationTargetResolveFailed | CM_RouteEpochBumpAttempt | CM_RouteEpochBumpSuccess
    | CM_RouteEpochBumpFailed | CM_L1RemoveHit | CM_L1RemoveMiss | CM_L1RemoveFailed
    | CM_L2RemoveEnqueued | CM_L2RemoveSuccess | CM_L2RemoveMiss | CM_L2RemoveFailed
    | CM_VariantInvalidatedByRouteEpoch | CM_VariantExactRemoveAttempt
    | CM_VariantExactRemoveSuccess | CM_VariantExactRemoveMiss

datatype RuntimeMetricEvent =
    RM_Enqueue | RM_EnqueueDropped | RM_JobExecuted | RM_JobError | RM_L2LookupEnqueued
    | RM_L2LookupDeduped | RM_L2LookupHit | RM_L2LookupMiss | RM_L2LookupError
    | RM_L2StoreEnqueued | RM_L2StoreDropped | RM_L2StoreOversizedSkipped | RM_L2StoreSuccess
    | RM_L2StoreError | RM_L2StoreEncodeError | RM_L2StoreBodyTooLarge | RM_L2ToL1Promotion
    | RM_L2ToL1StaleRejected | RM_L2ToL1PromotionSkippedBodyTooLarge
    | RM_L2LookupBodyTooLargeForBuffer | RM_L2LookupExpired | RM_L2LookupDecodeError
    | RM_L2LookupRocksDbError | RM_L2AsyncStoreBodyPoolFull | RM_L2LookupLaneWait
    | RM_L2StoreLaneWait | RM_L2InvalidateLaneWait | RM_WorkerStoreLaneStarvation
    | RM_L2InvalidateSuccess | RM_L2InvalidateError | RM_RouteMatchExactScan
    | RM_RouteMatchPrefixScan | RM_RouteMatchExactHashHit | RM_RouteMatchNoMatch

datatype CoalescingMetricEvent =
    CO_Leader | CO_Follower | CO_FollowerCacheHit | CO_Fallback | CO_Bypass | CO_TooManyWaiters
    | CO_FollowerTimeoutBeforePublish | CO_FollowerTimeoutAfterPublish
    | CO_FallbackDeadlineUnknown | CO_FollowerSharedResponse | CO_FollowerL1Hit
    | CO_FollowerTimeout | CO_FollowerMissing | CO_FollowerStoredButNoSnapshot
    | CO_FollowerNotCacheable | CO_FollowerFailed | CO_FollowerUnaccounted
    | CO_LeaderL1StoreSuccess | CO_LeaderL1StoreFailed | CO_FollowerL1Ready
    | CO_FollowerL1ReadyButMiss | CO_FollowerExpired | CO_LeaderL2HandoffPending
    | CO_LeaderL2HandoffReady | CO_LeaderL2HandoffFailed | CO_FollowerL2Ready
    | CO_FollowerL2Hit | CO_FollowerL2ReadyButMiss | CO_LeaderTooLargeForHandoff
    | CO_FollowerTooLargeForHandoff | CO_FollowerTimeoutL2BodyTooLarge
    | CO_FollowerGuardrailBudgetExceeded | CO_FollowerGuardrailGlobalLimit
    | CO_FollowerGuardrailShardLimit

datatype CompressionMetricEvent =
    CP_Candidate | CP_SkipPolicyDisabled | CP_SkipClientUnsupported | CP_SkipAlreadyEncoded
    | CP_SkipContentType | CP_SkipResponseTooSmall | CP_SkipNon2xx

datatype PaginationMetricEvent =
    PG_DefaultLimitApplied | PG_MaxLimitEnforced | PG_ValidLimit | PG_UpstreamUnsupported
    | PG_OversizedResponseWarning

type_synonym CacheMetrics = "CacheMetricEvent \<Rightarrow> u64"
type_synonym RuntimeMetrics = "RuntimeMetricEvent \<Rightarrow> u64"
type_synonym CoalescingMetrics = "CoalescingMetricEvent \<Rightarrow> u64"
type_synonym CompressionMetrics = "CompressionMetricEvent \<Rightarrow> u64"
type_synonym PaginationMetrics = "PaginationMetricEvent \<Rightarrow> u64"

definition count_event :: "'e \<Rightarrow> ('e \<Rightarrow> u64) \<Rightarrow> 'e \<Rightarrow> u64" where
  "count_event e m = m(e := m e + 1)"

definition record_cache_event :: "CacheMetrics option \<Rightarrow> CacheMetricEvent \<Rightarrow> CacheMetrics option"
where
  "record_cache_event metrics e = map_option (count_event e) metrics"

text \<open>The three lane-wait events have no counter in \<open>record_runtime_event\<close>.\<close>

definition record_runtime_event ::
  "RuntimeMetrics option \<Rightarrow> RuntimeMetricEvent \<Rightarrow> RuntimeMetrics option" where
  "record_runtime_event metrics e =
     (if e \<in> {RM_L2LookupLaneWait, RM_L2StoreLaneWait, RM_L2InvalidateLaneWait} then metrics
      else map_option (count_event e) metrics)"

definition record_coalescing_event ::
  "CoalescingMetrics option \<Rightarrow> CoalescingMetricEvent \<Rightarrow> CoalescingMetrics option" where
  "record_coalescing_event metrics e = map_option (count_event e) metrics"

definition record_compression_event ::
  "CompressionMetrics option \<Rightarrow> CompressionMetricEvent \<Rightarrow> CompressionMetrics option" where
  "record_compression_event metrics e = map_option (count_event e) metrics"

definition record_pagination_event ::
  "PaginationMetrics option \<Rightarrow> PaginationMetricEvent \<Rightarrow> PaginationMetrics option" where
  "record_pagination_event metrics e = map_option (count_event e) metrics"

lemma record_cache_event_None [simp]: "record_cache_event None e = None"
  by (simp add: record_cache_event_def)

lemma record_coalescing_event_None [simp]: "record_coalescing_event None e = None"
  by (simp add: record_coalescing_event_def)

lemma record_runtime_event_None [simp]: "record_runtime_event None e = None"
  by (simp add: record_runtime_event_def)

lemma record_compression_event_None [simp]: "record_compression_event None e = None"
  by (simp add: record_compression_event_def)

end
