(* ===== verification/Hash.thy ===== *)
theory Hash
  imports Prelude
begin

text \<open>
  The keyed hash of \<^verbatim>\<open>src/hash/hash.cpp\<close>: SipHash-2-4 on 64-bit words, the parsing of the
  \<^verbatim>\<open>BYTETAPER_HASH_SEED_HEX\<close> seed and the process-wide seed with its one-time
  initialisation. The environment variable and the entropy sources (\<^verbatim>\<open>std::random_device\<close>, the
  clock, the process id, an address) are arguments.
\<close>

unbundle bit_operations_syntax

section \<open>SipHash-2-4\<close>

record HashSeed =
  k0 :: u64
  k1 :: u64

type_synonym sip_state = "u64 \<times> u64 \<times> u64 \<times> u64"

definition rotl :: "u64 \<Rightarrow> nat \<Rightarrow> u64" where
  "rotl x b = push_bit b x OR drop_bit (64 - b) x"

fun sipround :: "sip_state \<Rightarrow> sip_state" where
  "sipround (v0, v1, v2, v3) =
     (let v0 = v0 + v1;
          v2 = v2 + v3;
          v1 = rotl v1 13;
          v3 = rotl v3 16;
          v1 = v1 XOR v0;
          v3 = v3 XOR v2;
          v0 = rotl v0 32;
          v2 = v2 + v1;
          v0 = v0 + v3;
          v1 = rotl v1 17;
          v3 = rotl v3 21;
          v1 = v1 XOR v2;
          v3 = v3 XOR v0;
          v2 = rotl v2 32
      in (v0, v1, v2, v3))"

text \<open>Little-endian assembly of a word from bytes, the first at bit \<open>8 * i\<close>.\<close>

fun le_bytes :: "nat \<Rightarrow> string \<Rightarrow> u64" where
  "le_bytes i [] = 0"
| "le_bytes i (c # cs) = push_bit (8 * i) (word_of_nat (char_code c)) OR le_bytes (Suc i) cs"

fun sip_absorb :: "u64 \<Rightarrow> sip_state \<Rightarrow> sip_state" where
  "sip_absorb mi (v0, v1, v2, v3) =
     (case sipround (sipround (v0, v1, v2, v3 XOR mi)) of
        (w0, w1, w2, w3) \<Rightarrow> (w0 XOR mi, w1, w2, w3))"

text \<open>The loop over the full 8-byte blocks; the result keeps the bytes that are left.\<close>

function sip_blocks :: "string \<Rightarrow> sip_state \<Rightarrow> sip_state \<times> string" where
  "sip_blocks m v =
     (if length m < 8 then (v, m)
      else sip_blocks (drop 8 m) (sip_absorb (le_bytes 0 (take 8 m)) v))"
  by pat_completeness auto
termination
  by (relation "measure (\<lambda>(m, v). length m)") auto

declare sip_blocks.simps [simp del]

definition siphash24_bytes :: "string option \<Rightarrow> HashSeed \<Rightarrow> u64" where
  "siphash24_bytes data seed =
     (let m = (case data of None \<Rightarrow> [] | Some d \<Rightarrow> d);
          v = (k0 seed XOR 0x736f6d6570736575, k1 seed XOR 0x646f72616e646f6d,
               k0 seed XOR 0x6c7967656e657261, k1 seed XOR 0x7465646279746573);
          (v, left) = sip_blocks m v;
          last = push_bit 56 (word_of_nat (length m mod 256)) OR le_bytes 0 left;
          (v0, v1, v2, v3) = sip_absorb last v;
          (v0, v1, v2, v3) =
            sipround (sipround (sipround (sipround (v0, v1, v2 XOR 0xff, v3))))
      in v0 XOR v1 XOR v2 XOR v3)"

definition hash_cstr_keyed :: "string option \<Rightarrow> HashSeed \<Rightarrow> u64" where
  "hash_cstr_keyed str seed =
     (case str of None \<Rightarrow> siphash24_bytes None seed | Some s \<Rightarrow> siphash24_bytes (Some s) seed)"

section \<open>The seed\<close>

definition is_hex :: "char \<Rightarrow> bool" where
  "is_hex c \<longleftrightarrow>
     (48 \<le> char_code c \<and> char_code c \<le> 57) \<or> (97 \<le> char_code c \<and> char_code c \<le> 102) \<or>
     (65 \<le> char_code c \<and> char_code c \<le> 70)"

definition validate_hash_seed_hex :: "string option \<Rightarrow> bool" where
  "validate_hash_seed_hex value =
     (case value of None \<Rightarrow> False | Some s \<Rightarrow> length s = 32 \<and> list_all is_hex s)"

definition hex_digit_val :: "char \<Rightarrow> u64" where
  "hex_digit_val c =
     (if 48 \<le> char_code c \<and> char_code c \<le> 57 then word_of_nat (char_code c - 48)
      else if 97 \<le> char_code c \<and> char_code c \<le> 102 then word_of_nat (char_code c - 97 + 10)
      else if 65 \<le> char_code c \<and> char_code c \<le> 70 then word_of_nat (char_code c - 65 + 10)
      else 0)"

definition parse_64 :: "string \<Rightarrow> u64" where
  "parse_64 s = foldl (\<lambda>val c. push_bit 4 val OR hex_digit_val c) 0 (take 16 s)"

definition parse_hex_seed :: "string option \<Rightarrow> HashSeed option" where
  "parse_hex_seed hex =
     (case hex of None \<Rightarrow> None
      | Some s \<Rightarrow>
          if length s \<noteq> 32 then None
          else if \<not> list_all is_hex s then None
          else Some \<lparr>k0 = parse_64 s, k1 = parse_64 (drop 16 s)\<rparr>)"

record Entropy =
  rd0 :: u32
  rd1 :: u32
  rd2 :: u32
  rd3 :: u32
  time_entropy :: u64
  pid_entropy :: u64
  addr_entropy :: u64

definition generate_entropy_seed :: "Entropy \<Rightarrow> HashSeed" where
  "generate_entropy_seed e =
     (let r0 = push_bit 32 (ucast (rd0 e)) OR ucast (rd1 e);
          r1 = push_bit 32 (ucast (rd2 e)) OR ucast (rd3 e);
          (a, b) = (if r0 \<noteq> 0 \<or> r1 \<noteq> 0 then (r0, r1) else (0, 0));
          a = a XOR (time_entropy e XOR push_bit 32 (pid_entropy e) XOR addr_entropy e);
          b = b XOR (drop_bit 32 (time_entropy e) XOR pid_entropy e XOR push_bit 32 (addr_entropy e))
      in \<lparr>k0 = a, k1 = b\<rparr>)"

record HashState =
  g_process_seed :: HashSeed
  g_initialized :: bool

definition init_process_hash_seed :: "string option \<Rightarrow> Entropy \<Rightarrow> HashState \<Rightarrow> HashState" where
  "init_process_hash_seed hex_env entropy st =
     (if g_initialized st then st
      else
        (let seed = (case parse_hex_seed hex_env of
                       Some s \<Rightarrow> s | None \<Rightarrow> generate_entropy_seed entropy)
         in st\<lparr>g_process_seed := seed, g_initialized := True\<rparr>))"

definition set_process_hash_seed_for_test :: "HashSeed \<Rightarrow> HashState \<Rightarrow> HashState" where
  "set_process_hash_seed_for_test seed st = st\<lparr>g_process_seed := seed, g_initialized := True\<rparr>"

definition reset_process_hash_seed_for_test :: "HashState \<Rightarrow> HashState" where
  "reset_process_hash_seed_for_test st =
     st\<lparr>g_process_seed := \<lparr>k0 = 0, k1 = 0\<rparr>, g_initialized := False\<rparr>"

definition process_hash_seed ::
  "string option \<Rightarrow> Entropy \<Rightarrow> HashState \<Rightarrow> HashSeed \<times> HashState" where
  "process_hash_seed hex_env entropy st =
     (let st' = (if g_initialized st then st else init_process_hash_seed hex_env entropy st)
      in (g_process_seed st', st'))"

definition hash_cstr_runtime ::
  "string option \<Rightarrow> Entropy \<Rightarrow> HashState \<Rightarrow> string option \<Rightarrow> u64 \<times> HashState" where
  "hash_cstr_runtime hex_env entropy st str =
     (let st' = (if g_initialized st then st else init_process_hash_seed hex_env entropy st)
      in (hash_cstr_keyed str (g_process_seed st'), st'))"

section \<open>Facts\<close>

definition rotr :: "u64 \<Rightarrow> nat \<Rightarrow> u64" where
  "rotr x b = drop_bit b x OR push_bit (64 - b) x"

lemma rotr_rotl:
  assumes "0 < b" and "b < 64"
  shows "rotr (rotl x b) b = x"
proof (rule bit_word_eqI)
  fix n
  assume "n < LENGTH(64)"
  then have n: "n < 64" by simp
  have r: "64 + (n + b - 64) - b = n" if "\<not> n + b < 64"
    using that assms by arith
  show "bit (rotr (rotl x b) b) n = bit x n"
    using assms n r
    by (cases "n + b < 64")
      (auto simp: rotr_def rotl_def bit_or_iff bit_push_bit_iff bit_drop_bit_eq
        dest: bit_imp_le_length)
qed

text \<open>One round undone, step by step from the last.\<close>

fun sip_unround :: "sip_state \<Rightarrow> sip_state" where
  "sip_unround (v0, v1, v2, v3) =
     (let v2 = rotr v2 32;
          v3 = v3 XOR v0;
          v1 = v1 XOR v2;
          v3 = rotr v3 21;
          v1 = rotr v1 17;
          v0 = v0 - v3;
          v2 = v2 - v1;
          v0 = rotr v0 32;
          v3 = v3 XOR v2;
          v1 = v1 XOR v0;
          v3 = rotr v3 16;
          v1 = rotr v1 13;
          v2 = v2 - v3;
          v0 = v0 - v1
      in (v0, v1, v2, v3))"

lemma xor_cancel_right: "(a XOR b) XOR b = (a :: u64)"
  by (simp add: xor.assoc)

lemma sip_unround_sipround: "sip_unround (sipround v) = v"
  by (cases v) (simp add: Let_def rotr_rotl xor_cancel_right)

text \<open>
  A SipHash round is a bijection on the four-word state, so no two states collide in a
  round: \<open>sip_unround\<close> is its inverse.
\<close>

theorem sipround_bij: "bij sipround"
proof -
  have "inj sipround"
    by (metis injI sip_unround_sipround)
  then show ?thesis
    by (simp add: bij_def finite_UNIV_inj_surj)
qed

text \<open>
  The hash agrees with the published SipHash-2-4 test vector for the key
  \<open>00 01 \<dots> 0f\<close> and the fifteen bytes \<open>00 01 \<dots> 0e\<close>: one full block and seven
  left-over bytes, the longest fall-through of the switch.
\<close>

theorem siphash24_test_vector:
  "siphash24_bytes (Some (map char_of [0 :: nat, 1, 2, 3, 4, 5, 6, 7, 8, 9, 10, 11, 12, 13, 14]))
     \<lparr>k0 = 0x0706050403020100, k1 = 0x0f0e0d0c0b0a0908\<rparr> = 0xa129ca6149be45e5"
  by (simp add: siphash24_bytes_def sip_blocks.simps rotl_def)

lemma hex_digit_val_hex_char: "d < 16 \<Longrightarrow> hex_digit_val (hex_char d) = word_of_nat d"
  by (auto simp: hex_digit_val_def hex_char_def)

lemma is_hex_hex_char: "d < 16 \<Longrightarrow> is_hex (hex_char d)"
  by (auto simp: is_hex_def hex_char_def)

lemma nibble_less: "unat (take_bit 4 (w :: u64)) < 16"
  using take_bit_nat_less_exp [of 4 "unat w"] by (simp add: unsigned_take_bit_eq)

lemma nibble_step:
  "push_bit 4 (drop_bit (4 * Suc j) w) OR take_bit 4 (drop_bit (4 * j) w) = drop_bit (4 * j) (w :: u64)"
proof (rule bit_word_eqI)
  fix n
  assume "n < LENGTH(64)"
  show "bit (push_bit 4 (drop_bit (4 * Suc j) w) OR take_bit 4 (drop_bit (4 * j) w)) n
      = bit (drop_bit (4 * j) w) n"
    using \<open>n < LENGTH(64)\<close>
    by (cases "n < 4")
      (auto simp: bit_or_iff bit_push_bit_iff bit_drop_bit_eq bit_take_bit_iff algebra_simps)
qed

lemma parse_nibbles:
  "foldl (\<lambda>val c. push_bit 4 val OR hex_digit_val c) (drop_bit (4 * n) w)
     (map (\<lambda>i. hex_char (unat (take_bit 4 (drop_bit (4 * i) w)))) (rev [0..<n])) = (w :: u64)"
proof (induction n)
  case 0
  then show ?case by simp
next
  case (Suc n)
  have "hex_digit_val (hex_char (unat (take_bit 4 (drop_bit (4 * n) w)))) =
      take_bit 4 (drop_bit (4 * n) w)"
    by (simp add: hex_digit_val_hex_char nibble_less)
  then show ?case
    using Suc.IH nibble_step [of n w] by simp
qed

lemma parse_64_hex16: "parse_64 (hex16 w @ s) = w"
proof -
  have "drop_bit (4 * 16) w = 0"
    by (rule bit_word_eqI) (auto simp: bit_drop_bit_eq dest: bit_imp_le_length)
  then show ?thesis
    using parse_nibbles [of 16 w] by (simp add: parse_64_def hex16_def del: upt.simps)
qed

lemma list_all_is_hex_hex16: "list_all is_hex (hex16 w)"
  by (simp add: hex16_def list_all_iff is_hex_hex_char nibble_less del: upt.simps)

text \<open>
  Printing a seed as 32 hexadecimal digits and parsing it gives the seed back, and such
  a string passes \<open>validate_hash_seed_hex\<close>.
\<close>

theorem parse_hex_seed_roundtrip:
  "parse_hex_seed (Some (hex16 (k0 seed) @ hex16 (k1 seed))) = Some seed \<and>
   validate_hash_seed_hex (Some (hex16 (k0 seed) @ hex16 (k1 seed)))"
  using parse_64_hex16 [of "k1 seed" "[]"]
  by (simp add: parse_hex_seed_def validate_hash_seed_hex_def parse_64_hex16 list_all_is_hex_hex16)

text \<open>
  The seed is fixed once: after the first initialisation, whatever the environment and
  the entropy of later calls, \<open>hash_cstr_runtime\<close> leaves the state unchanged and hashes
  with the seed the first call chose. Every table keyed by the hash (route matcher, L1
  shards, in-flight shards) therefore sees one hash function.
\<close>

theorem hash_cstr_runtime_stable:
  "hash_cstr_runtime env' entropy' (snd (hash_cstr_runtime env entropy st s)) s' =
    (hash_cstr_keyed s' (fst (process_hash_seed env entropy st)),
     snd (hash_cstr_runtime env entropy st s))"
  by (auto simp: hash_cstr_runtime_def process_hash_seed_def init_process_hash_seed_def Let_def)

end
