(* ===== verification/Route_Matcher.thy ===== *)
theory Route_Matcher
  imports Policy Metrics Hash
begin

text \<open>
  The route matcher of \<^verbatim>\<open>include/policy/route_matcher.h\<close>: the linear first-match reference
  \<open>match_route_by_path\<close>, and the compiled matcher with its exact-route hash table (open
  addressing, linear probing, 128 slots) and its prefix scan.

  A \<^verbatim>\<open>const RoutePolicy*\<close> into the caller's array is the index of the policy. The two probe
  loops of the source do not bound their steps: \<open>probe_until\<close> gives up with \<open>None\<close> after a
  whole turn of the table, where the C++ loop would run forever, and the lemmas show that
  this does not happen.
\<close>

unbundle bit_operations_syntax

section \<open>Data\<close>

definition kMaxCompiledRoutes :: nat where "kMaxCompiledRoutes = 64"
definition kExactHashTableSize :: nat where "kExactHashTableSize = 128"
definition kExactHashStrategyThreshold :: nat where "kExactHashStrategyThreshold = 8"

datatype RouteMatcherStrategy = LinearSmall | ExactHashPrefixLinear | PrefixTrieExperimental

record ExactRouteHashTable =
  eht_paths :: "string option list"
  eht_policies :: "nat option list"
  eht_original_orders :: "u32 list"

record CompiledExactRoute =
  ce_path :: string
  ce_policy :: nat
  ce_original_order :: u32

record CompiledPrefixRoute =
  cpr_prefix :: string
  cpr_prefix_len :: nat
  cpr_policy :: nat
  cpr_original_order :: u32

record CompiledRouteMatcher =
  strategy :: RouteMatcherStrategy
  exact_routes :: "CompiledExactRoute list"
  prefix_routes :: "CompiledPrefixRoute list"
  exact_hash_table :: ExactRouteHashTable

section \<open>Compilation\<close>

fun compile_routes ::
  "nat \<Rightarrow> RoutePolicy list \<Rightarrow> CompiledExactRoute list \<Rightarrow> CompiledPrefixRoute list \<Rightarrow>
   CompiledExactRoute list \<times> CompiledPrefixRoute list" where
  "compile_routes i [] es ps = (es, ps)"
| "compile_routes i (p # rest) es ps =
     (case match_prefix p of
        None \<Rightarrow> compile_routes (Suc i) rest es ps
      | Some m \<Rightarrow>
          if match_kind p = MatchExact then
            if length es < kMaxCompiledRoutes then
              compile_routes (Suc i) rest
                (es @ [\<lparr>ce_path = m, ce_policy = i, ce_original_order = word_of_nat i\<rparr>]) ps
            else compile_routes (Suc i) rest es ps
          else
            if length ps < kMaxCompiledRoutes then
              compile_routes (Suc i) rest es
                (ps @ [\<lparr>cpr_prefix = m, cpr_prefix_len = length m, cpr_policy = i,
                        cpr_original_order = word_of_nat i\<rparr>])
            else compile_routes (Suc i) rest es ps)"

definition next_slot :: "nat \<Rightarrow> nat" where
  "next_slot slot = (slot + 1) AND (kExactHashTableSize - 1)"

definition hash_slot :: "HashSeed \<Rightarrow> string \<Rightarrow> nat" where
  "hash_slot seed path =
     unat ((ucast (hash_cstr_keyed (Some path) seed) :: u32) AND word_of_nat (kExactHashTableSize - 1))"

fun probe_until :: "nat \<Rightarrow> (nat \<Rightarrow> bool) \<Rightarrow> nat \<Rightarrow> nat option" where
  "probe_until 0 stop slot = None"
| "probe_until (Suc fuel) stop slot =
     (if stop slot then Some slot else probe_until fuel stop (next_slot slot))"

definition empty_table :: ExactRouteHashTable where
  "empty_table =
     \<lparr>eht_paths = replicate kExactHashTableSize None,
      eht_policies = replicate kExactHashTableSize None,
      eht_original_orders = replicate kExactHashTableSize 0\<rparr>"

definition table_insert ::
  "HashSeed \<Rightarrow> CompiledExactRoute \<Rightarrow> ExactRouteHashTable \<Rightarrow> ExactRouteHashTable option" where
  "table_insert seed e tbl =
     (case probe_until kExactHashTableSize (\<lambda>s. eht_paths tbl ! s = None)
             (hash_slot seed (ce_path e)) of
        None \<Rightarrow> None
      | Some slot \<Rightarrow>
          Some \<lparr>eht_paths = (eht_paths tbl)[slot := Some (ce_path e)],
                eht_policies = (eht_policies tbl)[slot := Some (ce_policy e)],
                eht_original_orders = (eht_original_orders tbl)[slot := ce_original_order e]\<rparr>)"

fun build_table ::
  "HashSeed \<Rightarrow> CompiledExactRoute list \<Rightarrow> ExactRouteHashTable \<Rightarrow> ExactRouteHashTable option" where
  "build_table seed [] tbl = Some tbl"
| "build_table seed (e # es) tbl = Option.bind (table_insert seed e tbl) (build_table seed es)"

definition install_table :: "HashSeed \<Rightarrow> CompiledRouteMatcher \<Rightarrow> CompiledRouteMatcher option" where
  "install_table seed m =
     (if strategy m = ExactHashPrefixLinear then
        map_option (\<lambda>t. m\<lparr>exact_hash_table := t\<rparr>) (build_table seed (exact_routes m) empty_table)
      else Some m)"

definition compile_route_matcher ::
  "HashSeed \<Rightarrow> RoutePolicy list \<Rightarrow> CompiledRouteMatcher \<Rightarrow> CompiledRouteMatcher option" where
  "compile_route_matcher seed policies matcher =
     (let (es, ps) = compile_routes 0 policies [] [];
          strat = (if length es > kExactHashStrategyThreshold then ExactHashPrefixLinear
                   else LinearSmall)
      in install_table seed
           (matcher\<lparr>strategy := strat, exact_routes := es, prefix_routes := ps\<rparr>))"

definition compile_route_matcher_forced ::
  "HashSeed \<Rightarrow> RoutePolicy list \<Rightarrow> CompiledRouteMatcher \<Rightarrow> RouteMatcherStrategy \<Rightarrow>
   CompiledRouteMatcher option" where
  "compile_route_matcher_forced seed policies matcher force_strategy =
     Option.bind (compile_route_matcher seed policies matcher)
       (\<lambda>m. install_table seed (m\<lparr>strategy := force_strategy\<rparr>))"

section \<open>Matching\<close>

fun scan_exact ::
  "CompiledExactRoute list \<Rightarrow> string \<Rightarrow> RuntimeMetrics option \<Rightarrow>
   (nat \<times> u32) option \<times> RuntimeMetrics option" where
  "scan_exact [] path mx = (None, mx)"
| "scan_exact (e # es) path mx =
     (let mx' = record_runtime_event mx RM_RouteMatchExactScan
      in if path = ce_path e then (Some (ce_policy e, ce_original_order e), mx')
         else scan_exact es path mx')"

fun scan_prefix ::
  "CompiledPrefixRoute list \<Rightarrow> string \<Rightarrow> RuntimeMetrics option \<Rightarrow>
   (nat \<times> u32) option \<times> RuntimeMetrics option" where
  "scan_prefix [] path mx = (None, mx)"
| "scan_prefix (p # ps) path mx =
     (let mx' = record_runtime_event mx RM_RouteMatchPrefixScan
      in if strncmp_eq (cpr_prefix_len p) path (cpr_prefix p)
         then (Some (cpr_policy p, cpr_original_order p), mx')
         else scan_prefix ps path mx')"

text \<open>The probe loop of the lookup stops at an empty slot or at the path.\<close>

definition table_lookup ::
  "HashSeed \<Rightarrow> ExactRouteHashTable \<Rightarrow> string \<Rightarrow> RuntimeMetrics option \<Rightarrow>
   ((nat \<times> u32) option \<times> RuntimeMetrics option) option" where
  "table_lookup seed tbl path mx =
     map_option
       (\<lambda>slot. case eht_paths tbl ! slot of
           None \<Rightarrow> (None, mx)
         | Some _ \<Rightarrow>
             (map_option (\<lambda>p. (p, eht_original_orders tbl ! slot)) (eht_policies tbl ! slot),
              record_runtime_event mx RM_RouteMatchExactHashHit))
       (probe_until kExactHashTableSize
          (\<lambda>s. eht_paths tbl ! s = None \<or> eht_paths tbl ! s = Some path) (hash_slot seed path))"

definition match_exact ::
  "HashSeed \<Rightarrow> CompiledRouteMatcher \<Rightarrow> string \<Rightarrow> RuntimeMetrics option \<Rightarrow>
   ((nat \<times> u32) option \<times> RuntimeMetrics option) option" where
  "match_exact seed matcher path mx =
     (if strategy matcher = ExactHashPrefixLinear
      then table_lookup seed (exact_hash_table matcher) path mx
      else Some (scan_exact (exact_routes matcher) path mx))"

text \<open>The outer option is \<open>None\<close> when a probe loop would not end.\<close>

definition match_route_compiled ::
  "HashSeed \<Rightarrow> CompiledRouteMatcher \<Rightarrow> string option \<Rightarrow> RuntimeMetrics option \<Rightarrow>
   (nat option \<times> RuntimeMetrics option) option" where
  "match_route_compiled seed matcher request_path mx =
     (case request_path of
        None \<Rightarrow> Some (None, mx)
      | Some path \<Rightarrow>
          map_option
            (\<lambda>(best_exact, mx).
               case scan_prefix (prefix_routes matcher) path mx of
                 (best_prefix, mx) \<Rightarrow>
                   (case (best_exact, best_prefix) of
                      (None, None) \<Rightarrow> (None, record_runtime_event mx RM_RouteMatchNoMatch)
                    | (None, Some (pp, po)) \<Rightarrow> (Some pp, mx)
                    | (Some (ep, eo), None) \<Rightarrow> (Some ep, mx)
                    | (Some (ep, eo), Some (pp, po)) \<Rightarrow> (Some (if eo < po then ep else pp), mx)))
            (match_exact seed matcher path mx))"

text \<open>The reference: the first policy of the array that matches.\<close>

definition route_matches :: "RoutePolicy \<Rightarrow> string \<Rightarrow> bool" where
  "route_matches p path =
     (case match_prefix p of
        None \<Rightarrow> False
      | Some m \<Rightarrow>
          if match_kind p = MatchExact then path = m else strncmp_eq (length m) path m)"

definition match_route_by_path :: "RoutePolicy list option \<Rightarrow> string option \<Rightarrow> nat option" where
  "match_route_by_path policies request_path =
     (case (policies, request_path) of
        (Some ps, Some path) \<Rightarrow> find_index (\<lambda>p. route_matches p path) ps
      | _ \<Rightarrow> None)"

section \<open>The probe sequence\<close>

lemma next_slot_mod: "next_slot s = (s + 1) mod 128"
proof -
  have "(127 :: nat) = mask 7" by (simp add: mask_eq_exp_minus_1)
  then have "(s + 1) AND 127 = take_bit 7 (s + 1)" by (simp only: take_bit_eq_mask)
  then show ?thesis by (simp add: next_slot_def kExactHashTableSize_def take_bit_eq_mod)
qed

lemma hash_slot_less [simp]: "hash_slot seed path < 128"
proof -
  have "(ucast (hash_cstr_keyed (Some path) seed) :: u32) AND 127 \<le> 127"
    by (rule word_and_le1)
  then show ?thesis
    by (simp add: hash_slot_def kExactHashTableSize_def word_le_nat_alt)
qed

text \<open>The slot reached after \<open>k\<close> steps.\<close>

definition probe_at :: "nat \<Rightarrow> nat \<Rightarrow> nat" where
  "probe_at s k = (s + k) mod 128"

lemma probe_at_less [simp]: "probe_at s k < 128"
  by (simp add: probe_at_def)

lemma probe_at_0 [simp]: "s < 128 \<Longrightarrow> probe_at s 0 = s"
  by (simp add: probe_at_def)

lemma probe_at_next: "probe_at (next_slot s) k = probe_at s (Suc k)"
  by (simp add: probe_at_def next_slot_mod mod_simps)

lemma probe_at_surj:
  assumes "s < 128" and "j < 128"
  shows "\<exists>k<128. probe_at s k = j"
proof (cases "s \<le> j")
  case True
  then show ?thesis
    using assms by (intro exI [of _ "j - s"]) (simp add: probe_at_def)
next
  case False
  then have "s + (j + 128 - s) = j + 128" using assms by simp
  with False show ?thesis
    using assms by (intro exI [of _ "j + 128 - s"]) (simp add: probe_at_def)
qed

lemma probe_until_Some:
  assumes "s < 128" and "k < fuel" and "stop (probe_at s k)" and "\<And>j. j < k \<Longrightarrow> \<not> stop (probe_at s j)"
  shows "probe_until fuel stop s = Some (probe_at s k)"
  using assms
proof (induction fuel arbitrary: s k)
  case 0
  then show ?case by simp
next
  case (Suc fuel)
  show ?case
  proof (cases k)
    case 0
    with Suc.prems show ?thesis by simp
  next
    case (Suc k')
    have "\<not> stop s" using Suc.prems(1) Suc.prems(4) [of 0] Suc by simp
    moreover have "probe_until fuel stop (next_slot s) = Some (probe_at (next_slot s) k')"
    proof (rule Suc.IH)
      show "next_slot s < 128" by (simp add: next_slot_mod)
      show "k' < fuel" using Suc.prems(2) Suc by simp
      show "stop (probe_at (next_slot s) k')" using Suc.prems(3) Suc by (simp add: probe_at_next)
      show "\<not> stop (probe_at (next_slot s) j)" if "j < k'" for j
        using Suc.prems(4) [of "Suc j"] that Suc by (simp add: probe_at_next)
    qed
    ultimately show ?thesis using Suc by (simp add: probe_at_next)
  qed
qed

lemma probe_until_reaches:
  assumes "s < 128" and "j < 128" and "stop j"
  obtains k where "k < 128" and "stop (probe_at s k)" and "\<And>i. i < k \<Longrightarrow> \<not> stop (probe_at s i)"
    and "probe_until 128 stop s = Some (probe_at s k)"
proof -
  obtain k0 where k0: "k0 < 128" "stop (probe_at s k0)"
    using probe_at_surj [OF assms(1,2)] assms(3) by auto
  define k where "k = (LEAST k. stop (probe_at s k))"
  have st: "stop (probe_at s k)" unfolding k_def by (rule LeastI) (rule k0(2))
  have le: "k \<le> k0" unfolding k_def by (rule Least_le) (rule k0(2))
  have nb: "\<not> stop (probe_at s i)" if "i < k" for i
    using that unfolding k_def by (rule not_less_Least)
  have "k < 128" using le k0(1) by simp
  with st nb probe_until_Some [OF assms(1), of k 128 stop] show thesis
    by (intro that) auto
qed

section \<open>The hash table refines a first-match search\<close>

text \<open>
  The table after inserting the routes \<open>es\<close>: an occupied slot is reached from the hash of
  its path over occupied slots only, as many slots are occupied as routes were inserted,
  and a lookup finds the first inserted route with the path.
\<close>

definition table_find :: "CompiledExactRoute list \<Rightarrow> string \<Rightarrow> (nat \<times> u32) option" where
  "table_find es path =
     map_option (\<lambda>e. (ce_policy e, ce_original_order e)) (find (\<lambda>e. path = ce_path e) es)"

definition slot_reached :: "HashSeed \<Rightarrow> string option list \<Rightarrow> nat \<Rightarrow> string \<Rightarrow> bool" where
  "slot_reached seed paths s q \<longleftrightarrow>
     (\<exists>k<128. s = probe_at (hash_slot seed q) k \<and>
        (\<forall>j<k. paths ! probe_at (hash_slot seed q) j \<noteq> None))"

definition table_ok :: "HashSeed \<Rightarrow> ExactRouteHashTable \<Rightarrow> CompiledExactRoute list \<Rightarrow> bool" where
  "table_ok seed tbl es \<longleftrightarrow>
     length (eht_paths tbl) = 128 \<and> length (eht_policies tbl) = 128 \<and>
     length (eht_original_orders tbl) = 128 \<and>
     card {s. s < 128 \<and> eht_paths tbl ! s \<noteq> None} = length es \<and>
     (\<forall>s<128. \<forall>q. eht_paths tbl ! s = Some q \<longrightarrow> slot_reached seed (eht_paths tbl) s q) \<and>
     (\<forall>s<128. eht_policies tbl ! s = None \<longleftrightarrow> eht_paths tbl ! s = None) \<and>
     (\<forall>q mx. map_option fst (table_lookup seed tbl q mx) = Some (table_find es q))"

lemma free_slot_exists:
  assumes "card {s. s < 128 \<and> paths ! s \<noteq> None} < 128"
  shows "\<exists>s<128. paths ! s = None"
proof (rule ccontr)
  assume "\<not> ?thesis"
  then have "{s. s < 128 \<and> paths ! s \<noteq> None} = {..<128::nat}" by auto
  with assms show False by simp
qed

text \<open>What a lookup returns when it stops after \<open>k\<close> steps at the path, or at a free slot.\<close>

lemma table_lookup_hit:
  assumes "k < 128" and "eht_paths tbl ! probe_at (hash_slot seed q) k = Some q"
    and "\<forall>j<k. eht_paths tbl ! probe_at (hash_slot seed q) j \<notin> {None, Some q}"
  shows "map_option fst (table_lookup seed tbl q mx) =
    Some (map_option (\<lambda>p. (p, eht_original_orders tbl ! probe_at (hash_slot seed q) k))
            (eht_policies tbl ! probe_at (hash_slot seed q) k))"
proof -
  have "probe_until kExactHashTableSize
      (\<lambda>s. eht_paths tbl ! s = None \<or> eht_paths tbl ! s = Some q) (hash_slot seed q)
      = Some (probe_at (hash_slot seed q) k)"
    by (rule probe_until_Some) (use assms in \<open>auto simp: kExactHashTableSize_def\<close>)
  then show ?thesis
    using assms(2) by (simp add: table_lookup_def)
qed

lemma table_lookup_miss:
  assumes "k < 128" and "eht_paths tbl ! probe_at (hash_slot seed q) k = None"
    and "\<forall>j<k. eht_paths tbl ! probe_at (hash_slot seed q) j \<notin> {None, Some q}"
  shows "map_option fst (table_lookup seed tbl q mx) = Some None"
proof -
  have "probe_until kExactHashTableSize
      (\<lambda>s. eht_paths tbl ! s = None \<or> eht_paths tbl ! s = Some q) (hash_slot seed q)
      = Some (probe_at (hash_slot seed q) k)"
    by (rule probe_until_Some) (use assms in \<open>auto simp: kExactHashTableSize_def\<close>)
  then show ?thesis
    using assms(2) by (simp add: table_lookup_def)
qed

text \<open>With a free slot in the table, a probe for a path stops in one of the two ways.\<close>

lemma table_lookup_cases:
  assumes "s0 < 128" and "eht_paths tbl ! s0 = None"
  obtains k where "k < 128"
    and "eht_paths tbl ! probe_at (hash_slot seed q) k \<in> {None, Some q}"
    and "\<forall>j<k. eht_paths tbl ! probe_at (hash_slot seed q) j \<notin> {None, Some q}"
proof (rule probe_until_reaches [OF hash_slot_less [of seed q] assms(1),
      where stop = "\<lambda>s. eht_paths tbl ! s \<in> {None, Some q}"])
  show "eht_paths tbl ! s0 \<in> {None, Some q}" using assms(2) by simp
qed (use that in blast)

lemma table_ok_empty: "table_ok seed empty_table []"
proof -
  have lookup: "map_option fst (table_lookup seed empty_table q mx) = Some (table_find [] q)" for q mx
    using table_lookup_miss [of 0 empty_table seed q mx]
    by (simp add: table_find_def empty_table_def kExactHashTableSize_def)
  have none: "{s. s < 128 \<and> eht_paths empty_table ! s \<noteq> None} = {}"
    by (auto simp: empty_table_def kExactHashTableSize_def)
  show ?thesis
    unfolding table_ok_def none using lookup
    by (auto simp: empty_table_def kExactHashTableSize_def)
qed

lemma table_lookup_absent:
  assumes "\<And>s. s < 128 \<Longrightarrow> eht_paths tbl ! s \<noteq> Some q" and "s0 < 128" and "eht_paths tbl ! s0 = None"
  shows "map_option fst (table_lookup seed tbl q mx) = Some None"
proof (rule table_lookup_cases [OF assms(2,3)])
  fix k
  assume "k < 128" and "eht_paths tbl ! probe_at (hash_slot seed q) k \<in> {None, Some q}"
    and "\<forall>j<k. eht_paths tbl ! probe_at (hash_slot seed q) j \<notin> {None, Some q}"
  then show ?thesis
    using assms(1) [OF probe_at_less] by (intro table_lookup_miss) auto
qed

text \<open>A path that no inserted route has is in no slot.\<close>

lemma table_ok_absent:
  assumes ok: "table_ok seed tbl es" and nf: "table_find es q = None" and "s < 128"
    and free: "s0 < 128" "eht_paths tbl ! s0 = None"
  shows "eht_paths tbl ! s \<noteq> Some q"
proof
  assume at: "eht_paths tbl ! s = Some q"
  with ok assms(3) obtain k where k: "k < 128" "s = probe_at (hash_slot seed q) k"
    "\<forall>j<k. eht_paths tbl ! probe_at (hash_slot seed q) j \<noteq> None"
    unfolding table_ok_def slot_reached_def by blast
  show False
  proof (rule table_lookup_cases [OF free, of seed q])
    fix k'
    assume k': "k' < 128" "eht_paths tbl ! probe_at (hash_slot seed q) k' \<in> {None, Some q}"
      "\<forall>j<k'. eht_paths tbl ! probe_at (hash_slot seed q) j \<notin> {None, Some q}"
    have "k' \<le> k" using k'(3) at k(2) by (metis insertCI not_le)
    then have hit: "eht_paths tbl ! probe_at (hash_slot seed q) k' = Some q"
      using k'(2) k(3) at k(2) by (cases "k' = k") auto
    moreover from ok hit have "eht_policies tbl ! probe_at (hash_slot seed q) k' \<noteq> None"
      unfolding table_ok_def by (metis option.distinct(1) probe_at_less)
    moreover have "map_option fst (table_lookup seed tbl q None) = Some None"
      using ok nf unfolding table_ok_def by metis
    ultimately show False
      using table_lookup_hit [OF k'(1) hit k'(3), of None] by simp
  qed
qed

lemma table_find_snoc:
  "table_find (es @ [e]) q =
     (case table_find es q of Some r \<Rightarrow> Some r
      | None \<Rightarrow> if q = ce_path e then Some (ce_policy e, ce_original_order e) else None)"
  by (induction es) (auto simp: table_find_def)

text \<open>A hit stays the same hit when a free slot is filled.\<close>

lemma table_lookup_update:
  assumes f: "f < 128" "eht_paths tbl ! f = None" and len: "length (eht_paths tbl) = 128"
    and q: "map_option fst (table_lookup seed tbl q mx) = Some (Some r)"
  shows "map_option fst (table_lookup seed
    \<lparr>eht_paths = (eht_paths tbl)[f := p], eht_policies = (eht_policies tbl)[f := a],
     eht_original_orders = (eht_original_orders tbl)[f := b]\<rparr> q mx) = Some (Some r)"
proof (rule table_lookup_cases [OF f, of seed q])
  fix k
  let ?s = "probe_at (hash_slot seed q)"
  let ?t = "\<lparr>eht_paths = (eht_paths tbl)[f := p], eht_policies = (eht_policies tbl)[f := a],
     eht_original_orders = (eht_original_orders tbl)[f := b]\<rparr>"
  assume k: "k < 128" "eht_paths tbl ! ?s k \<in> {None, Some q}"
    "\<forall>j<k. eht_paths tbl ! ?s j \<notin> {None, Some q}"
  have hit: "eht_paths tbl ! ?s k = Some q"
    using table_lookup_miss [OF k(1) _ k(3), of mx] k(2) q by auto
  have ne: "?s j \<noteq> f" if "j \<le> k" for j
    using that k(3) hit f(2) by (cases "j < k") (auto dest!: spec [of _ j] simp: order_le_less)
  have "map_option fst (table_lookup seed ?t q mx) =
      Some (map_option (\<lambda>p. (p, eht_original_orders ?t ! ?s k)) (eht_policies ?t ! ?s k))"
  proof (rule table_lookup_hit [OF k(1)])
    show "eht_paths ?t ! ?s k = Some q" using hit ne [of k] by simp
    show "\<forall>j<k. eht_paths ?t ! ?s j \<notin> {None, Some q}"
    proof (intro allI impI)
      fix j
      assume "j < k"
      with k(3) ne [of j] show "eht_paths ?t ! ?s j \<notin> {None, Some q}" by simp
    qed
  qed
  also have "\<dots> = Some (map_option (\<lambda>p. (p, eht_original_orders tbl ! ?s k)) (eht_policies tbl ! ?s k))"
    using ne [of k] by simp
  also have "\<dots> = Some (Some r)"
    using table_lookup_hit [OF k(1) hit k(3), of mx] q by simp
  finally show ?thesis .
qed

lemma slot_reached_update:
  assumes "slot_reached seed paths s q"
  shows "slot_reached seed (paths[f := Some p]) s q"
proof -
  from assms obtain k where k: "k < 128" "s = probe_at (hash_slot seed q) k"
    "\<forall>j<k. paths ! probe_at (hash_slot seed q) j \<noteq> None"
    unfolding slot_reached_def by blast
  have "paths[f := Some p] ! i \<noteq> None" if "paths ! i \<noteq> None" for i
    using that by (cases "i < length paths"; cases "i = f") (auto simp: list_update_beyond nth_list_update)
  with k show ?thesis unfolding slot_reached_def by blast
qed

lemma table_insert_ok:
  assumes ok: "table_ok seed tbl es" and room: "length es < 127"
  shows "\<exists>tbl'. table_insert seed e tbl = Some tbl' \<and> table_ok seed tbl' (es @ [e])"
proof -
  let ?h = "hash_slot seed (ce_path e)"
  have card: "card {s. s < 128 \<and> eht_paths tbl ! s \<noteq> None} = length es"
    and len: "length (eht_paths tbl) = 128" "length (eht_policies tbl) = 128"
      "length (eht_original_orders tbl) = 128"
    and reached: "\<And>s q. s < 128 \<Longrightarrow> eht_paths tbl ! s = Some q \<Longrightarrow> slot_reached seed (eht_paths tbl) s q"
    and pol: "\<And>s. s < 128 \<Longrightarrow> eht_policies tbl ! s = None \<longleftrightarrow> eht_paths tbl ! s = None"
    and look: "\<And>q mx. map_option fst (table_lookup seed tbl q mx) = Some (table_find es q)"
    using ok unfolding table_ok_def by blast+
  from card room have "card {s. s < 128 \<and> eht_paths tbl ! s \<noteq> None} < 128" by simp
  from free_slot_exists [OF this] obtain s0 where s0: "s0 < 128" "eht_paths tbl ! s0 = None" by blast
  obtain k where k: "k < 128" "eht_paths tbl ! probe_at ?h k = None"
    "\<And>j. j < k \<Longrightarrow> \<not> eht_paths tbl ! probe_at ?h j = None"
    "probe_until 128 (\<lambda>s. eht_paths tbl ! s = None) ?h = Some (probe_at ?h k)"
    using s0(2)
    by (rule probe_until_reaches [OF hash_slot_less [of seed "ce_path e"] s0(1),
          where stop = "\<lambda>s. eht_paths tbl ! s = None"]) blast
  define f where "f = probe_at ?h k"
  define tbl' where "tbl' = \<lparr>eht_paths = (eht_paths tbl)[f := Some (ce_path e)],
     eht_policies = (eht_policies tbl)[f := Some (ce_policy e)],
     eht_original_orders = (eht_original_orders tbl)[f := ce_original_order e]\<rparr>"
  have f: "f < 128" "eht_paths tbl ! f = None" using k(2) by (simp_all add: f_def)
  have ins: "table_insert seed e tbl = Some tbl'"
    using k(4) by (simp add: table_insert_def tbl'_def f_def kExactHashTableSize_def)
  have nth: "eht_paths tbl' ! s = (if s = f then Some (ce_path e) else eht_paths tbl ! s)" for s
    using len f by (simp add: tbl'_def)
  have "{s. s < 128 \<and> eht_paths tbl' ! s \<noteq> None} = insert f {s. s < 128 \<and> eht_paths tbl ! s \<noteq> None}"
    using f by (auto simp: nth)
  then have card': "card {s. s < 128 \<and> eht_paths tbl' ! s \<noteq> None} = Suc (length es)"
    using f card by simp
  then have "card {s. s < 128 \<and> eht_paths tbl' ! s \<noteq> None} < 128" using room by simp
  from free_slot_exists [OF this] obtain s1 where s1: "s1 < 128" "eht_paths tbl' ! s1 = None" by blast
  have reached': "slot_reached seed (eht_paths tbl') s q" if "s < 128" "eht_paths tbl' ! s = Some q" for s q
  proof -
    have old: "slot_reached seed (eht_paths tbl) s q"
    proof (cases "s = f")
      case True
      then have "q = ce_path e" using that(2) by (simp add: nth)
      with k(1,3) True show ?thesis unfolding slot_reached_def f_def by auto
    next
      case False
      with that nth show ?thesis by (intro reached) auto
    qed
    then show ?thesis
      using slot_reached_update [OF old, of f "ce_path e"] by (simp add: tbl'_def)
  qed
  have look': "map_option fst (table_lookup seed tbl' q mx) = Some (table_find (es @ [e]) q)" for q mx
  proof (cases "table_find es q")
    case (Some r)
    with look [of q mx] have "map_option fst (table_lookup seed tbl q mx) = Some (Some r)" by simp
    from table_lookup_update [OF f len(1) this] Some show ?thesis
      by (simp add: tbl'_def table_find_snoc)
  next
    case None
    note absent = table_ok_absent [OF ok None _ s0]
    show ?thesis
    proof (cases "q = ce_path e")
      case True
      have before: "\<forall>j<k. eht_paths tbl' ! probe_at (hash_slot seed q) j \<notin> {None, Some q}"
      proof (intro allI impI)
        fix j
        assume "j < k"
        with k(3) [of j] absent [OF probe_at_less, of ?h j] True f(2)
        show "eht_paths tbl' ! probe_at (hash_slot seed q) j \<notin> {None, Some q}"
          by (auto simp: nth)
      qed
      have hit: "eht_paths tbl' ! probe_at (hash_slot seed q) k = Some q"
        using True by (simp add: nth f_def)
      show ?thesis
        using table_lookup_hit [OF k(1) hit before, of mx] True None len f
        by (simp add: table_find_snoc tbl'_def f_def)
    next
      case False
      have "map_option fst (table_lookup seed tbl' q mx) = Some None"
        using absent False by (intro table_lookup_absent [OF _ s1]) (auto simp: nth)
      then show ?thesis using None False by (simp add: table_find_snoc)
    qed
  qed
  have pol': "eht_policies tbl' ! s = None \<longleftrightarrow> eht_paths tbl' ! s = None" if "s < 128" for s
    using that pol len f by (simp add: tbl'_def nth_list_update)
  have "table_ok seed tbl' (es @ [e])"
    unfolding table_ok_def
    using reached' look' pol' card' len by (auto simp: tbl'_def)
  with ins show ?thesis by blast
qed

lemma build_table_ok:
  assumes "table_ok seed tbl es" and "length es + length rest < 128"
  shows "\<exists>tbl'. build_table seed rest tbl = Some tbl' \<and> table_ok seed tbl' (es @ rest)"
  using assms
proof (induction rest arbitrary: tbl es)
  case Nil
  then show ?case by simp
next
  case (Cons e rest)
  then have "length es < 127" by simp
  from table_insert_ok [OF Cons.prems(1) this] obtain tbl1
    where "table_insert seed e tbl = Some tbl1" "table_ok seed tbl1 (es @ [e])" by blast
  with Cons.IH [of tbl1 "es @ [e]"] Cons.prems(2) show ?case by simp
qed

section \<open>Compilation keeps every route, in order\<close>

fun exacts :: "nat \<Rightarrow> RoutePolicy list \<Rightarrow> CompiledExactRoute list" where
  "exacts i [] = []"
| "exacts i (p # ps) =
     (case match_prefix p of
        Some m \<Rightarrow>
          if match_kind p = MatchExact
          then \<lparr>ce_path = m, ce_policy = i, ce_original_order = word_of_nat i\<rparr> # exacts (Suc i) ps
          else exacts (Suc i) ps
      | None \<Rightarrow> exacts (Suc i) ps)"

fun prefixes :: "nat \<Rightarrow> RoutePolicy list \<Rightarrow> CompiledPrefixRoute list" where
  "prefixes i [] = []"
| "prefixes i (p # ps) =
     (case match_prefix p of
        Some m \<Rightarrow>
          if match_kind p = MatchExact then prefixes (Suc i) ps
          else \<lparr>cpr_prefix = m, cpr_prefix_len = length m, cpr_policy = i,
                cpr_original_order = word_of_nat i\<rparr> # prefixes (Suc i) ps
      | None \<Rightarrow> prefixes (Suc i) ps)"

lemma compile_routes_eq:
  assumes "length es + length (exacts i rs) \<le> 64" and "length ps + length (prefixes i rs) \<le> 64"
  shows "compile_routes i rs es ps = (es @ exacts i rs, ps @ prefixes i rs)"
  using assms
  by (induction rs arbitrary: i es ps) (auto simp: kMaxCompiledRoutes_def split: option.splits)

definition count_kind :: "RouteMatchKind \<Rightarrow> RoutePolicy list \<Rightarrow> nat" where
  "count_kind kind ps = length (filter (\<lambda>p. match_prefix p \<noteq> None \<and> match_kind p = kind) ps)"

lemma length_exacts: "length (exacts i ps) = count_kind MatchExact ps"
  by (induction ps arbitrary: i) (auto simp: count_kind_def split: option.splits)

lemma length_prefixes: "length (prefixes i ps) = count_kind MatchPrefix ps"
proof (induction ps arbitrary: i)
  case Nil
  then show ?case by (simp add: count_kind_def)
next
  case (Cons p ps)
  then show ?case
    by (cases "match_kind p") (auto simp: count_kind_def split: option.splits)
qed

section \<open>First match\<close>

definition prefix_find :: "CompiledPrefixRoute list \<Rightarrow> string \<Rightarrow> (nat \<times> u32) option" where
  "prefix_find ps path =
     map_option (\<lambda>p. (cpr_policy p, cpr_original_order p))
       (find (\<lambda>p. strncmp_eq (cpr_prefix_len p) path (cpr_prefix p)) ps)"

lemma scan_exact_find: "fst (scan_exact es path mx) = table_find es path"
  by (induction es arbitrary: mx) (auto simp: table_find_def Let_def)

lemma scan_prefix_find: "fst (scan_prefix ps path mx) = prefix_find ps path"
  by (induction ps arbitrary: mx) (auto simp: prefix_find_def Let_def)

text \<open>The tie-break of the compiled matcher.\<close>

fun earlier :: "(nat \<times> u32) option \<Rightarrow> (nat \<times> u32) option \<Rightarrow> nat option" where
  "earlier None None = None"
| "earlier None (Some (pp, po)) = Some pp"
| "earlier (Some (ep, eo)) None = Some ep"
| "earlier (Some (ep, eo)) (Some (pp, po)) = Some (if eo < po then ep else pp)"

lemma match_route_compiled_earlier:
  "map_option fst (match_route_compiled seed m (Some path) mx) =
   map_option (\<lambda>e. earlier e (prefix_find (prefix_routes m) path))
     (map_option fst (match_exact seed m path mx))"
proof (cases "match_exact seed m path mx")
  case None
  then show ?thesis by (simp add: match_route_compiled_def)
next
  case (Some r)
  obtain e mx1 where r: "r = (e, mx1)" by (cases r)
  obtain p mx2 where p: "scan_prefix (prefix_routes m) path mx1 = (p, mx2)" by fastforce
  have "p = prefix_find (prefix_routes m) path"
    using scan_prefix_find [of "prefix_routes m" path mx1] p by simp
  then show ?thesis
    using Some r p
    by (auto simp: match_route_compiled_def split: option.splits prod.splits)
qed

lemma table_find_exacts:
  "table_find (exacts i ps) path = Some (e, eo) \<Longrightarrow> i \<le> e \<and> e < i + length ps \<and> eo = word_of_nat e"
proof (induction ps arbitrary: i)
  case Nil
  then show ?case by (simp add: table_find_def)
next
  case (Cons p ps)
  show ?case
    using Cons.prems Cons.IH [of "Suc i"]
    by (fastforce simp: table_find_def split: option.splits if_splits)
qed

lemma prefix_find_prefixes:
  "prefix_find (prefixes i ps) path = Some (e, eo) \<Longrightarrow> i \<le> e \<and> e < i + length ps \<and> eo = word_of_nat e"
proof (induction ps arbitrary: i)
  case Nil
  then show ?case by (simp add: prefix_find_def)
next
  case (Cons p ps)
  show ?case
    using Cons.prems Cons.IH [of "Suc i"]
    by (fastforce simp: prefix_find_def split: option.splits if_splits)
qed

lemma u32_less_of_nat:
  assumes "a < b" and "b < 2 ^ 32"
  shows "(word_of_nat a :: u32) < word_of_nat b"
  using assms by (simp add: word_less_nat_alt unat_of_nat)

lemma earlier_first:
  assumes "i + length ps \<le> 2 ^ 32"
  shows "earlier (table_find (exacts i ps) path) (prefix_find (prefixes i ps) path) =
    map_option (\<lambda>k. i + k) (find_index (\<lambda>p. route_matches p path) ps)"
  using assms
proof (induction ps arbitrary: i)
  case Nil
  then show ?case by (simp add: table_find_def prefix_find_def)
next
  case (Cons p ps)
  let ?e = "table_find (exacts (Suc i) ps) path"
  let ?p = "prefix_find (prefixes (Suc i) ps) path"
  have IH: "earlier ?e ?p = map_option (\<lambda>k. Suc i + k) (find_index (\<lambda>p. route_matches p path) ps)"
    using Cons.IH [of "Suc i"] Cons.prems by simp
  have skip: "map_option (\<lambda>k. i + k) (map_option Suc r) = map_option (\<lambda>k. Suc i + k) r" for r
    by (cases r) auto
  have later_e: "word_of_nat i < eo" if "?e = Some (e, eo)" for e eo
    using table_find_exacts [OF that] Cons.prems u32_less_of_nat [of i e] by auto
  have later_p: "word_of_nat i < po" if "?p = Some (e, po)" for e po
    using prefix_find_prefixes [OF that] Cons.prems u32_less_of_nat [of i e] by auto
  show ?case
  proof (cases "route_matches p path")
    case False
    then have "table_find (exacts i (p # ps)) path = ?e" "prefix_find (prefixes i (p # ps)) path = ?p"
      by (auto simp: route_matches_def table_find_def prefix_find_def split: option.splits if_splits)
    with IH False skip show ?thesis by simp
  next
    case True
    then obtain m where m: "match_prefix p = Some m" by (auto simp: route_matches_def split: option.splits)
    show ?thesis
    proof (cases "match_kind p")
      case MatchExact
      then have "table_find (exacts i (p # ps)) path = Some (i, word_of_nat i)"
        "prefix_find (prefixes i (p # ps)) path = ?p"
        using True m by (auto simp: route_matches_def table_find_def)
      with True later_p show ?thesis by (cases ?p) auto
    next
      case MatchPrefix
      then have "prefix_find (prefixes i (p # ps)) path = Some (i, word_of_nat i)"
        "table_find (exacts i (p # ps)) path = ?e"
        using True m by (auto simp: route_matches_def prefix_find_def)
      with True later_e show ?thesis by (cases ?e) (auto dest: less_asym)
    qed
  qed
qed

section \<open>Properties\<close>

lemma install_table_ok:
  assumes "length (exact_routes m) < 128"
  shows "\<exists>m'. install_table seed m = Some m' \<and> exact_routes m' = exact_routes m \<and>
    prefix_routes m' = prefix_routes m \<and>
    (\<forall>path mx. map_option fst (match_exact seed m' path mx) = Some (table_find (exact_routes m) path))"
proof (cases "strategy m = ExactHashPrefixLinear")
  case True
  obtain t where t: "build_table seed (exact_routes m) empty_table = Some t"
    "table_ok seed t (exact_routes m)"
    using build_table_ok [OF table_ok_empty, of "exact_routes m" seed] assms by auto
  then show ?thesis
    using True by (auto simp: install_table_def match_exact_def table_ok_def)
next
  case False
  then show ?thesis
    by (intro exI [of _ m]) (simp only: install_table_def match_exact_def if_False option.map
        scan_exact_find simp_thms all_simps)
qed

text \<open>Installing the table on the compiled arrays of \<open>ps\<close> gives a matcher that finds the first match.\<close>

lemma install_table_first_match:
  assumes "exact_routes m = exacts 0 ps" and "prefix_routes m = prefixes 0 ps"
    and "count_kind MatchExact ps \<le> kMaxCompiledRoutes" and "length ps \<le> 2 ^ 32"
  shows "\<exists>m'. install_table seed m = Some m' \<and>
    exact_routes m' = exacts 0 ps \<and> prefix_routes m' = prefixes 0 ps \<and>
    (\<forall>path mx. map_option fst (match_route_compiled seed m' path mx) =
       Some (match_route_by_path (Some ps) path))"
proof -
  have "length (exact_routes m) < 128"
    using assms(1,3) by (simp add: length_exacts kMaxCompiledRoutes_def)
  from install_table_ok [OF this, of seed] assms(1,2) obtain m' where m':
    "install_table seed m = Some m'" "exact_routes m' = exacts 0 ps" "prefix_routes m' = prefixes 0 ps"
    "\<And>path mx. map_option fst (match_exact seed m' path mx) = Some (table_find (exacts 0 ps) path)"
    by auto
  have "map_option fst (match_route_compiled seed m' path mx) = Some (match_route_by_path (Some ps) path)"
    for path mx
  proof (cases path)
    case None
    then show ?thesis by (simp add: match_route_compiled_def match_route_by_path_def)
  next
    case (Some q)
    have "earlier (table_find (exacts 0 ps) q) (prefix_find (prefixes 0 ps) q) =
        find_index (\<lambda>p. route_matches p q) ps"
      using earlier_first [of 0 ps q] assms(4) by (simp add: option.map_ident)
    with Some m' show ?thesis
      by (simp only: match_route_compiled_earlier) (simp add: match_route_by_path_def)
  qed
  with m' show ?thesis by blast
qed

lemma compile_routes_all:
  assumes "count_kind MatchExact ps \<le> kMaxCompiledRoutes"
    and "count_kind MatchPrefix ps \<le> kMaxCompiledRoutes"
  shows "compile_routes 0 ps [] [] = (exacts 0 ps, prefixes 0 ps)"
  using compile_routes_eq [of "[]" 0 ps "[]"] assms
  by (simp add: length_exacts length_prefixes kMaxCompiledRoutes_def)

lemma compile_route_matcher_first_match:
  assumes "count_kind MatchExact ps \<le> kMaxCompiledRoutes"
    and "count_kind MatchPrefix ps \<le> kMaxCompiledRoutes" and "length ps \<le> 2 ^ 32"
  shows "\<exists>m. compile_route_matcher seed ps m0 = Some m \<and>
    exact_routes m = exacts 0 ps \<and> prefix_routes m = prefixes 0 ps \<and>
    (\<forall>path mx. map_option fst (match_route_compiled seed m path mx) =
       Some (match_route_by_path (Some ps) path))"
  unfolding compile_route_matcher_def compile_routes_all [OF assms(1,2)] Let_def prod.case
  by (rule install_table_first_match) (use assms in simp_all)

text \<open>
  (C22) The compiled matcher is the reference: for any request path and any hash seed,
  compilation ends, the lookup ends, and it selects the first policy of the array that
  matches, as \<open>match_route_by_path\<close> does. The hypotheses are the capacities of the compiled
  arrays (64 exact and 64 prefix routes) and that indices fit 32 bits.
\<close>

theorem match_route_compiled_is_first_match:
  assumes "count_kind MatchExact ps \<le> kMaxCompiledRoutes"
    and "count_kind MatchPrefix ps \<le> kMaxCompiledRoutes" and "length ps \<le> 2 ^ 32"
  shows "\<exists>m. compile_route_matcher seed ps m0 = Some m \<and>
    (\<forall>path mx. map_option fst (match_route_compiled seed m path mx) =
       Some (match_route_by_path (Some ps) path))"
  using compile_route_matcher_first_match [OF assms] by blast

text \<open>A prefix route declared before the exact route that would also match the path.\<close>

definition sample_routes :: "RoutePolicy list" where
  "sample_routes =
     [RoutePolicy_default\<lparr>route_id := Some ''api'', match_prefix := Some ''/api''\<rparr>,
      RoutePolicy_default\<lparr>route_id := Some ''exact'', match_prefix := Some ''/api/v1'',
        match_kind := MatchExact\<rparr>]"

definition empty_matcher :: CompiledRouteMatcher where
  "empty_matcher = \<lparr>strategy = LinearSmall, exact_routes = [], prefix_routes = [],
     exact_hash_table = empty_table\<rparr>"

lemma sample_routes_fit:
  "count_kind MatchExact sample_routes \<le> kMaxCompiledRoutes"
  "count_kind MatchPrefix sample_routes \<le> kMaxCompiledRoutes"
  "length sample_routes \<le> 2 ^ 32"
  by (simp_all add: sample_routes_def count_kind_def kMaxCompiledRoutes_def default_defs)

lemma match_route_by_path_sample:
  "match_route_by_path (Some sample_routes) (Some ''/api/v1'') = Some 0"
  by (simp add: match_route_by_path_def sample_routes_def route_matches_def default_defs
      strncmp_eq_def)

theorem match_route_compiled_is_first_match_witness:
  "\<exists>m. compile_route_matcher \<lparr>k0 = 1, k1 = 2\<rparr> sample_routes empty_matcher = Some m \<and>
     map_option fst (match_route_compiled \<lparr>k0 = 1, k1 = 2\<rparr> m (Some ''/api/v1'') None) = Some (Some 0)"
  using match_route_compiled_is_first_match [OF sample_routes_fit, of "\<lparr>k0 = 1, k1 = 2\<rparr>" empty_matcher]
    match_route_by_path_sample by metis

text \<open>
  Forcing a strategy changes only the cost of a lookup: with every
  \<^typ>\<open>RouteMatcherStrategy\<close>, the recompiled matcher selects the policy that the reference selects.
\<close>

theorem forced_strategy_is_first_match:
  assumes "count_kind MatchExact ps \<le> kMaxCompiledRoutes"
    and "count_kind MatchPrefix ps \<le> kMaxCompiledRoutes" and "length ps \<le> 2 ^ 32"
  shows "\<exists>m. compile_route_matcher_forced seed ps m0 strat = Some m \<and>
    (\<forall>path mx. map_option fst (match_route_compiled seed m path mx) =
       Some (match_route_by_path (Some ps) path))"
proof -
  from compile_route_matcher_first_match [OF assms] obtain m where
    m: "compile_route_matcher seed ps m0 = Some m"
      "exact_routes m = exacts 0 ps" "prefix_routes m = prefixes 0 ps" by blast
  have "\<exists>m'. install_table seed (m\<lparr>strategy := strat\<rparr>) = Some m' \<and>
      exact_routes m' = exacts 0 ps \<and> prefix_routes m' = prefixes 0 ps \<and>
      (\<forall>path mx. map_option fst (match_route_compiled seed m' path mx) =
         Some (match_route_by_path (Some ps) path))"
    by (rule install_table_first_match) (use m assms in simp_all)
  with m(1) show ?thesis by (auto simp: compile_route_matcher_forced_def)
qed

theorem forced_strategy_is_first_match_witness:
  "\<exists>m. compile_route_matcher_forced \<lparr>k0 = 1, k1 = 2\<rparr> sample_routes empty_matcher
         ExactHashPrefixLinear = Some m \<and>
     map_option fst (match_route_compiled \<lparr>k0 = 1, k1 = 2\<rparr> m (Some ''/api/v1'') None) = Some (Some 0)"
  using forced_strategy_is_first_match [OF sample_routes_fit, of "\<lparr>k0 = 1, k1 = 2\<rparr>" empty_matcher
      ExactHashPrefixLinear] match_route_by_path_sample by metis

end
