(* ===== verification/Semantic_Validator.thy ===== *)
theory Semantic_Validator
  imports Route_Matcher
begin

text \<open>
  The semantic validator of \<^verbatim>\<open>src/policy/policy_semantic_validator.cpp\<close>: the issue list with its
  capacity of 256, the checks of one route, and the checks across the routes of a policy file.

  No check of the source reads the result it writes, so the checks of a route (and of a pair
  of routes) are the list of the issues they would report, in source order, and \<open>add_issues\<close>
  is the chain of \<^verbatim>\<open>if (!add_issue(...)) return false\<close> over it.
\<close>

section \<open>Data\<close>

datatype PolicyValidationSeverity = SevError | SevWarning

datatype PolicyValidationSubsystem =
  SubRoute | SubCache | SubCompression | SubPagination | SubCoalescing | SubCrossRoute

record PolicyValidationIssue =
  iss_severity :: PolicyValidationSeverity
  iss_subsystem :: PolicyValidationSubsystem
  iss_route_id :: "string option"
  iss_field :: string
  iss_reason :: string

record PolicyValidationOptions =
  collect_all :: bool
  include_warnings :: bool

definition kMaxPolicyValidationIssues :: nat where "kMaxPolicyValidationIssues = 256"

record PolicyValidationResult =
  pv_ok :: bool
  pv_issues :: "PolicyValidationIssue list"

definition PolicyValidationResult_init :: PolicyValidationResult where
  "PolicyValidationResult_init = \<lparr>pv_ok = True, pv_issues = []\<rparr>"

definition kMaxRoutes :: nat where "kMaxRoutes = 64"

section \<open>Recording an issue\<close>

definition overflow_issue :: "string option \<Rightarrow> PolicyValidationIssue" where
  "overflow_issue rid = \<lparr>iss_severity = SevError, iss_subsystem = SubRoute, iss_route_id = rid,
     iss_field = '''', iss_reason = ''semantic validation issue capacity exceeded''\<rparr>"

definition add_issue ::
  "PolicyValidationOptions \<Rightarrow> PolicyValidationIssue \<Rightarrow> PolicyValidationResult \<Rightarrow>
   bool \<times> PolicyValidationResult" where
  "add_issue opts i res =
     (if iss_severity i = SevWarning \<and> \<not> include_warnings opts then (True, res)
      else
        let res = (if iss_severity i = SevError then res\<lparr>pv_ok := False\<rparr> else res);
            n = length (pv_issues res)
        in if n \<ge> kMaxPolicyValidationIssues then (collect_all opts, res)
           else if n = kMaxPolicyValidationIssues - 1 then
             (collect_all opts,
              res\<lparr>pv_ok := False, pv_issues := pv_issues res @ [overflow_issue (iss_route_id i)]\<rparr>)
           else
             (\<not> (iss_severity i = SevError \<and> \<not> collect_all opts),
              res\<lparr>pv_issues := pv_issues res @ [i]\<rparr>))"

fun add_issues ::
  "PolicyValidationOptions \<Rightarrow> PolicyValidationIssue list \<Rightarrow> PolicyValidationResult \<Rightarrow>
   bool \<times> PolicyValidationResult" where
  "add_issues opts [] res = (True, res)"
| "add_issues opts (i # is) res =
     (case add_issue opts i res of
        (True, res') \<Rightarrow> add_issues opts is res'
      | (False, res') \<Rightarrow> (False, res'))"

definition report :: "bool \<Rightarrow> PolicyValidationIssue \<Rightarrow> PolicyValidationIssue list" where
  "report c i = (if c then [i] else [])"

definition issue ::
  "PolicyValidationSeverity \<Rightarrow> PolicyValidationSubsystem \<Rightarrow> string option \<Rightarrow> string \<Rightarrow> string \<Rightarrow>
   PolicyValidationIssue" where
  "issue sev sub rid fld reason = \<lparr>iss_severity = sev, iss_subsystem = sub, iss_route_id = rid,
     iss_field = fld, iss_reason = reason\<rparr>"

section \<open>One route\<close>

definition starts_with_slash :: "string option \<Rightarrow> bool" where
  "starts_with_slash s = (case s of Some (c # _) \<Rightarrow> c = CHR ''/'' | _ \<Rightarrow> False)"

definition base_checks :: "RoutePolicy \<Rightarrow> PolicyValidationIssue list" where
  "base_checks route = (let rid = route_id route in
     report (rid = None \<or> rid = Some '''')
       (issue SevError SubRoute rid ''route_id'' ''route_id is required'') @
     report (\<not> starts_with_slash (match_prefix route))
       (issue SevError SubRoute rid ''match_prefix'' (''match_prefix must start with '' @ quoted ''/'')) @
     report (http_method_code (allowed_method route) > 5)
       (issue SevError SubRoute rid ''method'' ''method enum is unrecognized'') @
     report (mutation_code (mutation route) > 2)
       (issue SevError SubRoute rid ''mutation'' ''mutation enum is unrecognized'') @
     report (failure_mode_code (failure_mode route) > 1)
       (issue SevError SubRoute rid ''failure_mode'' ''failure_mode enum is unrecognized''))"

definition report_error ::
  "string option \<Rightarrow> (string \<Rightarrow> PolicyValidationIssue) \<Rightarrow> PolicyValidationIssue list" where
  "report_error err mk = (case err of None \<Rightarrow> [] | Some e \<Rightarrow> [mk e])"

definition feature_checks :: "RoutePolicy \<Rightarrow> PolicyValidationIssue list" where
  "feature_checks route = (let rid = route_id route in
     report_error (validate_cache_policy_safe (cache route) (allowed_method route))
       (issue SevError SubCache rid ''cache'') @
     report_error (validate_compression_policy_safe (compression route))
       (issue SevError SubCompression rid ''compression'') @
     report_error (validate_pagination_policy_safe (pagination route))
       (issue SevError SubPagination rid ''pagination'') @
     report_error (validate_coalescing_policy_safe (coalescing route) (Some (cache route)))
       (issue SevError SubCoalescing rid ''coalescing''))"

definition is_store :: "CachePolicy \<Rightarrow> bool" where
  "is_store c \<longleftrightarrow> cache_enabled c \<and> cache_behavior c = CacheStore"

definition is_body_transform_enabled :: "RoutePolicy \<Rightarrow> bool" where
  "is_body_transform_enabled route \<longleftrightarrow>
     ff_mode (field_filter route) \<noteq> FilterNone \<or> pag_enabled (pagination route) \<or>
     cmp_enabled (compression route) \<or> is_store (cache route) \<or> co_enabled (coalescing route)"

definition mutation_checks :: "RoutePolicy \<Rightarrow> PolicyValidationIssue list" where
  "mutation_checks route = (let rid = route_id route;
       err = (\<lambda>reason. issue SevError SubRoute rid ''mutation'' reason) in
     if is_body_transform_enabled route then
       (case mutation route of
          MutationDisabled \<Rightarrow>
            [issue SevWarning SubRoute rid ''mutation''
              (''feature block declared while mutation=disabled; observe-only behavior '' @
               ''expected'')]
        | MutationHeadersOnly \<Rightarrow>
            report (ff_mode (field_filter route) \<noteq> FilterNone)
              (err ''field_filter requires mutation=full'') @
            report (pag_enabled (pagination route)) (err ''pagination requires mutation=full'') @
            report (cmp_enabled (compression route)) (err ''compression requires mutation=full'') @
            report (is_store (cache route)) (err ''cache store requires mutation=full'') @
            report (co_enabled (coalescing route)) (err ''coalescing requires mutation=full'')
        | MutationFull \<Rightarrow> [])
     else [])"

definition method_checks :: "RoutePolicy \<Rightarrow> PolicyValidationIssue list" where
  "method_checks route = (let rid = route_id route; m = allowed_method route in
     report (co_enabled (coalescing route) \<and> m \<noteq> MethodAny \<and> m \<noteq> MethodGet)
       (issue SevError SubCoalescing rid ''coalescing''
         ''coalescing only supported for GET or ANY routes'') @
     report (pag_enabled (pagination route) \<and> m \<noteq> MethodAny \<and> m \<noteq> MethodGet)
       (issue SevError SubPagination rid ''pagination''
         ''pagination only supported for GET or ANY routes''))"

definition route_checks :: "RoutePolicy \<Rightarrow> PolicyValidationIssue list" where
  "route_checks route =
     base_checks route @ feature_checks route @ mutation_checks route @ method_checks route"

definition validate_route_policy_semantic ::
  "PolicyValidationOptions \<Rightarrow> RoutePolicy \<Rightarrow> PolicyValidationResult \<Rightarrow>
   bool \<times> PolicyValidationResult" where
  "validate_route_policy_semantic opts route res =
     (case add_issues opts (route_checks route) res of
        (True, res') \<Rightarrow> (pv_ok res', res')
      | (False, res') \<Rightarrow> (False, res'))"

text \<open>The value and the \<^verbatim>\<open>*reason_out\<close> of the wrapper used at start-up (\<open>None\<close>: not written).\<close>

definition validate_route_policy :: "RoutePolicy \<Rightarrow> bool \<times> string option" where
  "validate_route_policy policy =
     (let (ok, res) = validate_route_policy_semantic \<lparr>collect_all = False, include_warnings = False\<rparr>
            policy PolicyValidationResult_init
      in (ok, if ok then None
              else case pv_issues res of
                     i # _ \<Rightarrow> Some (iss_reason i)
                   | [] \<Rightarrow> Some ''unknown''))"

section \<open>The policy file\<close>

definition methods_overlap :: "HttpMethod \<Rightarrow> HttpMethod \<Rightarrow> bool" where
  "methods_overlap m1 m2 \<longleftrightarrow> m1 = MethodAny \<or> m2 = MethodAny \<or> m1 = m2"

definition is_prefix_shadow :: "string option \<Rightarrow> string option \<Rightarrow> bool" where
  "is_prefix_shadow broad_p narrow_p =
     (case (broad_p, narrow_p) of
        (Some broad, Some narrow) \<Rightarrow>
          if length narrow < length broad then False
          else if \<not> strncmp_eq (length broad) broad narrow then False
          else if length broad = 0 then True
          else if last broad = CHR ''/'' then True
          else length narrow = length broad \<or> narrow ! length broad = CHR ''/''
      | _ \<Rightarrow> False)"

text \<open>The pairs \<open>i < j\<close> of the nested loops, in their order.\<close>

fun ordered_pairs :: "'a list \<Rightarrow> ('a \<times> 'a) list" where
  "ordered_pairs [] = []"
| "ordered_pairs (x # xs) = map (Pair x) xs @ ordered_pairs xs"

definition duplicate_id_check :: "RoutePolicy \<times> RoutePolicy \<Rightarrow> PolicyValidationIssue list" where
  "duplicate_id_check = (\<lambda>(r1, r2).
     report (route_id r1 \<noteq> None \<and> route_id r1 \<noteq> Some '''' \<and> route_id r2 \<noteq> None \<and>
             route_id r1 = route_id r2)
       (issue SevError SubCrossRoute (route_id r2) ''route_id'' ''duplicate route id''))"

definition duplicate_exact_check :: "RoutePolicy \<times> RoutePolicy \<Rightarrow> PolicyValidationIssue list" where
  "duplicate_exact_check = (\<lambda>(r1, r2).
     report (match_kind r1 = MatchExact \<and> match_prefix r1 \<noteq> None \<and>
             match_kind r2 = MatchExact \<and> match_prefix r2 \<noteq> None \<and>
             match_prefix r1 = match_prefix r2 \<and>
             methods_overlap (allowed_method r1) (allowed_method r2))
       (issue SevError SubCrossRoute (route_id r2) ''match_prefix'' ''duplicate exact route match''))"

definition shadow_check :: "RoutePolicy \<times> RoutePolicy \<Rightarrow> PolicyValidationIssue list" where
  "shadow_check = (\<lambda>(r1, r2).
     report (match_kind r1 = MatchPrefix \<and> match_prefix r1 \<noteq> None \<and> match_prefix r2 \<noteq> None \<and>
             methods_overlap (allowed_method r1) (allowed_method r2) \<and>
             is_prefix_shadow (match_prefix r1) (match_prefix r2))
       (issue SevWarning SubCrossRoute (route_id r2) ''match_prefix''
         (if match_kind r2 = MatchPrefix then ''route may be shadowed by earlier prefix route''
          else ''exact route may be shadowed by earlier prefix route'')))"

definition shared_l2_check :: "RoutePolicy \<times> RoutePolicy \<Rightarrow> PolicyValidationIssue list" where
  "shared_l2_check = (\<lambda>(r1, r2).
     let a = cache_l2 (cache r1); b = cache_l2 (cache r2) in
     report (l2_enabled a \<and> l2_path a \<noteq> '''' \<and> l2_enabled b \<and> l2_path b \<noteq> '''' \<and>
             l2_path a = l2_path b)
       (issue SevWarning SubCrossRoute (route_id r2) ''cache.l2.path''
         ''multiple routes share the same L2 cache path''))"

definition cross_checks :: "RoutePolicy list \<Rightarrow> PolicyValidationIssue list" where
  "cross_checks routes = (let ps = ordered_pairs routes in
     concat (map duplicate_id_check ps) @ concat (map duplicate_exact_check ps) @
     concat (map shadow_check ps) @ concat (map shared_l2_check ps))"

fun validate_routes ::
  "PolicyValidationOptions \<Rightarrow> RoutePolicy list \<Rightarrow> PolicyValidationResult \<Rightarrow>
   bool \<times> PolicyValidationResult" where
  "validate_routes opts [] res = (True, res)"
| "validate_routes opts (r # rs) res =
     (case validate_route_policy_semantic opts r res of
        (ok, res') \<Rightarrow>
          if \<not> ok \<and> \<not> collect_all opts then (False, res') else validate_routes opts rs res')"

definition validate_policy_file_semantic ::
  "PolicyValidationOptions \<Rightarrow> RoutePolicy list \<Rightarrow> PolicyValidationResult \<Rightarrow>
   bool \<times> PolicyValidationResult" where
  "validate_policy_file_semantic opts routes res =
     (case validate_routes opts routes res of
        (False, res') \<Rightarrow> (False, res')
      | (True, res') \<Rightarrow>
          (case add_issues opts (cross_checks routes) res' of
             (False, res'') \<Rightarrow> (False, res'')
           | (True, res'') \<Rightarrow> (pv_ok res'', res'')))"

section \<open>Specification\<close>

text \<open>
  What the validator promises, stated without the issue list: every route is well formed by
  itself, route identifiers are distinct, and no two exact routes claim one path for methods
  that overlap.
\<close>

definition valid_route :: "RoutePolicy \<Rightarrow> bool" where
  "valid_route r \<longleftrightarrow>
     (\<exists>rid. route_id r = Some rid \<and> rid \<noteq> '''') \<and>
     (\<exists>rest. match_prefix r = Some (CHR ''/'' # rest)) \<and>
     validate_cache_policy_safe (cache r) (allowed_method r) = None \<and>
     validate_compression_policy_safe (compression r) = None \<and>
     validate_pagination_policy_safe (pagination r) = None \<and>
     validate_coalescing_policy_safe (coalescing r) (Some (cache r)) = None \<and>
     (mutation r = MutationHeadersOnly \<longrightarrow> \<not> is_body_transform_enabled r) \<and>
     (co_enabled (coalescing r) \<or> pag_enabled (pagination r) \<longrightarrow>
        allowed_method r = MethodAny \<or> allowed_method r = MethodGet)"

definition exact_clash :: "RoutePolicy \<Rightarrow> RoutePolicy \<Rightarrow> bool" where
  "exact_clash r1 r2 \<longleftrightarrow> match_kind r1 = MatchExact \<and> match_kind r2 = MatchExact \<and>
     match_prefix r1 = match_prefix r2 \<and> methods_overlap (allowed_method r1) (allowed_method r2)"

definition valid_policy_file :: "RoutePolicy list \<Rightarrow> bool" where
  "valid_policy_file rs \<longleftrightarrow> (\<forall>r\<in>set rs. valid_route r) \<and> distinct (map route_id rs) \<and>
     (\<forall>j<length rs. \<forall>i<j. \<not> exact_clash (rs ! i) (rs ! j))"

definition all_checks :: "RoutePolicy list \<Rightarrow> PolicyValidationIssue list" where
  "all_checks rs = concat (map route_checks rs) @ cross_checks rs"

definition reported_warnings ::
  "PolicyValidationOptions \<Rightarrow> RoutePolicy list \<Rightarrow> PolicyValidationIssue list" where
  "reported_warnings opts rs =
     (if include_warnings opts then filter (\<lambda>i. iss_severity i = SevWarning) (all_checks rs) else [])"

section \<open>The issue list\<close>

definition clean :: "PolicyValidationIssue list \<Rightarrow> bool" where
  "clean is \<longleftrightarrow> (\<forall>i\<in>set is. iss_severity i = SevWarning)"

definition kept :: "PolicyValidationOptions \<Rightarrow> PolicyValidationIssue list \<Rightarrow> PolicyValidationIssue list" where
  "kept opts is = (if include_warnings opts then is else [])"

text \<open>A result that is still ok has room: the last free entry is only taken by an error.\<close>

definition room :: "PolicyValidationResult \<Rightarrow> bool" where
  "room res \<longleftrightarrow> (pv_ok res \<longrightarrow> length (pv_issues res) < kMaxPolicyValidationIssues)"

lemma clean_simps [simp]:
  "clean []" "clean (i # is) \<longleftrightarrow> iss_severity i = SevWarning \<and> clean is"
  "clean (is @ js) \<longleftrightarrow> clean is \<and> clean js" "clean (concat iss) \<longleftrightarrow> (\<forall>is\<in>set iss. clean is)"
  by (auto simp: clean_def)

lemma kept_simps [simp]:
  "kept opts [] = []" "kept opts (is @ js) = kept opts is @ kept opts js"
  by (auto simp: kept_def)

lemma room_init [simp]: "room PolicyValidationResult_init"
  by (simp add: room_def PolicyValidationResult_init_def kMaxPolicyValidationIssues_def)

lemma add_issue_room: "room res \<Longrightarrow> room (snd (add_issue opts i res))"
  by (auto simp: add_issue_def room_def Let_def kMaxPolicyValidationIssues_def)

lemma add_issue_collect: "collect_all opts \<Longrightarrow> fst (add_issue opts i res)"
  by (auto simp: add_issue_def Let_def)

lemma add_issue_ok:
  assumes "room res"
  shows "fst (add_issue opts i res) \<and> pv_ok (snd (add_issue opts i res)) \<longleftrightarrow>
    pv_ok res \<and> iss_severity i = SevWarning \<and>
    length (pv_issues res @ kept opts [i]) < kMaxPolicyValidationIssues"
  using assms
  by (cases "iss_severity i") (auto simp: add_issue_def room_def kept_def Let_def
      kMaxPolicyValidationIssues_def)

lemma add_issue_warning:
  assumes "pv_ok res" and "iss_severity i = SevWarning"
    and "length (pv_issues res @ kept opts [i]) < kMaxPolicyValidationIssues"
  shows "add_issue opts i res = (True, res\<lparr>pv_issues := pv_issues res @ kept opts [i]\<rparr>)"
  using assms by (auto simp: add_issue_def kept_def Let_def kMaxPolicyValidationIssues_def)

lemma add_issue_sticky: "pv_ok (snd (add_issue opts i res)) \<Longrightarrow> pv_ok res"
  by (auto simp: add_issue_def Let_def split: if_splits)

lemma add_issues_sticky: "pv_ok (snd (add_issues opts is res)) \<Longrightarrow> pv_ok res"
proof (induction opts "is" res rule: add_issues.induct)
  case (2 opts i "is" res)
  obtain b res' where a: "add_issue opts i res = (b, res')" by fastforce
  with 2 add_issue_sticky [of opts i res] show ?case by (cases b) auto
qed simp

lemma add_issues_collect: "collect_all opts \<Longrightarrow> fst (add_issues opts is res)"
proof (induction opts "is" res rule: add_issues.induct)
  case (2 opts i "is" res)
  obtain b res' where a: "add_issue opts i res = (b, res')" by fastforce
  with 2 add_issue_collect [of opts i res] show ?case by (cases b) auto
qed simp

text \<open>Recording a list of issues succeeds exactly when all are warnings and they fit.\<close>

lemma add_issues_ok:
  assumes "room res"
  shows "fst (add_issues opts is res) \<and> pv_ok (snd (add_issues opts is res)) \<longleftrightarrow>
    pv_ok res \<and> clean is \<and> length (pv_issues res @ kept opts is) < kMaxPolicyValidationIssues"
  using assms
proof (induction opts "is" res rule: add_issues.induct)
  case (1 opts res)
  then show ?case by (auto simp: room_def)
next
  case (2 opts i "is" res)
  obtain b res' where a: "add_issue opts i res = (b, res')" by fastforce
  have r: "room res'" using add_issue_room [OF 2(2), of opts i] a by simp
  have k: "kept opts (i # is) = kept opts [i] @ kept opts is" by (simp add: kept_def)
  show ?case
  proof (cases "b \<and> pv_ok res'")
    case True
    then have w: "pv_ok res" "iss_severity i = SevWarning"
      "length (pv_issues res @ kept opts [i]) < kMaxPolicyValidationIssues"
      using add_issue_ok [OF 2(2), of opts i] a by auto
    then have "res' = res\<lparr>pv_issues := pv_issues res @ kept opts [i]\<rparr>"
      using add_issue_warning [OF w] a by simp
    with 2(1) [of b res'] True a r w show ?thesis by (simp add: k)
  next
    case False
    then have "\<not> (fst (add_issues opts (i # is) res) \<and> pv_ok (snd (add_issues opts (i # is) res)))"
      using a add_issues_sticky [of opts "is" res'] by (cases b) auto
    moreover have "\<not> (pv_ok res \<and> iss_severity i = SevWarning \<and>
        length (pv_issues res @ kept opts [i]) < kMaxPolicyValidationIssues)"
      using add_issue_ok [OF 2(2), of opts i] a False by auto
    ultimately show ?thesis by (auto simp: k)
  qed
qed

lemma add_issues_result:
  assumes "pv_ok res" and "clean is" and "length (pv_issues res @ kept opts is) < kMaxPolicyValidationIssues"
  shows "add_issues opts is res = (True, res\<lparr>pv_issues := pv_issues res @ kept opts is\<rparr>)"
  using assms
proof (induction opts "is" res rule: add_issues.induct)
  case (2 opts i "is" res)
  have k: "kept opts (i # is) = kept opts [i] @ kept opts is" by (simp add: kept_def)
  have "add_issue opts i res = (True, res\<lparr>pv_issues := pv_issues res @ kept opts [i]\<rparr>)"
    using 2(2-) by (intro add_issue_warning) (auto simp: k)
  with 2 show ?case by (simp add: k)
qed simp

lemma add_issues_room: "room res \<Longrightarrow> room (snd (add_issues opts is res))"
proof (induction opts "is" res rule: add_issues.induct)
  case (2 opts i "is" res)
  obtain b res' where a: "add_issue opts i res = (b, res')" by fastforce
  with 2 add_issue_room [of res opts i] show ?case by (cases b) auto
qed simp

section \<open>Routes and files\<close>

lemma route_semantic_ok:
  assumes "room res" and "validate_route_policy_semantic opts r res = (ok, res')"
  shows "ok \<longleftrightarrow> pv_ok res \<and> clean (route_checks r) \<and>
      length (pv_issues res @ kept opts (route_checks r)) < kMaxPolicyValidationIssues"
    and "room res'" and "pv_ok res' \<Longrightarrow> pv_ok res"
    and "collect_all opts \<Longrightarrow> ok \<longleftrightarrow> pv_ok res'"
    and "ok \<Longrightarrow> res' = res\<lparr>pv_issues := pv_issues res @ kept opts (route_checks r)\<rparr>"
proof -
  obtain b res1 where a: "add_issues opts (route_checks r) res = (b, res1)" by fastforce
  have e: "res' = res1" "ok \<longleftrightarrow> b \<and> pv_ok res1"
    using a assms(2) by (cases b; simp add: validate_route_policy_semantic_def)+
  show "ok \<longleftrightarrow> pv_ok res \<and> clean (route_checks r) \<and>
      length (pv_issues res @ kept opts (route_checks r)) < kMaxPolicyValidationIssues"
    using add_issues_ok [OF assms(1), of opts "route_checks r"] a e by simp
  then show "ok \<Longrightarrow> res' = res\<lparr>pv_issues := pv_issues res @ kept opts (route_checks r)\<rparr>"
    using add_issues_result [of res "route_checks r" opts] a e by simp
  show "room res'" using add_issues_room [OF assms(1), of opts "route_checks r"] a e by simp
  show "pv_ok res' \<Longrightarrow> pv_ok res" using add_issues_sticky [of opts "route_checks r" res] a e by simp
  show "collect_all opts \<Longrightarrow> ok \<longleftrightarrow> pv_ok res'"
    using add_issues_collect [of opts "route_checks r" res] a e by simp
qed

lemma validate_routes_sticky: "room res \<Longrightarrow> pv_ok (snd (validate_routes opts rs res)) \<Longrightarrow> pv_ok res"
proof (induction opts rs res rule: validate_routes.induct)
  case (2 opts r rs res)
  obtain ok res' where a: "validate_route_policy_semantic opts r res = (ok, res')" by fastforce
  note s = route_semantic_ok [OF 2(2) a]
  show ?case
    using 2(1) [OF a [symmetric]] 2(3) s(2,3) a by (auto split: if_splits)
qed simp

lemma validate_routes_ok:
  assumes "room res"
  shows "fst (validate_routes opts rs res) \<and> pv_ok (snd (validate_routes opts rs res)) \<longleftrightarrow>
    pv_ok res \<and> clean (concat (map route_checks rs)) \<and>
    length (pv_issues res @ kept opts (concat (map route_checks rs))) < kMaxPolicyValidationIssues"
  using assms
proof (induction opts rs res rule: validate_routes.induct)
  case (1 opts res)
  then show ?case by (auto simp: room_def)
next
  case (2 opts r rs res)
  obtain ok res' where a: "validate_route_policy_semantic opts r res = (ok, res')" by fastforce
  note s = route_semantic_ok [OF 2(2) a]
  show ?case
  proof (cases ok)
    case True
    then show ?thesis
      using 2(1) [OF a [symmetric]] s(2,5) s(1) a by auto
  next
    case False
    then have "\<not> (fst (validate_routes opts (r # rs) res) \<and> pv_ok (snd (validate_routes opts (r # rs) res)))"
      using a s(4) validate_routes_sticky [OF s(2), of opts rs] by auto
    moreover have "\<not> (pv_ok res \<and> clean (route_checks r) \<and>
        length (pv_issues res @ kept opts (route_checks r)) < kMaxPolicyValidationIssues)"
      using False s(1) by simp
    ultimately show ?thesis by auto
  qed
qed

lemma validate_routes_result:
  assumes "room res" and "pv_ok (snd (validate_routes opts rs res))" and "fst (validate_routes opts rs res)"
  shows "snd (validate_routes opts rs res) =
    res\<lparr>pv_issues := pv_issues res @ kept opts (concat (map route_checks rs))\<rparr>"
  using assms
proof (induction opts rs res rule: validate_routes.induct)
  case (2 opts r rs res)
  obtain ok res' where a: "validate_route_policy_semantic opts r res = (ok, res')" by fastforce
  note s = route_semantic_ok [OF 2(2) a]
  have ok
    using 2(3,4) a s(4) validate_routes_sticky [OF s(2), of opts rs] by (auto split: if_splits)
  with 2(1) [OF a [symmetric]] 2(3,4) s(2,5) a show ?case by simp
qed simp

lemma validate_routes_room: "room res \<Longrightarrow> room (snd (validate_routes opts rs res))"
proof (induction opts rs res rule: validate_routes.induct)
  case (2 opts r rs res)
  obtain ok res' where a: "validate_route_policy_semantic opts r res = (ok, res')" by fastforce
  with 2(1) [OF a [symmetric]] route_semantic_ok(2) [OF 2(2) a] show ?case by simp
qed simp

lemma file_semantic_ok:
  "fst (validate_policy_file_semantic opts rs PolicyValidationResult_init) \<longleftrightarrow>
     clean (all_checks rs) \<and> length (kept opts (all_checks rs)) < kMaxPolicyValidationIssues"
proof -
  let ?i = PolicyValidationResult_init
  let ?v = "validate_routes opts rs ?i"
  have i: "pv_ok ?i" "pv_issues ?i = []" by (simp_all add: PolicyValidationResult_init_def)
  note r = validate_routes_room [OF room_init, of opts rs]
  have "fst (validate_policy_file_semantic opts rs ?i) \<longleftrightarrow>
      fst ?v \<and> fst (add_issues opts (cross_checks rs) (snd ?v)) \<and>
      pv_ok (snd (add_issues opts (cross_checks rs) (snd ?v)))"
    by (auto simp: validate_policy_file_semantic_def split: prod.splits bool.splits)
  also have "\<dots> \<longleftrightarrow> (fst ?v \<and> pv_ok (snd ?v)) \<and> clean (cross_checks rs) \<and>
      length (pv_issues (snd ?v) @ kept opts (cross_checks rs)) < kMaxPolicyValidationIssues"
    using add_issues_ok [OF r, of opts "cross_checks rs"] by blast
  also have "\<dots> \<longleftrightarrow> clean (all_checks rs) \<and>
      length (kept opts (all_checks rs)) < kMaxPolicyValidationIssues"
    using validate_routes_ok [OF room_init, of opts rs] validate_routes_result [OF room_init, of opts rs] i
    by (auto simp: all_checks_def)
  finally show ?thesis .
qed

section \<open>The checks against the specification\<close>

lemma clean_report [simp]: "clean (report c i) \<longleftrightarrow> (c \<longrightarrow> iss_severity i = SevWarning)"
  by (simp add: report_def)

lemma clean_report_error [simp]:
  "clean (report_error err (issue sev sub rid fld)) \<longleftrightarrow> err = None \<or> sev = SevWarning"
  by (cases err) (simp_all add: report_error_def issue_def)

lemma iss_severity_issue [simp]: "iss_severity (issue sev sub rid fld reason) = sev"
  by (simp add: issue_def)

lemma enum_codes_bounded [simp]:
  "\<not> 5 < http_method_code m" "\<not> 2 < mutation_code mu" "\<not> 1 < failure_mode_code fm"
  by ((cases m; simp), (cases mu; simp), (cases fm; simp))

lemma starts_with_slash_iff: "starts_with_slash p \<longleftrightarrow> (\<exists>rest. p = Some (CHR ''/'' # rest))"
  by (auto simp: starts_with_slash_def split: option.splits list.splits)

lemma clean_base_checks:
  "clean (base_checks r) \<longleftrightarrow>
     (\<exists>rid. route_id r = Some rid \<and> rid \<noteq> '''') \<and> (\<exists>rest. match_prefix r = Some (CHR ''/'' # rest))"
  by (auto simp: base_checks_def Let_def starts_with_slash_iff)

lemma clean_mutation_checks:
  "clean (mutation_checks r) \<longleftrightarrow> (mutation r = MutationHeadersOnly \<longrightarrow> \<not> is_body_transform_enabled r)"
  by (cases "mutation r") (auto simp: mutation_checks_def Let_def is_body_transform_enabled_def)

lemma clean_route_checks: "clean (route_checks r) \<longleftrightarrow> valid_route r"
  by (auto simp: route_checks_def valid_route_def clean_base_checks clean_mutation_checks
      feature_checks_def method_checks_def Let_def)

lemma set_ordered_pairs:
  "set (ordered_pairs xs) = {(xs ! i, xs ! j) | i j. i < j \<and> j < length xs}"
proof (induction xs)
  case (Cons x xs)
  show ?case
  proof (intro set_eqI iffI)
    fix p
    assume "p \<in> set (ordered_pairs (x # xs))"
    then consider y where "p = (x, y)" "y \<in> set xs" | "p \<in> set (ordered_pairs xs)" by auto
    then show "p \<in> {((x # xs) ! i, (x # xs) ! j) | i j. i < j \<and> j < length (x # xs)}"
    proof cases
      case 1
      then obtain k where "k < length xs" "y = xs ! k" by (auto simp: in_set_conv_nth)
      with 1 have "p = ((x # xs) ! 0, (x # xs) ! Suc k) \<and> 0 < Suc k \<and> Suc k < length (x # xs)"
        by simp
      then show ?thesis by blast
    next
      case 2
      then obtain i j where "p = (xs ! i, xs ! j)" "i < j" "j < length xs" by (auto simp: Cons)
      then have "p = ((x # xs) ! Suc i, (x # xs) ! Suc j) \<and> Suc i < Suc j \<and> Suc j < length (x # xs)"
        by simp
      then show ?thesis by blast
    qed
  next
    fix p
    assume "p \<in> {((x # xs) ! i, (x # xs) ! j) | i j. i < j \<and> j < length (x # xs)}"
    then obtain i j where "p = ((x # xs) ! i, (x # xs) ! j)" "i < j" "j < length (x # xs)" by auto
    then show "p \<in> set (ordered_pairs (x # xs))"
      by (cases i; cases j) (auto simp: Cons)
  qed
qed simp

lemma clean_concat_pairs:
  "clean (concat (map f (ordered_pairs rs))) \<longleftrightarrow> (\<forall>j<length rs. \<forall>i<j. clean (f (rs ! i, rs ! j)))"
proof -
  have "clean (concat (map f (ordered_pairs rs))) \<longleftrightarrow> (\<forall>p\<in>set (ordered_pairs rs). clean (f p))"
    by simp
  also have "\<dots> \<longleftrightarrow> (\<forall>j<length rs. \<forall>i<j. clean (f (rs ! i, rs ! j)))"
    unfolding set_ordered_pairs by blast
  finally show ?thesis .
qed

lemma clean_pair_checks:
  "clean (duplicate_id_check (r1, r2)) \<longleftrightarrow>
     \<not> (route_id r1 \<noteq> None \<and> route_id r1 \<noteq> Some '''' \<and> route_id r1 = route_id r2)"
  "clean (duplicate_exact_check (r1, r2)) \<longleftrightarrow> \<not> (match_prefix r1 \<noteq> None \<and> exact_clash r1 r2)"
  "clean (shadow_check (r1, r2))" "clean (shared_l2_check (r1, r2))"
  by (auto simp: duplicate_id_check_def duplicate_exact_check_def shadow_check_def
      shared_l2_check_def exact_clash_def Let_def)

lemma clean_cross_checks:
  "clean (cross_checks rs) \<longleftrightarrow> (\<forall>j<length rs. \<forall>i<j.
     \<not> (route_id (rs ! i) \<noteq> None \<and> route_id (rs ! i) \<noteq> Some '''' \<and> route_id (rs ! i) = route_id (rs ! j)) \<and>
     \<not> (match_prefix (rs ! i) \<noteq> None \<and> exact_clash (rs ! i) (rs ! j)))"
  unfolding cross_checks_def Let_def clean_simps(3) clean_concat_pairs
  by (simp only: clean_pair_checks simp_thms all_conj_distrib imp_conjR)

lemma distinct_map_iff_less:
  "distinct (map f xs) \<longleftrightarrow> (\<forall>j<length xs. \<forall>i<j. f (xs ! i) \<noteq> f (xs ! j))"
proof
  assume d: "distinct (map f xs)"
  show "\<forall>j<length xs. \<forall>i<j. f (xs ! i) \<noteq> f (xs ! j)"
  proof (intro allI impI)
    fix i j
    assume "j < length xs" "i < j"
    then show "f (xs ! i) \<noteq> f (xs ! j)"
      using d nth_eq_iff_index_eq [of "map f xs" i j] by simp
  qed
next
  assume l: "\<forall>j<length xs. \<forall>i<j. f (xs ! i) \<noteq> f (xs ! j)"
  have "f (xs ! i) \<noteq> f (xs ! j)" if "i < length xs" "j < length xs" "i \<noteq> j" for i j
    using that l by (metis linorder_neqE_nat)
  then show "distinct (map f xs)" by (simp add: distinct_conv_nth)
qed

lemma clean_all_checks: "clean (all_checks rs) \<longleftrightarrow> valid_policy_file rs"
proof (cases "\<forall>r\<in>set rs. valid_route r")
  case True
  then have "i < length rs \<Longrightarrow> valid_route (rs ! i)" for i by simp
  then have "i < length rs \<Longrightarrow> route_id (rs ! i) \<noteq> None \<and> route_id (rs ! i) \<noteq> Some '''' \<and>
      match_prefix (rs ! i) \<noteq> None" for i
    by (fastforce simp: valid_route_def)
  then have "clean (cross_checks rs) \<longleftrightarrow> distinct (map route_id rs) \<and>
      (\<forall>j<length rs. \<forall>i<j. \<not> exact_clash (rs ! i) (rs ! j))"
    unfolding clean_cross_checks distinct_map_iff_less by (meson less_trans)
  with True show ?thesis by (simp add: all_checks_def valid_policy_file_def clean_route_checks)
next
  case False
  then show ?thesis by (auto simp: all_checks_def valid_policy_file_def clean_route_checks)
qed

lemma kept_reported:
  "clean (all_checks rs) \<Longrightarrow> kept opts (all_checks rs) = reported_warnings opts rs"
  by (auto simp: kept_def reported_warnings_def clean_def)

text \<open>
  (C23) The verdict on a policy file is exact: whatever the options, the file is accepted
  precisely when it meets the specification and the warnings it reports leave the issue list
  room (the entry 256 is reserved for the capacity error).
\<close>

theorem validate_policy_file_semantic_iff:
  "fst (validate_policy_file_semantic opts rs PolicyValidationResult_init) \<longleftrightarrow>
     valid_policy_file rs \<and> length (reported_warnings opts rs) < kMaxPolicyValidationIssues"
  using file_semantic_ok [of opts rs] clean_all_checks [of rs] kept_reported [of rs opts] by auto

text \<open>With the options of the start-up check, recording stops at the first error.\<close>

lemma add_issues_first_error:
  "add_issues \<lparr>collect_all = False, include_warnings = False\<rparr> is PolicyValidationResult_init =
     (case find (\<lambda>i. iss_severity i = SevError) is of
        None \<Rightarrow> (True, PolicyValidationResult_init)
      | Some i \<Rightarrow> (False, \<lparr>pv_ok = False, pv_issues = [i]\<rparr>))"
proof (induction "is")
  case (Cons i "is")
  then show ?case
    by (cases "iss_severity i")
      (simp_all add: add_issue_def PolicyValidationResult_init_def kMaxPolicyValidationIssues_def)
qed simp

lemma find_error_clean: "find (\<lambda>i. iss_severity i = SevError) is = None \<longleftrightarrow> clean is"
  unfolding clean_def find_None_iff by (metis PolicyValidationSeverity.distinct(1) PolicyValidationSeverity.exhaust)

text \<open>
  The start-up check of one route: \<open>validate_route_policy\<close> accepts exactly the well-formed
  routes, and on a rejection it gives the reason of the first failing check.
\<close>

theorem validate_route_policy_iff:
  "validate_route_policy r =
     (if valid_route r then (True, None)
      else (False, map_option iss_reason (find (\<lambda>i. iss_severity i = SevError) (route_checks r))))"
proof (cases "find (\<lambda>i. iss_severity i = SevError) (route_checks r)")
  case None
  then have "valid_route r"
    using find_error_clean [of "route_checks r"] by (simp add: clean_route_checks)
  with None show ?thesis
    by (simp add: validate_route_policy_def validate_route_policy_semantic_def add_issues_first_error)
      (simp add: PolicyValidationResult_init_def)
next
  case (Some i)
  then have "\<not> valid_route r"
    using find_error_clean [of "route_checks r"] by (simp add: clean_route_checks)
  with Some show ?thesis
    by (simp add: validate_route_policy_def validate_route_policy_semantic_def add_issues_first_error)
qed

section \<open>Shadowing against the matcher\<close>

lemma route_matches_prefix_mono:
  assumes "match_kind r1 = MatchPrefix" and "match_prefix r1 = Some b" and "match_prefix r2 = Some n"
    and "length b \<le> length n" and "take (length b) n = b" and "route_matches r2 path"
  shows "route_matches r1 path"
proof -
  have "take (length n) path = n"
    using assms(3,6) by (auto simp: route_matches_def strncmp_eq_def split: if_splits)
  then have "take (length b) path = b"
    using assms(4,5) by (metis min.absorb1 take_take)
  with assms(1,2) show ?thesis by (simp add: route_matches_def strncmp_eq_def)
qed

lemma earlier_match_hides:
  assumes "i < j" and "j < length ps" and "\<And>path. route_matches (ps ! j) path \<Longrightarrow> route_matches (ps ! i) path"
  shows "match_route_by_path (Some ps) path \<noteq> Some j"
proof (cases path)
  case (Some q)
  show ?thesis
  proof
    assume "match_route_by_path (Some ps) path = Some j"
    then have "find_index (\<lambda>p. route_matches p q) ps = Some j"
      using Some by (simp add: match_route_by_path_def)
    then have "route_matches (ps ! j) q" "\<not> route_matches (ps ! i) q"
      using assms(1) by (simp_all add: find_index_Some_iff)
    with assms(3) show False by blast
  qed
qed (simp add: match_route_by_path_def)

text \<open>
  (C24) A shadowing warning is never a false alarm: when \<open>shadow_check\<close> reports the route at
  position \<open>j\<close> against an earlier route, no request path at all is routed to it.
\<close>

theorem shadow_warning_sound:
  assumes "i < j" and "j < length ps" and "shadow_check (ps ! i, ps ! j) \<noteq> []"
  shows "match_route_by_path (Some ps) path \<noteq> Some j"
proof -
  have k: "match_kind (ps ! i) = MatchPrefix"
    and s: "is_prefix_shadow (match_prefix (ps ! i)) (match_prefix (ps ! j))"
    using assms(3) by (auto simp: shadow_check_def report_def split: if_splits)
  from s obtain b n where bn: "match_prefix (ps ! i) = Some b" "match_prefix (ps ! j) = Some n"
    "length b \<le> length n" "take (length b) n = b"
    by (auto simp: is_prefix_shadow_def strncmp_eq_def split: option.splits if_splits)
  show ?thesis
    by (rule earlier_match_hides [OF assms(1,2)]) (rule route_matches_prefix_mono [OF k bn])
qed

definition shadowed_routes :: "RoutePolicy list" where
  "shadowed_routes =
     [RoutePolicy_default\<lparr>route_id := Some ''a'', match_prefix := Some ''/api''\<rparr>,
      RoutePolicy_default\<lparr>route_id := Some ''b'', match_prefix := Some ''/api/v1''\<rparr>]"

theorem shadow_warning_sound_witness:
  "shadow_check (shadowed_routes ! 0, shadowed_routes ! 1) \<noteq> [] \<and>
   match_route_by_path (Some shadowed_routes) (Some ''/api/v1/x'') \<noteq> Some 1"
proof -
  have c: "shadow_check (shadowed_routes ! 0, shadowed_routes ! 1) \<noteq> []"
    by (simp add: shadow_check_def report_def shadowed_routes_def methods_overlap_def
        is_prefix_shadow_def strncmp_eq_def default_defs)
  from c shadow_warning_sound [OF _ _ c] show ?thesis by (simp add: shadowed_routes_def)
qed

lemma valid_default_route:
  "rid \<noteq> '''' \<Longrightarrow> valid_route (RoutePolicy_default\<lparr>route_id := Some rid,
     match_prefix := Some (CHR ''/'' # rest), allowed_method := m\<rparr>)"
  by (simp add: valid_route_def default_defs is_body_transform_enabled_def is_store_def
      validate_cache_policy_safe_def validate_cache_policy_def validate_cache_invalidation_def
      validate_compression_policy_safe_def validate_compression_policy_def
      validate_pagination_policy_safe_def validate_coalescing_policy_safe_def
      validate_coalescing_policy_def)

lemma route_checks_quiet:
  assumes "valid_route r" and "\<not> is_body_transform_enabled r"
  shows "route_checks r = []"
  using assms
  by (auto simp: valid_route_def route_checks_def base_checks_def feature_checks_def mutation_checks_def
      method_checks_def report_def report_error_def starts_with_slash_iff Let_def)

text \<open>
  The warning is incomplete: the check compares whole path segments while the matcher
  compares characters. A file with the prefixes \<^verbatim>\<open>/api\<close> and \<^verbatim>\<open>/apix\<close> is accepted, with no
  warning at all, although no path is ever routed to the second route.
\<close>

theorem raw_prefix_shadow_not_reported:
  "\<exists>rs. length rs = 2 \<and> all_checks rs = [] \<and>
     fst (validate_policy_file_semantic \<lparr>collect_all = True, include_warnings = True\<rparr> rs
       PolicyValidationResult_init) \<and>
     (\<forall>path. match_route_by_path (Some rs) path \<noteq> Some 1)"
proof -
  let ?r1 = "RoutePolicy_default\<lparr>route_id := Some ''a'', match_prefix := Some ''/api'',
    allowed_method := MethodAny\<rparr>"
  let ?r2 = "RoutePolicy_default\<lparr>route_id := Some ''b'', match_prefix := Some ''/apix'',
    allowed_method := MethodAny\<rparr>"
  let ?rs = "[?r1, ?r2]"
  have v: "valid_route ?r1" "valid_route ?r2" by (rule valid_default_route, simp)+

  have c: "all_checks ?rs = []"
    using v by (simp add: all_checks_def route_checks_quiet cross_checks_def duplicate_id_check_def
        duplicate_exact_check_def shadow_check_def shared_l2_check_def report_def
        is_prefix_shadow_def default_defs is_body_transform_enabled_def is_store_def)
  have h: "match_route_by_path (Some ?rs) path \<noteq> Some 1" for path
  proof (rule earlier_match_hides [of 0])
    show "route_matches (?rs ! 0) path" if "route_matches (?rs ! 1) path" for path
      by (rule route_matches_prefix_mono [where b = "''/api''" and n = "''/apix''", OF _ _ _ _ _ that])
        (simp_all add: default_defs)
  qed simp_all
  show ?thesis
  proof (intro exI [of _ ?rs] conjI allI h c)
    show "fst (validate_policy_file_semantic \<lparr>collect_all = True, include_warnings = True\<rparr> ?rs
        PolicyValidationResult_init)"
      using c by (simp add: file_semantic_ok kMaxPolicyValidationIssues_def)
  qed simp
qed

text \<open>
  (C25) The declared method takes no part in routing: take any two valid routes with different names that match the
  same path in the same way (exactly, or as a prefix), whose methods do not overlap, say GET and POST, and that filter no body.
  The file of both is accepted, under every option; the validator reports nothing about the pair but a shared
  storage path, if they share one; and no request is ever routed to the second route, since the matcher looks at the path only.
\<close>

theorem method_split_route_unreachable:
  assumes "valid_route r1" and "valid_route r2" and "\<not> is_body_transform_enabled r1" and "\<not> is_body_transform_enabled r2"
    and "match_kind r1 = match_kind r2" and "match_prefix r1 = match_prefix r2" and "route_id r1 \<noteq> route_id r2"
    and "\<not> methods_overlap (allowed_method r1) (allowed_method r2)"
  shows "fst (validate_policy_file_semantic opts [r1, r2] PolicyValidationResult_init) \<and>
    all_checks [r1, r2] = shared_l2_check (r1, r2) \<and> match_route_by_path (Some [r1, r2]) path \<noteq> Some 1"
proof (intro conjI)
  have same: "route_matches r1 p = route_matches r2 p" for p unfolding route_matches_def assms(5,6) by (rule refl)
  show c: "all_checks [r1, r2] = shared_l2_check (r1, r2)"
    using assms by (simp add: all_checks_def route_checks_quiet cross_checks_def duplicate_id_check_def
        duplicate_exact_check_def shadow_check_def report_def)
  show "match_route_by_path (Some [r1, r2]) path \<noteq> Some 1"
    by (rule earlier_match_hides [of 0]) (simp_all add: same)
  show "fst (validate_policy_file_semantic opts [r1, r2] PolicyValidationResult_init)"
    unfolding file_semantic_ok c
    by (simp add: shared_l2_check_def report_def Let_def clean_def kept_def issue_def kMaxPolicyValidationIssues_def)
qed

theorem method_split_route_unreachable_witness:
  "let r = \<lambda>n m. RoutePolicy_default\<lparr>route_id := Some n, match_prefix := Some ''/orders'', allowed_method := m\<rparr>;
       rs = [r ''list'' MethodGet, r ''create'' MethodPost]
   in fst (validate_policy_file_semantic \<lparr>collect_all = True, include_warnings = True\<rparr> rs PolicyValidationResult_init) \<and>
      match_route_by_path (Some rs) (Some ''/orders'') \<noteq> Some 1"
proof -
  let ?r = "\<lambda>n m. RoutePolicy_default\<lparr>route_id := Some n, match_prefix := Some ''/orders'', allowed_method := m\<rparr>"
  have v: "valid_route (?r ''list'' MethodGet)" "valid_route (?r ''create'' MethodPost)"
    by (rule valid_default_route, simp)+
  have b: "\<not> is_body_transform_enabled (?r n m)" for n m
    by (simp add: default_defs is_body_transform_enabled_def is_store_def)
  from method_split_route_unreachable [OF v b b, of "\<lparr>collect_all = True, include_warnings = True\<rparr>" "Some ''/orders''"]
  show ?thesis by (simp add: Let_def methods_overlap_def)
qed

end
