(* ===== verification/Cache_Key.thy ===== *)
theory Cache_Key
  imports Policy "HOL-Library.List_Lexorder" "HOL-Library.Char_ord" "HOL-Library.Multiset"
begin

text \<open>
  Cache keys: \<^verbatim>\<open>src/cache/cache_key.cpp\<close>. \<open>build_cache_key\<close> is the chain of bounded appends of
  the source over a buffer of which it knows what is written and what remains; the output
  buffer itself is never null at its callers. The facts give the text of the key, when it is
  built, that the order and repetition of the selected fields do not matter, and which
  differences of a request always show in the key.
\<close>

section \<open>Data\<close>

record CacheVaryKeyPart =
  vk_name :: "string option"
  vk_value_hash :: "string option"

record CacheKeyInput =
  ck_method :: HttpMethod
  ck_route_id :: "string option"
  ck_path :: "string option"
  ck_query :: "string option"
  ck_selected_fields :: "string list option"
  ck_selected_field_count :: nat
  ck_policy_version :: "string option"
  ck_route_cache_epoch :: u64
  ck_route_cache_epoch_ready :: bool
  ck_vary_headers :: "CacheVaryKeyPart list"
  ck_private_cache :: bool
  ck_auth_scope :: "string option"
  ck_variant :: bool

section \<open>Sorting the selected fields\<close>

text \<open>\<open>strncmp (a, b, n) < 0\<close>.\<close>

definition strncmp_less :: "nat \<Rightarrow> string \<Rightarrow> string \<Rightarrow> bool" where
  "strncmp_less n a b = str_less (take n a) (take n b)"

definition min_idx :: "string list \<Rightarrow> nat \<Rightarrow> nat" where
  "min_idx xs i =
     foldl (\<lambda>m j. if strncmp_less kMaxFieldNameLen (xs ! j) (xs ! m) then j else m) i [Suc i..<length xs]"

definition sort_pass :: "string list \<Rightarrow> nat \<Rightarrow> string list" where
  "sort_pass xs i = (let m = min_idx xs i in if m \<noteq> i then xs[i := xs ! m, m := xs ! i] else xs)"

definition sort_fields :: "string list \<Rightarrow> string list" where
  "sort_fields xs = foldl sort_pass xs [0..<length xs]"

fun dedup_adjacent :: "string option \<Rightarrow> string list \<Rightarrow> string list" where
  "dedup_adjacent prev [] = []"
| "dedup_adjacent prev (x # xs) =
     (case prev of
        None \<Rightarrow> x # dedup_adjacent (Some x) xs
      | Some p \<Rightarrow>
          if \<not> strncmp_eq kMaxFieldNameLen x p then x # dedup_adjacent (Some x) xs
          else dedup_adjacent (Some x) xs)"

definition key_fields :: "CacheKeyInput \<Rightarrow> string list" where
  "key_fields inp =
     (let input_count = min (ck_selected_field_count inp) kMaxFields;
          temp = (case ck_selected_fields inp of
                    Some fs \<Rightarrow> take input_count fs
                  | None \<Rightarrow> replicate input_count '''')
      in dedup_adjacent None (sort_fields temp))"

section \<open>Bounded appends\<close>

type_synonym keybuf = "string \<times> nat"

definition key_append :: "string \<Rightarrow> keybuf \<Rightarrow> keybuf option" where
  "key_append s = (\<lambda>(out, remaining).
     if length s > remaining then None else Some (out @ s, remaining - length s))"

definition key_append_char :: "char \<Rightarrow> keybuf \<Rightarrow> keybuf option" where
  "key_append_char c = (\<lambda>(out, remaining).
     if remaining = 0 then None else Some (out @ [c], remaining - 1))"

text \<open>\<open>snprintf\<close> into what remains, which must keep room for its terminator.\<close>

definition key_snprintf :: "string \<Rightarrow> keybuf \<Rightarrow> keybuf option" where
  "key_snprintf s = (\<lambda>(out, remaining).
     if length s \<ge> remaining then None else Some (out @ s, remaining - length s))"

definition run_steps :: "(keybuf \<Rightarrow> keybuf option) list \<Rightarrow> keybuf \<Rightarrow> keybuf option" where
  "run_steps fs b = foldl Option.bind (Some b) fs"

definition skip :: "keybuf \<Rightarrow> keybuf option" where
  "skip b = Some b"

definition append_opt :: "string option \<Rightarrow> keybuf \<Rightarrow> keybuf option" where
  "append_opt s = (case s of Some t \<Rightarrow> if t \<noteq> '''' then key_append t else skip | None \<Rightarrow> skip)"

definition append_epoch :: "CacheKeyInput \<Rightarrow> keybuf \<Rightarrow> keybuf option" where
  "append_epoch inp b =
     (if ck_route_cache_epoch_ready inp then
        (let e = ''epoch:'' @ show_u64 (ck_route_cache_epoch inp) @ ''|''
         in if length e \<ge> 32 then None else key_append e b)
      else Some b)"

fun append_fields :: "bool \<Rightarrow> string list \<Rightarrow> keybuf \<Rightarrow> keybuf option" where
  "append_fields first [] b = Some b"
| "append_fields first (f # fs) b =
     Option.bind (run_steps [if first then skip else key_append_char CHR '','', key_append f] b)
       (append_fields False fs)"

fun append_vary :: "bool \<Rightarrow> CacheVaryKeyPart list \<Rightarrow> keybuf \<Rightarrow> keybuf option" where
  "append_vary first [] b = Some b"
| "append_vary first (v # vs) b =
     Option.bind
       (run_steps
          [if first then skip else key_append_char CHR '','',
           (\<lambda>b. case (vk_name v, vk_value_hash v) of
                  (Some name, Some value_hash) \<Rightarrow>
                    run_steps [key_append name, key_append_char CHR ''='', key_append value_hash] b
                | _ \<Rightarrow> None)] b)
       (append_vary False vs)"

definition append_scope :: "CacheKeyInput \<Rightarrow> keybuf \<Rightarrow> keybuf option" where
  "append_scope inp b =
     (if ck_private_cache inp then
        (case ck_auth_scope inp of
           None \<Rightarrow> None
         | Some s \<Rightarrow> if s = '''' then None else key_snprintf (''|scope:'' @ s) b)
      else Some b)"

definition build_cache_key :: "CacheKeyInput \<Rightarrow> nat \<Rightarrow> string option" where
  "build_cache_key inp out_size =
     (if ck_method inp \<noteq> MethodGet then None
      else case (ck_route_id inp, ck_path inp) of
        (Some rid, Some path) \<Rightarrow>
          if out_size = 0 then None
          else map_option fst (run_steps
            [if ck_variant inp then key_append ''var:'' else skip,
             key_append ''GET|'',
             key_append rid,
             key_append_char CHR ''|'',
             append_epoch inp,
             key_append path,
             key_append_char CHR ''|'',
             append_opt (ck_query inp),
             key_append_char CHR ''|'',
             append_fields True (key_fields inp),
             key_append_char CHR ''|'',
             append_opt (ck_policy_version inp),
             if ck_vary_headers inp \<noteq> [] then key_append ''|vary:'' else skip,
             append_vary True (ck_vary_headers inp),
             append_scope inp] ('''', out_size - 1))
      | _ \<Rightarrow> None)"

section \<open>Stripping the fields parameter\<close>

text \<open>
  The loop over the \<^verbatim>\<open>&\<close>-separated parameters: \<open>None\<close> is the overflow return. The remaining
  size is a \<^verbatim>\<open>size_t\<close>.
\<close>

function strip_params :: "string \<Rightarrow> bool \<Rightarrow> string \<Rightarrow> u64 \<Rightarrow> string option" where
  "strip_params p first dest dest_remaining =
     (if p = '''' then Some dest
      else
        (let param = takeWhile (\<lambda>c. c \<noteq> CHR ''&'') p;
             rest = drop (Suc (length param)) p;
             is_fields = (length param \<ge> 7 \<and> strncmp_eq 7 param ''fields='')
         in if \<not> is_fields \<and> length param > 0 then
              (let needed = word_of_nat (length param) + (if first then 0 else 1)
               in if needed > dest_remaining then None
                  else strip_params rest False (dest @ (if first then '''' else ''&'') @ param)
                         (dest_remaining - needed))
            else strip_params rest first dest dest_remaining))"
  by pat_completeness auto
termination
  by (relation "measure (\<lambda>(p, _, _, _). length p)") auto

declare strip_params.simps [simp del]

text \<open>The text left in \<^verbatim>\<open>out_buf\<close>; the value returned is its length.\<close>

definition sanitize_query_strip_fields_param :: "string option \<Rightarrow> nat \<Rightarrow> string" where
  "sanitize_query_strip_fields_param query out_size =
     (case query of
        None \<Rightarrow> ''''
      | Some q \<Rightarrow>
          if out_size = 0 then ''''
          else
            (let has_leading_q = (q \<noteq> '''' \<and> hd q = CHR ''?'');
                 p = (if has_leading_q then tl q else q);
                 dest_remaining = word_of_nat (out_size - 1) - (if has_leading_q then 1 else 0)
             in case strip_params p True '''' dest_remaining of
                  None \<Rightarrow> ''''
                | Some t \<Rightarrow>
                    if t = '''' then '''' else (if has_leading_q then ''?'' else '''') @ t))"

section \<open>The selected fields\<close>

lemma str_less_iff: "str_less a b \<longleftrightarrow> a < b"
proof (induction a b rule: str_less.induct)
  case (3 a as b bs)
  then show ?case by (auto simp: less_char_def)
qed simp_all

definition short_names :: "string list \<Rightarrow> bool" where
  "short_names xs \<longleftrightarrow> (\<forall>x\<in>set xs. length x < kMaxFieldNameLen)"

lemma short_namesD: "short_names xs \<Longrightarrow> i < length xs \<Longrightarrow> length (xs ! i) < kMaxFieldNameLen"
  by (simp add: short_names_def)

lemma strncmp_less_short:
  "length a < kMaxFieldNameLen \<Longrightarrow> length b < kMaxFieldNameLen \<Longrightarrow>
     strncmp_less kMaxFieldNameLen a b \<longleftrightarrow> a < b"
  by (simp add: strncmp_less_def str_less_iff)

lemma foldl_min_index:
  assumes "short_names xs" and "i < length xs" and "\<forall>j\<in>set js. j < length xs"
  shows "foldl (\<lambda>m j. if strncmp_less kMaxFieldNameLen (xs ! j) (xs ! m) then j else m) i js
      \<in> insert i (set js)" (is "?f i js \<in> _")
    and "\<forall>j\<in>insert i (set js).
      xs ! foldl (\<lambda>m j. if strncmp_less kMaxFieldNameLen (xs ! j) (xs ! m) then j else m) i js \<le> xs ! j"
proof -
  have "?f i js \<in> insert i (set js) \<and> (\<forall>j\<in>insert i (set js). xs ! ?f i js \<le> xs ! j)"
    using assms(2,3)
  proof (induction js arbitrary: i)
    case (Cons j js)
    define i' where "i' = (if strncmp_less kMaxFieldNameLen (xs ! j) (xs ! i) then j else i)"
    have less: "strncmp_less kMaxFieldNameLen (xs ! j) (xs ! i) \<longleftrightarrow> xs ! j < xs ! i"
      using assms(1) Cons.prems by (simp add: strncmp_less_short short_namesD)
    then have i': "xs ! i' \<le> xs ! i" "xs ! i' \<le> xs ! j" "i' \<in> {i, j}" "i' < length xs"
      using Cons.prems by (auto simp: i'_def)
    have f: "?f i (j # js) = ?f i' js" by (simp add: i'_def)
    have "?f i' js \<in> insert i' (set js)" "\<forall>j\<in>insert i' (set js). xs ! ?f i' js \<le> xs ! j"
      using Cons.IH [OF i'(4)] Cons.prems(2) by auto
    then show ?case
      unfolding f using i' by (auto intro: order_trans)
  qed simp
  then show "?f i js \<in> insert i (set js)"
    "\<forall>j\<in>insert i (set js). xs ! ?f i js \<le> xs ! j" by auto
qed

lemma min_idx_least:
  assumes "short_names xs" and "i < length xs"
  shows "i \<le> min_idx xs i" and "min_idx xs i < length xs"
    and "\<And>j. i \<le> j \<Longrightarrow> j < length xs \<Longrightarrow> xs ! min_idx xs i \<le> xs ! j"
proof -
  have m: "min_idx xs i \<in> insert i {Suc i..<length xs}"
    "\<forall>j\<in>insert i {Suc i..<length xs}. xs ! min_idx xs i \<le> xs ! j"
    using foldl_min_index [OF assms, of "[Suc i..<length xs]"] by (simp_all add: min_idx_def Let_def)
  then show "i \<le> min_idx xs i" "min_idx xs i < length xs" using assms(2) by auto
  show "xs ! min_idx xs i \<le> xs ! j" if "i \<le> j" "j < length xs" for j
    using m(2) that by (cases "i = j") auto
qed

text \<open>After \<open>k\<close> passes the first \<open>k\<close> names are sorted and no later name is smaller.\<close>

definition sorted_upto :: "nat \<Rightarrow> string list \<Rightarrow> bool" where
  "sorted_upto k xs \<longleftrightarrow> (\<forall>i j. i < j \<longrightarrow> i < k \<longrightarrow> j < length xs \<longrightarrow> xs ! i \<le> xs ! j)"

lemma sort_pass_step:
  assumes "short_names xs" and "k < length xs" and "sorted_upto k xs"
  shows "short_names (sort_pass xs k) \<and> mset (sort_pass xs k) = mset xs \<and>
    length (sort_pass xs k) = length xs \<and> sorted_upto (Suc k) (sort_pass xs k)"
proof -
  let ?m = "min_idx xs k"
  let ?ys = "xs[k := xs ! ?m, ?m := xs ! k]"
  note m = min_idx_least [OF assms(1,2)]
  have ys: "sort_pass xs k = ?ys" by (simp add: sort_pass_def Let_def)
  have ms: "mset ?ys = mset xs" using m(2) assms(2) by (simp add: mset_swap)
  have nth: "?ys ! j = (if j = ?m then xs ! k else if j = k then xs ! ?m else xs ! j)"
    if "j < length xs" for j using that m(2) assms(2) by (simp add: nth_list_update)
  have "?ys ! i \<le> ?ys ! j" if "i < j" "i < Suc k" "j < length xs" for i j
  proof (cases "i = k")
    case True
    with that m(1,2) have "?ys ! i = xs ! ?m" using nth [of i] by (auto)
    moreover have "xs ! ?m \<le> ?ys ! j" using that True m nth [of j] assms(2) by auto
    ultimately show ?thesis by simp
  next
    case False
    then have "i < k" using that by simp
    then have "?ys ! i = xs ! i" using nth [of i] m(1) assms(2) by auto
    moreover have "xs ! i \<le> ?ys ! j"
      using assms(3) nth [of j] that \<open>i < k\<close> m(1,2) assms(2) by (auto simp: sorted_upto_def)
    ultimately show ?thesis by simp
  qed
  then have "sorted_upto (Suc k) ?ys" by (auto simp: sorted_upto_def)
  moreover have "short_names ?ys"
    using assms(1) ms by (metis set_mset_mset short_names_def)
  ultimately show ?thesis using ys ms by simp
qed

lemma sort_fields_prefix:
  assumes "short_names xs" and "k \<le> length xs"
  shows "short_names (foldl sort_pass xs [0..<k]) \<and> mset (foldl sort_pass xs [0..<k]) = mset xs \<and>
    length (foldl sort_pass xs [0..<k]) = length xs \<and> sorted_upto k (foldl sort_pass xs [0..<k])"
  using assms(2)
proof (induction k)
  case 0
  then show ?case using assms(1) by (simp add: sorted_upto_def)
next
  case (Suc k)
  then show ?case using sort_pass_step [of "foldl sort_pass xs [0..<k]" k] by simp
qed

lemma sort_fields_sort: "short_names xs \<Longrightarrow> sort_fields xs = sort xs"
proof -
  assume "short_names xs"
  from sort_fields_prefix [OF this order_refl]
  have "mset (sort_fields xs) = mset xs" "sorted (sort_fields xs)"
    by (auto simp: sort_fields_def sorted_upto_def sorted_iff_nth_mono_less)
  then show ?thesis by (metis properties_for_sort)
qed

lemma dedup_adjacent_Some:
  "short_names (p # xs) \<Longrightarrow> sorted (p # xs) \<Longrightarrow>
     sorted (dedup_adjacent (Some p) xs) \<and> distinct (dedup_adjacent (Some p) xs) \<and>
     set (dedup_adjacent (Some p) xs) = set xs - {p}"
proof (induction xs arbitrary: p)
  case (Cons x xs)
  have e: "strncmp_eq kMaxFieldNameLen x p \<longleftrightarrow> x = p"
    using Cons.prems(1) by (simp add: strncmp_eq_long short_names_def)
  have ih: "sorted (dedup_adjacent (Some x) xs) \<and> distinct (dedup_adjacent (Some x) xs) \<and>
      set (dedup_adjacent (Some x) xs) = set xs - {x}"
    using Cons.IH [of x] Cons.prems by (simp add: short_names_def)
  show ?case
  proof (cases "x = p")
    case True
    with ih e show ?thesis by auto
  next
    case False
    with Cons.prems(2) have "p \<notin> set xs" by (metis list.set_intros(1) nle_le order.trans sorted_simps(2))
    with False ih e Cons.prems(2) show ?thesis by auto
  qed
qed simp

lemma dedup_adjacent_None:
  assumes "short_names xs" and "sorted xs"
  shows "dedup_adjacent None xs = sorted_list_of_set (set xs)"
proof (cases xs)
  case (Cons x ys)
  then have "sorted (dedup_adjacent None xs)" "distinct (dedup_adjacent None xs)"
    "set (dedup_adjacent None xs) = set xs"
    using dedup_adjacent_Some [of x ys] assms by auto
  then show ?thesis by (metis sorted_list_of_set.idem_if_sorted_distinct)
qed simp

text \<open>The fields of the key are the set of the selected fields, in order.\<close>

lemma key_fields_canonical:
  assumes "ck_selected_fields inp = Some fs" and "ck_selected_field_count inp = length fs"
    and "length fs \<le> kMaxFields" and "short_names fs"
  shows "key_fields inp = sorted_list_of_set (set fs)"
  using assms dedup_adjacent_None [of "sort fs"]
  by (simp add: key_fields_def sort_fields_sort short_names_def)

section \<open>The text of a key\<close>

text \<open>A buffer of capacity \<open>cap\<close> that holds \<open>out\<close>, if it fits.\<close>

definition filled :: "nat \<Rightarrow> string \<Rightarrow> keybuf option" where
  "filled cap out = (if length out \<le> cap then Some (out, cap - length out) else None)"

lemma bind_filled [simp]:
  "Option.bind (filled cap out) (key_append s) = filled cap (out @ s)"
  "Option.bind (filled cap out) (key_append_char c) = filled cap (out @ [c])"
  "Option.bind (filled cap out) skip = filled cap out"
  "Option.bind (filled cap out) (append_opt t) = filled cap (out @ (case t of None \<Rightarrow> '''' | Some t \<Rightarrow> t))"
  by (auto simp: filled_def key_append_def key_append_char_def skip_def append_opt_def split: option.splits)

lemma bind_filled_if [simp]:
  "Option.bind (filled cap out) (if b then f else g) =
     (if b then Option.bind (filled cap out) f else Option.bind (filled cap out) g)"
  by simp

lemma bind_filled_epoch:
  "Option.bind (filled cap out) (append_epoch inp) =
     filled cap (out @ (if ck_route_cache_epoch_ready inp
       then ''epoch:'' @ show_u64 (ck_route_cache_epoch inp) @ ''|'' else ''''))"
proof -
  have "\<not> 32 \<le> length (''epoch:'' @ show_u64 (ck_route_cache_epoch inp) @ ''|'')"
    using show_u64_length [of "ck_route_cache_epoch inp"] by simp
  then have "append_epoch inp = (if ck_route_cache_epoch_ready inp
      then key_append (''epoch:'' @ show_u64 (ck_route_cache_epoch inp) @ ''|'') else skip)"
    by (auto simp: append_epoch_def skip_def fun_eq_iff Let_def simp del: append_Cons append_Nil)
  then show ?thesis by (simp del: append_Cons append_Nil)
qed

lemma bind_filled_assoc:
  "Option.bind (filled cap out) (\<lambda>b. Option.bind (run_steps [f, g] b) h) =
     Option.bind (Option.bind (Option.bind (filled cap out) f) g) h"
  by (simp add: run_steps_def)

lemma bind_filled_fields_rest:
  "Option.bind (filled cap out) (append_fields False fs) =
     filled cap (out @ concat (map ((@) '','') fs))"
proof (induction fs arbitrary: out)
  case Nil
  then show ?case by (cases "filled cap out") simp_all
next
  case (Cons f fs)
  have "append_fields False (f # fs) =
      (\<lambda>b. Option.bind (run_steps [key_append_char CHR '','', key_append f] b) (append_fields False fs))"
    by (simp add: fun_eq_iff)
  then show ?case by (simp only: bind_filled_assoc bind_filled Cons.IH) simp
qed

lemma bind_filled_fields:
  "Option.bind (filled cap out) (append_fields True fs) = filled cap (out @ join '','' fs)"
proof (cases fs)
  case Nil
  then show ?thesis by (cases "filled cap out") simp_all
next
  case (Cons f fs')
  have "append_fields True (f # fs') =
      (\<lambda>b. Option.bind (run_steps [skip, key_append f] b) (append_fields False fs'))"
    by (simp add: fun_eq_iff)
  then show ?thesis by (simp only: Cons bind_filled_assoc bind_filled bind_filled_fields_rest) simp
qed

definition vary_ok :: "CacheVaryKeyPart list \<Rightarrow> bool" where
  "vary_ok vs \<longleftrightarrow> (\<forall>v\<in>set vs. vk_name v \<noteq> None \<and> vk_value_hash v \<noteq> None)"

definition vary_item :: "CacheVaryKeyPart \<Rightarrow> string" where
  "vary_item v = the (vk_name v) @ ''='' @ the (vk_value_hash v)"

lemma bind_filled_vary_step:
  "Option.bind (filled cap out) (append_vary first (v # vs)) =
     (if vk_name v \<noteq> None \<and> vk_value_hash v \<noteq> None
      then Option.bind (filled cap (out @ (if first then '''' else '','') @ vary_item v)) (append_vary False vs)
      else None)"
proof -
  let ?g = "\<lambda>b. case (vk_name v, vk_value_hash v) of
      (Some name, Some value_hash) \<Rightarrow> run_steps [key_append name, key_append_char CHR ''='', key_append value_hash] b
    | _ \<Rightarrow> None"
  have "append_vary first (v # vs) = (\<lambda>b. Option.bind
      (run_steps [if first then skip else key_append_char CHR '','', ?g] b) (append_vary False vs))"
    by (rule ext) simp
  moreover have "Option.bind (filled cap o') ?g =
      (if vk_name v \<noteq> None \<and> vk_value_hash v \<noteq> None then filled cap (o' @ vary_item v) else None)" for o'
  proof (cases "vk_name v \<noteq> None \<and> vk_value_hash v \<noteq> None")
    case True
    then obtain n h where nh: "vk_name v = Some n" "vk_value_hash v = Some h" by auto
    then have "?g = (\<lambda>b. Option.bind (run_steps [key_append n, key_append_char CHR ''=''] b) (key_append h))"
      by (simp add: fun_eq_iff run_steps_def)
    then show ?thesis using nh True by (simp only: bind_filled_assoc bind_filled) (simp add: vary_item_def)
  next
    case False
    then have "?g = (\<lambda>b. None)" by (auto simp: fun_eq_iff split: option.splits)
    then show ?thesis using False by (cases "filled cap o'") auto
  qed
  ultimately show ?thesis
    by (simp only: bind_filled_assoc bind_filled_if bind_filled if_distrib [of "\<lambda>x. Option.bind x _"]) simp
qed

lemma bind_filled_vary_rest:
  "Option.bind (filled cap out) (append_vary False vs) =
     (if vary_ok vs then filled cap (out @ concat (map ((@) '','') (map vary_item vs))) else None)"
proof (induction vs arbitrary: out)
  case Nil
  then show ?case by (cases "filled cap out") (simp_all add: vary_ok_def)
next
  case (Cons v vs)
  have "(@) '','' = (#) CHR '',''" by (simp add: fun_eq_iff)
  with Cons show ?case by (auto simp: bind_filled_vary_step vary_ok_def simp del: append_vary.simps)
qed

lemma bind_filled_vary:
  "Option.bind (filled cap out) (append_vary True vs) =
     (if vary_ok vs then filled cap (out @ join '','' (map vary_item vs)) else None)"
proof (cases vs)
  case Nil
  then show ?thesis by (cases "filled cap out") (simp_all add: vary_ok_def)
next
  case (Cons v vs')
  then show ?thesis
    by (auto simp: bind_filled_vary_step bind_filled_vary_rest vary_ok_def simp del: append_vary.simps)
qed

definition key_head :: "CacheKeyInput \<Rightarrow> string" where
  "key_head inp = (if ck_variant inp then ''var:'' else '''') @ ''GET|'' @ the (ck_route_id inp) @ ''|'' @
     (if ck_route_cache_epoch_ready inp
      then ''epoch:'' @ show_u64 (ck_route_cache_epoch inp) @ ''|'' else '''')"

definition opt_text :: "string option \<Rightarrow> string" where
  "opt_text s = (case s of None \<Rightarrow> '''' | Some t \<Rightarrow> t)"

definition vary_text :: "CacheKeyInput \<Rightarrow> string" where
  "vary_text inp = (if ck_vary_headers inp = [] then ''''
     else ''|vary:'' @ join '','' (map vary_item (ck_vary_headers inp)))"

definition scope_text :: "CacheKeyInput \<Rightarrow> string" where
  "scope_text inp = (if ck_private_cache inp then ''|scope:'' @ the (ck_auth_scope inp) else '''')"

text \<open>The format \<^verbatim>\<open>GET|route|epoch:N|path|query|f1,f2|version|vary:...|scope:...\<close>.\<close>

definition key_text :: "CacheKeyInput \<Rightarrow> string" where
  "key_text inp = key_head inp @ the (ck_path inp) @ ''|'' @ opt_text (ck_query inp) @ ''|'' @
     join '','' (key_fields inp) @ ''|'' @ opt_text (ck_policy_version inp) @ vary_text inp @ scope_text inp"

definition key_input_ok :: "CacheKeyInput \<Rightarrow> bool" where
  "key_input_ok inp \<longleftrightarrow> ck_method inp = MethodGet \<and> ck_route_id inp \<noteq> None \<and> ck_path inp \<noteq> None \<and>
     vary_ok (ck_vary_headers inp) \<and>
     (ck_private_cache inp \<longrightarrow> ck_auth_scope inp \<noteq> None \<and> ck_auth_scope inp \<noteq> Some '''')"

definition key_fits :: "CacheKeyInput \<Rightarrow> nat \<Rightarrow> bool" where
  "key_fits inp out_size \<longleftrightarrow> length (key_text inp) + (if ck_private_cache inp then 2 else 1) \<le> out_size"

lemma bind_filled_scope:
  "map_option fst (Option.bind (filled cap out) (append_scope inp)) =
     (if ck_private_cache inp \<longrightarrow> ck_auth_scope inp \<noteq> None \<and> ck_auth_scope inp \<noteq> Some '''' then
        if length (out @ scope_text inp) + (if ck_private_cache inp then 1 else 0) \<le> cap
        then Some (out @ scope_text inp) else None
      else None)"
  by (auto simp: filled_def append_scope_def scope_text_def key_snprintf_def split: option.splits)

lemma build_cache_key_eq:
  "build_cache_key inp out_size =
     (if key_input_ok inp \<and> key_fits inp out_size then Some (key_text inp) else None)"
proof (cases "ck_method inp = MethodGet \<and> ck_route_id inp \<noteq> None \<and> ck_path inp \<noteq> None \<and> out_size \<noteq> 0")
  case False
  then show ?thesis
    by (auto simp: build_cache_key_def key_input_ok_def key_fits_def split: option.splits)
next
  case True
  then obtain rid path where rp: "ck_route_id inp = Some rid" "ck_path inp = Some path" by auto
  define pre where "pre = key_head inp @ path @ ''|'' @ opt_text (ck_query inp) @ ''|'' @
     join '','' (key_fields inp) @ ''|'' @ opt_text (ck_policy_version inp)"
  have f0: "Some ('''', out_size - 1) = filled (out_size - 1) ''''" by (simp add: filled_def)
  have "build_cache_key inp out_size = map_option fst
      (Option.bind (Option.bind (filled (out_size - 1)
         (pre @ (if ck_vary_headers inp \<noteq> [] then ''|vary:'' else '''')))
         (append_vary True (ck_vary_headers inp))) (append_scope inp))"
    using True rp
    by (simp add: build_cache_key_def run_steps_def f0 [simplified] bind_filled_epoch bind_filled_fields pre_def
        key_head_def opt_text_def del: append_vary.simps append_fields.simps join.simps Option.bind_assoc)
  also have "\<dots> = (if vary_ok (ck_vary_headers inp)
      then map_option fst (Option.bind (filled (out_size - 1) (pre @ vary_text inp)) (append_scope inp)) else None)"
    by (auto simp: bind_filled_vary vary_text_def vary_ok_def simp del: append_vary.simps)
  also have "\<dots> = (if key_input_ok inp \<and> key_fits inp out_size then Some (key_text inp) else None)"
    using True rp
    by (auto simp: bind_filled_scope key_input_ok_def key_fits_def key_text_def pre_def simp del: join.simps)
  finally show ?thesis .
qed

text \<open>
  (C28) \<open>build_cache_key\<close> exactly: it succeeds when the request is a GET with a route and a path,
  every vary part is present, a private cache has its scope, and the text fits the buffer
  with its terminator; then it writes the documented format, and in every other case it fails.
\<close>

theorem build_cache_key_exact:
  "build_cache_key inp out_size =
     (if key_input_ok inp \<and> key_fits inp out_size then Some (key_text inp) else None)"
  by (rule build_cache_key_eq)

lemma build_cache_key_SomeD:
  "build_cache_key inp n = Some k \<Longrightarrow> k = key_text inp \<and> key_input_ok inp \<and> key_fits inp n"
  by (simp add: build_cache_key_eq split: if_splits)

section \<open>What a key tells apart\<close>

lemma digits_no_pipe: "CHR ''|'' \<notin> set (show_u64 w)"
  using show_u64_digits [of "CHR ''|''" w] by (auto simp: is_digit_def char_code_def)

lemma variant_prefix_eq:
  "(if v then ''var:'' else '''') @ ''GET|'' @ x = (if v' then ''var:'' else '''') @ ''GET|'' @ y \<longleftrightarrow>
     v = v' \<and> x = y"
  by auto

text \<open>
  Keys with an epoch agree only if the variant flag, the route and the epoch do: the route
  identifiers have no separator, or they are the same.
\<close>

lemma key_head_eq:
  assumes "key_head a @ x = key_head b @ y"
    and "ck_route_cache_epoch_ready a" and "ck_route_cache_epoch_ready b"
    and "(CHR ''|'' \<notin> set (the (ck_route_id a)) \<and> CHR ''|'' \<notin> set (the (ck_route_id b))) \<or>
         ck_route_id a = ck_route_id b"
  shows "ck_variant a = ck_variant b \<and> the (ck_route_id a) = the (ck_route_id b) \<and>
    ck_route_cache_epoch a = ck_route_cache_epoch b \<and> x = y"
proof -
  let ?r = "the (ck_route_id a)" and ?r' = "the (ck_route_id b)"
  let ?e = "ck_route_cache_epoch a" and ?e' = "ck_route_cache_epoch b"
  have "ck_variant a = ck_variant b" and
    1: "?r @ CHR ''|'' # ''epoch:'' @ show_u64 ?e @ CHR ''|'' # x =
        ?r' @ CHR ''|'' # ''epoch:'' @ show_u64 ?e' @ CHR ''|'' # y"
    using assms(1-3) variant_prefix_eq [of "ck_variant a" _ "ck_variant b"] by (simp_all add: key_head_def)
  moreover have 2: "?r = ?r'" and "''epoch:'' @ show_u64 ?e @ CHR ''|'' # x = ''epoch:'' @ show_u64 ?e' @ CHR ''|'' # y"
    using assms(4) 1 append_sep_eq [of "CHR ''|''" ?r ?r'] by auto
  then have "show_u64 ?e @ CHR ''|'' # x = show_u64 ?e' @ CHR ''|'' # y" by simp
  then have "show_u64 ?e = show_u64 ?e'" "x = y"
    using append_sep_eq [OF digits_no_pipe digits_no_pipe, of ?e x ?e' y] by simp_all
  ultimately show ?thesis by simp
qed

lemma key_text_head: "\<exists>x. key_text inp = key_head inp @ x"
  by (auto simp: key_text_def)

text \<open>
  The epoch fences the cache: two keys of one route built under different epochs are
  different, whatever the paths, queries, fields, vary values and scopes of the two requests
  are (separators in them included).
\<close>

theorem cache_key_epoch_separates:
  assumes "build_cache_key a n = Some k" and "build_cache_key b m = Some k'"
    and "ck_route_id a = ck_route_id b"
    and "ck_route_cache_epoch_ready a" and "ck_route_cache_epoch_ready b"
    and "ck_route_cache_epoch a \<noteq> ck_route_cache_epoch b"
  shows "k \<noteq> k'"
proof
  assume "k = k'"
  then have "key_text a = key_text b" using assms(1,2) by (metis build_cache_key_SomeD)
  then obtain x y where "key_head a @ x = key_head b @ y" by (metis key_text_head)
  from key_head_eq [OF this assms(4,5)] assms(3,6) show False by simp
qed

definition sample_input :: "u64 \<Rightarrow> string \<Rightarrow> string \<Rightarrow> CacheKeyInput" where
  "sample_input epoch path query =
     \<lparr>ck_method = MethodGet, ck_route_id = Some ''orders'', ck_path = Some path, ck_query = Some query,
      ck_selected_fields = Some [], ck_selected_field_count = 0, ck_policy_version = Some ''v1'',
      ck_route_cache_epoch = epoch, ck_route_cache_epoch_ready = True, ck_vary_headers = [],
      ck_private_cache = False, ck_auth_scope = None, ck_variant = False\<rparr>"

lemma key_text_sample:
  "key_text (sample_input e p q) =
     ''GET|orders|epoch:'' @ show_u64 e @ ''|'' @ p @ ''|'' @ q @ ''|'' @ ''|v1''"
  by (simp add: key_text_def key_head_def sample_input_def opt_text_def key_fields_def sort_fields_def
      vary_text_def scope_text_def)

lemma build_sample:
  "length p + length q \<le> 100 \<Longrightarrow> build_cache_key (sample_input e p q) 1024 = Some (key_text (sample_input e p q))"
  using show_u64_length [of e]
  by (simp add: build_cache_key_eq key_fits_def key_text_sample)
    (simp add: key_input_ok_def sample_input_def vary_ok_def)

theorem cache_key_epoch_separates_witness:
  "\<exists>k k'. build_cache_key (sample_input 7 ''/o'' '''') 1024 = Some k \<and>
     build_cache_key (sample_input 8 ''/o'' '''') 1024 = Some k' \<and> k \<noteq> k'"
proof -
  have a: "build_cache_key (sample_input 7 ''/o'' '''') 1024 = Some (key_text (sample_input 7 ''/o'' ''''))"
    and b: "build_cache_key (sample_input 8 ''/o'' '''') 1024 = Some (key_text (sample_input 8 ''/o'' ''''))"
    by (rule build_sample, simp)+
  have "key_text (sample_input 7 ''/o'' '''') \<noteq> key_text (sample_input 8 ''/o'' '''')"
    by (rule cache_key_epoch_separates [OF a b]) (simp_all add: sample_input_def)
  with a b show ?thesis by blast
qed

definition no_pipe :: "string \<Rightarrow> bool" where
  "no_pipe s \<longleftrightarrow> CHR ''|'' \<notin> set s"

definition plain_fields :: "string list \<Rightarrow> bool" where
  "plain_fields fs \<longleftrightarrow> (\<forall>f\<in>set fs. f \<noteq> '''' \<and> no_pipe f \<and> CHR '','' \<notin> set f)"

text \<open>No separator inside a component: what the format assumes.\<close>

definition plain_input :: "CacheKeyInput \<Rightarrow> bool" where
  "plain_input inp \<longleftrightarrow> ck_route_cache_epoch_ready inp \<and> no_pipe (the (ck_route_id inp)) \<and>
     no_pipe (the (ck_path inp)) \<and> no_pipe (opt_text (ck_query inp)) \<and> plain_fields (key_fields inp) \<and>
     no_pipe (opt_text (ck_policy_version inp)) \<and>
     (\<forall>v\<in>set (ck_vary_headers inp). no_pipe (vary_item v))"

lemma no_pipe_join: "(\<forall>x\<in>set xs. no_pipe x) \<Longrightarrow> no_pipe (join '','' xs)"
  by (cases xs) (auto simp: no_pipe_def)

lemma takeWhile_no_pipe:
  "no_pipe s \<Longrightarrow> t = '''' \<or> hd t = CHR ''|'' \<Longrightarrow> takeWhile (\<lambda>c. c \<noteq> CHR ''|'') (s @ t) = s"
proof -
  assume "no_pipe s" and t: "t = '''' \<or> hd t = CHR ''|''"
  then have "takeWhile (\<lambda>c. c \<noteq> CHR ''|'') (s @ t) = s @ takeWhile (\<lambda>c. c \<noteq> CHR ''|'') t"
    by (intro takeWhile_append2) (auto simp: no_pipe_def)
  with t show ?thesis by (cases t) auto
qed

lemma no_pipe_append_eq:
  assumes "no_pipe s" and "no_pipe s'" and "t = '''' \<or> hd t = CHR ''|''" and "t' = '''' \<or> hd t' = CHR ''|''"
    and "s @ t = s' @ t'"
  shows "s = s' \<and> t = t'"
  using takeWhile_no_pipe [OF assms(1,3)] takeWhile_no_pipe [OF assms(2,4)] assms(5) by simp

lemma key_tail_eq:
  assumes "plain_input a" and "plain_input b"
    and "opt_text (ck_policy_version a) @ vary_text a @ scope_text a =
         opt_text (ck_policy_version b) @ vary_text b @ scope_text b"
  shows "opt_text (ck_policy_version a) = opt_text (ck_policy_version b) \<and> vary_text a = vary_text b \<and>
    scope_text a = scope_text b"
proof -
  have hs: "scope_text i = '''' \<or> hd (scope_text i) = CHR ''|''" for i by (simp add: scope_text_def)
  have hv: "vary_text i @ scope_text i = '''' \<or> hd (vary_text i @ scope_text i) = CHR ''|''" for i
    using hs [of i] by (simp add: vary_text_def)
  from assms(1,2) have np: "no_pipe (opt_text (ck_policy_version a))" "no_pipe (opt_text (ck_policy_version b))"
    by (simp_all add: plain_input_def)
  have "opt_text (ck_policy_version a) = opt_text (ck_policy_version b) \<and>
      vary_text a @ scope_text a = vary_text b @ scope_text b"
    using np hv hv assms(3) by (rule no_pipe_append_eq)
  moreover have "vary_text a = vary_text b \<and> scope_text a = scope_text b"
    if "vary_text a @ scope_text a = vary_text b @ scope_text b"
  proof -
    have e: "ck_vary_headers a = [] \<longleftrightarrow> ck_vary_headers b = []"
      using that by (auto simp: vary_text_def scope_text_def split: if_splits)
    show ?thesis
    proof (cases "ck_vary_headers a = []")
      case True
      with e that show ?thesis by (simp add: vary_text_def)
    next
      case False
      let ?j = "\<lambda>i. join '','' (map vary_item (ck_vary_headers i))"
      have "?j a @ scope_text a = ?j b @ scope_text b"
        using that False e by (simp add: vary_text_def)
      moreover have "no_pipe (?j a)" "no_pipe (?j b)"
        using assms(1,2) by (intro no_pipe_join; simp add: plain_input_def)+
      ultimately have "?j a = ?j b \<and> scope_text a = scope_text b"
        using hs by (intro no_pipe_append_eq) auto
      with False e show ?thesis by (simp add: vary_text_def)
    qed
  qed
  ultimately show ?thesis by blast
qed

text \<open>
  Keys are injective on requests whose components hold no separator: equal keys mean the
  same variant flag, route, epoch, path, query, set of fields, policy version, vary part and
  scope. No response is served across any of these boundaries.
\<close>

theorem cache_key_injective:
  assumes "build_cache_key a n = Some k" and "build_cache_key b m = Some k"
    and "plain_input a" and "plain_input b"
  shows "ck_variant a = ck_variant b \<and> ck_route_id a = ck_route_id b \<and>
    ck_route_cache_epoch a = ck_route_cache_epoch b \<and> ck_path a = ck_path b \<and>
    opt_text (ck_query a) = opt_text (ck_query b) \<and> key_fields a = key_fields b \<and>
    opt_text (ck_policy_version a) = opt_text (ck_policy_version b) \<and>
    vary_text a = vary_text b \<and> scope_text a = scope_text b"
proof -
  let ?tail = "\<lambda>i. opt_text (ck_policy_version i) @ vary_text i @ scope_text i"
  have t: "key_text a = key_text b" and ok: "key_input_ok a" "key_input_ok b"
    using build_cache_key_SomeD [OF assms(1)] build_cache_key_SomeD [OF assms(2)] by auto
  have p: "ck_route_cache_epoch_ready i" "CHR ''|'' \<notin> set (the (ck_route_id i))"
    "CHR ''|'' \<notin> set (the (ck_path i))" "CHR ''|'' \<notin> set (opt_text (ck_query i))"
    "CHR ''|'' \<notin> set (join '','' (key_fields i))" if "plain_input i" for i
    using that no_pipe_join [of "key_fields i"] by (auto simp: plain_input_def plain_fields_def no_pipe_def)
  note pa = p [OF assms(3)] and pb = p [OF assms(4)]
  have h: "ck_variant a = ck_variant b" "the (ck_route_id a) = the (ck_route_id b)"
    "ck_route_cache_epoch a = ck_route_cache_epoch b"
    "the (ck_path a) @ CHR ''|'' # opt_text (ck_query a) @ CHR ''|'' # join '','' (key_fields a) @ CHR ''|'' # ?tail a =
     the (ck_path b) @ CHR ''|'' # opt_text (ck_query b) @ CHR ''|'' # join '','' (key_fields b) @ CHR ''|'' # ?tail b"
    using key_head_eq [OF t [unfolded key_text_def] pa(1) pb(1)] pa(2) pb(2) by simp_all
  have q: "the (ck_path a) = the (ck_path b)"
    "opt_text (ck_query a) @ CHR ''|'' # join '','' (key_fields a) @ CHR ''|'' # ?tail a =
     opt_text (ck_query b) @ CHR ''|'' # join '','' (key_fields b) @ CHR ''|'' # ?tail b"
    using h(4) append_sep_eq [OF pa(3) pb(3)] by blast+
  have f: "opt_text (ck_query a) = opt_text (ck_query b)"
    "join '','' (key_fields a) @ CHR ''|'' # ?tail a = join '','' (key_fields b) @ CHR ''|'' # ?tail b"
    using q(2) append_sep_eq [OF pa(4) pb(4)] by blast+
  have g: "join '','' (key_fields a) = join '','' (key_fields b)" "?tail a = ?tail b"
    using f(2) append_sep_eq [OF pa(5) pb(5)] by blast+
  have "key_fields a = key_fields b"
    by (rule join_inj [OF _ _ g(1)])
      (use assms(3,4) in \<open>auto simp: plain_input_def plain_fields_def\<close>)
  moreover have "ck_route_id a = ck_route_id b" "ck_path a = ck_path b"
    using h(2) q(1) ok by (auto simp: key_input_ok_def)
  ultimately show ?thesis
    using h(1,3) f(1) key_tail_eq [OF assms(3,4) g(2)] by blast
qed

theorem cache_key_injective_witness:
  "\<exists>k. build_cache_key (sample_input 7 ''/o'' ''p=1'') 1024 = Some k \<and> plain_input (sample_input 7 ''/o'' ''p=1'') \<and>
     ck_path (sample_input 7 ''/o'' ''p=1'') = Some ''/o''"
proof -
  let ?i = "sample_input 7 ''/o'' ''p=1''"
  have b: "build_cache_key ?i 1024 = Some (key_text ?i)" by (rule build_sample) simp
  have p: "plain_input ?i"
    by (simp add: plain_input_def sample_input_def no_pipe_def plain_fields_def opt_text_def key_fields_def
        sort_fields_def scope_text_def)
  from cache_key_injective [OF b b p p] b p show ?thesis by (auto simp: sample_input_def)
qed

text \<open>
  (C29) With a separator in the request the keys do collide: whatever the rest of the key's input and the size of
  the buffer, moving a part \<^verbatim>\<open>|b\<close> of the request path to the front of the query gives the same key. So the
  request for \<^verbatim>\<open>a|b\<close> with query \<open>q\<close> and the one for \<open>a\<close> with query \<^verbatim>\<open>b|q\<close> share one entry.
\<close>

theorem cache_key_pipe_collision:
  "build_cache_key (inp\<lparr>ck_path := Some (a @ ''|'' @ b), ck_query := Some q\<rparr>) n =
   build_cache_key (inp\<lparr>ck_path := Some a, ck_query := Some (b @ ''|'' @ q)\<rparr>) n"
  by (simp add: build_cache_key_eq key_input_ok_def key_fits_def key_text_def key_head_def key_fields_def opt_text_def
      vary_text_def scope_text_def)

text \<open>
  The order and the repetition of the selected fields do not matter: two requests that
  select the same set of fields and agree otherwise have the same key.
\<close>

theorem cache_key_fields_as_set:
  assumes "set fs = set gs" and "length fs \<le> kMaxFields" and "length gs \<le> kMaxFields"
    and "short_names fs"
  shows "build_cache_key (inp\<lparr>ck_selected_fields := Some fs, ck_selected_field_count := length fs\<rparr>) n =
    build_cache_key (inp\<lparr>ck_selected_fields := Some gs, ck_selected_field_count := length gs\<rparr>) n"
proof -
  have "short_names gs" using assms(1,4) by (simp add: short_names_def)
  then have "key_fields (inp\<lparr>ck_selected_fields := Some fs, ck_selected_field_count := length fs\<rparr>) =
      key_fields (inp\<lparr>ck_selected_fields := Some gs, ck_selected_field_count := length gs\<rparr>)"
    using assms key_fields_canonical [of "inp\<lparr>ck_selected_fields := Some fs, ck_selected_field_count := length fs\<rparr>" fs]
      key_fields_canonical [of "inp\<lparr>ck_selected_fields := Some gs, ck_selected_field_count := length gs\<rparr>" gs]
    by simp
  then show ?thesis
    by (simp add: build_cache_key_eq key_input_ok_def key_fits_def key_text_def key_head_def vary_text_def
        scope_text_def)
qed

theorem cache_key_fields_as_set_witness:
  "build_cache_key ((sample_input 1 ''/o'' '''')\<lparr>ck_selected_fields := Some [''b'', ''a'', ''b''], ck_selected_field_count := 3\<rparr>) 1024 =
   build_cache_key ((sample_input 1 ''/o'' '''')\<lparr>ck_selected_fields := Some [''a'', ''b''], ck_selected_field_count := 2\<rparr>) 1024"
proof -
  have s: "set [''b'', ''a'', ''b''] = set [''a'', ''b'']" by auto
  have "short_names [''b'', ''a'', ''b'']" by (simp add: short_names_def limit_defs)
  from cache_key_fields_as_set [OF s _ _ this, of "sample_input 1 ''/o'' ''''" 1024] show ?thesis
    by (simp add: limit_defs numeral_2_eq_2 numeral_3_eq_3)
qed

section \<open>The sanitised query\<close>

function split_params :: "string \<Rightarrow> string list" where
  "split_params p =
     (if p = '''' then []
      else takeWhile (\<lambda>c. c \<noteq> CHR ''&'') p #
           split_params (drop (Suc (length (takeWhile (\<lambda>c. c \<noteq> CHR ''&'') p))) p))"
  by pat_completeness auto
termination
  by (relation "measure length") auto

declare split_params.simps [simp del]

definition is_fields_param :: "string \<Rightarrow> bool" where
  "is_fields_param p \<longleftrightarrow> take 7 p = ''fields=''"

definition kept_params :: "string \<Rightarrow> string list" where
  "kept_params p = filter (\<lambda>s. s \<noteq> '''' \<and> \<not> is_fields_param s) (split_params p)"

lemma is_fields_param_iff:
  "length p \<ge> 7 \<and> strncmp_eq 7 p ''fields='' \<longleftrightarrow> is_fields_param p"
proof
  assume "is_fields_param p"
  then have t: "take 7 p = ''fields=''" by (simp add: is_fields_param_def)
  then have "length (take 7 p) = 7" by simp
  then have "length p \<ge> 7" by simp
  with t show "length p \<ge> 7 \<and> strncmp_eq 7 p ''fields=''" by (simp add: strncmp_eq_def)
qed (simp add: strncmp_eq_def is_fields_param_def)

lemma strip_params_spec:
  assumes "p = '''' \<or> length p + (if first then 0 else 1) \<le> unat rem"
  shows "strip_params p first dest rem =
    Some (dest @ (if first then join ''&'' (kept_params p) else concat (map ((@) ''&'') (kept_params p))))"
  using assms
proof (induction p first dest rem rule: strip_params.induct)
  case (1 p first dest rem)
  show ?case
  proof (cases "p = ''''")
    case True
    then show ?thesis by (simp add: strip_params.simps kept_params_def split_params.simps)
  next
    case False
    let ?t = "takeWhile (\<lambda>c. c \<noteq> CHR ''&'') p"
    let ?r = "drop (Suc (length ?t)) p"
    let ?n = "word_of_nat (length ?t) + (if first then 0 else 1) :: u64"
    have lt: "length ?t \<le> length p" by (rule length_takeWhile_le)
    have fit: "length p + (if first then 0 else 1) \<le> unat rem" using 1(3) False by simp
    have k: "kept_params p = (if ?t \<noteq> '''' \<and> \<not> is_fields_param ?t then [?t] else []) @ kept_params ?r"
      using False by (simp add: kept_params_def split_params.simps [of p])
    show ?thesis
    proof (cases "?t \<noteq> '''' \<and> \<not> is_fields_param ?t")
      case True
      have m: "length ?t + (if first then 0 else 1) < 2 ^ 64"
        using lt fit unat_u64_less [of rem] by (auto split: if_splits)
      then have n: "unat ?n = length ?t + (if first then 0 else 1)"
        by (auto simp: unat_word_ariths unat_of_nat)
      have le: "\<not> rem < ?n" using n lt fit by (simp add: word_less_nat_alt)
      have r: "?r = '''' \<or> length ?r + 1 \<le> unat (rem - ?n)"
        using fit n le lt by (auto simp: unat_sub not_less split: if_splits)
      have "strip_params p first dest rem = strip_params ?r False (dest @ (if first then '''' else ''&'') @ ?t) (rem - ?n)"
        using False True le is_fields_param_iff [of ?t]
        by (subst strip_params.simps) (simp add: Let_def)
      also have "\<dots> = Some ((dest @ (if first then '''' else ''&'') @ ?t) @ concat (map ((@) ''&'') (kept_params ?r)))"
        using 1(1) [of ?t ?r _ ?n] False True le is_fields_param_iff [of ?t] r by auto
      finally show ?thesis using k True by simp
    next
      case skip: False
      have r: "?r = '''' \<or> length ?r + (if first then 0 else 1) \<le> unat rem" using fit by auto
      have "strip_params p first dest rem = strip_params ?r first dest rem"
        using False skip is_fields_param_iff [of ?t]
        by (subst strip_params.simps) (auto simp: Let_def)
      also have "\<dots> = Some (dest @ (if first then join ''&'' (kept_params ?r) else concat (map ((@) ''&'') (kept_params ?r))))"
        using 1(2) [of ?t ?r] False skip is_fields_param_iff [of ?t] r by auto
      finally show ?thesis using k skip by simp
    qed
  qed
qed

text \<open>
  The sanitised query is the query without its \<^verbatim>\<open>fields=\<close> parameters and without empty
  parameters, the others kept as they are and in order, for every query that fits the buffer.
\<close>

theorem sanitize_query_spec:
  assumes "length q < out_size" and "out_size < 2 ^ 64"
  shows "sanitize_query_strip_fields_param (Some q) out_size =
    (let lead = (q \<noteq> '''' \<and> hd q = CHR ''?''); ks = kept_params (if lead then tl q else q)
     in if ks = [] then '''' else (if lead then ''?'' else '''') @ join ''&'' ks)"
proof -
  let ?lead = "q \<noteq> '''' \<and> hd q = CHR ''?''"
  let ?p = "if ?lead then tl q else q"
  define r where "r = (word_of_nat (out_size - 1) :: u64)"
  let ?rem = "r - (if ?lead then 1 else 0)"
  have u: "unat r = out_size - 1"
    using assms(2) by (simp add: r_def unat_of_nat del: of_nat_diff)
  have "length ?p \<le> unat ?rem"
  proof (cases ?lead)
    case True
    then have "1 \<le> r"
      using u assms(1) by (cases q) (auto simp: word_le_nat_alt)
    with True u assms(1) show ?thesis by (simp add: unat_sub)
  next
    case False
    then have "?p = q" "?rem = r" by auto
    with u assms(1) show ?thesis by simp
  qed
  then have s: "strip_params ?p True '''' ?rem = Some (join ''&'' (kept_params ?p))"
    using strip_params_spec [of ?p True ?rem "''''"] by simp
  have "\<forall>s\<in>set (kept_params ?p). s \<noteq> ''''" by (simp add: kept_params_def)
  then have j: "join ''&'' (kept_params ?p) = '''' \<longleftrightarrow> kept_params ?p = []"
    by (cases "kept_params ?p") auto
  show ?thesis
    using assms(1)
    by (simp only: sanitize_query_strip_fields_param_def option.case Let_def r_def [symmetric] s j) simp
qed

theorem sanitize_query_spec_witness:
  "sanitize_query_strip_fields_param (Some ''?a=1&fields=x,y&b=2'') 64 = ''?a=1&b=2''"
  using sanitize_query_spec [of "''?a=1&fields=x,y&b=2''" 64]
  by (simp add: kept_params_def split_params.simps is_fields_param_def Let_def)

end
