(* ===== verification/Cache_Entry.thy ===== *)
theory Cache_Entry
  imports Hash
begin

text \<open>
  The cache entry and what the cache decides from it alone: expiry and time to live, the
  bypass for authenticated requests and the scope and vary hashes
  (\<^verbatim>\<open>src/cache/cache_entry.cpp\<close>, \<^verbatim>\<open>cache_ttl.cpp\<close>, \<^verbatim>\<open>cache_safety.cpp\<close>), and the fixed-layout codec
  of the second cache level (\<^verbatim>\<open>cache_entry_codec.cpp\<close>), on the little-endian byte order of the
  supported targets.

  A \<^verbatim>\<open>char[N]\<close> member is its C string; the body pointer is the bytes it points to. Time stamps
  are the integers of their \<^verbatim>\<open>int64_t\<close>.
\<close>

unbundle bit_operations_syntax

section \<open>Entries\<close>

definition kCacheKeyMaxLen :: nat where "kCacheKeyMaxLen = 1024"
definition kCacheContentTypeMaxLen :: nat where "kCacheContentTypeMaxLen = 64"

record CacheEntry =
  ent_key :: string
  ent_status_code :: u16
  ent_content_type :: string
  ent_body :: "string option"
  ent_body_len :: nat
  ent_original_body_len :: nat
  ent_removed_fields :: u16
  ent_created_at_epoch_ms :: int
  ent_expires_at_epoch_ms :: int

definition CacheEntry_default :: CacheEntry where
  "CacheEntry_default = \<lparr>ent_key = '''', ent_status_code = 0, ent_content_type = '''', ent_body = None,
     ent_body_len = 0, ent_original_body_len = 0, ent_removed_fields = 0,
     ent_created_at_epoch_ms = 0, ent_expires_at_epoch_ms = 0\<rparr>"

definition is_expired :: "CacheEntry \<Rightarrow> int \<Rightarrow> bool" where
  "is_expired entry now_ms \<longleftrightarrow>
     (if ent_expires_at_epoch_ms entry = 0 then False else now_ms \<ge> ent_expires_at_epoch_ms entry)"

definition cache_ttl_valid :: "int \<Rightarrow> int \<Rightarrow> bool" where
  "cache_ttl_valid now_ms expires_at_epoch_ms \<longleftrightarrow>
     (if expires_at_epoch_ms \<le> 0 then False else now_ms < expires_at_epoch_ms)"

section \<open>Safety\<close>

definition cache_auth_bypass :: "bool \<Rightarrow> bool \<Rightarrow> bool \<Rightarrow> bool" where
  "cache_auth_bypass has_authorization has_cookie private_cache_enabled \<longleftrightarrow>
     (if private_cache_enabled then False else has_authorization \<or> has_cookie)"

text \<open>The FNV-1a loop of both hash builders.\<close>

definition fnv1a :: "string \<Rightarrow> u64" where
  "fnv1a s = foldl (\<lambda>h c. (h XOR word_of_nat (char_code c)) * 1099511628211) 14695981039346656037 s"

definition build_private_cache_scope_hash :: "string option \<Rightarrow> nat \<Rightarrow> string option" where
  "build_private_cache_scope_hash raw_scope out_size =
     (case raw_scope of None \<Rightarrow> None
      | Some s \<Rightarrow> if length s = 0 \<or> out_size < 17 then None else Some (hex16 (fnv1a s)))"

definition build_cache_vary_value_hash :: "string option \<Rightarrow> nat \<Rightarrow> string option" where
  "build_cache_vary_value_hash raw_value out_size =
     (case raw_value of None \<Rightarrow> None
      | Some s \<Rightarrow> if length s = 0 \<or> out_size < 17 then None else Some (hex16 (fnv1a s)))"

section \<open>The codec\<close>

definition kCacheEntryEncodedOverhead :: nat where
  "kCacheEntryEncodedOverhead = kCacheKeyMaxLen + 2 + kCacheContentTypeMaxLen + 8 + 8 + 8"

text \<open>A \<^verbatim>\<open>memcpy\<close> from an integer: its low \<open>n\<close> bytes, least significant first.\<close>

definition le_encode :: "nat \<Rightarrow> u64 \<Rightarrow> string" where
  "le_encode n w = map (\<lambda>i. char_of (unat (take_bit 8 (drop_bit (8 * i) w)))) [0..<n]"

text \<open>A zero-initialised \<^verbatim>\<open>char[n]\<close> that holds a C string.\<close>

definition char_array :: "nat \<Rightarrow> string \<Rightarrow> string" where
  "char_array n s = s @ replicate (n - length s) NUL"

text \<open>
  The bytes written, \<open>None\<close> for the return value 0. The body bytes of an entry with a length
  but no body are left as they were in the buffer.
\<close>

definition cache_entry_encode :: "CacheEntry \<Rightarrow> string \<Rightarrow> string option" where
  "cache_entry_encode entry buf =
     (if length buf < kCacheEntryEncodedOverhead + ent_body_len entry then None
      else Some
        (char_array kCacheKeyMaxLen (ent_key entry) @
         le_encode 2 (ucast (ent_status_code entry)) @
         char_array kCacheContentTypeMaxLen (ent_content_type entry) @
         le_encode 8 (word_of_nat (ent_body_len entry)) @
         le_encode 8 (word_of_int (ent_created_at_epoch_ms entry)) @
         le_encode 8 (word_of_int (ent_expires_at_epoch_ms entry)) @
         (case ent_body entry of
            Some b \<Rightarrow> take (ent_body_len entry) b
          | None \<Rightarrow> take (ent_body_len entry) (drop kCacheEntryEncodedOverhead buf))))"

datatype DecodeResult =
    DecodeFail CacheEntry
  | DecodeOk CacheEntry
  | DecodeOverread nat

text \<open>
  The buffer, the entry it is decoded into, and the capacity of the body buffer (\<open>None\<close> when it
  is null). \<open>DecodeOverread n\<close> is the \<^verbatim>\<open>memcpy\<close> of \<open>n\<close> body bytes from beyond the end of the
  buffer, which the source does not check.
\<close>

definition cache_entry_decode :: "string option \<Rightarrow> CacheEntry \<Rightarrow> nat option \<Rightarrow> nat \<Rightarrow> DecodeResult" where
  "cache_entry_decode buf out body_buf body_buf_size =
     (case buf of
        None \<Rightarrow> DecodeFail out
      | Some p \<Rightarrow>
          if length p < kCacheEntryEncodedOverhead then DecodeFail out
          else
            (let key = cstr (take kCacheKeyMaxLen p);
                 p = drop kCacheKeyMaxLen p;
                 sc = ucast (le_bytes 0 (take 2 p));
                 p = drop 2 p;
                 ct = cstr (take kCacheContentTypeMaxLen p);
                 p = drop kCacheContentTypeMaxLen p;
                 bl = unat (le_bytes 0 (take 8 p));
                 p = drop 8 p;
                 ca = sint (le_bytes 0 (take 8 p));
                 p = drop 8 p;
                 ea = sint (le_bytes 0 (take 8 p));
                 p = drop 8 p;
                 out = out\<lparr>ent_key := key, ent_status_code := sc, ent_content_type := ct,
                           ent_body_len := bl, ent_created_at_epoch_ms := ca,
                           ent_expires_at_epoch_ms := ea\<rparr>
             in if bl > body_buf_size then DecodeFail out
                else if bl > 0 then
                  (if body_buf = None then DecodeFail out
                   else if bl > length p then DecodeOverread (bl - length p)
                   else DecodeOk (out\<lparr>ent_body := Some (take bl p)\<rparr>))
                else DecodeOk (out\<lparr>ent_body := None\<rparr>)))"

section \<open>Facts\<close>

lemma hex16_hex: "c \<in> set (hex16 w) \<Longrightarrow> is_hex c"
  using list_all_is_hex_hex16 [of w] by (simp add: list_all_iff)

lemma not_hex_separators: "\<not> is_hex CHR ''|''" "\<not> is_hex CHR '',''" "\<not> is_hex CHR ''=''"
  by (simp_all add: is_hex_def char_code_def)

text \<open>
  Scope and vary hashes are sixteen hexadecimal digits, so no separator of a cache key occurs
  in them.
\<close>

lemma scope_hash_plain:
  assumes "build_private_cache_scope_hash raw n = Some h"
  shows "length h = 16" and "CHR ''|'' \<notin> set h" and "CHR '','' \<notin> set h" and "CHR ''='' \<notin> set h"
proof -
  from assms obtain s where h: "h = hex16 (fnv1a s)"
    by (auto simp: build_private_cache_scope_hash_def split: option.splits if_splits)
  then show "length h = 16" by simp
  show "CHR ''|'' \<notin> set h" "CHR '','' \<notin> set h" "CHR ''='' \<notin> set h"
    using h hex16_hex [of _ "fnv1a s"] not_hex_separators by blast+
qed

lemma bit_le_bytes:
  "bit (le_bytes i cs) n \<longleftrightarrow> n < 64 \<and> 8 * i \<le> n \<and> (n - 8 * i) div 8 < length cs \<and>
     bit (char_code (cs ! ((n - 8 * i) div 8))) ((n - 8 * i) mod 8)"
proof (induction i cs rule: le_bytes.induct)
  case (2 i c cs)
  have b: "bit (char_code c) k \<Longrightarrow> k < 8" for k
  proof -
    assume "bit (char_code c) k"
    moreover have "char_code c = take_bit 8 (char_code c)"
      by (simp add: take_bit_nat_eq_self)
    ultimately show "k < 8" by (metis bit_take_bit_iff)
  qed
  have first: "bit (push_bit (8 * i) (word_of_nat (char_code c) :: u64)) n \<longleftrightarrow>
      n < 64 \<and> 8 * i \<le> n \<and> bit (char_code c) (n - 8 * i)"
    by (auto simp: bit_push_bit_iff bit_of_nat_iff)
  show ?case
  proof (cases "8 * Suc i \<le> n")
    case True
    then have d: "(n - 8 * i) div 8 = Suc ((n - 8 * Suc i) div 8)" "(n - 8 * i) mod 8 = (n - 8 * Suc i) mod 8"
      by (auto simp: le_iff_add)
    have "\<not> bit (char_code c) (n - 8 * i)" using True b by fastforce
    with True d 2 first show ?thesis by (simp add: bit_or_iff)
  next
    case False
    then have d: "8 * i \<le> n \<Longrightarrow> (n - 8 * i) div 8 = 0 \<and> (n - 8 * i) mod 8 = n - 8 * i" by auto
    with False 2 first show ?thesis by (auto simp: bit_or_iff)
  qed
qed simp

lemma length_le_encode [simp]: "length (le_encode n w) = n"
  by (simp add: le_encode_def)

lemma le_bytes_le_encode:
  assumes "n \<le> 8"
  shows "le_bytes 0 (le_encode n w) = take_bit (8 * n) w"
proof (rule bit_word_eqI)
  fix k
  assume "k < LENGTH(64)"
  then have k: "k < 64" by simp
  have byte: "unat (take_bit 8 (drop_bit (8 * i) w)) < 256" for i
    using take_bit_nat_less_exp [of 8 "unat (drop_bit (8 * i) w)"] by (simp add: unsigned_take_bit_eq)
  have "bit (unat (take_bit 8 (drop_bit (8 * (k div 8)) w))) (k mod 8) \<longleftrightarrow> bit w k"
    using k by (simp add: bit_unsigned_iff bit_take_bit_iff bit_drop_bit_eq)
  then have "bit (char_code (char_of (unat (take_bit 8 (drop_bit (8 * (k div 8)) w))))) (k mod 8) \<longleftrightarrow> bit w k"
    by (simp only: char_code_char_of [OF byte])
  then have "bit (le_bytes 0 (le_encode n w)) k \<longleftrightarrow> k div 8 < n \<and> bit w k"
    using k by (auto simp: bit_le_bytes le_encode_def)
  moreover have "k div 8 < n \<longleftrightarrow> k < 8 * n" by linarith
  ultimately show "bit (le_bytes 0 (le_encode n w)) k = bit (take_bit (8 * n) w) k"
    by (simp add: bit_take_bit_iff)
qed

lemma char_array_length: "length s \<le> n \<Longrightarrow> length (char_array n s) = n"
  by (simp add: char_array_def)

lemma cstr_char_array: "length s < n \<Longrightarrow> NUL \<notin> set s \<Longrightarrow> cstr (char_array n s) = s"
proof -
  assume "length s < n" "NUL \<notin> set s"
  then obtain k where "n - length s = Suc k" using not0_implies_Suc [of "n - length s"] by auto
  with \<open>NUL \<notin> set s\<close> show ?thesis
    by (simp add: char_array_def cstr_def) (metis (mono_tags, lifting) takeWhile_append2 takeWhile.simps(2) append.right_neutral)
qed

definition entry_wf :: "CacheEntry \<Rightarrow> bool" where
  "entry_wf e \<longleftrightarrow> length (ent_key e) < kCacheKeyMaxLen \<and> NUL \<notin> set (ent_key e) \<and>
     length (ent_content_type e) < kCacheContentTypeMaxLen \<and> NUL \<notin> set (ent_content_type e) \<and>
     ent_body_len e < 2 ^ 64 \<and>
     (case ent_body e of None \<Rightarrow> ent_body_len e = 0 | Some b \<Rightarrow> ent_body_len e = length b \<and> b \<noteq> []) \<and>
     - (2 ^ 63) \<le> ent_created_at_epoch_ms e \<and> ent_created_at_epoch_ms e < 2 ^ 63 \<and>
     - (2 ^ 63) \<le> ent_expires_at_epoch_ms e \<and> ent_expires_at_epoch_ms e < 2 ^ 63"

lemma le_encode_u64: "le_bytes 0 (le_encode 8 w) = w"
proof -
  have "take_bit 64 w = w" by (rule bit_word_eqI) (simp add: bit_take_bit_iff)
  then show ?thesis using le_bytes_le_encode [of 8 w] by simp
qed

lemma le_encode_u16: "ucast (le_bytes 0 (le_encode 2 (ucast (s :: u16)))) = s"
proof -
  have "take_bit 16 (ucast s :: u64) = ucast s"
    by (rule bit_word_eqI) (auto simp: bit_take_bit_iff bit_unsigned_iff dest: bit_imp_le_length)
  then have "le_bytes 0 (le_encode 2 (ucast s)) = ucast s"
    using le_bytes_le_encode [of 2 "ucast s"] by simp
  moreover have "ucast (ucast s :: u64) = s"
    by (rule bit_word_eqI) (simp add: bit_unsigned_iff)
  ultimately show ?thesis by simp
qed

lemma sint_of_int_u64: "- (2 ^ 63) \<le> t \<Longrightarrow> t < 2 ^ 63 \<Longrightarrow> sint (word_of_int t :: u64) = t"
  by (simp add: signed_take_bit_int_eq_self sint_sbintrunc')

lemma encode_decode:
  assumes "entry_wf e" and "kCacheEntryEncodedOverhead + ent_body_len e \<le> length buf"
    and "ent_body_len e \<le> cap"
  shows "\<exists>bytes. cache_entry_encode e buf = Some bytes \<and>
    length bytes = kCacheEntryEncodedOverhead + ent_body_len e \<and>
    cache_entry_decode (Some bytes) out (Some cap) cap =
      DecodeOk (e\<lparr>ent_original_body_len := ent_original_body_len out,
                  ent_removed_fields := ent_removed_fields out\<rparr>)"
proof -
  define body where "body = (case ent_body e of Some b \<Rightarrow> take (ent_body_len e) b
      | None \<Rightarrow> take (ent_body_len e) (drop kCacheEntryEncodedOverhead buf))"
  have wf: "length (ent_key e) < kCacheKeyMaxLen" "NUL \<notin> set (ent_key e)"
    "length (ent_content_type e) < kCacheContentTypeMaxLen" "NUL \<notin> set (ent_content_type e)"
    "ent_body_len e < 2 ^ 64"
    "sint (word_of_int (ent_created_at_epoch_ms e) :: u64) = ent_created_at_epoch_ms e"
    "sint (word_of_int (ent_expires_at_epoch_ms e) :: u64) = ent_expires_at_epoch_ms e"
    using assms(1) by (simp_all add: entry_wf_def sint_of_int_u64)
  have body: "length body = ent_body_len e" "ent_body_len e = 0 \<Longrightarrow> ent_body e = None"
    "ent_body_len e > 0 \<Longrightarrow> ent_body e = Some body"
    using assms(1,2) by (auto simp: body_def entry_wf_def split: option.splits)
  have bl: "unat (word_of_nat (ent_body_len e) :: u64) = ent_body_len e"
    using wf(5) by (simp add: unat_of_nat)
  let ?k = "char_array kCacheKeyMaxLen (ent_key e)"
  let ?c = "char_array kCacheContentTypeMaxLen (ent_content_type e)"
  have len: "length ?k = kCacheKeyMaxLen" "length ?c = kCacheContentTypeMaxLen"
    using wf(1,3) by (simp_all add: char_array_length)
  define bytes where "bytes = ?k @ le_encode 2 (ucast (ent_status_code e)) @ ?c @
      le_encode 8 (word_of_nat (ent_body_len e)) @ le_encode 8 (word_of_int (ent_created_at_epoch_ms e)) @
      le_encode 8 (word_of_int (ent_expires_at_epoch_ms e)) @ body"
  have enc: "cache_entry_encode e buf = Some bytes"
    using assms(2) by (simp add: cache_entry_encode_def bytes_def body_def)
  have lb: "length bytes = kCacheEntryEncodedOverhead + ent_body_len e"
    using len body(1) by (simp add: bytes_def kCacheEntryEncodedOverhead_def)
  have "cache_entry_decode (Some bytes) out (Some cap) cap =
      DecodeOk (e\<lparr>ent_original_body_len := ent_original_body_len out,
                  ent_removed_fields := ent_removed_fields out\<rparr>)"
    using lb assms(3) wf bl body len
    by (auto simp: cache_entry_decode_def bytes_def Let_def le_encode_u64 le_encode_u16 cstr_char_array)
  with enc lb show ?thesis by blast
qed

lemma decode_too_large:
  assumes "entry_wf e" and "cache_entry_encode e buf = Some bytes" and "cap < ent_body_len e"
  shows "\<exists>o'. cache_entry_decode (Some bytes) out (Some cap) cap = DecodeFail o'"
proof -
  let ?k = "char_array kCacheKeyMaxLen (ent_key e)"
  let ?c = "char_array kCacheContentTypeMaxLen (ent_content_type e)"
  have len: "length ?k = kCacheKeyMaxLen" "length ?c = kCacheContentTypeMaxLen"
    using assms(1) by (simp_all add: char_array_length entry_wf_def)
  have bl: "unat (word_of_nat (ent_body_len e) :: u64) = ent_body_len e"
    using assms(1) by (simp add: entry_wf_def unat_of_nat)
  show ?thesis
    using assms(2,3) bl len
    by (auto simp: cache_entry_encode_def cache_entry_decode_def Let_def le_encode_u64 kCacheEntryEncodedOverhead_def
        split: if_splits)
qed

text \<open>
  (C30) The codec round trip: an entry that fits the buffer encodes to its overhead plus its body,
  and decoding those bytes gives the entry back, key, status, content type, body and both time
  stamps; the two filter statistics are not stored and keep the value of the target entry.
\<close>

theorem cache_entry_roundtrip:
  assumes "entry_wf e" and "kCacheEntryEncodedOverhead + ent_body_len e \<le> length buf"
    and "ent_body_len e \<le> cap"
  shows "\<exists>bytes. cache_entry_encode e buf = Some bytes \<and>
    length bytes = kCacheEntryEncodedOverhead + ent_body_len e \<and>
    cache_entry_decode (Some bytes) out (Some cap) cap =
      DecodeOk (e\<lparr>ent_original_body_len := ent_original_body_len out,
                  ent_removed_fields := ent_removed_fields out\<rparr>)"
  using assms by (rule encode_decode)

theorem cache_entry_roundtrip_witness:
  "let e = CacheEntry_default\<lparr>ent_key := ''GET|r'', ent_status_code := 200, ent_body := Some ''x'',
         ent_body_len := 1, ent_created_at_epoch_ms := 5\<rparr>
   in \<exists>bytes. cache_entry_encode e (replicate 2000 NUL) = Some bytes \<and> length bytes = 1115 \<and>
        cache_entry_decode (Some bytes) CacheEntry_default (Some 16) 16 = DecodeOk e"
proof -
  let ?e = "CacheEntry_default\<lparr>ent_key := ''GET|r'', ent_status_code := 200, ent_body := Some ''x'',
         ent_body_len := 1, ent_created_at_epoch_ms := 5\<rparr>"
  have "entry_wf ?e"
    by (simp add: entry_wf_def CacheEntry_default_def NUL_def kCacheKeyMaxLen_def kCacheContentTypeMaxLen_def)
  from cache_entry_roundtrip [OF this, of "replicate 2000 NUL" 16 CacheEntry_default] show ?thesis
    by (simp add: CacheEntry_default_def kCacheEntryEncodedOverhead_def kCacheKeyMaxLen_def
        kCacheContentTypeMaxLen_def)
qed

text \<open>
  (C31) The decoder trusts the stored length: of the encoding of any entry that the body buffer can hold, cut off before its
  end, it recognises only a cut inside the fixed header. A cut inside the body makes it copy all the bytes that
  are missing from beyond the end of the buffer.
\<close>

theorem cache_entry_decode_overread:
  assumes "entry_wf e" and "cache_entry_encode e buf = Some bytes" and "ent_body_len e \<le> cap" and "m < length bytes"
  shows "cache_entry_decode (Some (take m bytes)) out (Some cap) cap =
    (if m < kCacheEntryEncodedOverhead then DecodeFail out else DecodeOverread (length bytes - m))"
proof (cases "m < kCacheEntryEncodedOverhead")
  case False
  let ?k = "char_array kCacheKeyMaxLen (ent_key e)"
  let ?c = "char_array kCacheContentTypeMaxLen (ent_content_type e)"
  have len: "length ?k = kCacheKeyMaxLen" "length ?c = kCacheContentTypeMaxLen"
    using assms(1) by (simp_all add: char_array_length entry_wf_def)
  have bl: "unat (word_of_nat (ent_body_len e) :: u64) = ent_body_len e"
    using assms(1) by (simp add: entry_wf_def unat_of_nat)
  from assms(1,2) obtain body where body: "length body = ent_body_len e" and
    bytes: "bytes = ?k @ le_encode 2 (ucast (ent_status_code e)) @ ?c @ le_encode 8 (word_of_nat (ent_body_len e)) @
      le_encode 8 (word_of_int (ent_created_at_epoch_ms e)) @ le_encode 8 (word_of_int (ent_expires_at_epoch_ms e)) @ body"
    by (auto simp: cache_entry_encode_def entry_wf_def split: if_splits option.splits)
  define n where "n = m - kCacheEntryEncodedOverhead"
  have m: "m = kCacheEntryEncodedOverhead + n" using False by (simp add: n_def)
  have lb: "length bytes = kCacheEntryEncodedOverhead + ent_body_len e"
    using len body by (simp add: bytes kCacheEntryEncodedOverhead_def)
  then have n: "n < ent_body_len e" using assms(4) m by simp
  have "take m bytes = ?k @ le_encode 2 (ucast (ent_status_code e)) @ ?c @ le_encode 8 (word_of_nat (ent_body_len e)) @
      le_encode 8 (word_of_int (ent_created_at_epoch_ms e)) @ le_encode 8 (word_of_int (ent_expires_at_epoch_ms e)) @ take n body"
    by (simp add: bytes m len kCacheEntryEncodedOverhead_def)
  then show ?thesis
    using False n lb m body assms(3) bl len
    by (simp add: cache_entry_decode_def Let_def le_encode_u64 kCacheEntryEncodedOverhead_def)
qed (use assms(4) in \<open>simp add: cache_entry_decode_def\<close>)

theorem cache_entry_decode_overread_witness:
  "let e = CacheEntry_default\<lparr>ent_key := ''GET|r'', ent_status_code := 200, ent_body := Some ''body'', ent_body_len := 4\<rparr>
   in \<exists>bytes. cache_entry_encode e (replicate 2000 NUL) = Some bytes \<and>
        cache_entry_decode (Some (take 1115 bytes)) CacheEntry_default (Some 16) 16 = DecodeOverread 3"
proof -
  let ?e = "CacheEntry_default\<lparr>ent_key := ''GET|r'', ent_status_code := 200, ent_body := Some ''body'', ent_body_len := 4\<rparr>"
  have wf: "entry_wf ?e"
    by (simp add: entry_wf_def CacheEntry_default_def NUL_def kCacheKeyMaxLen_def kCacheContentTypeMaxLen_def)
  obtain bytes where b: "cache_entry_encode ?e (replicate 2000 NUL) = Some bytes" "length bytes = 1118"
    using encode_decode [OF wf, of "replicate 2000 NUL" 4 CacheEntry_default]
    by (auto simp: kCacheEntryEncodedOverhead_def kCacheKeyMaxLen_def kCacheContentTypeMaxLen_def)
  from cache_entry_decode_overread [OF wf b(1), of 16 1115 CacheEntry_default] b show ?thesis
    by (simp add: Let_def kCacheEntryEncodedOverhead_def kCacheKeyMaxLen_def kCacheContentTypeMaxLen_def)
qed

end
