(* ===== verification/L1_Cache.thy ===== *)
theory L1_Cache
  imports Cache_Key Cache_Entry Metrics
begin

text \<open>
  The first cache level, \<^verbatim>\<open>src/cache/l1_cache.cpp\<close>: 256 shards of 16 slots, chosen by the keyed
  hash of the key, with a ring cursor for eviction. Each operation holds the mutex of one
  shard, so operations are atomic and a run is a sequence of them.

  \<open>coherent_cache\<close> is the contract a caller relies on: what a lookup can return after an
  operation. Its one law gives, for every sequence of operations, that a hit is the value of
  the last write of that very key; the L1 cache is interpreted as such a cache.

  The cursor is a \<^verbatim>\<open>size_t\<close> of which only the value modulo 16 is used, so it is a natural
  number; generations are 32-bit and wrap.
\<close>

section \<open>Data\<close>

definition kL1ShardCount :: nat where "kL1ShardCount = 256"
definition kL1SlotsPerShard :: nat where "kL1SlotsPerShard = 16"
definition kL1MaxBodySize :: nat where "kL1MaxBodySize = 3072"

record L1CacheShard =
  sh_slots :: "CacheEntry list"
  sh_bodies :: "string list"
  sh_generations :: "u32 list"
  sh_key_hashes :: "u64 list"
  sh_write_cursor :: nat

record L1Cache =
  l1_shards :: "L1CacheShard list"

datatype L1RemoveResult = L1Removed | L1Miss | L1InvalidArgument

record L1RouteNamespaceCleanupRequest =
  cl_route_id :: "string option"
  cl_old_epoch :: u64
  cl_old_policy_identity :: "string option"
  cl_include_variant_entries :: bool

record L1RouteNamespaceCleanupResult =
  cl_ok :: bool
  cl_removed_count :: nat
  cl_error :: string

section \<open>Slots\<close>

definition copy_body_to_slot :: "L1CacheShard \<Rightarrow> nat \<Rightarrow> CacheEntry \<Rightarrow> L1CacheShard" where
  "copy_body_to_slot shard slot_idx entry =
     (case ent_body entry of
        Some body \<Rightarrow>
          if ent_body_len entry = 0 then
            shard\<lparr>sh_bodies := (sh_bodies shard)[slot_idx := replicate kL1MaxBodySize NUL],
                  sh_slots := (sh_slots shard)[slot_idx :=
                    (sh_slots shard ! slot_idx)\<lparr>ent_body := None, ent_body_len := 0\<rparr>]\<rparr>
          else
            (let copy_len = (if ent_body_len entry > kL1MaxBodySize then kL1MaxBodySize
                             else ent_body_len entry);
                 bytes = take copy_len body
             in shard\<lparr>sh_bodies := (sh_bodies shard)[slot_idx :=
                        bytes @ replicate (kL1MaxBodySize - copy_len) NUL],
                      sh_slots := (sh_slots shard)[slot_idx :=
                        (sh_slots shard ! slot_idx)\<lparr>ent_body := Some bytes, ent_body_len := copy_len\<rparr>]\<rparr>)
      | None \<Rightarrow>
          shard\<lparr>sh_bodies := (sh_bodies shard)[slot_idx := replicate kL1MaxBodySize NUL],
                sh_slots := (sh_slots shard)[slot_idx :=
                  (sh_slots shard ! slot_idx)\<lparr>ent_body := None, ent_body_len := 0\<rparr>]\<rparr>)"

definition clear_slot :: "L1CacheShard \<Rightarrow> nat \<Rightarrow> L1CacheShard" where
  "clear_slot shard slot_idx =
     shard\<lparr>sh_slots := (sh_slots shard)[slot_idx := CacheEntry_default],
           sh_bodies := (sh_bodies shard)[slot_idx := replicate kL1MaxBodySize NUL],
           sh_generations := (sh_generations shard)[slot_idx := 0],
           sh_key_hashes := (sh_key_hashes shard)[slot_idx := 0]\<rparr>"

definition l1_can_store_entry :: "CacheEntry \<Rightarrow> bool" where
  "l1_can_store_entry entry \<longleftrightarrow>
     (if ent_body_len entry > kL1MaxBodySize then False
      else if ent_body_len entry > 0 \<and> ent_body entry = None then False
      else True)"

definition empty_shard :: L1CacheShard where
  "empty_shard =
     \<lparr>sh_slots = replicate kL1SlotsPerShard CacheEntry_default,
      sh_bodies = replicate kL1SlotsPerShard (replicate kL1MaxBodySize NUL),
      sh_generations = replicate kL1SlotsPerShard 0,
      sh_key_hashes = replicate kL1SlotsPerShard 0,
      sh_write_cursor = 0\<rparr>"

definition l1_init :: "L1Cache option \<Rightarrow> L1Cache option" where
  "l1_init cachep = map_option (\<lambda>c. c\<lparr>l1_shards := replicate kL1ShardCount empty_shard\<rparr>) cachep"

section \<open>Stores\<close>

definition shard_idx :: "u64 \<Rightarrow> nat" where
  "shard_idx h = unat h mod kL1ShardCount"

text \<open>The scan for a live slot of the key.\<close>

definition duplicate_slot :: "L1CacheShard \<Rightarrow> u64 \<Rightarrow> string \<Rightarrow> nat option" where
  "duplicate_slot shard h key =
     find_index (\<lambda>i. sh_generations shard ! i > 0 \<and> sh_key_hashes shard ! i = h \<and>
                     ent_key (sh_slots shard ! i) = key) [0..<kL1SlotsPerShard]"

definition store_slot :: "L1CacheShard \<Rightarrow> nat \<Rightarrow> u64 \<Rightarrow> CacheEntry \<Rightarrow> bool \<Rightarrow> L1CacheShard" where
  "store_slot shard target_slot h entry found =
     (let shard = shard\<lparr>sh_slots := (sh_slots shard)[target_slot := entry]\<rparr>;
          shard = copy_body_to_slot shard target_slot entry;
          shard = shard\<lparr>sh_key_hashes := (sh_key_hashes shard)[target_slot := h],
                        sh_generations := (sh_generations shard)[target_slot :=
                          sh_generations shard ! target_slot + 1]\<rparr>
      in if found then shard else shard\<lparr>sh_write_cursor := sh_write_cursor shard + 1\<rparr>)"

text \<open>The part \<open>l1_put\<close> and \<open>l1_put_if_newer\<close> share once the target slot is known.\<close>

definition admit ::
  "L1CacheShard \<Rightarrow> nat option \<Rightarrow> u64 \<Rightarrow> CacheEntry \<Rightarrow> CacheMetrics option \<Rightarrow>
   L1CacheShard \<times> CacheMetrics option" where
  "admit shard dup h entry metrics =
     (let target_slot = (case dup of Some i \<Rightarrow> i | None \<Rightarrow> sh_write_cursor shard mod kL1SlotsPerShard);
          metrics = (case dup of
                       Some _ \<Rightarrow> record_cache_event metrics CM_L1DuplicateOverwrite
                     | None \<Rightarrow> if sh_generations shard ! target_slot > 0
                               then record_cache_event metrics CM_L1EvictionRingOverwrite else metrics);
          metrics = record_cache_event metrics CM_L1StoreAdmitted
      in (store_slot shard target_slot h entry (dup \<noteq> None), metrics))"

text \<open>The array member \<^verbatim>\<open>entry.key\<close> is never null, so its null check has no branch here.\<close>

definition l1_put ::
  "HashSeed \<Rightarrow> L1Cache option \<Rightarrow> CacheEntry \<Rightarrow> CacheMetrics option \<Rightarrow>
   L1Cache option \<times> CacheMetrics option" where
  "l1_put seed cachep entry metrics =
     (case cachep of
        None \<Rightarrow> (None, metrics)
      | Some c \<Rightarrow>
          if ent_body_len entry > kL1MaxBodySize then
            (Some c, record_cache_event metrics CM_L1StoreRejectedBodyTooLarge)
          else if ent_body_len entry > 0 \<and> ent_body entry = None then
            (Some c, record_cache_event metrics CM_L1StoreRejectedInvalidBody)
          else
            (let h = hash_cstr_keyed (Some (ent_key entry)) seed;
                 s = shard_idx h;
                 shard = l1_shards c ! s;
                 (shard', metrics) = admit shard (duplicate_slot shard h (ent_key entry)) h entry metrics
             in (Some (c\<lparr>l1_shards := (l1_shards c)[s := shard']\<rparr>), metrics)))"

definition l1_put_if_newer ::
  "HashSeed \<Rightarrow> L1Cache option \<Rightarrow> CacheEntry \<Rightarrow> CacheMetrics option \<Rightarrow>
   bool \<times> L1Cache option \<times> CacheMetrics option" where
  "l1_put_if_newer seed cachep entry metrics =
     (case cachep of
        None \<Rightarrow> (False, None, metrics)
      | Some c \<Rightarrow>
          if ent_body_len entry > kL1MaxBodySize then
            (False, Some c, record_cache_event metrics CM_L1StoreRejectedBodyTooLarge)
          else if ent_body_len entry > 0 \<and> ent_body entry = None then
            (False, Some c, record_cache_event metrics CM_L1StoreRejectedInvalidBody)
          else
            (let h = hash_cstr_keyed (Some (ent_key entry)) seed;
                 s = shard_idx h;
                 shard = l1_shards c ! s;
                 dup = duplicate_slot shard h (ent_key entry)
             in if (case dup of
                      Some i \<Rightarrow> ent_created_at_epoch_ms (sh_slots shard ! i) > ent_created_at_epoch_ms entry
                    | None \<Rightarrow> False)
                then (False, Some c, metrics)
                else
                  (let (shard', metrics) = admit shard dup h entry metrics
                   in (True, Some (c\<lparr>l1_shards := (l1_shards c)[s := shard']\<rparr>), metrics))))"

section \<open>Lookups\<close>

text \<open>The scan of a shard: the slot of the hit, and the counters.\<close>

fun get_scan ::
  "L1CacheShard \<Rightarrow> u64 \<Rightarrow> string \<Rightarrow> int \<Rightarrow> nat list \<Rightarrow> CacheMetrics option \<Rightarrow>
   nat option \<times> CacheMetrics option" where
  "get_scan shard h key now_ms [] metrics = (None, metrics)"
| "get_scan shard h key now_ms (i # is) metrics =
     (if sh_generations shard ! i = 0 then get_scan shard h key now_ms is metrics
      else
        (let metrics = record_cache_event metrics CM_L1LookupSlotScanned
         in if sh_key_hashes shard ! i \<noteq> h then get_scan shard h key now_ms is metrics
            else if \<not> strncmp_eq kCacheKeyMaxLen (ent_key (sh_slots shard ! i)) key then
              get_scan shard h key now_ms is metrics
            else if now_ms > 0 \<and> is_expired (sh_slots shard ! i) now_ms then
              get_scan shard h key now_ms is (record_cache_event metrics CM_L1ExpiredMiss)
            else (Some i, metrics)))"

text \<open>The copy out of a slot; \<open>body_out\<close> is the capacity of the caller's buffer, \<open>None\<close> if null.\<close>

definition read_slot :: "L1CacheShard \<Rightarrow> nat \<Rightarrow> nat option \<Rightarrow> CacheEntry" where
  "read_slot shard i body_out =
     (let out = sh_slots shard ! i
      in case body_out of
           Some capacity \<Rightarrow>
             if ent_body_len out > 0 \<and> capacity > 0 then
               (let copy_len = (if ent_body_len out > capacity then capacity else ent_body_len out)
                in out\<lparr>ent_body := Some (take copy_len (sh_bodies shard ! i)), ent_body_len := copy_len\<rparr>)
             else out\<lparr>ent_body := None, ent_body_len := 0\<rparr>
         | None \<Rightarrow> out\<lparr>ent_body := None, ent_body_len := 0\<rparr>)"

definition l1_get ::
  "HashSeed \<Rightarrow> L1Cache option \<Rightarrow> string option \<Rightarrow> int \<Rightarrow> nat option \<Rightarrow> CacheMetrics option \<Rightarrow>
   CacheEntry option \<times> CacheMetrics option" where
  "l1_get seed cachep key now_ms body_out metrics =
     (case (cachep, key) of
        (Some c, Some k) \<Rightarrow>
          (let h = hash_cstr_keyed (Some k) seed;
               shard = l1_shards c ! shard_idx h;
               (hit, metrics) = get_scan shard h k now_ms [0..<kL1SlotsPerShard] metrics
           in (map_option (\<lambda>i. read_slot shard i body_out) hit, metrics))
      | _ \<Rightarrow> (None, metrics))"

section \<open>Removal\<close>

definition is_variant_key :: "string \<Rightarrow> bool" where
  "is_variant_key key \<longleftrightarrow> strncmp_eq 4 key ''var:''"

definition l1_remove ::
  "HashSeed \<Rightarrow> L1Cache option \<Rightarrow> string option \<Rightarrow> CacheMetrics option \<Rightarrow>
   L1RemoveResult \<times> L1Cache option \<times> CacheMetrics option" where
  "l1_remove seed cachep key metrics =
     (case (cachep, key) of
        (Some c, Some k) \<Rightarrow>
          (let is_variant = is_variant_key k;
               metrics = (if is_variant then record_cache_event metrics CM_VariantExactRemoveAttempt else metrics);
               h = hash_cstr_keyed (Some k) seed;
               s = shard_idx h;
               shard = l1_shards c ! s
           in case find_index (\<lambda>i. sh_generations shard ! i \<noteq> 0 \<and> sh_key_hashes shard ! i = h \<and>
                     strncmp_eq kCacheKeyMaxLen (ent_key (sh_slots shard ! i)) k) [0..<kL1SlotsPerShard] of
                Some i \<Rightarrow>
                  (let metrics = record_cache_event metrics CM_L1RemoveHit;
                       metrics = (if is_variant then record_cache_event metrics CM_VariantExactRemoveSuccess else metrics)
                   in (L1Removed, Some (c\<lparr>l1_shards := (l1_shards c)[s := clear_slot shard i]\<rparr>), metrics))
              | None \<Rightarrow>
                  (let metrics = record_cache_event metrics CM_L1RemoveMiss;
                       metrics = (if is_variant then record_cache_event metrics CM_VariantExactRemoveMiss else metrics)
                   in (L1Miss, Some c, metrics)))
      | _ \<Rightarrow> (L1InvalidArgument, cachep, record_cache_event metrics CM_L1RemoveFailed))"

definition l1_remove_key ::
  "HashSeed \<Rightarrow> L1Cache option \<Rightarrow> string option \<Rightarrow> CacheMetrics option \<Rightarrow>
   bool \<times> L1Cache option \<times> CacheMetrics option" where
  "l1_remove_key seed cachep key metrics =
     (case l1_remove seed cachep key metrics of (r, c, m) \<Rightarrow> (r = L1Removed, c, m))"

text \<open>\<open>strstr\<close>: the text from the first occurrence on.\<close>

fun strstr :: "string \<Rightarrow> string \<Rightarrow> string option" where
  "strstr [] needle = (if needle = [] then Some [] else None)"
| "strstr (c # s) needle =
     (if take (length needle) (c # s) = needle then Some (c # s) else strstr s needle)"

definition cleanup_marker :: "string \<Rightarrow> u64 \<Rightarrow> string" where
  "cleanup_marker rid old_epoch = take 511 (''|'' @ rid @ ''|epoch:'' @ show_u64 old_epoch @ ''|'')"

text \<open>The loop that skips the next \<open>n\<close> separators; \<open>None\<close> when the text ends before.\<close>

fun skip_pipes :: "nat \<Rightarrow> string \<Rightarrow> string option" where
  "skip_pipes 0 p = Some p"
| "skip_pipes (Suc n) [] = None"
| "skip_pipes (Suc n) (c # p) = skip_pipes (if c = CHR ''|'' then n else Suc n) p"

definition cleanup_match :: "L1RouteNamespaceCleanupRequest \<Rightarrow> string \<Rightarrow> string \<Rightarrow> bool" where
  "cleanup_match request marker key =
     (case strstr key marker of
        None \<Rightarrow> False
      | Some p \<Rightarrow>
          (case cl_old_policy_identity request of
             None \<Rightarrow> True
           | Some ident \<Rightarrow>
               if ident = '''' then True
               else (case skip_pipes 3 (drop (length marker) p) of
                       None \<Rightarrow> False
                     | Some q \<Rightarrow>
                         (let policy_len = length (takeWhile (\<lambda>c. c \<noteq> CHR ''|'') q)
                          in length ident = policy_len \<and> strncmp_eq policy_len q ident))))"

definition cleanup_slot :: "(string \<Rightarrow> bool) \<Rightarrow> nat \<Rightarrow> L1CacheShard \<times> nat \<Rightarrow> L1CacheShard \<times> nat" where
  "cleanup_slot matches i = (\<lambda>(shard, removed).
     if sh_generations shard ! i = 0 then (shard, removed)
     else if \<not> matches (ent_key (sh_slots shard ! i)) then (shard, removed)
     else (clear_slot shard i, removed + 1))"

definition cleanup_shard :: "(string \<Rightarrow> bool) \<Rightarrow> L1CacheShard \<Rightarrow> L1CacheShard \<times> nat" where
  "cleanup_shard matches shard = fold (cleanup_slot matches) [0..<kL1SlotsPerShard] (shard, 0)"

definition l1_cleanup_route_namespace ::
  "L1Cache option \<Rightarrow> L1RouteNamespaceCleanupRequest \<Rightarrow> L1RouteNamespaceCleanupResult \<times> L1Cache option" where
  "l1_cleanup_route_namespace cachep request =
     (case (cachep, cl_route_id request) of
        (Some c, Some rid) \<Rightarrow>
          (let marker = cleanup_marker rid (cl_old_epoch request);
               rs = map (cleanup_shard (cleanup_match request marker)) (l1_shards c)
           in (\<lparr>cl_ok = True, cl_removed_count = sum_list (map snd rs), cl_error = ''''\<rparr>,
               Some (c\<lparr>l1_shards := map fst rs\<rparr>)))
      | _ \<Rightarrow> (\<lparr>cl_ok = False, cl_removed_count = 0, cl_error = ''null cache or route_id''\<rparr>, cachep))"

section \<open>The contract of a cache\<close>

text \<open>
  Operations act on the state; \<open>writes c op k\<close> is the value the operation writes under a key in state \<open>c\<close>
  and \<open>kills c op k\<close> says that it leaves no earlier value there. The law: after an operation a
  lookup finds what the operation wrote, or what was found before and was not killed.
\<close>

locale coherent_cache =
  fixes inv :: "'c \<Rightarrow> bool" and lookup :: "'c \<Rightarrow> 'k \<Rightarrow> 'e option" and step :: "'o \<Rightarrow> 'c \<Rightarrow> 'c"
    and valid :: "'o \<Rightarrow> bool" and writes :: "'c \<Rightarrow> 'o \<Rightarrow> 'k \<Rightarrow> 'e option" and kills :: "'c \<Rightarrow> 'o \<Rightarrow> 'k \<Rightarrow> bool"
  assumes step_inv: "inv c \<Longrightarrow> valid op \<Longrightarrow> inv (step op c)"
    and step_lookup: "inv c \<Longrightarrow> valid op \<Longrightarrow> lookup (step op c) k = Some x \<Longrightarrow>
      writes c op k = Some x \<or> \<not> kills c op k \<and> lookup c k = Some x"
begin

lemma run_inv: "inv c \<Longrightarrow> list_all valid ops \<Longrightarrow> inv (fold step ops c)"
  by (induction ops arbitrary: c) (auto intro: step_inv)

text \<open>A hit after a run is the value of a write of the run that nothing killed since, or it was there before.\<close>

lemma run_lookup:
  assumes "inv c" and "list_all valid ops" and "lookup (fold step ops c) k = Some x"
  shows "(\<exists>i<length ops. writes (fold step (take i ops) c) (ops ! i) k = Some x \<and>
      (\<forall>j. i < j \<and> j < length ops \<longrightarrow> \<not> kills (fold step (take j ops) c) (ops ! j) k)) \<or>
    lookup c k = Some x \<and> (\<forall>j<length ops. \<not> kills (fold step (take j ops) c) (ops ! j) k)"
  using assms
proof (induction ops rule: rev_induct)
  case Nil
  then show ?case by simp
next
  case (snoc op ops)
  have v: "list_all valid ops" "valid op" using snoc.prems(2) by simp_all
  have "lookup (step op (fold step ops c)) k = Some x" using snoc.prems(3) by simp
  from step_lookup [OF run_inv [OF snoc.prems(1) v(1)] v(2) this] consider
    "writes (fold step ops c) op k = Some x"
    | "\<not> kills (fold step ops c) op k" "lookup (fold step ops c) k = Some x" by blast
  then show ?case
  proof cases
    case 1
    then show ?thesis by (intro disjI1 exI [of _ "length ops"]) auto
  next
    case 2
    from snoc.IH [OF snoc.prems(1) v(1) 2(2)] consider
      i where "i < length ops" "writes (fold step (take i ops) c) (ops ! i) k = Some x"
        "\<forall>j. i < j \<and> j < length ops \<longrightarrow> \<not> kills (fold step (take j ops) c) (ops ! j) k"
      | "lookup c k = Some x" "\<forall>j<length ops. \<not> kills (fold step (take j ops) c) (ops ! j) k" by blast
    then show ?thesis
    proof cases
      case (1 i)
      with 2(1) show ?thesis by (intro disjI1 exI [of _ i]) (auto simp: nth_append less_Suc_eq)
    qed (use 2(1) in \<open>auto simp: nth_append less_Suc_eq\<close>)
  qed
qed

end

section \<open>The invariant\<close>

definition live :: "L1CacheShard \<Rightarrow> nat \<Rightarrow> bool" where
  "live shard i \<longleftrightarrow> sh_generations shard ! i \<noteq> 0"

definition slot_key :: "L1CacheShard \<Rightarrow> nat \<Rightarrow> string" where
  "slot_key shard i = ent_key (sh_slots shard ! i)"

definition key_hash :: "HashSeed \<Rightarrow> string \<Rightarrow> u64" where
  "key_hash seed k = hash_cstr_keyed (Some k) seed"

definition shard_lengths :: "L1CacheShard \<Rightarrow> bool" where
  "shard_lengths shard \<longleftrightarrow> length (sh_slots shard) = kL1SlotsPerShard \<and>
     length (sh_bodies shard) = kL1SlotsPerShard \<and> length (sh_generations shard) = kL1SlotsPerShard \<and>
     length (sh_key_hashes shard) = kL1SlotsPerShard"

definition slot_body_ok :: "L1CacheShard \<Rightarrow> nat \<Rightarrow> bool" where
  "slot_body_ok shard i =
     (case ent_body (sh_slots shard ! i) of
        None \<Rightarrow> ent_body_len (sh_slots shard ! i) = 0
      | Some b \<Rightarrow> b \<noteq> [] \<and> ent_body_len (sh_slots shard ! i) = length b \<and> length b \<le> kL1MaxBodySize \<and>
          take (length b) (sh_bodies shard ! i) = b)"

definition slot_ok :: "HashSeed \<Rightarrow> nat \<Rightarrow> L1CacheShard \<Rightarrow> nat \<Rightarrow> bool" where
  "slot_ok seed s shard i \<longleftrightarrow> sh_key_hashes shard ! i = key_hash seed (slot_key shard i) \<and>
     shard_idx (key_hash seed (slot_key shard i)) = s \<and> length (slot_key shard i) < kCacheKeyMaxLen \<and>
     slot_body_ok shard i"

definition shard_inv :: "HashSeed \<Rightarrow> nat \<Rightarrow> L1CacheShard \<Rightarrow> bool" where
  "shard_inv seed s shard \<longleftrightarrow> shard_lengths shard \<and>
     (\<forall>i<kL1SlotsPerShard. live shard i \<longrightarrow> slot_ok seed s shard i) \<and>
     (\<forall>i<kL1SlotsPerShard. \<forall>j<kL1SlotsPerShard. live shard i \<longrightarrow> live shard j \<longrightarrow>
        slot_key shard i = slot_key shard j \<longrightarrow> i = j)"

definition l1_inv :: "HashSeed \<Rightarrow> L1Cache \<Rightarrow> bool" where
  "l1_inv seed c \<longleftrightarrow> length (l1_shards c) = kL1ShardCount \<and>
     (\<forall>s<kL1ShardCount. shard_inv seed s (l1_shards c ! s))"

definition holds :: "L1CacheShard \<Rightarrow> string \<Rightarrow> nat \<Rightarrow> bool" where
  "holds shard k i \<longleftrightarrow> i < kL1SlotsPerShard \<and> live shard i \<and> slot_key shard i = k"

definition shard_lookup :: "L1CacheShard \<Rightarrow> string \<Rightarrow> CacheEntry option" where
  "shard_lookup shard k = map_option ((!) (sh_slots shard)) (find (holds shard k) [0..<kL1SlotsPerShard])"

definition l1_lookup :: "HashSeed \<Rightarrow> L1Cache \<Rightarrow> string \<Rightarrow> CacheEntry option" where
  "l1_lookup seed c k = shard_lookup (l1_shards c ! shard_idx (key_hash seed k)) k"

lemma holds_unique:
  "shard_inv seed s shard \<Longrightarrow> holds shard k i \<Longrightarrow> holds shard k j \<Longrightarrow> i = j"
  by (simp add: shard_inv_def holds_def)

lemma holds_ok: "shard_inv seed s shard \<Longrightarrow> holds shard k i \<Longrightarrow> slot_ok seed s shard i"
  by (simp add: shard_inv_def holds_def)

lemma find_unique_index:
  assumes "\<And>i j. P i \<Longrightarrow> P j \<Longrightarrow> i = j"
  shows "find P [0..<n] = Some i \<longleftrightarrow> i < n \<and> P i"
proof
  assume "find P [0..<n] = Some i"
  then obtain j where "j < n" "P ([0..<n] ! j)" "i = [0..<n] ! j" by (auto simp: find_Some_iff)
  then show "i < n \<and> P i" by simp
next
  assume i: "i < n \<and> P i"
  have "\<not> P j" if "j < i" for j
    using assms [of i j] i that by blast
  with i show "find P [0..<n] = Some i"
    unfolding find_Some_iff by (intro exI [of _ i]) simp
qed

lemma shard_lookup_iff:
  assumes "shard_inv seed s shard"
  shows "shard_lookup shard k = Some x \<longleftrightarrow> (\<exists>i. holds shard k i \<and> sh_slots shard ! i = x)"
proof -
  have "find (holds shard k) [0..<kL1SlotsPerShard] = Some i \<longleftrightarrow> i < kL1SlotsPerShard \<and> holds shard k i" for i
    by (rule find_unique_index) (rule holds_unique [OF assms])
  then show ?thesis by (auto simp: shard_lookup_def holds_def)
qed

lemma shard_lookup_None_iff: "shard_lookup shard k = None \<longleftrightarrow> (\<forall>i. \<not> holds shard k i)"
  by (auto simp: shard_lookup_def find_None_iff holds_def)

lemma shard_idx_less [simp]: "shard_idx h < kL1ShardCount"
  by (simp add: shard_idx_def kL1ShardCount_def)

lemma l1_inv_shard: "l1_inv seed c \<Longrightarrow> shard_inv seed (shard_idx h) (l1_shards c ! shard_idx h)"
  by (simp add: l1_inv_def)

section \<open>Scans\<close>

lemma strncmp_short:
  assumes "length a < kCacheKeyMaxLen"
  shows "strncmp_eq kCacheKeyMaxLen a k \<longleftrightarrow> a = k"
proof
  assume "strncmp_eq kCacheKeyMaxLen a k"
  with assms have a: "a = take kCacheKeyMaxLen k" by (simp add: strncmp_eq_def)
  with assms have "length k < kCacheKeyMaxLen" by simp
  with a show "a = k" by simp
qed simp

lemma duplicate_slot_iff:
  assumes "shard_inv seed s shard"
  shows "duplicate_slot shard (key_hash seed k) k = Some i \<longleftrightarrow> holds shard k i"
proof -
  have p: "(sh_generations shard ! j > 0 \<and> sh_key_hashes shard ! j = key_hash seed k \<and>
      ent_key (sh_slots shard ! j) = k) \<longleftrightarrow> holds shard k j" if "j < kL1SlotsPerShard" for j
    using that holds_ok [OF assms, of k j]
    by (auto simp: holds_def live_def slot_key_def slot_ok_def word_gt_0)
  show ?thesis
  proof
    assume "duplicate_slot shard (key_hash seed k) k = Some i"
    then have "i < kL1SlotsPerShard" and "sh_generations shard ! i > 0 \<and>
        sh_key_hashes shard ! i = key_hash seed k \<and> ent_key (sh_slots shard ! i) = k"
      unfolding duplicate_slot_def find_index_upt_iff by blast+
    with p show "holds shard k i" by simp
  next
    assume h: "holds shard k i"
    then have i: "i < kL1SlotsPerShard" by (simp add: holds_def)
    have "\<not> holds shard k j" if "j < i" for j
      using holds_unique [OF assms h, of j] that by auto
    with p i have "\<not> (sh_generations shard ! j > 0 \<and> sh_key_hashes shard ! j = key_hash seed k \<and>
        ent_key (sh_slots shard ! j) = k)" if "j < i" for j
      using that p [of j] i by auto
    with h i p [OF i] show "duplicate_slot shard (key_hash seed k) k = Some i"
      unfolding duplicate_slot_def find_index_upt_iff by blast
  qed
qed

lemma duplicate_slot_None:
  assumes "shard_inv seed s shard" and "duplicate_slot shard (key_hash seed k) k = None"
  shows "\<not> holds shard k i"
  using duplicate_slot_iff [OF assms(1), of k i] assms(2) by auto

definition fresh :: "int \<Rightarrow> CacheEntry \<Rightarrow> bool" where
  "fresh now_ms e \<longleftrightarrow> \<not> (now_ms > 0 \<and> is_expired e now_ms)"

lemma get_scan_find:
  "fst (get_scan shard h k now_ms is metrics) =
     find (\<lambda>i. live shard i \<and> sh_key_hashes shard ! i = h \<and>
       strncmp_eq kCacheKeyMaxLen (slot_key shard i) k \<and> fresh now_ms (sh_slots shard ! i)) is"
  by (induction shard h k now_ms "is" metrics rule: get_scan.induct)
    (auto simp: Let_def live_def slot_key_def fresh_def)

lemma get_scan_iff:
  assumes "shard_inv seed s shard"
  shows "fst (get_scan shard (key_hash seed k) k now_ms [0..<kL1SlotsPerShard] metrics) = Some i \<longleftrightarrow>
    holds shard k i \<and> fresh now_ms (sh_slots shard ! i)"
proof -
  let ?P = "\<lambda>i. live shard i \<and> sh_key_hashes shard ! i = key_hash seed k \<and>
    strncmp_eq kCacheKeyMaxLen (slot_key shard i) k \<and> fresh now_ms (sh_slots shard ! i)"
  have p: "?P j \<longleftrightarrow> holds shard k j \<and> fresh now_ms (sh_slots shard ! j)" if "j < kL1SlotsPerShard" for j
    using that holds_ok [OF assms, of "slot_key shard j" j] strncmp_short [of "slot_key shard j" k]
    by (auto simp: holds_def slot_ok_def)
  have "find ?P [0..<kL1SlotsPerShard] =
      find (\<lambda>i. holds shard k i \<and> fresh now_ms (sh_slots shard ! i)) [0..<kL1SlotsPerShard]"
    by (rule find_cong) (use p in auto)
  moreover have "find (\<lambda>i. holds shard k i \<and> fresh now_ms (sh_slots shard ! i)) [0..<kL1SlotsPerShard] = Some i \<longleftrightarrow>
      i < kL1SlotsPerShard \<and> holds shard k i \<and> fresh now_ms (sh_slots shard ! i)"
    by (rule find_unique_index) (use holds_unique [OF assms] in blast)
  ultimately show ?thesis by (auto simp: get_scan_find holds_def)
qed

section \<open>Effect of the operations on a shard\<close>

text \<open>Slots of \<open>shard'\<close> are those of \<open>shard\<close>, some of them cleared.\<close>

definition shard_sub :: "L1CacheShard \<Rightarrow> L1CacheShard \<Rightarrow> bool" where
  "shard_sub shard' shard \<longleftrightarrow> shard_lengths shard' \<and>
     (\<forall>i<kL1SlotsPerShard. live shard' i \<longrightarrow> live shard i \<and> sh_slots shard' ! i = sh_slots shard ! i \<and>
        sh_key_hashes shard' ! i = sh_key_hashes shard ! i \<and> sh_bodies shard' ! i = sh_bodies shard ! i)"

lemma shard_sub_refl: "shard_lengths shard \<Longrightarrow> shard_sub shard shard"
  by (simp add: shard_sub_def)

lemma shard_sub_trans: "shard_sub c b \<Longrightarrow> shard_sub b a \<Longrightarrow> shard_sub c a"
  by (simp add: shard_sub_def)

lemma shard_subD:
  assumes "shard_sub shard' shard" and "i < kL1SlotsPerShard" and "live shard' i"
  shows "live shard i" and "sh_slots shard' ! i = sh_slots shard ! i"
    and "sh_key_hashes shard' ! i = sh_key_hashes shard ! i" and "sh_bodies shard' ! i = sh_bodies shard ! i"
  using assms by (simp_all add: shard_sub_def)

lemma shard_sub_holds:
  assumes "shard_sub shard' shard" and "holds shard' k i"
  shows "holds shard k i"
  using assms shard_subD [OF assms(1), of i] by (simp add: holds_def slot_key_def)

lemma shard_sub_inv:
  assumes "shard_sub shard' shard" and "shard_inv seed s shard"
  shows "shard_inv seed s shard'"
proof -
  have "slot_ok seed s shard' i" if "i < kL1SlotsPerShard" "live shard' i" for i
  proof -
    have "slot_ok seed s shard i" using assms(2) shard_subD(1) [OF assms(1) that] that by (simp add: shard_inv_def)
    then show ?thesis
      unfolding slot_ok_def slot_key_def slot_body_ok_def shard_subD(2-4) [OF assms(1) that] .
  qed
  moreover have "i = j" if "holds shard' k i" "holds shard' k j" for i j k
    using that shard_sub_holds [OF assms(1)] holds_unique [OF assms(2)] by blast
  ultimately show ?thesis using assms(1) by (auto simp: shard_inv_def shard_sub_def holds_def)
qed

lemma shard_sub_lookup:
  assumes "shard_sub shard' shard" and "shard_inv seed s shard" and "shard_lookup shard' k = Some x"
  shows "shard_lookup shard k = Some x"
proof -
  from assms(3) obtain i where "holds shard' k i" "sh_slots shard' ! i = x"
    using shard_lookup_iff [OF shard_sub_inv [OF assms(1,2)]] by blast
  moreover from this have "holds shard k i" "sh_slots shard' ! i = sh_slots shard ! i"
    using shard_sub_holds [OF assms(1)] shard_subD(2) [OF assms(1), of i] by (auto simp: holds_def)
  ultimately show ?thesis using shard_lookup_iff [OF assms(2)] by auto
qed

lemma clear_slot_nth:
  assumes "shard_lengths shard" and "i < kL1SlotsPerShard"
  shows "live (clear_slot shard i) j \<longleftrightarrow> j \<noteq> i \<and> live shard j"
    and "j \<noteq> i \<Longrightarrow> sh_slots (clear_slot shard i) ! j = sh_slots shard ! j"
  using assms by (auto simp: clear_slot_def live_def shard_lengths_def nth_list_update)

lemma clear_slot_sub:
  "shard_lengths shard \<Longrightarrow> i < kL1SlotsPerShard \<Longrightarrow> shard_sub (clear_slot shard i) shard"
  by (auto simp: shard_sub_def clear_slot_def live_def shard_lengths_def nth_list_update)

subsection \<open>Stores\<close>

text \<open>What a slot holds of an entry: its body bytes, and no body pointer when there are none.\<close>

definition stored :: "CacheEntry \<Rightarrow> CacheEntry" where
  "stored e = (if ent_body_len e = 0 then e\<lparr>ent_body := None, ent_body_len := 0\<rparr>
     else e\<lparr>ent_body := map_option (take (ent_body_len e)) (ent_body e)\<rparr>)"

definition entry_valid :: "CacheEntry \<Rightarrow> bool" where
  "entry_valid e \<longleftrightarrow> length (ent_key e) < kCacheKeyMaxLen \<and>
     (case ent_body e of None \<Rightarrow> True | Some b \<Rightarrow> ent_body_len e \<le> length b)"

lemma store_slot_fields:
  assumes "shard_lengths shard" and "t < kL1SlotsPerShard" and "l1_can_store_entry e"
  shows "sh_slots (store_slot shard t h e found) = (sh_slots shard)[t := stored e]"
    and "sh_generations (store_slot shard t h e found) = (sh_generations shard)[t := sh_generations shard ! t + 1]"
    and "sh_key_hashes (store_slot shard t h e found) = (sh_key_hashes shard)[t := h]"
  using assms
  by (auto simp: store_slot_def copy_body_to_slot_def stored_def l1_can_store_entry_def shard_lengths_def Let_def
      split: option.splits if_splits)

lemma store_slot_bodies:
  assumes "shard_lengths shard" and "t < kL1SlotsPerShard" and "l1_can_store_entry e" and "entry_valid e"
  shows "length (sh_bodies (store_slot shard t h e found)) = kL1SlotsPerShard"
    and "j \<noteq> t \<Longrightarrow> sh_bodies (store_slot shard t h e found) ! j = sh_bodies shard ! j"
    and "slot_body_ok (store_slot shard t h e found) t"
  using assms
  by (auto simp: slot_body_ok_def store_slot_def copy_body_to_slot_def l1_can_store_entry_def entry_valid_def
      shard_lengths_def Let_def split: option.splits if_splits)

text \<open>The slot a store may use: the one that holds the key, or any when none does.\<close>

definition store_target :: "L1CacheShard \<Rightarrow> string \<Rightarrow> nat \<Rightarrow> bool" where
  "store_target shard k t \<longleftrightarrow> t < kL1SlotsPerShard \<and> (\<forall>i. holds shard k i \<longrightarrow> i = t)"

lemma store_slot_holds:
  assumes "shard_lengths shard" and "store_target shard (ent_key e) t" and "l1_can_store_entry e"
  shows "holds (store_slot shard t h e found) k i \<longleftrightarrow>
    i = t \<and> k = ent_key e \<and> sh_generations shard ! t + 1 \<noteq> 0 \<or> i \<noteq> t \<and> holds shard k i"
    and "i \<noteq> t \<Longrightarrow> sh_slots (store_slot shard t h e found) ! i = sh_slots shard ! i"
    and "sh_slots (store_slot shard t h e found) ! t = stored e"
  using assms store_slot_fields [OF assms(1) _ assms(3), of t h found]
  by (auto simp: holds_def live_def slot_key_def store_target_def shard_lengths_def nth_list_update stored_def)

lemma store_slot_inv:
  assumes "shard_inv seed s shard" and "store_target shard (ent_key e) t" and "l1_can_store_entry e"
    and "entry_valid e" and "s = shard_idx (key_hash seed (ent_key e))"
  shows "shard_inv seed s (store_slot shard t (key_hash seed (ent_key e)) e found)"
proof -
  let ?sh = "store_slot shard t (key_hash seed (ent_key e)) e found"
  have l: "shard_lengths shard" and t: "t < kL1SlotsPerShard"
    using assms(1,2) by (simp_all add: shard_inv_def store_target_def)
  note f = store_slot_fields [OF l t assms(3), where h = "key_hash seed (ent_key e)" and found = found]
  note b = store_slot_bodies [OF l t assms(3,4), where h = "key_hash seed (ent_key e)" and found = found]
  note h = store_slot_holds [OF l assms(2,3), where h = "key_hash seed (ent_key e)" and found = found]
  have "shard_lengths ?sh" using l f b(1) by (simp add: shard_lengths_def)
  moreover have "slot_ok seed s ?sh i" if "holds ?sh (slot_key ?sh i) i" for i
  proof (cases "i = t")
    case True
    then show ?thesis
      using l t f b(3) assms(4,5) by (simp add: slot_ok_def slot_key_def shard_lengths_def stored_def entry_valid_def)
  next
    case False
    then have "slot_ok seed s shard i"
      using that h(1,2) holds_ok [OF assms(1)] by (auto simp: slot_key_def)
    moreover have "sh_key_hashes ?sh ! i = sh_key_hashes shard ! i" using f(3) False by simp
    ultimately show ?thesis
      unfolding slot_ok_def slot_key_def slot_body_ok_def h(2) [OF False] b(2) [OF False] by simp
  qed
  moreover have "i = j" if "holds ?sh k i" "holds ?sh k j" for i j k
    using that h(1) holds_unique [OF assms(1)] assms(2) unfolding store_target_def by metis
  ultimately show ?thesis by (auto simp: shard_inv_def holds_def)
qed

lemma store_slot_lookup:
  assumes "shard_inv seed s shard" and "store_target shard (ent_key e) t" and "l1_can_store_entry e"
    and "entry_valid e" and "s = shard_idx (key_hash seed (ent_key e))"
    and "shard_lookup (store_slot shard t (key_hash seed (ent_key e)) e found) k = Some x"
  shows "k = ent_key e \<and> x = stored e \<or> k \<noteq> ent_key e \<and> shard_lookup shard k = Some x"
proof -
  have l: "shard_lengths shard" using assms(1) by (simp add: shard_inv_def)
  note h = store_slot_holds [OF l assms(2,3), where h = "key_hash seed (ent_key e)" and found = found]
  from assms(6) obtain i where "holds (store_slot shard t (key_hash seed (ent_key e)) e found) k i"
    "sh_slots (store_slot shard t (key_hash seed (ent_key e)) e found) ! i = x"
    using shard_lookup_iff [OF store_slot_inv [OF assms(1-5)]] by blast
  then show ?thesis
    using h shard_lookup_iff [OF assms(1), of k x] assms(2) unfolding store_target_def by metis
qed

lemma store_slot_lookup_same:
  assumes "shard_inv seed s shard" and "store_target shard (ent_key e) t" and "l1_can_store_entry e"
    and "entry_valid e" and "s = shard_idx (key_hash seed (ent_key e))" and "sh_generations shard ! t + 1 \<noteq> 0"
  shows "shard_lookup (store_slot shard t (key_hash seed (ent_key e)) e found) (ent_key e) = Some (stored e)"
proof -
  have l: "shard_lengths shard" using assms(1) by (simp add: shard_inv_def)
  note h = store_slot_holds [OF l assms(2,3), where h = "key_hash seed (ent_key e)" and found = found]
  show ?thesis
    using shard_lookup_iff [OF store_slot_inv [OF assms(1-5)]] h(1,3) assms(6) by blast
qed

text \<open>The target of \<open>admit\<close> is such a slot.\<close>

definition admit_slot :: "HashSeed \<Rightarrow> L1CacheShard \<Rightarrow> string \<Rightarrow> nat" where
  "admit_slot seed shard k = (case duplicate_slot shard (key_hash seed k) k of
     Some i \<Rightarrow> i | None \<Rightarrow> sh_write_cursor shard mod kL1SlotsPerShard)"

lemma admit_slot_target:
  assumes "shard_inv seed s shard"
  shows "store_target shard k (admit_slot seed shard k)"
proof (cases "duplicate_slot shard (key_hash seed k) k")
  case None
  then show ?thesis
    using duplicate_slot_None [OF assms None] by (auto simp: store_target_def admit_slot_def kL1SlotsPerShard_def)
next
  case (Some i)
  then have "holds shard k i" using duplicate_slot_iff [OF assms] by blast
  then show ?thesis
    using holds_unique [OF assms] Some by (auto simp: store_target_def admit_slot_def holds_def)
qed

lemma fst_admit:
  "fst (admit shard (duplicate_slot shard (key_hash seed k) k) h e mx) =
     store_slot shard (admit_slot seed shard k) h e (duplicate_slot shard (key_hash seed k) k \<noteq> None)"
  by (simp add: admit_def admit_slot_def Let_def split: option.splits)

subsection \<open>Cleanup\<close>

lemma cleanup_slot_sub:
  assumes "shard_lengths (fst p)" and "i < kL1SlotsPerShard"
  shows "shard_sub (fst (cleanup_slot m i p)) (fst p)"
    and "live (fst (cleanup_slot m i p)) i \<Longrightarrow> \<not> m (slot_key (fst (cleanup_slot m i p)) i)"
  using assms clear_slot_sub [of "fst p" i] shard_sub_refl [of "fst p"] clear_slot_nth(1) [of "fst p" i i]
  by (auto simp: cleanup_slot_def live_def slot_key_def split: prod.splits if_splits)

lemma cleanup_fold:
  assumes "shard_lengths (fst p)" and "n \<le> kL1SlotsPerShard"
  shows "shard_sub (fst (fold (cleanup_slot m) [0..<n] p)) (fst p) \<and>
    (\<forall>i<n. live (fst (fold (cleanup_slot m) [0..<n] p)) i \<longrightarrow>
       \<not> m (slot_key (fst (fold (cleanup_slot m) [0..<n] p)) i))"
  using assms(2)
proof (induction n)
  case 0
  then show ?case using assms(1) by (simp add: shard_sub_refl)
next
  case (Suc n)
  let ?p = "fold (cleanup_slot m) [0..<n] p"
  have ih: "shard_sub (fst ?p) (fst p)" "\<forall>i<n. live (fst ?p) i \<longrightarrow> \<not> m (slot_key (fst ?p) i)"
    using Suc by simp_all
  have l: "shard_lengths (fst ?p)" using ih(1) by (simp add: shard_sub_def)
  note c = cleanup_slot_sub [OF l, of n m]
  have "shard_sub (fst (cleanup_slot m n ?p)) (fst ?p)" using c Suc.prems by simp
  moreover from this have "live (fst ?p) i \<and> slot_key (fst (cleanup_slot m n ?p)) i = slot_key (fst ?p) i"
    if "i < n" "live (fst (cleanup_slot m n ?p)) i" for i
    using that Suc.prems by (simp add: shard_sub_def slot_key_def)
  ultimately show ?case
    using c(2) ih Suc.prems shard_sub_trans less_Suc_eq by auto
qed

lemma cleanup_shard_sub:
  assumes "shard_lengths shard"
  shows "shard_sub (fst (cleanup_shard m shard)) shard"
    and "holds (fst (cleanup_shard m shard)) k i \<Longrightarrow> \<not> m k"
  using cleanup_fold [of "(shard, 0)" kL1SlotsPerShard m] assms by (auto simp: cleanup_shard_def holds_def)

section \<open>The cache as a coherent cache\<close>

text \<open>A run of the cache: each call with the metrics pointer it gets.\<close>

datatype L1Op =
    OpPut CacheEntry "CacheMetrics option"
  | OpPutIfNewer CacheEntry "CacheMetrics option"
  | OpRemove string "CacheMetrics option"
  | OpCleanup L1RouteNamespaceCleanupRequest

fun l1_step :: "HashSeed \<Rightarrow> L1Op \<Rightarrow> L1Cache \<Rightarrow> L1Cache" where
  "l1_step seed (OpPut e mx) c = the (fst (l1_put seed (Some c) e mx))"
| "l1_step seed (OpPutIfNewer e mx) c = the (fst (snd (l1_put_if_newer seed (Some c) e mx)))"
| "l1_step seed (OpRemove k mx) c = the (fst (snd (l1_remove seed (Some c) (Some k) mx)))"
| "l1_step seed (OpCleanup r) c = the (snd (l1_cleanup_route_namespace (Some c) r))"

fun op_valid :: "L1Op \<Rightarrow> bool" where
  "op_valid (OpPut e mx) \<longleftrightarrow> entry_valid e"
| "op_valid (OpPutIfNewer e mx) \<longleftrightarrow> entry_valid e"
| "op_valid (OpRemove k mx) \<longleftrightarrow> True"
| "op_valid (OpCleanup r) \<longleftrightarrow> True"

text \<open>
  What a call writes under a key in a given cache, and whether it leaves no earlier value there. A promotion
  does either only when it is accepted.
\<close>

fun op_writes :: "HashSeed \<Rightarrow> L1Cache \<Rightarrow> L1Op \<Rightarrow> string \<Rightarrow> CacheEntry option" where
  "op_writes seed c (OpPut e mx) k = (if l1_can_store_entry e \<and> k = ent_key e then Some (stored e) else None)"
| "op_writes seed c (OpPutIfNewer e mx) k =
     (if fst (l1_put_if_newer seed (Some c) e mx) \<and> k = ent_key e then Some (stored e) else None)"
| "op_writes seed c (OpRemove k' mx) k = None"
| "op_writes seed c (OpCleanup r) k = None"

fun op_kills :: "HashSeed \<Rightarrow> L1Cache \<Rightarrow> L1Op \<Rightarrow> string \<Rightarrow> bool" where
  "op_kills seed c (OpPut e mx) k \<longleftrightarrow> l1_can_store_entry e \<and> k = ent_key e"
| "op_kills seed c (OpPutIfNewer e mx) k \<longleftrightarrow> fst (l1_put_if_newer seed (Some c) e mx) \<and> k = ent_key e"
| "op_kills seed c (OpRemove k' mx) k \<longleftrightarrow> k = k'"
| "op_kills seed c (OpCleanup r) k \<longleftrightarrow>
     (case cl_route_id r of None \<Rightarrow> False
      | Some rid \<Rightarrow> cleanup_match r (cleanup_marker rid (cl_old_epoch r)) k)"

definition set_shard :: "L1Cache \<Rightarrow> nat \<Rightarrow> L1CacheShard \<Rightarrow> L1Cache" where
  "set_shard c s shard = c\<lparr>l1_shards := (l1_shards c)[s := shard]\<rparr>"

lemma set_shard_inv:
  "l1_inv seed c \<Longrightarrow> s < kL1ShardCount \<Longrightarrow> shard_inv seed s shard \<Longrightarrow> l1_inv seed (set_shard c s shard)"
  by (auto simp: l1_inv_def set_shard_def nth_list_update)

lemma l1_lookup_set_shard:
  "l1_inv seed c \<Longrightarrow> s < kL1ShardCount \<Longrightarrow> l1_lookup seed (set_shard c s shard) k =
     (if shard_idx (key_hash seed k) = s then shard_lookup shard k else l1_lookup seed c k)"
  by (simp add: l1_lookup_def set_shard_def l1_inv_def nth_list_update)

definition entry_shard :: "HashSeed \<Rightarrow> L1Cache \<Rightarrow> string \<Rightarrow> L1CacheShard" where
  "entry_shard seed c k = l1_shards c ! shard_idx (key_hash seed k)"

definition admitted :: "HashSeed \<Rightarrow> L1Cache \<Rightarrow> CacheEntry \<Rightarrow> L1Cache" where
  "admitted seed c e = set_shard c (shard_idx (key_hash seed (ent_key e)))
     (store_slot (entry_shard seed c (ent_key e)) (admit_slot seed (entry_shard seed c (ent_key e)) (ent_key e))
        (key_hash seed (ent_key e)) e
        (duplicate_slot (entry_shard seed c (ent_key e)) (key_hash seed (ent_key e)) (ent_key e) \<noteq> None))"

lemma l1_put_state:
  "fst (l1_put seed (Some c) e mx) = Some (if l1_can_store_entry e then admitted seed c e else c)"
  using fst_admit [of "entry_shard seed c (ent_key e)" seed "ent_key e" "key_hash seed (ent_key e)" e mx]
  by (auto simp: l1_put_def l1_can_store_entry_def admitted_def set_shard_def entry_shard_def key_hash_def
      Let_def split: prod.splits)

definition stale :: "HashSeed \<Rightarrow> L1Cache \<Rightarrow> CacheEntry \<Rightarrow> bool" where
  "stale seed c e \<longleftrightarrow> (\<exists>old. l1_lookup seed c (ent_key e) = Some old \<and>
     ent_created_at_epoch_ms old > ent_created_at_epoch_ms e)"

lemma l1_put_if_newer_state:
  assumes "l1_inv seed c"
  shows "fst (l1_put_if_newer seed (Some c) e mx) \<longleftrightarrow> l1_can_store_entry e \<and> \<not> stale seed c e"
    and "fst (snd (l1_put_if_newer seed (Some c) e mx)) =
      Some (if l1_can_store_entry e \<and> \<not> stale seed c e then admitted seed c e else c)"
proof -
  let ?sh = "entry_shard seed c (ent_key e)" and ?k = "ent_key e" and ?h = "key_hash seed (ent_key e)"
  have inv: "shard_inv seed (shard_idx ?h) ?sh"
    using l1_inv_shard [OF assms] by (simp add: entry_shard_def)
  have st: "(case duplicate_slot ?sh ?h ?k of
      Some i \<Rightarrow> ent_created_at_epoch_ms (sh_slots ?sh ! i) > ent_created_at_epoch_ms e | None \<Rightarrow> False) \<longleftrightarrow>
      stale seed c e"
  proof (cases "duplicate_slot ?sh ?h ?k")
    case None
    then show ?thesis
      using duplicate_slot_None [OF inv None] shard_lookup_None_iff [of ?sh ?k]
      by (auto simp: stale_def l1_lookup_def entry_shard_def)
  next
    case (Some i)
    then have "shard_lookup ?sh ?k = Some (sh_slots ?sh ! i)"
      using duplicate_slot_iff [OF inv] shard_lookup_iff [OF inv] by blast
    with Some show ?thesis by (simp add: stale_def l1_lookup_def entry_shard_def)
  qed
  have u: "l1_put_if_newer seed (Some c) e mx =
    (if ent_body_len e > kL1MaxBodySize then
       (False, Some c, record_cache_event mx CM_L1StoreRejectedBodyTooLarge)
     else if ent_body_len e > 0 \<and> ent_body e = None then
       (False, Some c, record_cache_event mx CM_L1StoreRejectedInvalidBody)
     else if stale seed c e then (False, Some c, mx)
     else (True, Some (set_shard c (shard_idx ?h) (fst (admit ?sh (duplicate_slot ?sh ?h ?k) ?h e mx))),
           snd (admit ?sh (duplicate_slot ?sh ?h ?k) ?h e mx)))"
    unfolding st [symmetric]
    by (simp only: l1_put_if_newer_def option.case Let_def key_hash_def entry_shard_def set_shard_def
        case_prod_beta)
  show "fst (l1_put_if_newer seed (Some c) e mx) \<longleftrightarrow> l1_can_store_entry e \<and> \<not> stale seed c e"
    "fst (snd (l1_put_if_newer seed (Some c) e mx)) =
      Some (if l1_can_store_entry e \<and> \<not> stale seed c e then admitted seed c e else c)"
    unfolding u fst_admit by (simp_all add: l1_can_store_entry_def admitted_def)
qed

lemma admitted_inv:
  assumes "l1_inv seed c" and "l1_can_store_entry e" and "entry_valid e"
  shows "l1_inv seed (admitted seed c e)"
proof -
  let ?k = "ent_key e"
  have i: "shard_inv seed (shard_idx (key_hash seed ?k)) (entry_shard seed c ?k)"
    using l1_inv_shard [OF assms(1)] by (simp add: entry_shard_def)
  show ?thesis
    unfolding admitted_def
    by (rule set_shard_inv [OF assms(1) shard_idx_less])
      (rule store_slot_inv [OF i admit_slot_target [OF i] assms(2,3) refl])
qed

lemma admitted_lookup:
  assumes "l1_inv seed c" and "l1_can_store_entry e" and "entry_valid e"
    and "l1_lookup seed (admitted seed c e) k = Some x"
  shows "k = ent_key e \<and> x = stored e \<or> k \<noteq> ent_key e \<and> l1_lookup seed c k = Some x"
proof (cases "shard_idx (key_hash seed k) = shard_idx (key_hash seed (ent_key e))")
  case True
  let ?k = "ent_key e"
  have i: "shard_inv seed (shard_idx (key_hash seed ?k)) (entry_shard seed c ?k)"
    using l1_inv_shard [OF assms(1)] by (simp add: entry_shard_def)
  from assms(4) True have "shard_lookup (store_slot (entry_shard seed c ?k)
      (admit_slot seed (entry_shard seed c ?k) ?k) (key_hash seed ?k) e
      (duplicate_slot (entry_shard seed c ?k) (key_hash seed ?k) ?k \<noteq> None)) k = Some x"
    by (simp add: admitted_def l1_lookup_set_shard [OF assms(1)])
  from store_slot_lookup [OF i admit_slot_target [OF i] assms(2,3) refl this] True
  show ?thesis by (simp add: l1_lookup_def entry_shard_def)
next
  case False
  with assms(4) show ?thesis by (auto simp: admitted_def l1_lookup_set_shard [OF assms(1)])
qed

definition unwrapped :: "HashSeed \<Rightarrow> L1Cache \<Rightarrow> string \<Rightarrow> bool" where
  "unwrapped seed c k \<longleftrightarrow> list_all (\<lambda>g. g + 1 \<noteq> 0) (sh_generations (entry_shard seed c k))"

lemma admitted_lookup_same:
  assumes "l1_inv seed c" and "l1_can_store_entry e" and "entry_valid e" and "unwrapped seed c (ent_key e)"
  shows "l1_lookup seed (admitted seed c e) (ent_key e) = Some (stored e)"
proof -
  let ?k = "ent_key e"
  let ?sh = "entry_shard seed c ?k"
  have i: "shard_inv seed (shard_idx (key_hash seed ?k)) ?sh"
    using l1_inv_shard [OF assms(1)] by (simp add: entry_shard_def)
  note t = admit_slot_target [OF i, of ?k]
  have "sh_generations ?sh ! admit_slot seed ?sh ?k + 1 \<noteq> 0"
    using assms(4) t i by (simp add: unwrapped_def list_all_length store_target_def shard_inv_def shard_lengths_def)
  from store_slot_lookup_same [OF i t assms(2,3) refl this] show ?thesis
    by (simp add: admitted_def l1_lookup_set_shard [OF assms(1)])
qed

lemma l1_remove_state:
  assumes "l1_inv seed c"
  shows "\<exists>sh. fst (snd (l1_remove seed (Some c) (Some k) mx)) =
      Some (set_shard c (shard_idx (key_hash seed k)) sh) \<and>
    shard_sub sh (entry_shard seed c k) \<and> (\<forall>i. \<not> holds sh k i)"
proof -
  let ?sh = "entry_shard seed c k"
  let ?P = "\<lambda>i. sh_generations ?sh ! i \<noteq> 0 \<and> sh_key_hashes ?sh ! i = key_hash seed k \<and>
    strncmp_eq kCacheKeyMaxLen (ent_key (sh_slots ?sh ! i)) k"
  have inv: "shard_inv seed (shard_idx (key_hash seed k)) ?sh"
    using l1_inv_shard [OF assms] by (simp add: entry_shard_def)
  then have l: "shard_lengths ?sh" by (simp add: shard_inv_def)
  have p: "?P i \<longleftrightarrow> holds ?sh k i" if "i < kL1SlotsPerShard" for i
    using that holds_ok [OF inv, of "slot_key ?sh i" i] strncmp_short [of "slot_key ?sh i" k]
    by (auto simp: holds_def live_def slot_key_def slot_ok_def)
  show ?thesis
  proof (cases "find_index ?P [0..<kL1SlotsPerShard]")
    case None
    then have "\<not> holds ?sh k i" for i using p [of i] by (auto simp: find_index_None_iff holds_def)
    moreover have "fst (snd (l1_remove seed (Some c) (Some k) mx)) = Some c"
      using None by (simp add: l1_remove_def Let_def entry_shard_def key_hash_def)
    moreover have "set_shard c (shard_idx (key_hash seed k)) ?sh = c"
      by (simp add: set_shard_def entry_shard_def)
    ultimately show ?thesis using shard_sub_refl [OF l] by metis
  next
    case (Some i)
    then have i: "i < kL1SlotsPerShard" "holds ?sh k i" using p by (auto simp: find_index_upt_iff)
    have "\<not> holds (clear_slot ?sh i) k j" for j
      using clear_slot_nth [OF l i(1), of j] holds_unique [OF inv i(2), of j] by (auto simp: holds_def slot_key_def)
    moreover have "fst (snd (l1_remove seed (Some c) (Some k) mx)) =
        Some (set_shard c (shard_idx (key_hash seed k)) (clear_slot ?sh i))"
      using Some by (simp add: l1_remove_def Let_def entry_shard_def key_hash_def set_shard_def)
    ultimately show ?thesis using clear_slot_sub [OF l i(1)] by blast
  qed
qed

lemma l1_cleanup_state:
  "snd (l1_cleanup_route_namespace (Some c) r) = Some (case cl_route_id r of
     None \<Rightarrow> c
   | Some rid \<Rightarrow> c\<lparr>l1_shards := map (fst \<circ> cleanup_shard
       (cleanup_match r (cleanup_marker rid (cl_old_epoch r)))) (l1_shards c)\<rparr>)"
  by (simp add: l1_cleanup_route_namespace_def Let_def split: option.splits)

lemma l1_cleanup_lookup:
  assumes "l1_inv seed c" and "c' = c\<lparr>l1_shards := map (fst \<circ> cleanup_shard m) (l1_shards c)\<rparr>"
  shows "l1_inv seed c'" and "l1_lookup seed c' k = Some x \<Longrightarrow> l1_lookup seed c k = Some x \<and> \<not> m k"
proof -
  have n: "l1_shards c' ! s = fst (cleanup_shard m (l1_shards c ! s))" if "s < kL1ShardCount" for s
    using that assms by (simp add: l1_inv_def)
  have i: "shard_inv seed s (l1_shards c ! s)" if "s < kL1ShardCount" for s
    using that assms(1) by (simp add: l1_inv_def)
  then have sub: "shard_sub (l1_shards c' ! s) (l1_shards c ! s)" if "s < kL1ShardCount" for s
    using that n cleanup_shard_sub(1) [of "l1_shards c ! s" m] by (simp add: shard_inv_def)
  have inv: "shard_inv seed s (l1_shards c' ! s)" if "s < kL1ShardCount" for s
    using shard_sub_inv [OF sub [OF that] i [OF that]] .
  then show "l1_inv seed c'" using assms by (simp add: l1_inv_def)
  let ?s = "shard_idx (key_hash seed k)"
  assume l: "l1_lookup seed c' k = Some x"
  then obtain j where "holds (l1_shards c' ! ?s) k j"
    using shard_lookup_iff [OF inv [OF shard_idx_less]] by (auto simp: l1_lookup_def)
  then have "\<not> m k"
    using cleanup_shard_sub(2) [of "l1_shards c ! ?s" m k j] i [OF shard_idx_less] n [OF shard_idx_less]
    by (simp add: shard_inv_def)
  moreover have "l1_lookup seed c k = Some x"
    using l shard_sub_lookup [OF sub [OF shard_idx_less] i [OF shard_idx_less]] by (simp add: l1_lookup_def)
  ultimately show "l1_lookup seed c k = Some x \<and> \<not> m k" by blast
qed

lemma l1_step_inv: "l1_inv seed c \<Longrightarrow> op_valid op \<Longrightarrow> l1_inv seed (l1_step seed op c)"
proof (cases op)
  case (OpRemove k mx)
  assume "l1_inv seed c"
  moreover from l1_remove_state [OF this, of k mx] obtain sh where
    "l1_step seed op c = set_shard c (shard_idx (key_hash seed k)) sh" "shard_sub sh (entry_shard seed c k)"
    using OpRemove by auto
  ultimately show ?thesis
    using set_shard_inv shard_sub_inv l1_inv_shard by (metis entry_shard_def shard_idx_less)
next
  case (OpCleanup r)
  assume "l1_inv seed c"
  with OpCleanup l1_cleanup_lookup(1) show ?thesis by (auto simp: l1_cleanup_state split: option.splits)
qed (auto simp: l1_put_state l1_put_if_newer_state admitted_inv)

lemma l1_step_lookup:
  assumes "l1_inv seed c" and "op_valid op" and "l1_lookup seed (l1_step seed op c) k = Some x"
  shows "op_writes seed c op k = Some x \<or> \<not> op_kills seed c op k \<and> l1_lookup seed c k = Some x"
proof (cases op)
  case (OpPut e mx)
  with assms admitted_lookup [OF assms(1), of e k x] show ?thesis by (auto simp: l1_put_state split: if_splits)
next
  case (OpPutIfNewer e mx)
  with assms admitted_lookup [OF assms(1), of e k x] show ?thesis
    by (auto simp: l1_put_if_newer_state [OF assms(1)] split: if_splits)
next
  case (OpRemove k' mx)
  from l1_remove_state [OF assms(1), of k' mx] obtain sh where sh:
    "l1_step seed op c = set_shard c (shard_idx (key_hash seed k')) sh"
    "shard_sub sh (entry_shard seed c k')" "\<forall>i. \<not> holds sh k' i"
    using OpRemove by auto
  have i: "shard_inv seed (shard_idx (key_hash seed k')) (entry_shard seed c k')"
    using l1_inv_shard [OF assms(1)] by (simp add: entry_shard_def)
  show ?thesis
  proof (cases "shard_idx (key_hash seed k) = shard_idx (key_hash seed k')")
    case True
    with assms(3) sh(1) have l: "shard_lookup sh k = Some x" by (simp add: l1_lookup_set_shard [OF assms(1)])
    then have "k \<noteq> k'" using sh(3) shard_lookup_None_iff [of sh k'] by auto
    moreover have "l1_lookup seed c k = Some x"
      using shard_sub_lookup [OF sh(2) i l] True by (simp add: l1_lookup_def entry_shard_def)
    ultimately show ?thesis using OpRemove by simp
  next
    case False
    with assms(3) sh(1) OpRemove show ?thesis by (auto simp: l1_lookup_set_shard [OF assms(1)])
  qed
next
  case (OpCleanup r)
  with assms(3) l1_cleanup_lookup(2) [OF assms(1) refl, of _ k x] show ?thesis
    by (auto simp: l1_cleanup_state split: option.splits)
qed

interpretation l1: coherent_cache "l1_inv seed" "l1_lookup seed" "l1_step seed" op_valid "op_writes seed" "op_kills seed"
  for seed
  by unfold_locales (fact l1_step_inv, fact l1_step_lookup)

section \<open>Properties\<close>

definition fresh_cache :: L1Cache where
  "fresh_cache = \<lparr>l1_shards = replicate kL1ShardCount empty_shard\<rparr>"

lemma l1_init_fresh: "l1_init (Some c) = Some fresh_cache"
  by (cases c) (simp add: l1_init_def fresh_cache_def)

lemma empty_shard_inv: "shard_inv seed s empty_shard"
  by (simp add: shard_inv_def shard_lengths_def live_def empty_shard_def)

lemma fresh_cache_inv: "l1_inv seed fresh_cache"
  by (simp add: l1_inv_def fresh_cache_def empty_shard_inv)

lemma fresh_cache_lookup: "l1_lookup seed fresh_cache k = None"
  by (simp add: l1_lookup_def fresh_cache_def shard_lookup_None_iff holds_def live_def empty_shard_def)

text \<open>What a caller gets of a stored entry: its body copied up to the capacity of the buffer.\<close>

definition delivered :: "nat option \<Rightarrow> CacheEntry \<Rightarrow> CacheEntry" where
  "delivered body_out e =
     (case (body_out, ent_body e) of
        (Some capacity, Some b) \<Rightarrow>
          if capacity = 0 then e\<lparr>ent_body := None, ent_body_len := 0\<rparr>
          else e\<lparr>ent_body := Some (take capacity b), ent_body_len := min capacity (length b)\<rparr>
      | _ \<Rightarrow> e\<lparr>ent_body := None, ent_body_len := 0\<rparr>)"

lemma read_slot_delivered:
  assumes "slot_body_ok shard i"
  shows "read_slot shard i body_out = delivered body_out (sh_slots shard ! i)"
proof (cases "ent_body (sh_slots shard ! i)")
  case None
  with assms show ?thesis by (simp add: read_slot_def delivered_def slot_body_ok_def split: option.splits)
next
  case (Some b)
  with assms have b: "ent_body_len (sh_slots shard ! i) = length b" "b \<noteq> []"
    "take (length b) (sh_bodies shard ! i) = b" by (simp_all add: slot_body_ok_def)
  have t: "take n (sh_bodies shard ! i) = take n b" if "n \<le> length b" for n
    using b(3) that by (metis take_take min.absorb1)
  show ?thesis
    using Some b by (auto simp: read_slot_def delivered_def Let_def min_def not_less t split: option.splits)
qed

text \<open>\<open>l1_get\<close> is the lookup of the key, filtered by expiry.\<close>

lemma l1_get_lookup:
  assumes "l1_inv seed c"
  shows "fst (l1_get seed (Some c) (Some k) now_ms body_out mx) =
    (case l1_lookup seed c k of
       None \<Rightarrow> None
     | Some e \<Rightarrow> if fresh now_ms e then Some (delivered body_out e) else None)"
proof -
  let ?sh = "entry_shard seed c k"
  have inv: "shard_inv seed (shard_idx (key_hash seed k)) ?sh"
    using l1_inv_shard [OF assms] by (simp add: entry_shard_def)
  have g: "fst (l1_get seed (Some c) (Some k) now_ms body_out mx) =
      map_option (\<lambda>i. read_slot ?sh i body_out)
        (fst (get_scan ?sh (key_hash seed k) k now_ms [0..<kL1SlotsPerShard] mx))"
    by (simp add: l1_get_def Let_def entry_shard_def key_hash_def case_prod_beta)
  show ?thesis
  proof (cases "\<exists>i. holds ?sh k i")
    case False
    then have "fst (get_scan ?sh (key_hash seed k) k now_ms [0..<kL1SlotsPerShard] mx) = None"
      using get_scan_iff [OF inv] by (metis not_None_eq)
    moreover have "l1_lookup seed c k = None"
      using False by (simp add: l1_lookup_def entry_shard_def [symmetric] shard_lookup_None_iff)
    ultimately show ?thesis using g by simp
  next
    case True
    then obtain i where h: "holds ?sh k i" by blast
    then have l: "l1_lookup seed c k = Some (sh_slots ?sh ! i)"
      using shard_lookup_iff [OF inv] by (auto simp: l1_lookup_def entry_shard_def)
    have r: "read_slot ?sh i body_out = delivered body_out (sh_slots ?sh ! i)"
      using holds_ok [OF inv h] by (simp add: slot_ok_def read_slot_delivered)
    have "fst (get_scan ?sh (key_hash seed k) k now_ms [0..<kL1SlotsPerShard] mx) =
        (if fresh now_ms (sh_slots ?sh ! i) then Some i else None)"
      using get_scan_iff [OF inv, of k now_ms mx] h holds_unique [OF inv h] by (metis not_None_eq)
    then show ?thesis using g l r by simp
  qed
qed

text \<open>
  (C27) Coherence of the first cache level: after any sequence of stores, promotions, removals
  and namespace clean-ups on an initialised cache, a hit for a key returns exactly what the last call
  of the run that was accepted under that very key stored, not expired, and no call since then
  removed or cleaned up the key. A promotion that the cache refused as older counts for nothing.
\<close>

theorem l1_hit_is_last_store:
  assumes "l1_init (Some c) = Some c0" and "list_all op_valid ops"
    and "fst (l1_get seed (Some (fold (l1_step seed) ops c0)) (Some k) now_ms body_out mx) = Some out"
  shows "\<exists>i<length ops. \<exists>e. op_writes seed (fold (l1_step seed) (take i ops) c0) (ops ! i) k = Some e \<and>
    fresh now_ms e \<and> out = delivered body_out e \<and>
    (\<forall>j. i < j \<and> j < length ops \<longrightarrow> \<not> op_kills seed (fold (l1_step seed) (take j ops) c0) (ops ! j) k)"
proof -
  have c0: "c0 = fresh_cache" using assms(1) by (simp add: l1_init_fresh)
  have inv: "l1_inv seed (fold (l1_step seed) ops c0)"
    unfolding c0 by (rule l1.run_inv [OF fresh_cache_inv assms(2)])
  from assms(3) obtain e where e: "l1_lookup seed (fold (l1_step seed) ops c0) k = Some e"
    "fresh now_ms e" "out = delivered body_out e"
    by (auto simp: l1_get_lookup [OF inv] split: option.splits if_splits)
  have "l1_lookup seed c0 k = None" using fresh_cache_lookup c0 by simp
  with l1.run_lookup [OF fresh_cache_inv assms(2) e(1) [unfolded c0]] e(2,3) show ?thesis
    unfolding c0 by (metis option.distinct(1))
qed

lemma fresh_stored [simp]: "fresh now_ms (stored e) \<longleftrightarrow> fresh now_ms e"
  by (auto simp: fresh_def stored_def is_expired_def)

text \<open>
  A store is visible: right after an admissible entry is put, a lookup of its key returns it
  until it expires, whatever the cache held. The hypothesis on the generations excludes the
  32-bit wrap of the slot counter.
\<close>

theorem l1_get_after_put:
  assumes "l1_inv seed c" and "l1_can_store_entry e" and "entry_valid e"
    and "unwrapped seed c (ent_key e)" and "fresh now_ms e"
  shows "fst (l1_get seed (fst (l1_put seed (Some c) e mx)) (Some (ent_key e)) now_ms body_out mx') =
    Some (delivered body_out (stored e))"
  using assms by (simp add: l1_put_state l1_get_lookup [OF admitted_inv] admitted_lookup_same)

definition sample_entry :: CacheEntry where
  "sample_entry = CacheEntry_default\<lparr>ent_key := ''GET|r|/a'', ent_status_code := 200, ent_body := Some ''ok'',
     ent_body_len := 2, ent_created_at_epoch_ms := 5, ent_expires_at_epoch_ms := 100\<rparr>"

lemma sample_entry_facts:
  "l1_can_store_entry sample_entry" "entry_valid sample_entry" "fresh 50 sample_entry"
  "ent_key sample_entry = ''GET|r|/a''" "delivered (Some 64) (stored sample_entry) = sample_entry"
  by (simp_all add: sample_entry_def l1_can_store_entry_def entry_valid_def fresh_def is_expired_def
      kL1MaxBodySize_def kCacheKeyMaxLen_def CacheEntry_default_def delivered_def stored_def)

lemma fresh_cache_unwrapped: "unwrapped seed fresh_cache k"
  by (simp add: unwrapped_def entry_shard_def fresh_cache_def empty_shard_def list_all_iff)

theorem l1_get_after_put_witness:
  "fst (l1_get \<lparr>k0 = 1, k1 = 2\<rparr> (fst (l1_put \<lparr>k0 = 1, k1 = 2\<rparr> (Some fresh_cache) sample_entry None))
     (Some ''GET|r|/a'') 50 (Some 64) None) = Some sample_entry"
  using l1_get_after_put [OF fresh_cache_inv sample_entry_facts(1,2) fresh_cache_unwrapped sample_entry_facts(3),
      of "\<lparr>k0 = 1, k1 = 2\<rparr>" None "Some 64" None]
  by (simp add: sample_entry_facts)

lemma sample_hit:
  "fst (l1_get seed (Some (fold (l1_step seed) [OpPut sample_entry None] fresh_cache)) (Some ''GET|r|/a'') 50
     (Some 64) None) = Some sample_entry"
  using sample_entry_facts fresh_cache_inv [of seed]
    admitted_lookup_same [OF fresh_cache_inv sample_entry_facts(1,2) fresh_cache_unwrapped, of seed]
  by (simp add: l1_put_state l1_get_lookup admitted_inv)

text \<open>A store, then a promotion of an older entry, which the cache refuses: the hit is the store.\<close>

definition older_entry :: CacheEntry where
  "older_entry = sample_entry\<lparr>ent_created_at_epoch_ms := 1\<rparr>"

lemma sample_run:
  "fold (l1_step seed) [OpPut sample_entry None, OpPutIfNewer older_entry None] fresh_cache = admitted seed fresh_cache sample_entry"
proof -
  let ?c = "admitted seed fresh_cache sample_entry"
  have i: "l1_inv seed ?c" by (rule admitted_inv [OF fresh_cache_inv sample_entry_facts(1,2)])
  have "l1_lookup seed ?c (ent_key older_entry) = Some (stored sample_entry)"
    using admitted_lookup_same [OF fresh_cache_inv sample_entry_facts(1,2) fresh_cache_unwrapped, of seed]
    by (simp add: older_entry_def)
  then have "stale seed ?c older_entry" by (simp add: stale_def stored_def older_entry_def sample_entry_def)
  then show ?thesis using l1_put_if_newer_state(2) [OF i, of older_entry None] by (simp add: l1_put_state sample_entry_facts)
qed

lemma sample_run_hit:
  "fst (l1_get seed (Some (fold (l1_step seed) [OpPut sample_entry None, OpPutIfNewer older_entry None] fresh_cache))
     (Some ''GET|r|/a'') 50 (Some 64) None) = Some sample_entry"
  using sample_hit [of seed] unfolding sample_run by (simp add: l1_put_state sample_entry_facts)

theorem l1_hit_is_last_store_witness:
  "let ops = [OpPut sample_entry None, OpPutIfNewer older_entry None]; seed = \<lparr>k0 = 1, k1 = 2\<rparr>
   in \<exists>i<2. \<exists>e. op_writes seed (fold (l1_step seed) (take i ops) fresh_cache) (ops ! i) ''GET|r|/a'' = Some e \<and>
        sample_entry = delivered (Some 64) e"
proof -
  let ?ops = "[OpPut sample_entry None, OpPutIfNewer older_entry None]"
  have v: "list_all op_valid ?ops"
    by (simp add: entry_valid_def older_entry_def sample_entry_def kCacheKeyMaxLen_def)
  from l1_hit_is_last_store [OF l1_init_fresh v sample_run_hit [of "\<lparr>k0 = 1, k1 = 2\<rparr>"]]
  show ?thesis by (auto simp: Let_def numeral_2_eq_2)
qed

text \<open>
  Promotion never goes back in time: over a call of \<open>l1_put_if_newer\<close>, whatever the entry, the
  creation time of what a key returns does not decrease.
\<close>

theorem l1_put_if_newer_monotone:
  assumes "l1_inv seed c" and "entry_valid e"
    and "fst (l1_get seed (Some c) (Some k) 0 None mx) = Some old"
    and "fst (l1_get seed (fst (snd (l1_put_if_newer seed (Some c) e mx'))) (Some k) 0 None mx) = Some new"
  shows "ent_created_at_epoch_ms old \<le> ent_created_at_epoch_ms new"
proof -
  have f: "fresh 0 x" for x by (simp add: fresh_def)
  have d: "ent_created_at_epoch_ms (delivered b x) = ent_created_at_epoch_ms x" for b x
    by (simp add: delivered_def split: option.splits)
  from assms(3) obtain o' where o': "l1_lookup seed c k = Some o'" "old = delivered None o'"
    by (auto simp: l1_get_lookup [OF assms(1)] f split: option.splits)
  show ?thesis
  proof (cases "l1_can_store_entry e \<and> \<not> stale seed c e")
    case False
    then have "fst (snd (l1_put_if_newer seed (Some c) e mx')) = Some c"
      using l1_put_if_newer_state(2) [OF assms(1), of e mx'] by auto
    with assms(3,4) show ?thesis by (simp add: l1_get_lookup [OF assms(1)])
  next
    case True
    then have i: "l1_inv seed (admitted seed c e)" using admitted_inv [OF assms(1)] assms(2) by blast
    from assms(4) True obtain n where n: "l1_lookup seed (admitted seed c e) k = Some n" "new = delivered None n"
      by (auto simp: l1_put_if_newer_state(2) [OF assms(1)] l1_get_lookup [OF i] f split: option.splits)
    from admitted_lookup [OF assms(1) _ assms(2) n(1)] True consider
      "k = ent_key e" "n = stored e" | "l1_lookup seed c k = Some n" by blast
    then show ?thesis
    proof cases
      case 1
      with True o' have "ent_created_at_epoch_ms o' \<le> ent_created_at_epoch_ms e"
        by (auto simp: stale_def not_less)
      with 1 o' n show ?thesis by (simp add: d stored_def)
    next
      case 2
      with o' n show ?thesis by (simp add: d)
    qed
  qed
qed

lemma sample_get:
  assumes "l1_inv seed c" and "l1_lookup seed c k = Some e"
  shows "fst (l1_get seed (Some c) (Some k) 0 None mx) = Some (delivered None e)"
  using assms by (simp add: l1_get_lookup fresh_def)

theorem l1_put_if_newer_monotone_witness:
  "let seed = \<lparr>k0 = 1, k1 = 2\<rparr>; c = admitted seed fresh_cache sample_entry;
       e = sample_entry\<lparr>ent_created_at_epoch_ms := 1\<rparr>
   in \<exists>a b. fst (l1_get seed (Some c) (Some ''GET|r|/a'') 0 None None) = Some a \<and>
        fst (l1_get seed (fst (snd (l1_put_if_newer seed (Some c) e None))) (Some ''GET|r|/a'') 0 None None) = Some b \<and>
        ent_created_at_epoch_ms a \<le> ent_created_at_epoch_ms b"
proof -
  define seed where "seed = \<lparr>k0 = (1 :: u64), k1 = 2\<rparr>"
  define c where "c = admitted seed fresh_cache sample_entry"
  let ?e = "sample_entry\<lparr>ent_created_at_epoch_ms := 1\<rparr>"
  have i: "l1_inv seed c" unfolding c_def by (rule admitted_inv [OF fresh_cache_inv sample_entry_facts(1,2)])
  have l: "l1_lookup seed c ''GET|r|/a'' = Some (stored sample_entry)"
    using admitted_lookup_same [OF fresh_cache_inv sample_entry_facts(1,2) fresh_cache_unwrapped, of seed]
    by (simp add: c_def sample_entry_facts)
  have v: "entry_valid ?e"
    by (simp add: entry_valid_def sample_entry_def kCacheKeyMaxLen_def)
  have "stale seed c ?e" using l by (simp add: stale_def stored_def sample_entry_def)
  then have "fst (snd (l1_put_if_newer seed (Some c) ?e None)) = Some c"
    using l1_put_if_newer_state(2) [OF i, of ?e None] by simp
  then have b: "fst (l1_get seed (fst (snd (l1_put_if_newer seed (Some c) ?e None))) (Some ''GET|r|/a'') 0 None None) =
      Some (delivered None (stored sample_entry))"
    using sample_get [OF i l] by simp
  from l1_put_if_newer_monotone [OF i v sample_get [OF i l] b] sample_get [OF i l] b show ?thesis
    unfolding Let_def seed_def [symmetric] c_def [symmetric] by blast
qed

lemma strstr_skip:
  assumes "c \<notin> set a"
  shows "strstr (a @ (c # m) @ b) (c # m) = Some ((c # m) @ b)"
  using assms by (induction a) auto

lemma skip_pipes_plain: "no_pipe a \<Longrightarrow> skip_pipes (Suc n) (a @ CHR ''|'' # b) = skip_pipes n b"
  by (induction a) (auto simp: no_pipe_def)

text \<open>The marker starts at the first separator of a key, so the scan finds the key's own route and epoch.\<close>

lemma strstr_marker:
  assumes "ck_route_cache_epoch_ready inp" and "ck_route_id inp = Some rid" and "length rid \<le> 400"
  shows "strstr (key_head inp @ rest) (cleanup_marker rid (ck_route_cache_epoch inp)) =
    Some (cleanup_marker rid (ck_route_cache_epoch inp) @ rest)"
proof -
  let ?m = "rid @ ''|epoch:'' @ show_u64 (ck_route_cache_epoch inp) @ ''|''"
  have m: "cleanup_marker rid (ck_route_cache_epoch inp) = CHR ''|'' # ?m"
    using assms(3) show_u64_length [of "ck_route_cache_epoch inp"] by (simp add: cleanup_marker_def)
  have "key_head inp @ rest = ((if ck_variant inp then ''var:'' else '''') @ ''GET'') @ (CHR ''|'' # ?m) @ rest"
    using assms(1,2) by (simp add: key_head_def)
  moreover have "CHR ''|'' \<notin> set ((if ck_variant inp then ''var:'' else '''') @ ''GET'')" by simp
  ultimately show ?thesis using m strstr_skip by metis
qed

lemma cleanup_match_key:
  assumes "build_cache_key inp n = Some k" and "ck_route_cache_epoch_ready inp" and "ck_route_id inp = Some rid"
    and "length rid \<le> 400" and "cl_old_epoch req = ck_route_cache_epoch inp"
    and "cl_old_policy_identity req = None \<or>
      plain_input inp \<and> cl_old_policy_identity req = Some (opt_text (ck_policy_version inp))"
  shows "cleanup_match req (cleanup_marker rid (cl_old_epoch req)) k"
proof -
  let ?tail = "vary_text inp @ scope_text inp"
  let ?v = "opt_text (ck_policy_version inp)"
  let ?q = "the (ck_path inp) @ CHR ''|'' # opt_text (ck_query inp) @ CHR ''|'' # join '','' (key_fields inp) @ CHR ''|'' # ?v @ ?tail"
  have k: "k = key_head inp @ ?q" using build_cache_key_SomeD [OF assms(1)] by (simp add: key_text_def)
  note s = strstr_marker [OF assms(2-4), of ?q]
  show ?thesis
  proof (cases "cl_old_policy_identity req")
    case None
    with k s show ?thesis using assms(5) by (simp add: cleanup_match_def)
  next
    case (Some ident)
    with assms(6) have p: "plain_input inp" "ident = ?v" by auto
    have np: "no_pipe (the (ck_path inp))" "no_pipe (opt_text (ck_query inp))"
      "no_pipe (join '','' (key_fields inp))" "no_pipe ?v"
      using p(1) no_pipe_join [of "key_fields inp"] by (auto simp: plain_input_def plain_fields_def)
    have "skip_pipes 3 ?q = Some (?v @ ?tail)"
      using np by (simp add: numeral_3_eq_3 skip_pipes_plain)
    moreover have "takeWhile (\<lambda>c. c \<noteq> CHR ''|'') (?v @ ?tail) = ?v"
      by (rule takeWhile_no_pipe [OF np(4)]) (auto simp: vary_text_def scope_text_def)
    ultimately show ?thesis
      using k s Some p(2) assms(5) by (simp add: cleanup_match_def Let_def strncmp_eq_def)
  qed
qed

text \<open>
  The namespace clean-up is complete: after it ran for a route and an epoch, no request of
  that route whose key was built under that epoch hits, whatever its path, query and fields,
  variant keys included. When the clean-up is restricted to one policy identity the same holds
  for the keys of that identity whose components hold no separator.
\<close>

theorem l1_cleanup_complete:
  assumes "l1_inv seed c" and "build_cache_key inp n = Some k" and "ck_route_cache_epoch_ready inp"
    and "ck_route_id inp = Some rid" and "length rid \<le> 400"
    and "cl_route_id req = Some rid" and "cl_old_epoch req = ck_route_cache_epoch inp"
    and "cl_old_policy_identity req = None \<or>
      plain_input inp \<and> cl_old_policy_identity req = Some (opt_text (ck_policy_version inp))"
  shows "fst (l1_get seed (snd (l1_cleanup_route_namespace (Some c) req)) (Some k) now_ms body_out mx) = None"
proof -
  have m: "cleanup_match req (cleanup_marker rid (cl_old_epoch req)) k"
    by (rule cleanup_match_key [OF assms(2-5,7,8)])
  define c' where "c' = c\<lparr>l1_shards := map (fst \<circ> cleanup_shard
      (cleanup_match req (cleanup_marker rid (cl_old_epoch req)))) (l1_shards c)\<rparr>"
  note s = l1_cleanup_lookup [OF assms(1) c'_def]
  have "l1_lookup seed c' k = None" using s(2) m by (metis not_None_eq)
  then show ?thesis
    using assms(6) s(1) by (simp add: l1_cleanup_state c'_def [symmetric] l1_get_lookup)
qed

theorem l1_cleanup_complete_witness:
  "\<exists>k. build_cache_key (sample_input 7 ''/o'' ''p=1'') 1024 = Some k \<and>
     fst (l1_get \<lparr>k0 = 1, k1 = 2\<rparr>
       (snd (l1_cleanup_route_namespace (Some (admitted \<lparr>k0 = 1, k1 = 2\<rparr> fresh_cache (sample_entry\<lparr>ent_key := k\<rparr>)))
         \<lparr>cl_route_id = Some ''orders'', cl_old_epoch = 7, cl_old_policy_identity = None,
          cl_include_variant_entries = True\<rparr>))
       (Some k) 50 (Some 64) None) = None"
proof -
  let ?i = "sample_input 7 ''/o'' ''p=1''" and ?seed = "\<lparr>k0 = (1 :: u64), k1 = 2\<rparr>"
  have b: "build_cache_key ?i 1024 = Some (key_text ?i)" by (rule build_sample) simp
  have "length (key_text ?i) < kCacheKeyMaxLen"
    using show_u64_length [of 7] by (simp add: key_text_sample kCacheKeyMaxLen_def)
  then have i: "l1_inv ?seed (admitted ?seed fresh_cache (sample_entry\<lparr>ent_key := key_text ?i\<rparr>))"
    by (intro admitted_inv fresh_cache_inv)
      (simp_all add: l1_can_store_entry_def entry_valid_def sample_entry_def kL1MaxBodySize_def)
  have "fst (l1_get ?seed (snd (l1_cleanup_route_namespace (Some (admitted ?seed fresh_cache
      (sample_entry\<lparr>ent_key := key_text ?i\<rparr>))) \<lparr>cl_route_id = Some ''orders'', cl_old_epoch = 7,
      cl_old_policy_identity = None, cl_include_variant_entries = True\<rparr>)) (Some (key_text ?i)) 50 (Some 64) None) = None"
    by (rule l1_cleanup_complete [OF i b, of "''orders''"]) (simp_all add: sample_input_def)
  with b show ?thesis by blast
qed

section \<open>The wrap of the slot generation\<close>

text \<open>
  The shard of a key that was stored \<open>n\<close> times and nothing else: one slot has generation \<open>n\<close>, which
  is a 32-bit counter, and the others have never been used.
\<close>

definition stored_times :: "HashSeed \<Rightarrow> string \<Rightarrow> nat \<Rightarrow> L1Cache \<Rightarrow> bool" where
  "stored_times seed k n c \<longleftrightarrow> l1_inv seed c \<and>
     (\<exists>i<kL1SlotsPerShard. (of_nat n \<noteq> (0 :: u32) \<longrightarrow> holds (entry_shard seed c k) k i) \<and>
        (\<forall>j<kL1SlotsPerShard. sh_generations (entry_shard seed c k) ! j = (if j = i then of_nat n else 0)))"

lemma stored_times_Suc:
  assumes st: "stored_times seed (ent_key e) n c" and e: "l1_can_store_entry e" "entry_valid e"
  shows "stored_times seed (ent_key e) (Suc n) (admitted seed c e)"
proof -
  let ?k = "ent_key e"
  let ?sh = "entry_shard seed c ?k" and ?c = "admitted seed c e"
  let ?t = "admit_slot seed ?sh ?k"
  have inv: "l1_inv seed c" using st by (simp add: stored_times_def)
  then have sinv: "shard_inv seed (shard_idx (key_hash seed ?k)) ?sh" using l1_inv_shard by (simp add: entry_shard_def)
  then have len: "shard_lengths ?sh" by (simp add: shard_inv_def)
  obtain i where i: "i < kL1SlotsPerShard" "of_nat n \<noteq> (0 :: u32) \<Longrightarrow> holds ?sh ?k i"
    "\<And>j. j < kL1SlotsPerShard \<Longrightarrow> sh_generations ?sh ! j = (if j = i then of_nat n else 0)"
    using st by (auto simp: stored_times_def)
  note t = admit_slot_target [OF sinv, of ?k]
  then have tl: "?t < kL1SlotsPerShard" by (simp add: store_target_def)
  have ti: "of_nat n \<noteq> (0 :: u32) \<Longrightarrow> ?t = i" using i(2) t by (auto simp: store_target_def)
  then have gt: "sh_generations ?sh ! ?t = of_nat n" using i(3) [OF tl] by auto
  define f where "f = (duplicate_slot ?sh (key_hash seed ?k) ?k \<noteq> None)"
  have es: "entry_shard seed ?c ?k = store_slot ?sh ?t (key_hash seed ?k) e f"
    using inv by (simp add: entry_shard_def admitted_def set_shard_def l1_inv_def f_def)
  have gens: "sh_generations (entry_shard seed ?c ?k) ! j = (if j = ?t then of_nat (Suc n) else 0)" if "j < kL1SlotsPerShard" for j
    using that len gt i(3) [OF that] ti
    by (auto simp: es store_slot_fields(2) [OF len tl e(1)] shard_lengths_def nth_list_update add.commute)
  have "holds (entry_shard seed ?c ?k) ?k ?t \<longleftrightarrow> of_nat (Suc n) \<noteq> (0 :: u32)"
    unfolding es store_slot_holds(1) [OF len t e(1)] gt by (simp add: add.commute)
  then show ?thesis
    unfolding stored_times_def using admitted_inv [OF inv e] gens tl by blast
qed

lemma stored_times_run:
  assumes "l1_can_store_entry e" and "entry_valid e"
  shows "stored_times seed (ent_key e) n (fold (l1_step seed) (replicate n (OpPut e mx)) fresh_cache)"
proof (induction n)
  case 0
  have es: "entry_shard seed fresh_cache (ent_key e) = empty_shard"
    by (simp add: entry_shard_def fresh_cache_def)
  have "sh_generations empty_shard ! j = 0" if "j < kL1SlotsPerShard" for j using that by (simp add: empty_shard_def)
  then show ?case
    using fresh_cache_inv [of seed] by (auto simp: stored_times_def es kL1SlotsPerShard_def intro: exI [of _ 0])
next
  case (Suc n)
  have "fold (l1_step seed) (replicate (Suc n) (OpPut e mx)) fresh_cache =
      l1_step seed (OpPut e mx) (fold (l1_step seed) (replicate n (OpPut e mx)) fresh_cache)"
    unfolding replicate_Suc replicate_append_same [symmetric] fold_append by simp
  with stored_times_Suc [OF Suc assms] assms(1) show ?case by (simp add: l1_put_state)
qed

text \<open>
  (C40) The wrap of the slot generation loses a store: on an initialised cache, after \<open>n\<close> stores of one admissible
  entry, the lookup of its key returns the entry, except when \<open>n\<close> is a multiple of \<open>2\<^sup>3\<^sup>2\<close>. The store
  that brings the 32-bit counter of the slot back to 0 marks the slot as empty, so what was just stored is not found.
\<close>

theorem l1_generation_wrap_loses_store:
  assumes "l1_init (Some c) = Some c0" and "l1_can_store_entry e" and "entry_valid e" and "fresh now_ms e"
  shows "fst (l1_get seed (Some (fold (l1_step seed) (replicate n (OpPut e mx)) c0)) (Some (ent_key e)) now_ms body_out mx') =
    (if 2 ^ 32 dvd n then None else Some (delivered body_out (stored e)))"
proof -
  let ?c = "fold (l1_step seed) (replicate n (OpPut e mx)) c0" and ?k = "ent_key e"
  have c0: "c0 = fresh_cache" using assms(1) by (simp add: l1_init_fresh)
  have st: "stored_times seed ?k n ?c" unfolding c0 by (rule stored_times_run [OF assms(2,3)])
  then have inv: "l1_inv seed ?c" by (simp add: stored_times_def)
  have sinv: "shard_inv seed (shard_idx (key_hash seed ?k)) (entry_shard seed ?c ?k)"
    using l1_inv_shard [OF inv] by (simp add: entry_shard_def)
  have z: "of_nat n = (0 :: u32) \<longleftrightarrow> 2 ^ 32 dvd n" by (simp add: word_of_nat_eq_0_iff)
  have "l1_lookup seed ?c ?k = (if 2 ^ 32 dvd n then None else Some (stored e))"
  proof (cases "2 ^ 32 dvd n")
    case True
    with st z have "\<not> holds (entry_shard seed ?c ?k) ?k j" for j
      by (auto simp: stored_times_def holds_def live_def split: if_splits)
    with True show ?thesis by (simp add: l1_lookup_def entry_shard_def [symmetric] shard_lookup_None_iff)
  next
    case False
    then obtain x where x: "l1_lookup seed ?c ?k = Some x"
      using st z shard_lookup_None_iff [of "entry_shard seed ?c ?k" ?k]
      by (auto simp: stored_times_def l1_lookup_def entry_shard_def [symmetric])
    have v: "list_all op_valid (replicate n (OpPut e mx))" using assms(3) by (simp add: list_all_iff)
    from l1.run_lookup [OF fresh_cache_inv v x [unfolded c0]] fresh_cache_lookup assms(2)
    have "x = stored e" by auto
    with x False show ?thesis by simp
  qed
  with assms(4) show ?thesis unfolding l1_get_lookup [OF inv] by simp
qed

theorem l1_generation_wrap_loses_store_witness:
  "fst (l1_get \<lparr>k0 = 1, k1 = 2\<rparr> (Some (fold (l1_step \<lparr>k0 = 1, k1 = 2\<rparr>) (replicate 4294967295 (OpPut sample_entry None)) fresh_cache))
     (Some ''GET|r|/a'') 50 (Some 64) None) = Some sample_entry \<and>
   fst (l1_get \<lparr>k0 = 1, k1 = 2\<rparr> (Some (fold (l1_step \<lparr>k0 = 1, k1 = 2\<rparr>) (replicate 4294967296 (OpPut sample_entry None)) fresh_cache))
     (Some ''GET|r|/a'') 50 (Some 64) None) = None"
  using l1_generation_wrap_loses_store [OF l1_init_fresh sample_entry_facts(1-3), of "\<lparr>k0 = 1, k1 = 2\<rparr>" 4294967295 None "Some 64" None]
    l1_generation_wrap_loses_store [OF l1_init_fresh sample_entry_facts(1-3), of "\<lparr>k0 = 1, k1 = 2\<rparr>" 4294967296 None "Some 64" None]
  unfolding sample_entry_facts(4,5) by simp

end
