(* ===== verification/Epoch_Store.thy ===== *)
theory Epoch_Store
  imports Prelude
begin

text \<open>
  The route cache epochs of \<^verbatim>\<open>src/runtime/route_cache_epoch_store.cpp\<close>: a bounded table from route
  identifiers to 64-bit counters, every operation under one mutex. \<open>epoch_map\<close> is the contract
  the invalidation relies on, a finite map whose entries only advance; the table is
  interpreted as such a map.
\<close>

section \<open>Data\<close>

definition kInitialRouteCacheEpoch :: u64 where "kInitialRouteCacheEpoch = 1"
definition kMaxRouteCacheEpochEntries :: nat where "kMaxRouteCacheEpochEntries = 1024"

datatype RouteCacheEpochResult =
    EpochOk | EpochNotFound | EpochInvalidArgument | EpochCapacityExceeded

record RouteCacheEpochEntry =
  ep_route_id :: string
  ep_epoch :: u64

record RouteCacheEpochStore =
  ep_entries :: "RouteCacheEpochEntry list"

definition epoch_index :: "RouteCacheEpochStore \<Rightarrow> string \<Rightarrow> nat option" where
  "epoch_index store rid = find_index (\<lambda>e. ep_route_id e = rid) (ep_entries store)"

section \<open>Operations\<close>

definition route_cache_epoch_register ::
  "RouteCacheEpochStore option \<Rightarrow> string option \<Rightarrow> RouteCacheEpochResult \<times> RouteCacheEpochStore option" where
  "route_cache_epoch_register store route_id =
     (case (store, route_id) of
        (Some s, Some rid) \<Rightarrow>
          if epoch_index s rid \<noteq> None then (EpochOk, store)
          else if length (ep_entries s) \<ge> kMaxRouteCacheEpochEntries then (EpochCapacityExceeded, store)
          else (EpochOk, Some (s\<lparr>ep_entries := ep_entries s @
                  [\<lparr>ep_route_id = strncpy_z 63 rid, ep_epoch = kInitialRouteCacheEpoch\<rparr>]\<rparr>))
      | _ \<Rightarrow> (EpochInvalidArgument, store))"

definition route_cache_epoch_get ::
  "RouteCacheEpochStore option \<Rightarrow> string option \<Rightarrow> RouteCacheEpochResult \<times> u64 option" where
  "route_cache_epoch_get store route_id =
     (case (store, route_id) of
        (Some s, Some rid) \<Rightarrow>
          (case epoch_index s rid of
             Some i \<Rightarrow> (EpochOk, Some (ep_epoch (ep_entries s ! i)))
           | None \<Rightarrow> (EpochNotFound, None))
      | _ \<Rightarrow> (EpochInvalidArgument, None))"

definition route_cache_epoch_bump ::
  "RouteCacheEpochStore option \<Rightarrow> string option \<Rightarrow>
   RouteCacheEpochResult \<times> RouteCacheEpochStore option \<times> u64 option" where
  "route_cache_epoch_bump store route_id =
     (case (store, route_id) of
        (Some s, Some rid) \<Rightarrow>
          (case epoch_index s rid of
             Some i \<Rightarrow>
               (let e = ep_entries s ! i; new = ep_epoch e + 1
                in (EpochOk, Some (s\<lparr>ep_entries := (ep_entries s)[i := e\<lparr>ep_epoch := new\<rparr>]\<rparr>), Some new))
           | None \<Rightarrow> (EpochNotFound, store, None))
      | _ \<Rightarrow> (EpochInvalidArgument, store, None))"

definition route_cache_epoch_set ::
  "RouteCacheEpochStore option \<Rightarrow> string option \<Rightarrow> u64 \<Rightarrow>
   RouteCacheEpochResult \<times> RouteCacheEpochStore option" where
  "route_cache_epoch_set store route_id epoch =
     (case (store, route_id) of
        (Some s, Some rid) \<Rightarrow>
          (case epoch_index s rid of
             Some i \<Rightarrow>
               (EpochOk, Some (s\<lparr>ep_entries := (ep_entries s)[i := (ep_entries s ! i)\<lparr>ep_epoch := epoch\<rparr>]\<rparr>))
           | None \<Rightarrow> (EpochNotFound, store))
      | _ \<Rightarrow> (EpochInvalidArgument, store))"

text \<open>The compaction loop copies each later entry one place down.\<close>

definition copy_entry :: "RouteCacheEpochEntry \<Rightarrow> RouteCacheEpochEntry" where
  "copy_entry e = e\<lparr>ep_route_id := strncpy_z 63 (ep_route_id e)\<rparr>"

definition route_cache_epoch_remove ::
  "RouteCacheEpochStore option \<Rightarrow> string option \<Rightarrow> RouteCacheEpochResult \<times> RouteCacheEpochStore option" where
  "route_cache_epoch_remove store route_id =
     (case (store, route_id) of
        (Some s, Some rid) \<Rightarrow>
          (case epoch_index s rid of
             Some i \<Rightarrow>
               (EpochOk, Some (s\<lparr>ep_entries :=
                  take i (ep_entries s) @ map copy_entry (drop (Suc i) (ep_entries s))\<rparr>))
           | None \<Rightarrow> (EpochNotFound, store))
      | _ \<Rightarrow> (EpochInvalidArgument, store))"

definition route_cache_epoch_reset_for_tests ::
  "RouteCacheEpochStore option \<Rightarrow> string option \<Rightarrow> u64 \<Rightarrow>
   RouteCacheEpochResult \<times> RouteCacheEpochStore option" where
  "route_cache_epoch_reset_for_tests store route_id epoch = route_cache_epoch_set store route_id epoch"

section \<open>The contract\<close>

datatype EpochOp = OpRegister string | OpBump string

text \<open>
  The laws: registering keeps the epoch of every known route, bumping adds one to its route
  and touches no other.
\<close>

locale epoch_map =
  fixes inv :: "'s \<Rightarrow> bool" and epoch_of :: "'s \<Rightarrow> string \<Rightarrow> u64 option"
    and register :: "string \<Rightarrow> 's \<Rightarrow> 's" and bump :: "string \<Rightarrow> 's \<Rightarrow> 's"
  assumes inv_register: "inv s \<Longrightarrow> inv (register r s)"
    and inv_bump: "inv s \<Longrightarrow> inv (bump r s)"
    and epoch_register: "inv s \<Longrightarrow> epoch_of s r = Some e \<Longrightarrow> epoch_of (register r' s) r = Some e"
    and epoch_bump: "inv s \<Longrightarrow> epoch_of (bump r' s) r =
      (if r = r' then map_option (\<lambda>e. e + 1) (epoch_of s r) else epoch_of s r)"
begin

fun perform :: "EpochOp \<Rightarrow> 's \<Rightarrow> 's" where
  "perform (OpRegister r) s = register r s"
| "perform (OpBump r) s = bump r s"

lemma perform_inv: "inv s \<Longrightarrow> inv (perform op s)"
  by (cases op) (auto intro: inv_register inv_bump)

lemma run_inv: "inv s \<Longrightarrow> inv (fold perform ops s)"
  by (induction ops arbitrary: s) (auto intro: perform_inv)

lemma perform_epoch:
  "inv s \<Longrightarrow> epoch_of s r = Some e \<Longrightarrow>
     epoch_of (perform op s) r = Some (e + of_nat (count_list [op] (OpBump r)))"
  by (cases op) (auto simp: epoch_register epoch_bump)

text \<open>An epoch counts the bumps of its route.\<close>

lemma run_epoch:
  "inv s \<Longrightarrow> epoch_of s r = Some e \<Longrightarrow>
     epoch_of (fold perform ops s) r = Some (e + of_nat (count_list ops (OpBump r)))"
proof (induction ops arbitrary: s e)
  case (Cons op ops)
  from Cons.IH [OF perform_inv [OF Cons.prems(1)] perform_epoch [OF Cons.prems, of op]]
  show ?case by (auto simp: add.commute add.left_commute)
qed simp

text \<open>So an epoch is not seen again after a bump, short of a full turn of the counter.\<close>

lemma run_epoch_fresh:
  assumes "inv s" and "epoch_of s r = Some e" and "OpBump r \<in> set ops" and "count_list ops (OpBump r) < 2 ^ 64"
  shows "epoch_of (fold perform ops s) r \<noteq> Some e"
proof -
  have "count_list ops (OpBump r) \<noteq> 0" using assms(3) by (simp add: count_list_0_iff)
  then have "(of_nat (count_list ops (OpBump r)) :: u64) \<noteq> 0"
    using assms(4) by (auto simp: word_of_nat_eq_0_iff dest: dvd_imp_le)
  with run_epoch [OF assms(1,2), of ops] show ?thesis by simp
qed

end

section \<open>The table is such a map\<close>

definition epoch_inv :: "RouteCacheEpochStore \<Rightarrow> bool" where
  "epoch_inv s \<longleftrightarrow> length (ep_entries s) \<le> kMaxRouteCacheEpochEntries \<and>
     list_all (\<lambda>e. length (ep_route_id e) < 64) (ep_entries s)"

definition epoch_of :: "RouteCacheEpochStore \<Rightarrow> string \<Rightarrow> u64 option" where
  "epoch_of s rid = snd (route_cache_epoch_get (Some s) (Some rid))"

definition epoch_register :: "string \<Rightarrow> RouteCacheEpochStore \<Rightarrow> RouteCacheEpochStore" where
  "epoch_register rid s = the (snd (route_cache_epoch_register (Some s) (Some rid)))"

definition epoch_bump :: "string \<Rightarrow> RouteCacheEpochStore \<Rightarrow> RouteCacheEpochStore" where
  "epoch_bump rid s = the (fst (snd (route_cache_epoch_bump (Some s) (Some rid))))"

lemma epoch_of_index:
  "epoch_of s rid = map_option (\<lambda>i. ep_epoch (ep_entries s ! i)) (epoch_index s rid)"
  by (simp add: epoch_of_def route_cache_epoch_get_def split: option.splits)

lemma find_index_ids:
  "find_index (\<lambda>e. ep_route_id e = rid) es = find_index (\<lambda>x. x = rid) (map ep_route_id es)"
  by (induction es) auto

lemma epoch_index_update:
  assumes "i < length (ep_entries s)" and "ep_route_id e = ep_route_id (ep_entries s ! i)"
  shows "epoch_index (s\<lparr>ep_entries := (ep_entries s)[i := e]\<rparr>) rid = epoch_index s rid"
proof -
  have "(map ep_route_id (ep_entries s))[i := ep_route_id (ep_entries s ! i)] = map ep_route_id (ep_entries s)"
    using assms(1) by (simp add: list_update_same_conv)
  then show ?thesis using assms(2) by (simp add: epoch_index_def find_index_ids map_update)
qed

lemma epoch_of_bump:
  "epoch_of (epoch_bump rid' s) rid =
     (if rid = rid' then map_option (\<lambda>e. e + 1) (epoch_of s rid) else epoch_of s rid)"
proof (cases "epoch_index s rid'")
  case None
  then show ?thesis by (simp add: epoch_bump_def route_cache_epoch_bump_def epoch_of_index)
next
  case (Some i)
  then have i: "i < length (ep_entries s)" "ep_route_id (ep_entries s ! i) = rid'"
    by (auto simp: epoch_index_def find_index_Some_iff)
  let ?e = "(ep_entries s ! i)\<lparr>ep_epoch := ep_epoch (ep_entries s ! i) + 1\<rparr>"
  have b: "epoch_bump rid' s = s\<lparr>ep_entries := (ep_entries s)[i := ?e]\<rparr>"
    using Some by (simp add: epoch_bump_def route_cache_epoch_bump_def Let_def)
  have x: "epoch_index (epoch_bump rid' s) rid = epoch_index s rid"
    unfolding b by (rule epoch_index_update) (simp_all add: i(1))
  have "j = i \<longleftrightarrow> rid = rid'" if "epoch_index s rid = Some j" for j
    using that Some i by (auto simp: epoch_index_def find_index_Some_iff) (metis nat_neq_iff)
  then show ?thesis
    using i(1) Some x by (cases "epoch_index s rid") (auto simp: epoch_of_index b nth_list_update)
qed

lemma epoch_of_register:
  assumes "epoch_of s rid = Some e"
  shows "epoch_of (epoch_register rid' s) rid = Some e"
  using assms
  by (auto simp: epoch_of_index epoch_register_def route_cache_epoch_register_def epoch_index_def
      find_index_append nth_append find_index_Some_iff split: option.splits)

lemma epoch_inv_register: "epoch_inv s \<Longrightarrow> epoch_inv (epoch_register rid s)"
  by (auto simp: epoch_inv_def epoch_register_def route_cache_epoch_register_def le_imp_less_Suc
      intro: order.strict_trans1 [OF length_strncpy_z])

lemma epoch_inv_bump: "epoch_inv s \<Longrightarrow> epoch_inv (epoch_bump rid s)"
  by (auto simp: epoch_inv_def epoch_bump_def route_cache_epoch_bump_def Let_def list_all_length nth_list_update
      epoch_index_def find_index_Some_iff split: option.splits)

interpretation epochs: epoch_map epoch_inv epoch_of epoch_register epoch_bump
  by unfold_locales (simp_all add: epoch_inv_register epoch_inv_bump epoch_of_register epoch_of_bump)

section \<open>Properties\<close>

text \<open>
  An epoch is not reused: along any run of registrations and bumps in which the route is
  bumped at least once (and fewer than \<open>2\<^sup>6\<^sup>4\<close> times) the store reports a different epoch at the end
  than at the start, and exactly the starting epoch plus the number of bumps of that route.
\<close>

theorem route_epoch_never_reused:
  assumes "epoch_inv s" and "route_cache_epoch_get (Some s) (Some rid) = (EpochOk, Some e)"
    and "OpBump rid \<in> set ops" and "count_list ops (OpBump rid) < 2 ^ 64"
  shows "\<exists>e'. route_cache_epoch_get (Some (fold epochs.perform ops s)) (Some rid) = (EpochOk, Some e') \<and>
    e' = e + of_nat (count_list ops (OpBump rid)) \<and> e' \<noteq> e"
proof -
  have e: "epoch_of s rid = Some e" using assms(2) by (simp add: epoch_of_def)
  have g: "route_cache_epoch_get (Some s') (Some rid) = (EpochOk, Some x)" if "epoch_of s' rid = Some x" for s' x
    using that by (auto simp: epoch_of_def route_cache_epoch_get_def split: option.splits)
  show ?thesis
    using g epochs.run_epoch [OF assms(1) e, of ops] epochs.run_epoch_fresh [OF assms(1) e assms(3,4)] by auto
qed

definition orders_store :: RouteCacheEpochStore where
  "orders_store = \<lparr>ep_entries = [\<lparr>ep_route_id = ''orders'', ep_epoch = 1\<rparr>]\<rparr>"

theorem route_epoch_never_reused_witness:
  "\<exists>e'. route_cache_epoch_get (Some (fold epochs.perform [OpRegister ''x'', OpBump ''orders''] orders_store))
      (Some ''orders'') = (EpochOk, Some e') \<and> e' \<noteq> 1"
proof -
  have "epoch_inv orders_store" by (simp add: epoch_inv_def orders_store_def kMaxRouteCacheEpochEntries_def)
  moreover have "route_cache_epoch_get (Some orders_store) (Some ''orders'') = (EpochOk, Some 1)"
    by (simp add: route_cache_epoch_get_def epoch_index_def orders_store_def)
  moreover have "OpBump ''orders'' \<in> set [OpRegister ''x'', OpBump ''orders'']"
    "count_list [OpRegister ''x'', OpBump ''orders''] (OpBump ''orders'') < 2 ^ 64" by simp_all
  ultimately show ?thesis by (blast dest: route_epoch_never_reused)
qed

text \<open>
  Registration and removal: a route identifier of fewer than 64 characters is known right after
  it is registered, at the initial epoch when it was new; a longer one is stored truncated and
  is still unknown, so the caller that registered it finds no epoch.
\<close>

theorem route_epoch_register_get:
  assumes "length (ep_entries s) < kMaxRouteCacheEpochEntries" and "epoch_inv s"
  shows "route_cache_epoch_get (snd (route_cache_epoch_register (Some s) (Some rid))) (Some rid) =
    (if length rid < 64 then (EpochOk, Some (case epoch_of s rid of Some e \<Rightarrow> e | None \<Rightarrow> kInitialRouteCacheEpoch))
     else (EpochNotFound, None))"
proof (cases "epoch_index s rid")
  case None
  then have "find_index (\<lambda>e. ep_route_id e = rid) (ep_entries s) = None" by (simp add: epoch_index_def)
  moreover have "strncpy_z 63 rid = rid \<longleftrightarrow> length rid < 64"
    using strncpy_z_id [of rid 63] length_strncpy_z [of 63 rid] by fastforce
  ultimately show ?thesis
    using None assms(1)
    by (simp add: route_cache_epoch_register_def route_cache_epoch_get_def epoch_of_index epoch_index_def
        find_index_append)
next
  case (Some i)
  then have "i < length (ep_entries s)" "ep_route_id (ep_entries s ! i) = rid"
    by (auto simp: epoch_index_def find_index_Some_iff)
  with assms(2) have "length rid < 64" by (auto simp: epoch_inv_def list_all_length)
  with Some show ?thesis
    by (simp add: route_cache_epoch_register_def route_cache_epoch_get_def epoch_of_index)
qed

theorem route_epoch_register_get_witness:
  "route_cache_epoch_get (snd (route_cache_epoch_register (Some orders_store) (Some ''users''))) (Some ''users'') =
     (EpochOk, Some 1) \<and>
   fst (route_cache_epoch_get (snd (route_cache_epoch_register (Some orders_store) (Some (replicate 64 CHR ''a''))))
     (Some (replicate 64 CHR ''a''))) = EpochNotFound"
proof -
  have a: "length (ep_entries orders_store) < kMaxRouteCacheEpochEntries" "epoch_inv orders_store"
    by (simp_all add: orders_store_def kMaxRouteCacheEpochEntries_def epoch_inv_def)
  have "epoch_of orders_store ''users'' = None" by (simp add: epoch_of_index epoch_index_def orders_store_def)
  with route_epoch_register_get [OF a, of "''users''"] route_epoch_register_get [OF a, of "replicate 64 CHR ''a''"]
  show ?thesis by (simp add: kInitialRouteCacheEpoch_def)
qed

end
