(* ===== verification/Query_View.thy ===== *)
theory Query_View
  imports Prelude
begin

text \<open>
  The bounded view of a query string (\<^verbatim>\<open>src/apg/query_view.cpp\<close>): the first 32 non-empty
  segments between ampersands, split at their first equals sign. A pointer into the query and
  its 16-bit length become the string they delimit.
\<close>

section \<open>The parser\<close>

record QueryParamView =
  qp_key :: string
  qp_value :: "string option"

type_synonym RequestQueryView = "QueryParamView list"

text \<open>\<open>len16\<close> is the cut at a length of \<open>0xFFFF\<close>.\<close>

definition len16 :: "string \<Rightarrow> string" where
  "len16 s = take 65535 s"

definition query_param :: "string \<Rightarrow> QueryParamView" where
  "query_param seg =
     (if CHR ''='' \<in> set seg then
        \<lparr>qp_key = len16 (takeWhile (\<lambda>c. c \<noteq> CHR ''='') seg),
         qp_value = Some (len16 (tl (dropWhile (\<lambda>c. c \<noteq> CHR ''='') seg)))\<rparr>
      else \<lparr>qp_key = len16 seg, qp_value = None\<rparr>)"

text \<open>The loop, from the pointer \<open>seg\<close> on with \<open>n\<close> parameters stored.\<close>

function query_loop :: "string \<Rightarrow> nat \<Rightarrow> RequestQueryView" where
  "query_loop seg n =
     (if seg = [] \<or> n \<ge> 32 then []
      else let s = takeWhile (\<lambda>c. c \<noteq> CHR ''&'') seg; rest = drop (Suc (length s)) seg
           in if s \<noteq> [] then query_param s # query_loop rest (Suc n) else query_loop rest n)"
  by pat_completeness auto
termination
  by (relation "measure (\<lambda>(seg, n). length seg)") auto

declare query_loop.simps [simp del]

definition parse_query_view :: "string option \<Rightarrow> RequestQueryView" where
  "parse_query_view raw_query = (case raw_query of None \<Rightarrow> [] | Some q \<Rightarrow> query_loop q 0)"

section \<open>Splitting at ampersands\<close>

fun split_amp :: "string \<Rightarrow> string list" where
  "split_amp [] = [[]]"
| "split_amp (c # cs) =
     (if c = CHR ''&'' then [] # split_amp cs
      else case split_amp cs of [] \<Rightarrow> [[c]] | s # ss \<Rightarrow> (c # s) # ss)"

lemma split_amp_nonempty [simp]: "split_amp q \<noteq> []"
  by (cases q) (auto split: list.splits)

lemma join_split_amp [simp]: "join ''&'' (split_amp q) = q"
proof (induction q)
  case (Cons c q)
  obtain s ss where "split_amp q = s # ss" by (metis list.exhaust split_amp_nonempty)
  with Cons.IH show ?case by (cases ss) auto
qed simp

lemma split_amp_plain: "CHR ''&'' \<notin> set s \<Longrightarrow> split_amp s = [s]"
  by (induction s) auto

lemma split_amp_append_amp: "split_amp (a @ CHR ''&'' # b) = split_amp a @ split_amp b"
  by (induction a) (auto split: list.splits)

lemma split_amp_join:
  "ss \<noteq> [] \<Longrightarrow> \<forall>s\<in>set ss. CHR ''&'' \<notin> set s \<Longrightarrow> split_amp (join ''&'' ss) = ss"
proof (induction ss)
  case (Cons s ss)
  then show ?case
    by (cases ss) (auto simp: split_amp_plain split_amp_append_amp)
qed simp

lemma split_amp_no_amp: "s \<in> set (split_amp q) \<Longrightarrow> CHR ''&'' \<notin> set s"
proof (induction q arbitrary: s)
  case (Cons c q)
  obtain t ts where t: "split_amp q = t # ts" by (metis list.exhaust split_amp_nonempty)
  show ?case
  proof (cases "c \<noteq> CHR ''&'' \<and> s = c # t")
    case True
    with Cons.IH [of t] show ?thesis by (auto simp: t)
  next
    case False
    then have "s = [] \<or> s \<in> set (split_amp q)" using Cons.prems by (auto simp: t split: if_splits)
    with Cons.IH [of s] show ?thesis by auto
  qed
qed simp

lemma split_amp_step:
  assumes "CHR ''&'' \<in> set q"
  shows "split_amp q = takeWhile (\<lambda>c. c \<noteq> CHR ''&'') q #
    split_amp (drop (Suc (length (takeWhile (\<lambda>c. c \<noteq> CHR ''&'') q))) q)"
  using assms by (induction q) auto

lemma split_amp_cases:
  "split_amp q = takeWhile (\<lambda>c. c \<noteq> CHR ''&'') q #
    (if CHR ''&'' \<in> set q then split_amp (drop (Suc (length (takeWhile (\<lambda>c. c \<noteq> CHR ''&'') q))) q) else [])"
proof (cases "CHR ''&'' \<in> set q")
  case False
  then have t: "takeWhile (\<lambda>c. c \<noteq> CHR ''&'') q = q" by (auto simp: takeWhile_eq_all_conv)
  from False show ?thesis by (simp add: split_amp_plain t)
qed (use split_amp_step [of q] in simp)

text \<open>The parser in terms of the split.\<close>

lemma query_loop_split:
  "query_loop seg n = map query_param (take (32 - n) (filter (\<lambda>s. s \<noteq> []) (split_amp seg)))"
proof (induction seg n rule: query_loop.induct)
  case (1 seg n)
  let ?s = "takeWhile (\<lambda>c. c \<noteq> CHR ''&'') seg"
  let ?r = "drop (Suc (length ?s)) seg"
  show ?case
  proof (cases "seg = [] \<or> n \<ge> 32")
    case True
    then show ?thesis by (subst query_loop.simps) auto
  next
    case False
    have f: "filter (\<lambda>s. s \<noteq> []) (split_amp seg) =
        (if ?s \<noteq> [] then [?s] else []) @ filter (\<lambda>s. s \<noteq> []) (split_amp ?r)"
    proof (cases "CHR ''&'' \<in> set seg")
      case True
      then show ?thesis by (simp add: split_amp_step [of seg])
    next
      case no: False
      then have t: "?s = seg" by (auto simp: takeWhile_eq_all_conv)
      from no show ?thesis by (simp add: split_amp_plain t)
    qed
    show ?thesis
    proof (cases "?s = []")
      case True
      then have "query_loop seg n = query_loop ?r n"
        using False by (subst query_loop.simps) (simp add: Let_def)
      with 1(2) [OF False refl refl] True f show ?thesis by simp
    next
      case ne: False
      then have "query_loop seg n = query_param ?s # query_loop ?r (Suc n)"
        using False by (subst query_loop.simps) (simp add: Let_def)
      moreover have "32 - n = Suc (32 - Suc n)" using False by arith
      ultimately show ?thesis using 1(1) [OF False refl refl ne] ne f by simp
    qed
  qed
qed

lemma parse_query_view_split:
  "parse_query_view (Some q) = map query_param (take 32 (filter (\<lambda>s. s \<noteq> []) (split_amp q)))"
  by (simp add: parse_query_view_def query_loop_split)

lemma parse_query_view_all:
  "length (filter (\<lambda>s. s \<noteq> []) (split_amp q)) \<le> 32 \<Longrightarrow>
   parse_query_view (Some q) = map query_param (filter (\<lambda>s. s \<noteq> []) (split_amp q))"
  by (simp only: parse_query_view_split take_all)

end
