(* ===== verification/Pagination.thy ===== *)
theory Pagination
  imports Policy Query_View
begin

text \<open>
  Pagination of requests (\<^verbatim>\<open>src/pagination\<close>): reading limit and offset from the query, the
  decision to inject or cap the limit, the rewritten request target and the warning on
  oversized responses. A buffer with an explicit length is the pair of its contents up to the
  terminator and that length; \<open>snprintf\<close> writes a truncated text and returns the full length.
\<close>

section \<open>Reading the query\<close>

text \<open>\<open>strtoul\<close> in base ten on a terminated buffer: value, whether it overflowed, and the unread rest.\<close>

definition strtoul10 :: "string \<Rightarrow> u64 \<times> bool \<times> string" where
  "strtoul10 s =
     (let t = dropWhile isspace s;
          neg = (t \<noteq> [] \<and> hd t = CHR ''-'');
          d = (if t \<noteq> [] \<and> (hd t = CHR ''-'' \<or> hd t = CHR ''+'') then tl t else t);
          ds = takeWhile is_digit d
      in if ds = [] then (0, False, s)
         else if digits_val ds \<ge> 2 ^ 64 then (- 1, True, dropWhile is_digit d)
         else (if neg then - of_nat (digits_val ds) else of_nat (digits_val ds), False, dropWhile is_digit d))"

definition parse_uint32 :: "string \<Rightarrow> u32 option" where
  "parse_uint32 v =
     (if v = [] then None
      else if hd v = CHR ''-'' then None
      else if length v \<ge> 16 then None
      else let buf = cstr v; (x, overflow, rest) = strtoul10 buf
           in if length buf - length rest \<noteq> length v then None
              else if overflow then None
              else if x > 0xFFFFFFFF then None
              else Some (ucast x))"

record PaginationQueryResult =
  pq_has_limit :: bool
  pq_limit :: u32
  pq_has_offset :: bool
  pq_offset :: u32
  pq_parse_error :: bool
  pq_error_param :: "string option"

definition PaginationQueryResult_default :: PaginationQueryResult where
  "PaginationQueryResult_default =
     \<lparr>pq_has_limit = False, pq_limit = 0, pq_has_offset = False, pq_offset = 0,
      pq_parse_error = False, pq_error_param = None\<rparr>"

fun parse_params ::
  "string \<Rightarrow> string \<Rightarrow> PaginationMode \<Rightarrow> RequestQueryView \<Rightarrow> PaginationQueryResult \<Rightarrow> PaginationQueryResult" where
  "parse_params lp op mode [] result = result"
| "parse_params lp op mode (p # ps) result =
     (case qp_value p of
        None \<Rightarrow> parse_params lp op mode ps result
      | Some val \<Rightarrow>
          if qp_key p = lp then
            (case parse_uint32 val of
               None \<Rightarrow> result\<lparr>pq_parse_error := True, pq_error_param := Some ''limit''\<rparr>
             | Some v \<Rightarrow> parse_params lp op mode ps (result\<lparr>pq_has_limit := True, pq_limit := v\<rparr>))
          else if mode = PageLimitOffset \<and> qp_key p = op then
            (case parse_uint32 val of
               None \<Rightarrow> result\<lparr>pq_parse_error := True, pq_error_param := Some ''offset''\<rparr>
             | Some v \<Rightarrow> parse_params lp op mode ps (result\<lparr>pq_has_offset := True, pq_offset := v\<rparr>))
          else parse_params lp op mode ps result)"

definition parse_pagination_view ::
  "RequestQueryView \<Rightarrow> string \<Rightarrow> string \<Rightarrow> PaginationMode \<Rightarrow> PaginationQueryResult" where
  "parse_pagination_view view lp op mode = parse_params lp op mode view PaginationQueryResult_default"

definition parse_pagination_query ::
  "string option \<Rightarrow> string \<Rightarrow> string \<Rightarrow> PaginationMode \<Rightarrow> PaginationQueryResult" where
  "parse_pagination_query raw_query lp op mode = parse_pagination_view (parse_query_view raw_query) lp op mode"

section \<open>The decision\<close>

definition kPaginationReasonExceedsMax :: string where "kPaginationReasonExceedsMax = ''limit_exceeds_max''"
definition kPaginationReasonMissingLimit :: string where "kPaginationReasonMissingLimit = ''missing_limit''"
definition kPaginationReasonValid :: string where "kPaginationReasonValid = ''limit_valid''"

record PaginationDecision =
  pd_should_apply_default_limit :: bool
  pd_should_cap_limit :: bool
  pd_limit_to_apply :: u32
  pd_reason :: "string option"

definition PaginationDecision_default :: PaginationDecision where
  "PaginationDecision_default =
     \<lparr>pd_should_apply_default_limit = False, pd_should_cap_limit = False, pd_limit_to_apply = 0, pd_reason = None\<rparr>"

definition make_pagination_decision :: "PaginationPolicy \<Rightarrow> PaginationQueryResult \<Rightarrow> PaginationDecision" where
  "make_pagination_decision policy query =
     (if \<not> pag_enabled policy then PaginationDecision_default
      else if \<not> pag_upstream_supports_pagination policy then PaginationDecision_default
      else if pq_parse_error query then PaginationDecision_default
      else if pq_has_limit query \<and> pag_max_limit policy > 0 \<and> pq_limit query > pag_max_limit policy then
        \<lparr>pd_should_apply_default_limit = False, pd_should_cap_limit = True,
         pd_limit_to_apply = pag_max_limit policy, pd_reason = Some kPaginationReasonExceedsMax\<rparr>
      else if pq_has_limit query then
        \<lparr>pd_should_apply_default_limit = False, pd_should_cap_limit = False,
         pd_limit_to_apply = pq_limit query, pd_reason = Some kPaginationReasonValid\<rparr>
      else
        \<lparr>pd_should_apply_default_limit = True, pd_should_cap_limit = False,
         pd_limit_to_apply = pag_default_limit policy, pd_reason = Some kPaginationReasonMissingLimit\<rparr>)"

section \<open>The rewritten target\<close>

record PaginationMutationResult =
  pm_mutated :: bool
  pm_written :: nat

text \<open>\<open>snprintf_n\<close> pairs the result of the call with the text it leaves in the buffer (\<^verbatim>\<open>None\<close> when the
  buffer is untouched).\<close>

definition snprintf_n :: "bool \<Rightarrow> nat \<Rightarrow> string \<Rightarrow> PaginationMutationResult \<times> string option" where
  "snprintf_n mutated out_size text =
     (if length text \<ge> out_size then (\<lparr>pm_mutated = False, pm_written = 0\<rparr>, Some (take (out_size - 1) text))
      else (\<lparr>pm_mutated = mutated, pm_written = length text\<rparr>, Some text))"

text \<open>The search of the segment to replace: its start and its end in the query \<open>q\<close>.\<close>

function find_limit :: "string \<Rightarrow> string \<Rightarrow> nat \<Rightarrow> (nat \<times> nat) option" where
  "find_limit lp q seg =
     (if seg \<ge> length q then None
      else let s = takeWhile (\<lambda>c. c \<noteq> CHR ''&'') (drop seg q)
           in if CHR ''='' \<in> set s \<and> takeWhile (\<lambda>c. c \<noteq> CHR ''='') s = lp then Some (seg, seg + length s)
              else find_limit lp q (Suc (seg + length s)))"
  by pat_completeness auto
termination
  by (relation "measure (\<lambda>(lp, q, seg). length q - seg)") auto

declare find_limit.simps [simp del]

definition apply_pagination_mutation ::
  "string \<Rightarrow> nat \<Rightarrow> string \<Rightarrow> nat \<Rightarrow> PaginationDecision \<Rightarrow> string \<Rightarrow> nat \<Rightarrow>
   PaginationMutationResult \<times> string option" where
  "apply_pagination_mutation raw_path raw_path_len raw_query raw_query_len decision limit_param out_size =
     (let path = take raw_path_len raw_path;
          query = take raw_query_len raw_query;
          lim = limit_param @ ''='' @ show_u32 (pd_limit_to_apply decision)
      in if out_size = 0 then (\<lparr>pm_mutated = False, pm_written = 0\<rparr>, None)
         else if \<not> pd_should_apply_default_limit decision \<and> \<not> pd_should_cap_limit decision then
           snprintf_n False out_size (if raw_query_len > 0 then path @ ''?'' @ query else path)
         else if pd_should_cap_limit decision then
           (case find_limit limit_param query 0 of
              None \<Rightarrow> (\<lparr>pm_mutated = False, pm_written = 0\<rparr>, None)
            | Some (m, val_end) \<Rightarrow>
                snprintf_n True out_size
                  (path @ ''?'' @ take m raw_query @ lim @
                   (if val_end < raw_query_len then drop val_end raw_query else [])))
         else
           snprintf_n True out_size
             (if raw_query_len > 0 then path @ ''?'' @ query @ ''&'' @ lim else path @ ''?'' @ lim))"

section \<open>Oversized responses\<close>

definition check_oversized_response :: "u32 \<Rightarrow> nat \<Rightarrow> bool \<times> string option" where
  "check_oversized_response threshold body_len =
     (if threshold = 0 \<or> body_len \<le> unat threshold then (False, None)
      else (True, Some ''response_still_oversized''))"

section \<open>Lemmas on the parser\<close>

definition is_limit :: "string \<Rightarrow> string \<Rightarrow> bool" where
  "is_limit lp s \<longleftrightarrow> CHR ''='' \<in> set s \<and> takeWhile (\<lambda>c. c \<noteq> CHR ''='') s = lp"

definition limit_param_of :: "string \<Rightarrow> QueryParamView \<Rightarrow> bool" where
  "limit_param_of lp p \<longleftrightarrow> qp_value p \<noteq> None \<and> qp_key p = lp"

lemma show_u32_digits: "c \<in> set (show_u32 w) \<Longrightarrow> is_digit c"
  by (simp add: show_u32_def show_nat_digits)

lemma show_u32_length: "length (show_u32 w) \<le> 10"
  unfolding show_u32_def using unat_u32_less [of w] by (intro show_nat_length_le [of _ 9, simplified]) simp

lemma digit_not_special:
  "is_digit c \<Longrightarrow> \<not> isspace c \<and> c \<noteq> CHR ''-'' \<and> c \<noteq> CHR ''+'' \<and> c \<noteq> NUL \<and> c \<noteq> CHR ''&'' \<and> c \<noteq> CHR ''=''"
  by (auto simp: is_digit_def isspace_def char_code_def NUL_def)

lemma strtoul10_show: "strtoul10 (show_u32 w) = (of_nat (unat w), False, [])"
proof -
  obtain c cs where c: "show_u32 w = c # cs" by (metis list.exhaust show_u32_def show_nat_nonempty)
  have d: "\<forall>x\<in>set (c # cs). is_digit x" using show_u32_digits [of _ w] by (simp add: c)
  then have nc: "\<not> isspace c" "c \<noteq> CHR ''-''" "c \<noteq> CHR ''+''" using digit_not_special [of c] by auto
  have t: "takeWhile is_digit (c # cs) = c # cs" "dropWhile is_digit (c # cs) = []"
    using d by (simp_all add: takeWhile_eq_all_conv)
  have v: "digits_val (c # cs) = unat w" by (simp add: c [symmetric] show_u32_def)
  have s: "dropWhile isspace (c # cs) = c # cs" using nc(1) by simp
  have "unat w < 2 ^ 64" using unat_u32_less [of w] by simp
  then show ?thesis
    by (simp add: strtoul10_def c Let_def s nc t v del: takeWhile.simps dropWhile.simps)
qed

lemma parse_uint32_show: "parse_uint32 (show_u32 w) = Some w"
proof -
  have ne: "show_u32 w \<noteq> []" by (simp add: show_u32_def)
  then have "hd (show_u32 w) \<noteq> CHR ''-''" using digit_not_special show_u32_digits by (metis hd_in_set)
  moreover have "cstr (show_u32 w) = show_u32 w"
    by (rule cstr_id) (use digit_not_special show_u32_digits in blast)
  moreover have "(of_nat (unat w) :: u64) \<le> 0xFFFFFFFF"
  proof -
    have "k < 2 ^ 32 \<Longrightarrow> (of_nat k :: u64) \<le> 0xFFFFFFFF" for k
      by (simp add: word_le_nat_alt unat_of_nat)
    then show ?thesis using unat_u32_less by blast
  qed
  moreover have "ucast (of_nat (unat w) :: u64) = w" by (simp add: ucast_up_ucast_id is_up)
  ultimately show ?thesis
    using ne show_u32_length [of w] by (simp add: parse_uint32_def strtoul10_show Let_def not_less [symmetric])
qed

lemma parse_params_append:
  "\<not> pq_parse_error r \<Longrightarrow>
   parse_params lp op mode (xs @ ys) r =
     (if pq_parse_error (parse_params lp op mode xs r) then parse_params lp op mode xs r
      else parse_params lp op mode ys (parse_params lp op mode xs r))"
  by (induction lp op mode xs r rule: parse_params.induct) (auto split: option.splits)

text \<open>Parameters other than the limit leave the limit read so far alone.\<close>

lemma parse_params_limit_frame:
  "\<forall>p\<in>set ps. \<not> limit_param_of lp p \<Longrightarrow>
   parse_params lp op mode ps (r\<lparr>pq_has_limit := h, pq_limit := l\<rparr>) =
     (parse_params lp op mode ps r)\<lparr>pq_has_limit := h, pq_limit := l\<rparr>"
proof (induction ps arbitrary: r)
  case (Cons p ps)
  have "parse_params lp op mode ps
      (r\<lparr>pq_has_limit := h, pq_limit := l, pq_has_offset := True, pq_offset := v\<rparr>) =
      (parse_params lp op mode ps (r\<lparr>pq_has_offset := True, pq_offset := v\<rparr>))\<lparr>pq_has_limit := h, pq_limit := l\<rparr>" for v
  proof -
    have "r\<lparr>pq_has_limit := h, pq_limit := l, pq_has_offset := True, pq_offset := v\<rparr> =
        r\<lparr>pq_has_offset := True, pq_offset := v, pq_has_limit := h, pq_limit := l\<rparr>" by (cases r) simp
    then show ?thesis
      using Cons.IH [of "r\<lparr>pq_has_offset := True, pq_offset := v\<rparr>"] Cons.prems by (metis list.set_intros(2))
  qed
  with Cons show ?case by (auto simp: limit_param_of_def split: option.splits)
qed simp

lemma parse_params_limit:
  assumes "\<not> pq_parse_error r" and "qp_key p = lp" and "qp_value p = Some val"
    and "\<forall>p\<in>set post. \<not> limit_param_of lp p"
  shows "parse_params lp op mode (pre @ p # post) r =
    (let m = parse_params lp op mode pre r
     in if pq_parse_error m then m
        else case parse_uint32 val of
            None \<Rightarrow> m\<lparr>pq_parse_error := True, pq_error_param := Some ''limit''\<rparr>
          | Some v \<Rightarrow> (parse_params lp op mode post m)\<lparr>pq_has_limit := True, pq_limit := v\<rparr>)"
  using assms by (simp add: parse_params_append parse_params_limit_frame Let_def split: option.split)

text \<open>So rewriting the only limit of a readable query changes the limit and nothing else.\<close>

lemma parse_params_replace:
  assumes "\<not> pq_parse_error r" and "qp_key p = lp" and "qp_value p = Some val"
    and "qp_key p' = lp" and "qp_value p' = Some (show_u32 n)"
    and "\<forall>p\<in>set post. \<not> limit_param_of lp p"
    and "\<not> pq_parse_error (parse_params lp op mode (pre @ p # post) r)"
  shows "parse_params lp op mode (pre @ p' # post) r =
    (parse_params lp op mode (pre @ p # post) r)\<lparr>pq_has_limit := True, pq_limit := n\<rparr>"
  using assms
  by (simp add: parse_params_limit Let_def parse_uint32_show split: option.splits if_splits)

section \<open>Lemmas on the rewriting\<close>

lemma amp_cons: "(@) ''&'' = (#) CHR ''&''"
  by (rule ext) simp

lemma amp_join: "ss \<noteq> [] \<Longrightarrow> concat (map ((#) CHR ''&'') ss) = ''&'' @ join ''&'' ss"
proof (induction ss)
  case (Cons s ss)
  then show ?case by (cases ss) simp_all
qed simp

lemma join_around:
  "join ''&'' (pre @ s # post) = concat (map (\<lambda>x. x @ ''&'') pre) @ s @ concat (map ((#) CHR ''&'') post)"
proof (induction pre)
  case Nil
  show ?case by (simp add: amp_cons)
next
  case (Cons x pre)
  then show ?case by (cases pre) simp_all
qed

lemma dropWhile_amp:
  "dropWhile (\<lambda>c. c \<noteq> CHR ''&'') d = concat (map ((#) CHR ''&'') (tl (split_amp d)))"
proof -
  have "d = takeWhile (\<lambda>c. c \<noteq> CHR ''&'') d @ concat (map ((#) CHR ''&'') (tl (split_amp d)))"
    using join_around [of "[]" "hd (split_amp d)" "tl (split_amp d)"] split_amp_cases [of d]
    by (metis append_Nil concat.simps(1) join_split_amp list.collapse list.sel(1) list.simps(8) split_amp_nonempty)
  then show ?thesis by (metis append_same_eq takeWhile_dropWhile_id same_append_eq)
qed

lemma find_limit_spec:
  "seg \<le> length q \<Longrightarrow>
   (case find_limit lp q seg of
      None \<Rightarrow> \<forall>s\<in>set (split_amp (drop seg q)). \<not> is_limit lp s
    | Some (m, e) \<Rightarrow> \<exists>pre s post. split_amp (drop seg q) = pre @ s # post \<and> is_limit lp s \<and>
        take m q = take seg q @ concat (map (\<lambda>x. x @ ''&'') pre) \<and>
        drop e q = concat (map ((#) CHR ''&'') post))"
proof (induction lp q seg rule: find_limit.induct)
  case (1 lp q seg)
  let ?d = "drop seg q"
  let ?s = "takeWhile (\<lambda>c. c \<noteq> CHR ''&'') ?d"
  let ?n = "Suc (seg + length ?s)"
  have sp: "split_amp ?d = ?s # (if CHR ''&'' \<in> set ?d then split_amp (drop ?n q) else [])"
    using split_amp_cases [of ?d] by (simp add: add.commute)
  consider (none) "seg = length q" | (found) "seg < length q" "is_limit lp ?s" | (more) "seg < length q" "\<not> is_limit lp ?s"
    using "1.prems" by linarith
  then show ?case
  proof cases
    case none
    then show ?thesis by (simp add: find_limit.simps is_limit_def)
  next
    case found
    then have f: "find_limit lp q seg = Some (seg, seg + length ?s)"
      by (subst find_limit.simps) (simp add: is_limit_def Let_def)
    have "drop (seg + length ?s) q = dropWhile (\<lambda>c. c \<noteq> CHR ''&'') ?d"
      by (simp add: dropWhile_eq_drop add.commute)
    then show ?thesis using found(2) sp dropWhile_amp [of ?d] unfolding f by fastforce
  next
    case more
    then have f: "find_limit lp q seg = find_limit lp q ?n"
      by (subst find_limit.simps) (auto simp: is_limit_def Let_def)
    show ?thesis
    proof (cases "CHR ''&'' \<in> set ?d")
      case False
      then have "?s = ?d" by (auto simp: takeWhile_eq_all_conv)
      then have "length ?s = length q - seg" by (simp only: length_drop)
      then have "length q \<le> ?n" using more(1) by simp
      then have "find_limit lp q ?n = None" by (subst find_limit.simps) simp
      with f sp False more(2) show ?thesis by simp
    next
      case True
      then obtain a b where ab: "?d = a @ CHR ''&'' # b" "CHR ''&'' \<notin> set a" by (metis split_list_first)
      then have s: "?s = a" by (auto simp: takeWhile_append takeWhile_eq_all_conv)
      have "length q - seg = Suc (length a + length b)" using arg_cong [OF ab(1), of length] by simp
      then have n: "?n \<le> length q" by (simp add: s)
      have tn: "take ?n q = take seg q @ ?s @ ''&''"
      proof -
        have "take ?n q = take seg q @ take (Suc (length a)) ?d" unfolding s by (simp flip: take_add)
        also have "take (Suc (length a)) ?d = a @ ''&''" by (simp add: ab(1))
        finally show ?thesis by (simp only: s)
      qed
      have sp': "split_amp ?d = ?s # split_amp (drop ?n q)" using sp True by simp
      have c: "\<not> length q \<le> seg" "\<not> (CHR ''='' \<in> set ?s \<and> takeWhile (\<lambda>c. c \<noteq> CHR ''='') ?s = lp)"
        using more by (auto simp: is_limit_def)
      note ih = "1.IH" [OF c(1) refl c(2) n]
      show ?thesis
      proof (cases "find_limit lp q ?n")
        case None
        with ih sp' more(2) show ?thesis unfolding f by simp
      next
        case (Some me)
        with ih obtain pre s' post where
          "split_amp (drop ?n q) = pre @ s' # post" "is_limit lp s'"
          "take (fst me) q = take ?n q @ concat (map (\<lambda>x. x @ ''&'') pre)"
          "drop (snd me) q = concat (map ((#) CHR ''&'') post)"
          by (auto split: prod.splits)
        then have "split_amp ?d = (?s # pre) @ s' # post \<and> is_limit lp s' \<and>
            take (fst me) q = take seg q @ concat (map (\<lambda>x. x @ ''&'') (?s # pre)) \<and>
            drop (snd me) q = concat (map ((#) CHR ''&'') post)"
          by (simp only: sp' tn append_Cons append_assoc list.map concat.simps simp_thms)
        then show ?thesis unfolding f Some by (simp only: option.case prod.case_eq_if) blast
      qed
    qed
  qed
qed

section \<open>Properties\<close>

text \<open>What is asked of the client's query: readable by the parser without loss, at most one limit.\<close>

definition plain_query :: "string \<Rightarrow> string \<Rightarrow> bool" where
  "plain_query lp q \<longleftrightarrow> length q < 65536 \<and> length (filter (\<lambda>s. s \<noteq> []) (split_amp q)) < 32 \<and>
     length (filter (is_limit lp) (split_amp q)) \<le> 1"

definition plain_name :: "string \<Rightarrow> bool" where
  "plain_name lp \<longleftrightarrow> length lp < 65536 \<and> CHR ''&'' \<notin> set lp \<and> CHR ''='' \<notin> set lp"

lemma query_param_limit:
  "length s < 65536 \<Longrightarrow> limit_param_of lp (query_param s) \<longleftrightarrow> is_limit lp s"
  using length_takeWhile_le [of "\<lambda>c. c \<noteq> CHR ''=''" s]
  by (auto simp: limit_param_of_def query_param_def is_limit_def len16_def)

lemma query_param_new:
  assumes "plain_name lp"
  shows "query_param (lp @ ''='' @ show_u32 n) = \<lparr>qp_key = lp, qp_value = Some (show_u32 n)\<rparr>"
proof -
  have "takeWhile (\<lambda>c. c \<noteq> CHR ''='') (lp @ ''='' @ x) = lp" "dropWhile (\<lambda>c. c \<noteq> CHR ''='') (lp @ ''='' @ x) = ''='' @ x" for x
    using assms by (induction lp) (auto simp: plain_name_def)
  then show ?thesis
    using assms show_u32_length [of n] by (simp add: query_param_def plain_name_def len16_def)
qed

lemma split_amp_length: "s \<in> set (split_amp q) \<Longrightarrow> length s \<le> length q"
proof (induction q arbitrary: s)
  case (Cons c q)
  obtain t ts where "split_amp q = t # ts" by (metis list.exhaust split_amp_nonempty)
  with Cons.prems Cons.IH [of s] Cons.IH [of t] show ?case by (auto split: if_splits)
qed simp

lemma new_limit_no_amp: "plain_name lp \<Longrightarrow> CHR ''&'' \<notin> set (lp @ ''='' @ show_u32 n)"
  using digit_not_special show_u32_digits by (auto simp: plain_name_def)

text \<open>The parse of a capped query.\<close>

lemma parse_capped:
  assumes q: "plain_query lp q" and lp: "plain_name lp" and f: "find_limit lp q 0 = Some (m, e)"
    and ok: "\<not> pq_parse_error (parse_pagination_query (Some q) lp op mode)"
  shows "parse_pagination_query (Some (take m q @ lp @ ''='' @ show_u32 n @ drop e q)) lp op mode =
    (parse_pagination_query (Some q) lp op mode)\<lparr>pq_has_limit := True, pq_limit := n\<rparr>"
proof -
  let ?new = "lp @ ''='' @ show_u32 n" and ?ne = "\<lambda>s. s \<noteq> ([] :: string)"
  from find_limit_spec [of 0 q lp] f obtain pre s post where
    sp: "split_amp q = pre @ s # post" and s: "is_limit lp s"
    and m: "take m q = concat (map (\<lambda>x. x @ ''&'') pre)" and e: "drop e q = concat (map ((#) CHR ''&'') post)"
    by auto
  have "take m q @ ?new @ drop e q = join ''&'' (pre @ ?new # post)" by (simp add: m e join_around amp_cons)
  moreover have "\<forall>x\<in>set (pre @ ?new # post). CHR ''&'' \<notin> set x"
    using split_amp_no_amp [of _ q] new_limit_no_amp [OF lp] by (auto simp: sp)
  ultimately have sp': "split_amp (take m q @ ?new @ drop e q) = pre @ ?new # post"
    using split_amp_join [of "pre @ ?new # post"] by simp
  have len: "\<forall>x\<in>set (pre @ s # post). length x < 65536"
    using split_amp_length [of _ q] q by (fastforce simp: sp plain_query_def)
  have ne: "s \<noteq> []" "?new \<noteq> []" using s by (auto simp: is_limit_def)
  have "filter (is_limit lp) post = []"
    using q s by (auto simp: plain_query_def sp)
  then have nl: "\<forall>p\<in>set (map query_param (filter ?ne post)). \<not> limit_param_of lp p"
    using len by (auto simp: query_param_limit filter_empty_conv)
  have v: "parse_query_view (Some q) = map query_param (filter ?ne pre) @ query_param s # map query_param (filter ?ne post)"
    using q ne by (subst parse_query_view_all) (simp_all add: sp plain_query_def)
  have v': "parse_query_view (Some (take m q @ ?new @ drop e q)) =
      map query_param (filter ?ne pre) @ query_param ?new # map query_param (filter ?ne post)"
    using q ne by (subst parse_query_view_all) (simp_all only: sp' plain_query_def sp, simp_all)
  have "limit_param_of lp (query_param s)" using s len by (simp add: query_param_limit)
  then obtain val where "qp_key (query_param s) = lp" "qp_value (query_param s) = Some val"
    by (auto simp: limit_param_of_def)
  from parse_params_replace [OF _ this _ _ nl, of PaginationQueryResult_default "query_param ?new" n op mode
      "map query_param (filter ?ne pre)"] ok
  show ?thesis
    by (simp add: parse_pagination_query_def parse_pagination_view_def v v' [simplified]
        query_param_new [OF lp, simplified] PaginationQueryResult_default_def)
qed

text \<open>The parse of a query with the default appended.\<close>

lemma parse_appended:
  assumes q: "plain_query lp q" and lp: "plain_name lp"
    and ok: "\<not> pq_parse_error (parse_pagination_query (Some q) lp op mode)"
  shows "parse_pagination_query (Some (if q = [] then lp @ ''='' @ show_u32 n else q @ ''&'' @ lp @ ''='' @ show_u32 n)) lp op mode =
    (parse_pagination_query (Some q) lp op mode)\<lparr>pq_has_limit := True, pq_limit := n\<rparr>"
proof -
  let ?new = "lp @ ''='' @ show_u32 n" and ?ne = "\<lambda>s. s \<noteq> ([] :: string)"
  let ?q = "if q = [] then ?new else q @ ''&'' @ ?new"
  have "filter ?ne (split_amp ?q) = filter ?ne (split_amp q) @ [?new]"
    using new_limit_no_amp [OF lp, of n] by (simp add: split_amp_append_amp split_amp_plain)
  then have "parse_query_view (Some ?q) = parse_query_view (Some q) @ [query_param ?new]"
    using q by (subst (1 2) parse_query_view_all) (simp_all only: plain_query_def, simp_all)
  then show ?thesis
    using ok by (simp add: parse_pagination_query_def parse_pagination_view_def parse_params_append
        PaginationQueryResult_default_def query_param_new [OF lp, simplified] parse_uint32_show)
qed

lemma parse_params_has_limit:
  "pq_has_limit (parse_params lp op mode ps r) \<Longrightarrow> pq_has_limit r \<or> (\<exists>p\<in>set ps. limit_param_of lp p)"
proof (induction lp op mode ps r rule: parse_params.induct)
  case (2 lp op mode p ps r)
  then show ?case by (cases "limit_param_of lp p") (auto simp: limit_param_of_def split: option.splits if_splits)
qed simp

lemma parse_has_limit:
  assumes "length q < 65536" and "pq_has_limit (parse_pagination_query (Some q) lp op mode)"
  shows "find_limit lp q 0 \<noteq> None" and "q \<noteq> []"
proof -
  obtain s where s: "s \<in> set (split_amp q)" "limit_param_of lp (query_param s)"
    using parse_params_has_limit [OF assms(2) [unfolded parse_pagination_query_def parse_pagination_view_def]]
    by (auto simp: PaginationQueryResult_default_def parse_query_view_split dest!: in_set_takeD)
  moreover from s(1) assms(1) have "length s < 65536" using split_amp_length [of s q] by simp
  ultimately have "is_limit lp s" by (simp add: query_param_limit)
  with s(1) find_limit_spec [of 0 q lp] show "find_limit lp q 0 \<noteq> None" by (cases "find_limit lp q 0") auto
  from \<open>is_limit lp s\<close> s(1) show "q \<noteq> []" by (auto simp: is_limit_def)
qed

lemma find_limit_bounds: "find_limit lp q seg = Some (m, e) \<Longrightarrow> m \<le> e"
proof (induction lp q seg rule: find_limit.induct)
  case (1 lp q seg)
  from "1.prems" "1.IH" [OF _ refl] show ?case
    by (subst (asm) find_limit.simps) (auto simp: Let_def split: if_splits)
qed

lemma snprintf_n_fits: "length text < n \<Longrightarrow> snprintf_n m n text = (\<lparr>pm_mutated = m, pm_written = length text\<rparr>, Some text)"
  by (simp add: snprintf_n_def)

text \<open>
  (C36) The forwarded request respects the policy: take an accepted, enabled policy for an upstream
  that supports pagination, a query shorter than 65536 characters that parses without error, has
  fewer than 32 parameters and names the limit at most once, a parameter name without separators,
  and an output buffer that holds the rewritten target. Then the target that is forwarded (rewritten
  or not) is the path with a query that reads back with a limit of at most the configured
  maximum, with the offset the client gave, and no parse error.
\<close>

theorem pagination_limit_enforced:
  assumes pol: "validate_pagination_policy_safe pol = None" "pag_enabled pol" "pag_upstream_supports_pagination pol"
    and q: "plain_query (pag_limit_param pol) q" and lp: "plain_name (pag_limit_param pol)"
    and ok: "\<not> pq_parse_error (parse_pagination_query (Some q) (pag_limit_param pol) op mode)"
    and size: "length path + length q + length (pag_limit_param pol) + 13 < out_size"
  shows "\<exists>q'. snd (apply_pagination_mutation path (length path) q (length q)
        (make_pagination_decision pol (parse_pagination_query (Some q) (pag_limit_param pol) op mode))
        (pag_limit_param pol) out_size) = Some (path @ ''?'' @ q') \<and>
      (let r = parse_pagination_query (Some q) (pag_limit_param pol) op mode;
           r' = parse_pagination_query (Some q') (pag_limit_param pol) op mode
       in r' = r\<lparr>pq_has_limit := True, pq_limit := pq_limit r'\<rparr> \<and> pq_limit r' \<le> pag_max_limit pol)"
proof -
  let ?lp = "pag_limit_param pol"
  let ?r = "parse_pagination_query (Some q) ?lp op mode"
  let ?d = "make_pagination_decision pol ?r"
  have acc: "0 < pag_max_limit pol" "pag_default_limit pol \<le> pag_max_limit pol"
    using pagination_accepted [OF pol(1,2)] by auto
  have n10: "length (show_u32 n) \<le> 10" for n by (rule show_u32_length)
  have len: "length q < 65536" using q by (simp add: plain_query_def)
  consider (cap) "pq_has_limit ?r" "pag_max_limit pol < pq_limit ?r"
    | (keep) "pq_has_limit ?r" "pq_limit ?r \<le> pag_max_limit pol" | (missing) "\<not> pq_has_limit ?r"
    by force
  then show ?thesis
  proof cases
    case cap
    obtain m e where f: "find_limit ?lp q 0 = Some (m, e)" using parse_has_limit(1) [OF len cap(1)] by auto
    let ?q = "take m q @ ?lp @ ''='' @ show_u32 (pag_max_limit pol) @ drop e q"
    have "m \<le> e" using f by (rule find_limit_bounds)
    then have "length (path @ ''?'' @ ?q) < out_size" using size n10 [of "pag_max_limit pol"] by simp
    moreover have "(if e < length q then drop e q else []) = drop e q" by simp
    ultimately have "snd (apply_pagination_mutation path (length path) q (length q) ?d ?lp out_size) = Some (path @ ''?'' @ ?q)"
      using cap acc pol ok f
      by (simp add: apply_pagination_mutation_def make_pagination_decision_def Let_def snprintf_n_fits del: length_append)
    then show ?thesis using parse_capped [OF q lp f ok, of "pag_max_limit pol"] by (auto simp: Let_def)
  next
    case keep
    then have "\<not> pag_max_limit pol < pq_limit ?r" by simp
    with keep have "snd (apply_pagination_mutation path (length path) q (length q) ?d ?lp out_size) = Some (path @ ''?'' @ q)"
      using pol ok size parse_has_limit(2) [OF len keep(1)]
      by (simp add: apply_pagination_mutation_def make_pagination_decision_def Let_def snprintf_n_fits)
    then show ?thesis using keep by (auto simp: Let_def)
  next
    case missing
    let ?n = "pag_default_limit pol"
    let ?q = "if q = [] then ?lp @ ''='' @ show_u32 ?n else q @ ''&'' @ ?lp @ ''='' @ show_u32 ?n"
    have "snd (apply_pagination_mutation path (length path) q (length q) ?d ?lp out_size) = Some (path @ ''?'' @ ?q)"
      using missing pol ok size n10 [of ?n]
      by (simp add: apply_pagination_mutation_def make_pagination_decision_def Let_def snprintf_n_fits)
    then show ?thesis using parse_appended [OF q lp ok, of ?n] acc(2) by (auto simp: Let_def)
  qed
qed

definition sample_pagination :: PaginationPolicy where
  "sample_pagination = PaginationPolicy_default\<lparr>pag_enabled := True, pag_mode := PageLimitOffset,
     pag_default_limit := 20, pag_max_limit := 100, pag_upstream_supports_pagination := True\<rparr>"

definition forwarded :: "string \<Rightarrow> string option" where
  "forwarded q = snd (apply_pagination_mutation ''/o'' 2 q (length q)
     (make_pagination_decision sample_pagination (parse_pagination_query (Some q) ''limit'' ''offset'' PageLimitOffset))
     ''limit'' 2048)"

lemmas number_eval =
  parse_uint32_def strtoul10_def digits_val_def digit_val_def is_digit_def isspace_def char_code_def cstr_def NUL_def

lemmas query_eval =
  parse_pagination_query_def parse_pagination_view_def parse_query_view_split query_param_def len16_def
  PaginationQueryResult_default_def

lemma parse_uint32_samples:
  "parse_uint32 ''5'' = Some 5" "parse_uint32 ''5000'' = Some 5000" "parse_uint32 ''100'' = Some 100"
  "parse_uint32 ''4294967296'' = None"
  by (simp_all add: number_eval Let_def)

theorem pagination_limit_enforced_witness:
  "\<exists>q'. forwarded ''limit=5000'' = Some (''/o?'' @ q') \<and>
     pq_limit (parse_pagination_query (Some q') ''limit'' ''offset'' PageLimitOffset) \<le> 100"
proof -
  let ?q = "''limit=5000''"
  have "validate_pagination_policy_safe sample_pagination = None"
    by (simp add: sample_pagination_def default_defs validate_pagination_policy_safe_def validate_pagination_policy_def)
  moreover have "plain_query ''limit'' ?q" "plain_name ''limit''"
    by (simp_all add: plain_query_def plain_name_def is_limit_def)
  moreover have "\<not> pq_parse_error (parse_pagination_query (Some ?q) ''limit'' ''offset'' PageLimitOffset)"
    by (simp add: query_eval parse_uint32_samples)
  moreover have f: "pag_limit_param sample_pagination = ''limit''" "pag_max_limit sample_pagination = 100"
    "pag_enabled sample_pagination" "pag_upstream_supports_pagination sample_pagination" "length ''/o'' = 2"
    by (simp_all add: sample_pagination_def default_defs)
  moreover have "length ''/o'' + length ?q + length ''limit'' + 13 < (2048 :: nat)" by simp
  ultimately show ?thesis
    using pagination_limit_enforced [of sample_pagination ?q "''offset''" PageLimitOffset "''/o''" 2048]
    unfolding forwarded_def Let_def f by fastforce
qed

section \<open>Where the maximum is not enforced\<close>

lemma strtoul10_digits:
  "strtoul10 (show_nat n) = (if n \<ge> 2 ^ 64 then (- 1, True, []) else (of_nat n, False, []))"
proof -
  obtain c cs where c: "show_nat n = c # cs" by (metis list.exhaust show_nat_nonempty)
  have d: "\<forall>x\<in>set (c # cs). is_digit x" using show_nat_digits [of _ n] by (simp add: c)
  then have nc: "\<not> isspace c" "c \<noteq> CHR ''-''" "c \<noteq> CHR ''+''" using digit_not_special [of c] by auto
  have t: "takeWhile is_digit (c # cs) = c # cs" "dropWhile is_digit (c # cs) = []"
    using d by (simp_all add: takeWhile_eq_all_conv)
  have v: "digits_val (c # cs) = n" by (simp add: c [symmetric])
  have s: "dropWhile isspace (c # cs) = c # cs" using nc(1) by simp
  show ?thesis by (simp add: strtoul10_def c Let_def s nc t v del: takeWhile.simps dropWhile.simps)
qed

lemma cstr_digits: "cstr (show_nat n) = show_nat n"
  by (rule cstr_id) (use digit_not_special show_nat_digits in blast)

lemma parse_uint32_beyond:
  assumes "2 ^ 32 \<le> n"
  shows "parse_uint32 (show_nat n) = None"
proof -
  have "(of_nat n :: u64) > 0xFFFFFFFF" if "n < 2 ^ 64" using that assms by (simp add: word_less_nat_alt unat_of_nat)
  then show ?thesis by (simp add: parse_uint32_def strtoul10_digits Let_def cstr_digits)
qed

lemma query_param_digits:
  assumes "plain_name lp" and "length v < 65536"
  shows "query_param (lp @ ''='' @ v) = \<lparr>qp_key = lp, qp_value = Some v\<rparr>"
proof -
  have "takeWhile (\<lambda>c. c \<noteq> CHR ''='') (lp @ ''='' @ x) = lp" "dropWhile (\<lambda>c. c \<noteq> CHR ''='') (lp @ ''='' @ x) = ''='' @ x" for x
    using assms by (induction lp) (auto simp: plain_name_def)
  then show ?thesis using assms by (simp add: query_param_def plain_name_def len16_def)
qed

lemma digits_no_amp: "plain_name lp \<Longrightarrow> CHR ''&'' \<notin> set (lp @ ''='' @ show_nat n)"
  using digit_not_special show_nat_digits by (auto simp: plain_name_def)

text \<open>How a query of one number, and one of two limits, is read.\<close>

lemma parse_one_limit:
  assumes lp: "plain_name lp" and "length lp + length (show_nat n) < 65535" and "2 ^ 32 \<le> n"
  shows "pq_parse_error (parse_pagination_query (Some (lp @ ''='' @ show_nat n)) lp op mode)"
proof -
  let ?q = "lp @ ''='' @ show_nat n"
  have "parse_query_view (Some ?q) = [query_param ?q]"
    using assms(2) by (subst parse_query_view_all) (simp_all add: split_amp_plain [OF digits_no_amp [OF lp], simplified])
  then show ?thesis
    using assms(2) by (simp add: parse_pagination_query_def parse_pagination_view_def query_param_digits [OF lp, simplified]
        parse_uint32_beyond [OF assms(3)])
qed

lemma parse_two_limits:
  assumes lp: "plain_name lp" and "2 * length lp < 65000"
  shows "parse_pagination_query (Some ((lp @ ''='' @ show_u32 a) @ ''&'' @ lp @ ''='' @ show_u32 b)) lp op mode =
    PaginationQueryResult_default\<lparr>pq_has_limit := True, pq_limit := b\<rparr>"
proof -
  let ?a = "lp @ ''='' @ show_u32 a" and ?b = "lp @ ''='' @ show_u32 b"
  have sp: "split_amp (?a @ ''&'' @ ?b) = [?a, ?b]"
    using split_amp_join [of "[?a, ?b]"] new_limit_no_amp [OF lp] by simp
  have "parse_query_view (Some (?a @ ''&'' @ ?b)) = map query_param [?a, ?b]"
    using assms(2) show_u32_length [of a] show_u32_length [of b]
    by (subst parse_query_view_all) (simp_all only: sp, simp_all)
  then show ?thesis
    by (simp add: parse_pagination_query_def parse_pagination_view_def query_param_new [OF lp, simplified] parse_uint32_show
        PaginationQueryResult_default_def)
qed

text \<open>The forwarded target when nothing is to be done, and when the limit is capped.\<close>

lemma apply_kept:
  assumes "\<not> pd_should_apply_default_limit d" and "\<not> pd_should_cap_limit d" and "q \<noteq> []" and "Suc (length path + length q) < n"
  shows "snd (apply_pagination_mutation path (length path) q (length q) d lp n) = Some (path @ ''?'' @ q)"
  using assms by (simp add: apply_pagination_mutation_def Let_def snprintf_n_fits)

lemma apply_capped:
  assumes "\<not> pd_should_apply_default_limit d" and "pd_should_cap_limit d" and "find_limit lp q 0 = Some (m, e)"
    and "t = take m q @ lp @ ''='' @ show_u32 (pd_limit_to_apply d) @ drop e q" and "Suc (length path + length t) < n"
  shows "snd (apply_pagination_mutation path (length path) q (length q) d lp n) = Some (path @ ''?'' @ t)"
proof -
  have "(if e < length q then drop e q else []) = drop e q" by simp
  with assms show ?thesis by (simp add: apply_pagination_mutation_def Let_def snprintf_n_fits)
qed

lemma find_first_limit:
  assumes "plain_name lp"
  shows "find_limit lp ((lp @ ''='' @ show_u32 a) @ ''&'' @ x) 0 = Some (0, length (lp @ ''='' @ show_u32 a))"
proof -
  let ?a = "lp @ ''='' @ show_u32 a"
  have "\<forall>c\<in>set ?a. c \<noteq> CHR ''&''" using new_limit_no_amp [OF assms] by metis
  then have t: "takeWhile (\<lambda>c. c \<noteq> CHR ''&'') (?a @ ''&'' @ x) = ?a" by (subst takeWhile_append2) auto
  have "takeWhile (\<lambda>c. c \<noteq> CHR ''='') ?a = lp" using assms by (induction lp) (auto simp: plain_name_def)
  then show ?thesis by (subst find_limit.simps) (simp add: t [simplified] Let_def)
qed

text \<open>
  (C37) Where the conditions of the previous property fail the maximum is not enforced, under any accepted policy for an
  upstream that paginates. A limit beyond 32 bits is forwarded as it is. Of two limits the last is the one that is
  read: if it is within the maximum the query is forwarded as it is, however large the first is; otherwise the first
  is rewritten, and the last, which is above the maximum, is forwarded and is what the rewritten query reads back as.
\<close>

theorem pagination_cap_evaded:
  assumes pol: "validate_pagination_policy_safe pol = None" "pag_enabled pol" "pag_upstream_supports_pagination pol"
    and lp: "plain_name lp" "lp = pag_limit_param pol" "2 * length lp + length (show_nat n) < 65000" and n: "2 ^ 32 \<le> n"
    and size: "length path + 2 * length lp + length (show_nat n) + 30 < out_size"
    and fwd: "fwd = (\<lambda>q. snd (apply_pagination_mutation path (length path) q (length q)
      (make_pagination_decision pol (parse_pagination_query (Some q) lp op mode)) lp out_size))"
    and lim: "lim = (\<lambda>v. lp @ ''='' @ v)"
  shows "fwd (lim (show_nat n)) = Some (path @ ''?'' @ lim (show_nat n)) \<and>
    (b \<le> pag_max_limit pol \<longrightarrow>
       fwd (lim (show_u32 a) @ ''&'' @ lim (show_u32 b)) = Some (path @ ''?'' @ lim (show_u32 a) @ ''&'' @ lim (show_u32 b))) \<and>
    (pag_max_limit pol < b \<longrightarrow>
       fwd (lim (show_u32 a) @ ''&'' @ lim (show_u32 b)) =
         Some (path @ ''?'' @ lim (show_u32 (pag_max_limit pol)) @ ''&'' @ lim (show_u32 b)) \<and>
       pq_limit (parse_pagination_query (Some (lim (show_u32 (pag_max_limit pol)) @ ''&'' @ lim (show_u32 b))) lp op mode) = b)"
proof -
  have acc: "0 < pag_max_limit pol" using pagination_accepted [OF pol(1,2)] by auto
  have len: "length (show_u32 x) \<le> 10" for x by (rule show_u32_length)
  have one: "fwd (lim (show_nat n)) = Some (path @ ''?'' @ lim (show_nat n))"
  proof -
    have d: "make_pagination_decision pol (parse_pagination_query (Some (lim (show_nat n))) lp op mode) = PaginationDecision_default"
      using parse_one_limit [OF lp(1) _ n, of op mode] lp(3) by (simp add: lim make_pagination_decision_def)
    show ?thesis
      unfolding fwd d by (rule apply_kept) (use size in \<open>simp_all add: lim PaginationDecision_default_def\<close>)
  qed
  have two: "parse_pagination_query (Some (lim (show_u32 x) @ ''&'' @ lim (show_u32 y))) lp op mode =
      PaginationQueryResult_default\<lparr>pq_has_limit := True, pq_limit := y\<rparr>" for x y
    unfolding lim by (rule parse_two_limits [OF lp(1)]) (use lp(3) in simp)
  have keep: "fwd (lim (show_u32 a) @ ''&'' @ lim (show_u32 b)) = Some (path @ ''?'' @ lim (show_u32 a) @ ''&'' @ lim (show_u32 b))"
    if "b \<le> pag_max_limit pol"
  proof -
    have d: "make_pagination_decision pol (PaginationQueryResult_default\<lparr>pq_has_limit := True, pq_limit := b\<rparr>) =
        \<lparr>pd_should_apply_default_limit = False, pd_should_cap_limit = False, pd_limit_to_apply = b, pd_reason = Some kPaginationReasonValid\<rparr>"
      using that pol by (auto simp: make_pagination_decision_def PaginationQueryResult_default_def)
    show ?thesis
      unfolding fwd two d by (rule apply_kept) (use size len [of a] len [of b] in \<open>simp_all add: lim\<close>)
  qed
  have cap: "fwd (lim (show_u32 a) @ ''&'' @ lim (show_u32 b)) =
      Some (path @ ''?'' @ lim (show_u32 (pag_max_limit pol)) @ ''&'' @ lim (show_u32 b))" if "pag_max_limit pol < b"
  proof -
    let ?q = "lim (show_u32 a) @ ''&'' @ lim (show_u32 b)"
    have f: "find_limit lp ?q 0 = Some (0, length (lim (show_u32 a)))" unfolding lim by (rule find_first_limit [OF lp(1)])
    have d: "make_pagination_decision pol (PaginationQueryResult_default\<lparr>pq_has_limit := True, pq_limit := b\<rparr>) =
        \<lparr>pd_should_apply_default_limit = False, pd_should_cap_limit = True, pd_limit_to_apply = pag_max_limit pol,
         pd_reason = Some kPaginationReasonExceedsMax\<rparr>"
      using that pol acc by (simp add: make_pagination_decision_def PaginationQueryResult_default_def)
    show ?thesis
      unfolding fwd two d
      by (rule apply_capped [OF _ _ f]) (use size len [of "pag_max_limit pol"] len [of b] in \<open>simp_all add: lim\<close>)
  qed
  show ?thesis using one keep cap two [of "pag_max_limit pol" b] by simp
qed

theorem pagination_cap_evaded_witness:
  "forwarded (''limit='' @ show_nat 4294967296) = Some (''/o?limit='' @ show_nat 4294967296) \<and>
   forwarded (''limit='' @ show_u32 5 @ ''&limit='' @ show_u32 5000) = Some (''/o?limit='' @ show_u32 100 @ ''&limit='' @ show_u32 5000)"
proof -
  have v: "validate_pagination_policy_safe sample_pagination = None"
    by (simp add: sample_pagination_def default_defs validate_pagination_policy_safe_def validate_pagination_policy_def)
  have f: "pag_limit_param sample_pagination = ''limit''" "pag_max_limit sample_pagination = 100"
    "pag_enabled sample_pagination" "pag_upstream_supports_pagination sample_pagination"
    by (simp_all add: sample_pagination_def default_defs)
  have p: "plain_name ''limit''" by (simp add: plain_name_def)
  have n: "length (show_nat 4294967296) \<le> 10" by (rule show_nat_length_le [of _ 9, simplified]) simp
  have len: "2 * length ''limit'' + length (show_nat 4294967296) < 65000"
    "length ''/o'' + 2 * length ''limit'' + length (show_nat 4294967296) + 30 < 2048" using n by simp_all
  have l2: "length ''/o'' = 2" and big: "(2 :: nat) ^ 32 \<le> 4294967296" by simp_all
  note e = pagination_cap_evaded [OF v f(3,4) p f(1) [symmetric] len(1) big len(2) refl refl,
      where op = "''offset''" and mode = PageLimitOffset and b = 5000 and a = 5, unfolded l2 f(2), folded forwarded_def]
  have "forwarded (''limit='' @ show_u32 5 @ ''&limit='' @ show_u32 5000) = Some (''/o?limit='' @ show_u32 100 @ ''&limit='' @ show_u32 5000)"
    using e by (simp add: word_less_nat_alt)
  moreover have "forwarded (''limit='' @ show_nat 4294967296) = Some (''/o?limit='' @ show_nat 4294967296)"
    using conjunct1 [OF e] by simp
  ultimately show ?thesis by blast
qed

end
