(* ===== verification/Compression.thy ===== *)
theory Compression
  imports Policy
begin

text \<open>
  The compression decision (\<^verbatim>\<open>src/compression\<close>): the client's Accept-Encoding, the upstream's
  Content-Encoding, the eligibility of content type and size, and the algorithm that is
  suggested to the proxy. A pointer and a length are the string they delimit.
\<close>

section \<open>Accept-Encoding\<close>

record AcceptEncoding =
  supports_gzip :: bool
  supports_br :: bool
  supports_zstd :: bool
  supports_deflate :: bool
  supports_identity :: bool

definition AcceptEncoding_default :: AcceptEncoding where
  "AcceptEncoding_default = \<lparr>supports_gzip = False, supports_br = False, supports_zstd = False,
     supports_deflate = False, supports_identity = False\<rparr>"

fun iequal_z :: "string \<Rightarrow> string \<Rightarrow> bool" where
  "iequal_z (a # as) (b # bs) \<longleftrightarrow> tolower a = tolower b \<and> iequal_z as bs"
| "iequal_z [] [] \<longleftrightarrow> True"
| "iequal_z _ _ \<longleftrightarrow> False"

definition rtrim :: "string \<Rightarrow> string" where
  "rtrim s = rev (dropWhile isspace (rev s))"

definition trim :: "string \<Rightarrow> string" where
  "trim s = rtrim (dropWhile isspace s)"

definition apply_token :: "AcceptEncoding \<Rightarrow> string \<Rightarrow> AcceptEncoding" where
  "apply_token out tok =
     (let t = trim (takeWhile (\<lambda>c. c \<noteq> CHR '';'') tok); buf = cstr t
      in if t = [] then out
         else if length t \<ge> 32 then out
         else if iequal_z buf ''gzip'' then out\<lparr>supports_gzip := True\<rparr>
         else if iequal_z buf ''br'' then out\<lparr>supports_br := True\<rparr>
         else if iequal_z buf ''zstd'' then out\<lparr>supports_zstd := True\<rparr>
         else if iequal_z buf ''deflate'' then out\<lparr>supports_deflate := True\<rparr>
         else if iequal_z buf ''identity'' then out\<lparr>supports_identity := True\<rparr>
         else out)"

function accept_loop :: "string \<Rightarrow> AcceptEncoding \<Rightarrow> AcceptEncoding" where
  "accept_loop p out =
     (if p = [] then out
      else let tok = takeWhile (\<lambda>c. c \<noteq> CHR '','') p
           in accept_loop (drop (Suc (length tok)) p) (apply_token out tok))"
  by pat_completeness auto
termination
  by (relation "measure (\<lambda>(p, out). length p)") auto

declare accept_loop.simps [simp del]

definition parse_accept_encoding :: "string option \<Rightarrow> AcceptEncoding" where
  "parse_accept_encoding header =
     (case header of None \<Rightarrow> AcceptEncoding_default | Some h \<Rightarrow> accept_loop h AcceptEncoding_default)"

section \<open>Content-Encoding\<close>

record ContentEncodingResult =
  already_encoded :: bool
  encoding :: CompressionAlgorithm

definition ContentEncodingResult_default :: ContentEncodingResult where
  "ContentEncodingResult_default = \<lparr>already_encoded = False, encoding = AlgNone\<rparr>"

definition iequal_n :: "string \<Rightarrow> string \<Rightarrow> bool" where
  "iequal_n a b \<longleftrightarrow> length a = length b \<and> list_all2 (\<lambda>x y. tolower x = tolower y) a b"

definition detect_content_encoding :: "string option \<Rightarrow> ContentEncodingResult" where
  "detect_content_encoding header =
     (case header of
        None \<Rightarrow> ContentEncodingResult_default
      | Some h \<Rightarrow>
          let v = trim h; tok = trim (takeWhile (\<lambda>c. c \<noteq> CHR '','' \<and> c \<noteq> CHR '';'') v)
          in if v = [] then ContentEncodingResult_default
             else \<lparr>already_encoded = True,
                   encoding = (if iequal_n tok ''gzip'' then AlgGzip
                               else if iequal_n tok ''br'' then AlgBrotli
                               else if iequal_n tok ''zstd'' then AlgZstd else AlgNone)\<rparr>)"

section \<open>Eligibility\<close>

definition base_type :: "string \<Rightarrow> string" where
  "base_type ct = rtrim (takeWhile (\<lambda>c. c \<noteq> CHR '';'') ct)"

definition is_content_type_eligible :: "CompressionPolicy \<Rightarrow> string option \<Rightarrow> bool" where
  "is_content_type_eligible policy content_type =
     (case content_type of
        None \<Rightarrow> False
      | Some ct \<Rightarrow>
          let c = dropWhile isspace ct; base = base_type c
          in if c = [] then False
             else if base = [] then False
             else if cmp_eligible_content_types policy = [] then True
             else list_ex (iequal_n base) (cmp_eligible_content_types policy))"

definition check_compression_size_eligibility :: "u32 \<Rightarrow> nat \<Rightarrow> bool \<Rightarrow> bool \<times> string option" where
  "check_compression_size_eligibility min_size_bytes body_len size_known =
     (if \<not> size_known then (False, Some ''size_unknown'')
      else if min_size_bytes > 0 \<and> body_len < unat min_size_bytes then (False, Some ''below_minimum'')
      else (True, None))"

section \<open>The decision\<close>

datatype CompressionSkipReason =
    SkipNone | SkipPolicyDisabled | SkipNoClientSupport | SkipAlreadyEncoded | SkipContentTypeNotEligible
  | SkipNon2xxStatus | SkipBelowMinimum | SkipSizeUnknown

fun compression_skip_reason_to_string :: "CompressionSkipReason \<Rightarrow> string option" where
  "compression_skip_reason_to_string SkipNone = None"
| "compression_skip_reason_to_string SkipPolicyDisabled = Some ''policy_disabled''"
| "compression_skip_reason_to_string SkipNoClientSupport = Some ''no_client_support''"
| "compression_skip_reason_to_string SkipAlreadyEncoded = Some ''already_encoded''"
| "compression_skip_reason_to_string SkipContentTypeNotEligible = Some ''content_type_not_eligible''"
| "compression_skip_reason_to_string SkipNon2xxStatus = Some ''non_2xx_status''"
| "compression_skip_reason_to_string SkipBelowMinimum = Some ''below_minimum''"
| "compression_skip_reason_to_string SkipSizeUnknown = Some ''size_unknown''"

record CompressionDecisionInput =
  cdi_policy :: "CompressionPolicy option"
  cdi_client_encoding :: AcceptEncoding
  cdi_response_encoding :: ContentEncodingResult
  cdi_status_code :: u16
  cdi_content_type :: "string option"
  cdi_body_len :: nat
  cdi_body_size_known :: bool

record CompressionDecision =
  cd_candidate :: bool
  cd_skip_reason :: CompressionSkipReason
  cd_selected_algorithm_hint :: CompressionAlgorithm

definition skip_decision :: "CompressionSkipReason \<Rightarrow> CompressionDecision" where
  "skip_decision r = \<lparr>cd_candidate = False, cd_skip_reason = r, cd_selected_algorithm_hint = AlgNone\<rparr>"

definition client_supports :: "AcceptEncoding \<Rightarrow> CompressionAlgorithm \<Rightarrow> bool" where
  "client_supports client alg \<longleftrightarrow> alg = AlgBrotli \<and> supports_br client \<or> alg = AlgZstd \<and> supports_zstd client \<or>
     alg = AlgGzip \<and> supports_gzip client"

fun pick_preferred :: "CompressionAlgorithm list \<Rightarrow> AcceptEncoding \<Rightarrow> CompressionAlgorithm option" where
  "pick_preferred [] client = None"
| "pick_preferred (alg # algs) client =
     (if client_supports client alg then Some alg else pick_preferred algs client)"

definition pick_algorithm :: "CompressionPolicy \<Rightarrow> AcceptEncoding \<Rightarrow> CompressionAlgorithm" where
  "pick_algorithm policy client =
     (case pick_preferred (cmp_preferred_algorithms policy) client of
        Some alg \<Rightarrow> alg
      | None \<Rightarrow> if supports_br client then AlgBrotli
                else if supports_zstd client then AlgZstd
                else if supports_gzip client then AlgGzip else AlgNone)"

definition make_compression_decision :: "CompressionDecisionInput \<Rightarrow> CompressionDecision" where
  "make_compression_decision inp =
     (case cdi_policy inp of
        None \<Rightarrow> skip_decision SkipPolicyDisabled
      | Some policy \<Rightarrow>
          let client = cdi_client_encoding inp;
              (eligible, reason) = check_compression_size_eligibility (cmp_min_size_bytes policy)
                (cdi_body_len inp) (cdi_body_size_known inp)
          in if \<not> cmp_enabled policy then skip_decision SkipPolicyDisabled
             else if \<not> supports_gzip client \<and> \<not> supports_br client \<and> \<not> supports_zstd client then
               skip_decision SkipNoClientSupport
             else if cdi_status_code inp < 200 \<or> cdi_status_code inp \<ge> 300 then skip_decision SkipNon2xxStatus
             else if already_encoded (cdi_response_encoding inp) then skip_decision SkipAlreadyEncoded
             else if \<not> is_content_type_eligible policy (cdi_content_type inp) then
               skip_decision SkipContentTypeNotEligible
             else if \<not> eligible then
               (if reason = Some ''size_unknown'' then skip_decision SkipSizeUnknown
                else skip_decision SkipBelowMinimum)
             else \<lparr>cd_candidate = True, cd_skip_reason = SkipNone,
                   cd_selected_algorithm_hint = pick_algorithm policy client\<rparr>)"

section \<open>Lemmas\<close>

lemma iequal_z_iff: "iequal_z a b \<longleftrightarrow> map tolower a = map tolower b"
  by (induction a b rule: iequal_z.induct) auto

lemma iequal_n_iff: "iequal_n a b \<longleftrightarrow> map tolower a = map tolower b"
  by (auto simp: iequal_n_def list_all2_conv_all_nth list_eq_iff_nth_eq)

lemma pick_preferred_Some:
  "pick_preferred algs client = Some a \<Longrightarrow> a \<in> set algs \<and> client_supports client a"
  by (induction algs) (auto split: if_splits)

lemma pick_preferred_None:
  "pick_preferred algs client = None \<longleftrightarrow> (\<forall>a\<in>set algs. \<not> client_supports client a)"
  by (induction algs) auto

lemma pick_algorithm_supported:
  "supports_gzip client \<or> supports_br client \<or> supports_zstd client \<Longrightarrow> client_supports client (pick_algorithm policy client)"
  by (auto simp: pick_algorithm_def client_supports_def dest!: pick_preferred_Some split: option.split)

text \<open>The tokens of the header, and the coding a token names.\<close>

fun split_comma :: "string \<Rightarrow> string list" where
  "split_comma [] = [[]]"
| "split_comma (c # cs) =
     (if c = CHR '','' then [] # split_comma cs
      else case split_comma cs of [] \<Rightarrow> [[c]] | s # ss \<Rightarrow> (c # s) # ss)"

definition names_coding :: "string \<Rightarrow> string \<Rightarrow> bool" where
  "names_coding tok coding \<longleftrightarrow>
     (let t = trim (takeWhile (\<lambda>c. c \<noteq> CHR '';'') tok)
      in length t < 32 \<and> map tolower (cstr t) = map tolower coding)"

lemma split_comma_cases:
  "split_comma p = takeWhile (\<lambda>c. c \<noteq> CHR '','') p #
     (if CHR '','' \<in> set p then split_comma (drop (Suc (length (takeWhile (\<lambda>c. c \<noteq> CHR '','') p))) p) else [])"
  by (induction p) auto

lemma apply_token_empty [simp]: "apply_token out [] = out"
  by (simp add: apply_token_def trim_def rtrim_def)

lemma accept_loop_fold: "accept_loop p out = foldl apply_token out (split_comma p)"
proof (induction p out rule: accept_loop.induct)
  case (1 p out)
  let ?t = "takeWhile (\<lambda>c. c \<noteq> CHR '','') p"
  show ?case
  proof (cases "p = []")
    case True
    then show ?thesis by (simp add: accept_loop.simps)
  next
    case False
    then have l: "accept_loop p out = accept_loop (drop (Suc (length ?t)) p) (apply_token out ?t)"
      by (subst accept_loop.simps) (simp add: Let_def)
    show ?thesis
    proof (cases "CHR '','' \<in> set p")
      case True
      then show ?thesis using "1.IH" [OF False refl] l split_comma_cases [of p] by simp
    next
      case no: False
      then have t: "?t = p" by (auto simp: takeWhile_eq_all_conv)
      have "accept_loop (drop (Suc (length ?t)) p) (apply_token out ?t) = apply_token out ?t"
        unfolding t by (simp add: accept_loop.simps)
      with l no split_comma_cases [of p] show ?thesis by simp
    qed
  qed
qed

lemma tolower_codings [simp]:
  "map tolower ''gzip'' = ''gzip''" "map tolower ''br'' = ''br''" "map tolower ''zstd'' = ''zstd''"
  "map tolower ''deflate'' = ''deflate''" "map tolower ''identity'' = ''identity''"
  by (simp_all add: tolower_def char_code_def)

lemma names_coding_apply:
  "supports_gzip (apply_token out tok) \<longleftrightarrow> supports_gzip out \<or> names_coding tok ''gzip''"
  "supports_br (apply_token out tok) \<longleftrightarrow> supports_br out \<or> names_coding tok ''br''"
  "supports_zstd (apply_token out tok) \<longleftrightarrow> supports_zstd out \<or> names_coding tok ''zstd''"
proof -
  define t where "t = trim (takeWhile (\<lambda>c. c \<noteq> CHR '';'') tok)"
  define b where "b = map tolower (cstr t)"
  have e: "t = [] \<Longrightarrow> b = []" by (simp add: b_def cstr_def)
  have a: "apply_token out tok =
     (if t = [] \<or> length t \<ge> 32 then out
      else if b = ''gzip'' then out\<lparr>supports_gzip := True\<rparr>
      else if b = ''br'' then out\<lparr>supports_br := True\<rparr>
      else if b = ''zstd'' then out\<lparr>supports_zstd := True\<rparr>
      else if b = ''deflate'' then out\<lparr>supports_deflate := True\<rparr>
      else if b = ''identity'' then out\<lparr>supports_identity := True\<rparr> else out)"
    by (simp only: apply_token_def Let_def iequal_z_iff t_def [symmetric] b_def [symmetric] tolower_codings) auto
  have n: "names_coding tok c \<longleftrightarrow> length t < 32 \<and> b = map tolower c" for c
    by (simp add: names_coding_def t_def b_def Let_def)
  show "supports_gzip (apply_token out tok) \<longleftrightarrow> supports_gzip out \<or> names_coding tok ''gzip''"
    "supports_br (apply_token out tok) \<longleftrightarrow> supports_br out \<or> names_coding tok ''br''"
    "supports_zstd (apply_token out tok) \<longleftrightarrow> supports_zstd out \<or> names_coding tok ''zstd''"
    using e unfolding a n tolower_codings by auto
qed

lemma foldl_supports:
  assumes "\<And>out tok. f (apply_token out tok) \<longleftrightarrow> f out \<or> names_coding tok c"
  shows "f (foldl apply_token out toks) \<longleftrightarrow> f out \<or> (\<exists>tok\<in>set toks. names_coding tok c)"
  by (induction toks arbitrary: out) (auto simp: assms)

section \<open>Properties\<close>

text \<open>
  Accept-Encoding is read as the set of codings it names: a coding counts as supported exactly
  when one of the comma-separated tokens, cut at its first semicolon, stripped of blanks and
  shorter than 32 characters, spells it in any letter case. Order and quality values play no part.
\<close>

theorem parse_accept_encoding_spec:
  "supports_gzip (parse_accept_encoding (Some h)) = list_ex (\<lambda>t. names_coding t ''gzip'') (split_comma h) \<and>
   supports_br (parse_accept_encoding (Some h)) = list_ex (\<lambda>t. names_coding t ''br'') (split_comma h) \<and>
   supports_zstd (parse_accept_encoding (Some h)) = list_ex (\<lambda>t. names_coding t ''zstd'') (split_comma h)"
  by (simp add: parse_accept_encoding_def accept_loop_fold names_coding_apply foldl_supports
      AcceptEncoding_default_def list_ex_iff)

text \<open>
  The decision is exact: a response is a compression candidate precisely when the policy is
  enabled, the client takes gzip, br or zstd, the status is 2xx, the body is not yet encoded, its
  content type is eligible and its known size reaches the minimum. A candidate's algorithm is
  one the client supports, and is the first supported one of the preferred list when that list
  has one; every other response carries a reason.
\<close>

theorem compression_decision_exact:
  "let d = make_compression_decision inp; client = cdi_client_encoding inp
   in (cd_candidate d \<longleftrightarrow>
        (case cdi_policy inp of
           None \<Rightarrow> False
         | Some p \<Rightarrow> cmp_enabled p \<and> (supports_gzip client \<or> supports_br client \<or> supports_zstd client) \<and>
             200 \<le> cdi_status_code inp \<and> cdi_status_code inp < 300 \<and>
             \<not> already_encoded (cdi_response_encoding inp) \<and> is_content_type_eligible p (cdi_content_type inp) \<and>
             cdi_body_size_known inp \<and> unat (cmp_min_size_bytes p) \<le> cdi_body_len inp)) \<and>
      (cd_candidate d = (cd_skip_reason d = SkipNone)) \<and>
      (if cd_candidate d then client_supports client (cd_selected_algorithm_hint d) \<and>
           (case cdi_policy inp of
              None \<Rightarrow> False
            | Some p \<Rightarrow> case pick_preferred (cmp_preferred_algorithms p) client of
                          None \<Rightarrow> True | Some a \<Rightarrow> cd_selected_algorithm_hint d = a)
       else cd_selected_algorithm_hint d = AlgNone)"
proof (cases "cdi_policy inp")
  case None
  then show ?thesis by (simp add: make_compression_decision_def skip_decision_def)
next
  case (Some p)
  then show ?thesis
    using pick_algorithm_supported [of "cdi_client_encoding inp" p]
    by (auto simp: make_compression_decision_def skip_decision_def check_compression_size_eligibility_def Let_def
        not_less word_gt_0 pick_algorithm_def split: option.split)
qed

definition br_only_input :: CompressionDecisionInput where
  "br_only_input = \<lparr>
     cdi_policy = Some (CompressionPolicy_default\<lparr>cmp_enabled := True, cmp_preferred_algorithms := [AlgGzip]\<rparr>),
     cdi_client_encoding = parse_accept_encoding (Some ''br''), cdi_response_encoding = ContentEncodingResult_default,
     cdi_status_code = 200, cdi_content_type = Some ''application/json'', cdi_body_len = 4096,
     cdi_body_size_known = True\<rparr>"

text \<open>
  The preferred list does not restrict the algorithm: a policy that lists only gzip and a
  client that takes only br yield a candidate with the hint br.
\<close>

theorem compression_fallback_outside_preferred:
  "cd_candidate (make_compression_decision br_only_input) \<and>
   cd_selected_algorithm_hint (make_compression_decision br_only_input) = AlgBrotli"
proof -
  have "parse_accept_encoding (Some ''br'') = AcceptEncoding_default\<lparr>supports_br := True\<rparr>"
    by (simp add: parse_accept_encoding_def accept_loop_fold apply_token_def iequal_z_iff trim_def rtrim_def
        isspace_def char_code_def cstr_def NUL_def tolower_def)
  moreover have "is_content_type_eligible (CompressionPolicy_default\<lparr>cmp_enabled := True, cmp_preferred_algorithms := [AlgGzip]\<rparr>)
      (Some ''application/json'')"
    by (simp add: is_content_type_eligible_def base_type_def rtrim_def isspace_def char_code_def default_defs Let_def)
  ultimately show ?thesis
    by (simp add: br_only_input_def make_compression_decision_def check_compression_size_eligibility_def default_defs
        AcceptEncoding_default_def ContentEncodingResult_default_def pick_algorithm_def client_supports_def)
qed

end
