(* ===== verification/Inflight_Registry.thy ===== *)
theory Inflight_Registry
  imports Prelude Hash
begin

text \<open>
  The registry of requests in flight (\<^verbatim>\<open>src/coalescing/inflight_registry.cpp\<close>): eight shards of
  sixteen slots, each operation under the mutex of the shard its key hashes to. The process
  seed of the hash is a parameter. Waiting on the condition variable is modelled by the
  registry states the waiter sees each time its predicate is evaluated, up to the deadline.
\<close>

section \<open>Data\<close>

definition kCoalescingSharedBodyMaxSize :: nat where "kCoalescingSharedBodyMaxSize = 65536"
definition kCoalescingContentTypeMaxLen :: nat where "kCoalescingContentTypeMaxLen = 64"
definition kInFlightShards :: nat where "kInFlightShards = 8"
definition kSlotsPerShard :: nat where "kSlotsPerShard = 16"

datatype InFlightRole = RoleLeader | RoleFollower | RoleReject

datatype InFlightCompletionState =
    InFlight | Stored | NotCacheable | Failed | L1Ready | L2Ready | TooLargeForHandoff

definition is_terminal :: "InFlightCompletionState \<Rightarrow> bool" where
  "is_terminal s \<longleftrightarrow> s \<noteq> InFlight"

text \<open>The body buffer holds what was written to it; the bytes behind are zero.\<close>

record InFlightSharedResponse =
  sr_status_code :: u16
  sr_content_type :: string
  sr_body :: string
  sr_body_len :: nat
  sr_ready :: bool

definition InFlightSharedResponse_default :: InFlightSharedResponse where
  "InFlightSharedResponse_default =
     \<lparr>sr_status_code = 0, sr_content_type = [], sr_body = [], sr_body_len = 0, sr_ready = False\<rparr>"

record InFlightEntry =
  fl_key :: string
  fl_created_at_epoch_ms :: u64
  fl_completed_at_epoch_ms :: u64
  fl_waiter_count :: u32
  fl_active :: bool
  fl_state :: InFlightCompletionState
  fl_lifecycle_generation :: u64
  fl_shared_response :: InFlightSharedResponse

definition InFlightEntry_default :: InFlightEntry where
  "InFlightEntry_default =
     \<lparr>fl_key = [], fl_created_at_epoch_ms = 0, fl_completed_at_epoch_ms = 0, fl_waiter_count = 0,
      fl_active = False, fl_state = InFlight, fl_lifecycle_generation = 0,
      fl_shared_response = InFlightSharedResponse_default\<rparr>"

record InFlightShard =
  fs_active_waiters :: u32
  fs_slots :: "InFlightEntry list"

record InFlightRegistry =
  fr_active_waiters :: u32
  fr_shards :: "InFlightShard list"

record RegistryRegistrationResult =
  rr_role :: InFlightRole
  rr_lifecycle_generation :: u64

section \<open>Slots\<close>

text \<open>\<open>window_over\<close> is the comparison \<open>now >= t + window\<close> in 64 bits.\<close>

definition window_over :: "u64 \<Rightarrow> u64 \<Rightarrow> u32 \<Rightarrow> bool" where
  "window_over now_ms t wait_window_ms \<longleftrightarrow> now_ms \<ge> t + ucast wait_window_ms"

definition terminal_entry_expired :: "InFlightEntry \<Rightarrow> u64 \<Rightarrow> u32 \<Rightarrow> bool" where
  "terminal_entry_expired entry now_ms wait_window_ms =
     (if \<not> fl_active entry then False
      else if \<not> is_terminal (fl_state entry) then False
      else if fl_waiter_count entry > 0 then False
      else window_over now_ms (fl_completed_at_epoch_ms entry) wait_window_ms)"

definition reset_entry_for_reuse :: "InFlightEntry \<Rightarrow> InFlightEntry" where
  "reset_entry_for_reuse entry =
     entry\<lparr>fl_key := [], fl_created_at_epoch_ms := 0, fl_completed_at_epoch_ms := 0, fl_waiter_count := 0,
           fl_active := False, fl_state := InFlight, fl_shared_response := InFlightSharedResponse_default\<rparr>"

definition active_with :: "string \<Rightarrow> InFlightEntry \<Rightarrow> bool" where
  "active_with key slot \<longleftrightarrow> fl_active slot \<and> fl_key slot = key"

definition slot_of :: "string \<Rightarrow> InFlightEntry list \<Rightarrow> nat option" where
  "slot_of key slots = find_index (active_with key) slots"

text \<open>A completed slot starts a new life as a leader.\<close>

definition new_leader :: "u64 \<Rightarrow> InFlightEntry \<Rightarrow> InFlightEntry" where
  "new_leader now_ms slot =
     slot\<lparr>fl_state := InFlight, fl_shared_response := InFlightSharedResponse_default,
          fl_created_at_epoch_ms := now_ms, fl_waiter_count := 0, fl_active := True,
          fl_lifecycle_generation := fl_lifecycle_generation slot + 1\<rparr>"

definition claim_slot :: "string \<Rightarrow> u64 \<Rightarrow> InFlightEntry \<Rightarrow> InFlightEntry" where
  "claim_slot key now_ms slot =
     slot\<lparr>fl_key := strncpy_z 255 key, fl_created_at_epoch_ms := now_ms, fl_completed_at_epoch_ms := 0,
          fl_waiter_count := 0, fl_state := InFlight, fl_shared_response := InFlightSharedResponse_default,
          fl_active := True, fl_lifecycle_generation := fl_lifecycle_generation slot + 1\<rparr>"

text \<open>Joining as a follower while there is room.\<close>

definition join_slot :: "u32 \<Rightarrow> InFlightEntry \<Rightarrow> RegistryRegistrationResult \<times> InFlightEntry" where
  "join_slot max_waiters slot =
     (if fl_waiter_count slot < max_waiters then
        (\<lparr>rr_role = RoleFollower, rr_lifecycle_generation = fl_lifecycle_generation slot\<rparr>,
         slot\<lparr>fl_waiter_count := fl_waiter_count slot + 1\<rparr>)
      else (\<lparr>rr_role = RoleReject, rr_lifecycle_generation = 0\<rparr>, slot))"

definition leader_result :: "InFlightEntry \<Rightarrow> RegistryRegistrationResult \<times> InFlightEntry" where
  "leader_result slot = (\<lparr>rr_role = RoleLeader, rr_lifecycle_generation = fl_lifecycle_generation slot\<rparr>, slot)"

definition register_existing ::
  "string \<Rightarrow> u64 \<Rightarrow> u32 \<Rightarrow> u32 \<Rightarrow> InFlightEntry \<Rightarrow> RegistryRegistrationResult \<times> InFlightEntry" where
  "register_existing key now_ms wait_window_ms max_waiters slot =
     (if fl_state slot = Stored \<or> fl_state slot = L1Ready then
        (if window_over now_ms (fl_completed_at_epoch_ms slot) wait_window_ms then
           leader_result (new_leader now_ms slot)
         else join_slot max_waiters slot)
      else if fl_state slot = NotCacheable \<or> fl_state slot = Failed then
        leader_result (new_leader now_ms slot)
      else if window_over now_ms (fl_created_at_epoch_ms slot) wait_window_ms then
        leader_result (new_leader now_ms (slot\<lparr>fl_key := strncpy_z 255 key\<rparr>))
      else join_slot max_waiters slot)"

definition reusable :: "u64 \<Rightarrow> u32 \<Rightarrow> InFlightEntry \<Rightarrow> bool" where
  "reusable now_ms wait_window_ms slot \<longleftrightarrow> terminal_entry_expired slot now_ms wait_window_ms \<or> \<not> fl_active slot"

definition prepared_slot :: "u64 \<Rightarrow> u32 \<Rightarrow> InFlightEntry \<Rightarrow> InFlightEntry" where
  "prepared_slot now_ms wait_window_ms slot =
     (if terminal_entry_expired slot now_ms wait_window_ms then reset_entry_for_reuse slot else slot)"

definition register_slots ::
  "string \<Rightarrow> u64 \<Rightarrow> u32 \<Rightarrow> u32 \<Rightarrow> InFlightEntry list \<Rightarrow> RegistryRegistrationResult \<times> InFlightEntry list" where
  "register_slots key now_ms wait_window_ms max_waiters slots =
     (case slot_of key slots of
        Some j \<Rightarrow>
          (let (res, slot) = register_existing key now_ms wait_window_ms max_waiters (slots ! j)
           in (res, slots[j := slot]))
      | None \<Rightarrow>
          (case find_index (reusable now_ms wait_window_ms) slots of
             Some j \<Rightarrow>
               (let (res, slot) = leader_result (claim_slot key now_ms (prepared_slot now_ms wait_window_ms (slots ! j)))
                in (res, slots[j := slot]))
           | None \<Rightarrow> (\<lparr>rr_role = RoleReject, rr_lifecycle_generation = 0\<rparr>, slots)))"

section \<open>Operations\<close>

definition flight_shard_idx :: "HashSeed \<Rightarrow> string \<Rightarrow> nat" where
  "flight_shard_idx seed key = unat (hash_cstr_keyed (Some key) seed) mod kInFlightShards"

definition slots_for :: "HashSeed \<Rightarrow> string \<Rightarrow> InFlightRegistry \<Rightarrow> InFlightEntry list" where
  "slots_for seed key reg = fs_slots (fr_shards reg ! flight_shard_idx seed key)"

definition with_slots ::
  "HashSeed \<Rightarrow> string \<Rightarrow> (InFlightEntry list \<Rightarrow> InFlightEntry list) \<Rightarrow> InFlightRegistry \<Rightarrow> InFlightRegistry" where
  "with_slots seed key f reg =
     reg\<lparr>fr_shards := (fr_shards reg)[flight_shard_idx seed key :=
       (fr_shards reg ! flight_shard_idx seed key)\<lparr>fs_slots := f (slots_for seed key reg)\<rparr>]\<rparr>"

definition init_entry :: "InFlightEntry \<Rightarrow> InFlightEntry" where
  "init_entry e = e\<lparr>fl_active := False, fl_state := InFlight, fl_shared_response := InFlightSharedResponse_default\<rparr>"

definition registry_init :: "InFlightRegistry option \<Rightarrow> InFlightRegistry option" where
  "registry_init = map_option (\<lambda>reg. reg\<lparr>fr_active_waiters := 0,
     fr_shards := map (\<lambda>sh. sh\<lparr>fs_active_waiters := 0, fs_slots := map init_entry (fs_slots sh)\<rparr>) (fr_shards reg)\<rparr>)"

definition registry_register ::
  "HashSeed \<Rightarrow> InFlightRegistry option \<Rightarrow> string option \<Rightarrow> u64 \<Rightarrow> u32 \<Rightarrow> u32 \<Rightarrow>
   RegistryRegistrationResult \<times> InFlightRegistry option" where
  "registry_register seed registry key now_ms wait_window_ms max_waiters =
     (case (registry, key) of
        (Some reg, Some k) \<Rightarrow>
          (let (res, slots) = register_slots k now_ms wait_window_ms max_waiters (slots_for seed k reg)
           in (res, Some (with_slots seed k (\<lambda>_. slots) reg)))
      | _ \<Rightarrow> (\<lparr>rr_role = RoleReject, rr_lifecycle_generation = 0\<rparr>, registry))"

definition complete_slots ::
  "string \<Rightarrow> u64 \<Rightarrow> InFlightCompletionState \<Rightarrow> u64 \<Rightarrow> InFlightEntry list \<Rightarrow> bool \<times> InFlightEntry list" where
  "complete_slots key expected_generation state now_ms slots =
     (case slot_of key slots of
        None \<Rightarrow> (False, slots)
      | Some j \<Rightarrow>
          if expected_generation \<noteq> 0 \<and> fl_lifecycle_generation (slots ! j) \<noteq> expected_generation then (False, slots)
          else (True, slots[j := (slots ! j)\<lparr>fl_state := state, fl_completed_at_epoch_ms := now_ms\<rparr>]))"

definition registry_complete_state_if_generation ::
  "HashSeed \<Rightarrow> InFlightRegistry option \<Rightarrow> string option \<Rightarrow> u64 \<Rightarrow> InFlightCompletionState \<Rightarrow> u64 \<Rightarrow>
   bool \<times> InFlightRegistry option" where
  "registry_complete_state_if_generation seed registry key expected_generation state now_ms =
     (case (registry, key) of
        (Some reg, Some k) \<Rightarrow>
          (let (ok, slots) = complete_slots k expected_generation state now_ms (slots_for seed k reg)
           in (ok, Some (with_slots seed k (\<lambda>_. slots) reg)))
      | _ \<Rightarrow> (False, registry))"

text \<open>\<open>registry_complete_state\<close> is the same without the check of the generation.\<close>

definition registry_complete_state ::
  "HashSeed \<Rightarrow> InFlightRegistry option \<Rightarrow> string option \<Rightarrow> InFlightCompletionState \<Rightarrow> u64 \<Rightarrow>
   bool \<times> InFlightRegistry option" where
  "registry_complete_state seed registry key state now_ms =
     (case (registry, key) of
        (Some reg, Some k) \<Rightarrow>
          (case slot_of k (slots_for seed k reg) of
             None \<Rightarrow> (False, registry)
           | Some j \<Rightarrow>
               (True, Some (with_slots seed k (\<lambda>slots. slots[j :=
                  (slots ! j)\<lparr>fl_state := state, fl_completed_at_epoch_ms := now_ms\<rparr>]) reg)))
      | _ \<Rightarrow> (False, registry))"

definition snapshot ::
  "u16 \<Rightarrow> string option \<Rightarrow> string option \<Rightarrow> nat \<Rightarrow> InFlightSharedResponse \<Rightarrow> InFlightSharedResponse" where
  "snapshot status_code content_type body body_len r =
     r\<lparr>sr_status_code := status_code,
       sr_content_type := (case content_type of
          None \<Rightarrow> [] | Some ct \<Rightarrow> strncpy_z (kCoalescingContentTypeMaxLen - 1) ct),
       sr_body := (case body of
          None \<Rightarrow> sr_body r | Some b \<Rightarrow> take body_len b @ drop body_len (sr_body r)),
       sr_body_len := body_len, sr_ready := True\<rparr>"

definition registry_complete_with_response ::
  "HashSeed \<Rightarrow> InFlightRegistry option \<Rightarrow> string option \<Rightarrow> u16 \<Rightarrow> string option \<Rightarrow> string option \<Rightarrow> nat \<Rightarrow> u64 \<Rightarrow>
   bool \<times> InFlightRegistry option" where
  "registry_complete_with_response seed registry key status_code content_type body body_len now_ms =
     (case (registry, key) of
        (Some reg, Some k) \<Rightarrow>
          if body_len > kCoalescingSharedBodyMaxSize then
            registry_complete_state seed registry key NotCacheable now_ms
          else
            (case slot_of k (slots_for seed k reg) of
               None \<Rightarrow> (False, registry)
             | Some j \<Rightarrow>
                 (True, Some (with_slots seed k (\<lambda>slots. slots[j := (slots ! j)
                    \<lparr>fl_state := Stored, fl_completed_at_epoch_ms := now_ms,
                     fl_shared_response := snapshot status_code content_type body body_len
                       (fl_shared_response (slots ! j))\<rparr>]) reg)))
      | _ \<Rightarrow> (False, registry))"

definition remove_waiter_slots :: "string \<Rightarrow> InFlightEntry list \<Rightarrow> InFlightEntry list" where
  "remove_waiter_slots key slots =
     (case slot_of key slots of
        None \<Rightarrow> slots
      | Some j \<Rightarrow>
          if fl_waiter_count (slots ! j) > 0 then
            slots[j := (slots ! j)\<lparr>fl_waiter_count := fl_waiter_count (slots ! j) - 1\<rparr>]
          else slots)"

definition registry_remove_waiter ::
  "HashSeed \<Rightarrow> InFlightRegistry option \<Rightarrow> string option \<Rightarrow> InFlightRegistry option" where
  "registry_remove_waiter seed registry key =
     (case (registry, key) of
        (Some reg, Some k) \<Rightarrow> Some (with_slots seed k (remove_waiter_slots k) reg)
      | _ \<Rightarrow> registry)"

section \<open>Waiting\<close>

datatype RegistryWaitResult =
    WaitSharedResponseReady | WaitStoredButNoSnapshot | WaitNotCacheable | WaitFailed | WaitTimeout
  | WaitMissing | WaitL1Ready | WaitExpired | WaitL2Ready | WaitTooLargeForHandoff

record RegistrySharedResponseOutput =
  so_status_code :: u16
  so_content_type :: string
  so_body :: string
  so_body_len :: nat

definition shared_output :: "InFlightSharedResponse \<Rightarrow> RegistrySharedResponseOutput" where
  "shared_output r = \<lparr>so_status_code = sr_status_code r, so_content_type = sr_content_type r,
     so_body = take (sr_body_len r) (sr_body r @ replicate (sr_body_len r) NUL), so_body_len = sr_body_len r\<rparr>"

text \<open>What a terminal state means for the waiter; \<open>None\<close> for a state that is none.\<close>

definition terminal_result :: "InFlightEntry \<Rightarrow> (RegistryWaitResult \<times> RegistrySharedResponseOutput option) option" where
  "terminal_result entry =
     (case fl_state entry of
        Stored \<Rightarrow>
          if sr_ready (fl_shared_response entry) then
            Some (WaitSharedResponseReady, Some (shared_output (fl_shared_response entry)))
          else Some (WaitStoredButNoSnapshot, None)
      | L1Ready \<Rightarrow> Some (WaitL1Ready, None)
      | L2Ready \<Rightarrow> Some (WaitL2Ready, None)
      | TooLargeForHandoff \<Rightarrow> Some (WaitTooLargeForHandoff, None)
      | NotCacheable \<Rightarrow> Some (WaitNotCacheable, None)
      | Failed \<Rightarrow> Some (WaitFailed, None)
      | InFlight \<Rightarrow> None)"

definition replaced :: "u64 \<Rightarrow> InFlightEntry \<Rightarrow> bool" where
  "replaced expected entry \<longleftrightarrow> expected \<noteq> 0 \<and> fl_lifecycle_generation entry \<noteq> expected"

definition wait_predicate :: "u64 \<Rightarrow> InFlightEntry \<Rightarrow> bool" where
  "wait_predicate expected entry \<longleftrightarrow> is_terminal (fl_state entry) \<or> \<not> fl_active entry \<or> replaced expected entry"

definition after_wait :: "u64 \<Rightarrow> InFlightEntry \<Rightarrow> RegistryWaitResult \<times> RegistrySharedResponseOutput option" where
  "after_wait expected entry =
     (if \<not> fl_active entry \<or> replaced expected entry then
        (if expected \<noteq> 0 then (WaitExpired, None) else (WaitMissing, None))
      else case terminal_result entry of Some r \<Rightarrow> r | None \<Rightarrow> (WaitMissing, None))"

text \<open>
  \<open>wakes\<close> are the states in which the predicate is evaluated, the last one at the deadline;
  the slot is fixed when the wait begins.
\<close>

definition registry_wait_for_completion ::
  "HashSeed \<Rightarrow> InFlightRegistry option \<Rightarrow> string option \<Rightarrow> u64 \<Rightarrow> InFlightRegistry list \<Rightarrow>
   RegistryWaitResult \<times> RegistrySharedResponseOutput option" where
  "registry_wait_for_completion seed registry key expected wakes =
     (case (registry, key) of
        (Some reg, Some k) \<Rightarrow>
          (case slot_of k (slots_for seed k reg) of
             None \<Rightarrow> (WaitMissing, None)
           | Some j \<Rightarrow>
               (let entry = slots_for seed k reg ! j
                in if replaced expected entry then (WaitExpired, None)
                   else case terminal_result entry of
                     Some r \<Rightarrow> r
                   | None \<Rightarrow>
                       (case find (\<lambda>w. wait_predicate expected (slots_for seed k w ! j)) wakes of
                          None \<Rightarrow> (WaitTimeout, None)
                        | Some w \<Rightarrow> after_wait expected (slots_for seed k w ! j))))
      | _ \<Rightarrow> (WaitMissing, None))"

section \<open>Waiter counters\<close>

definition registry_active_waiters :: "InFlightRegistry option \<Rightarrow> u32" where
  "registry_active_waiters registry = (case registry of None \<Rightarrow> 0 | Some reg \<Rightarrow> fr_active_waiters reg)"

definition registry_shard_active_waiters :: "HashSeed \<Rightarrow> InFlightRegistry option \<Rightarrow> string option \<Rightarrow> u32" where
  "registry_shard_active_waiters seed registry key =
     (case (registry, key) of
        (Some reg, Some k) \<Rightarrow> fs_active_waiters (fr_shards reg ! flight_shard_idx seed k)
      | _ \<Rightarrow> 0)"

definition add_waiters :: "HashSeed \<Rightarrow> u32 \<Rightarrow> InFlightRegistry option \<Rightarrow> string option \<Rightarrow> InFlightRegistry option" where
  "add_waiters seed d registry key =
     (case (registry, key) of
        (Some reg, Some k) \<Rightarrow>
          (let i = flight_shard_idx seed k; sh = fr_shards reg ! i
           in Some (reg\<lparr>fr_active_waiters := fr_active_waiters reg + d,
                        fr_shards := (fr_shards reg)[i := sh\<lparr>fs_active_waiters := fs_active_waiters sh + d\<rparr>]\<rparr>))
      | _ \<Rightarrow> registry)"

definition registry_enter_wait :: "HashSeed \<Rightarrow> InFlightRegistry option \<Rightarrow> string option \<Rightarrow> InFlightRegistry option" where
  "registry_enter_wait seed registry key = add_waiters seed 1 registry key"

definition registry_exit_wait :: "HashSeed \<Rightarrow> InFlightRegistry option \<Rightarrow> string option \<Rightarrow> InFlightRegistry option" where
  "registry_exit_wait seed registry key = add_waiters seed (- 1) registry key"

section \<open>Runs\<close>

datatype FlightOp =
    FlRegister string u64 u32 u32
  | FlComplete string u64 InFlightCompletionState u64
  | FlRemoveWaiter string

fun flight_step :: "HashSeed \<Rightarrow> FlightOp \<Rightarrow> InFlightRegistry \<Rightarrow> InFlightRegistry" where
  "flight_step seed (FlRegister k now_ms w m) reg = the (snd (registry_register seed (Some reg) (Some k) now_ms w m))"
| "flight_step seed (FlComplete k g st now_ms) reg =
     the (snd (registry_complete_state_if_generation seed (Some reg) (Some k) g st now_ms))"
| "flight_step seed (FlRemoveWaiter k) reg = the (registry_remove_waiter seed (Some reg) (Some k))"

text \<open>Every operation rewrites the slots of the shard of its key.\<close>

fun op_key :: "FlightOp \<Rightarrow> string" where
  "op_key (FlRegister k _ _ _) = k"
| "op_key (FlComplete k _ _ _) = k"
| "op_key (FlRemoveWaiter k) = k"

fun op_slots :: "FlightOp \<Rightarrow> InFlightEntry list \<Rightarrow> InFlightEntry list" where
  "op_slots (FlRegister k now_ms w m) slots = snd (register_slots k now_ms w m slots)"
| "op_slots (FlComplete k g st now_ms) slots = snd (complete_slots k g st now_ms slots)"
| "op_slots (FlRemoveWaiter k) slots = remove_waiter_slots k slots"

lemma flight_step_slots: "flight_step seed op reg = with_slots seed (op_key op) (op_slots op) reg"
  by (cases op)
    (simp_all add: registry_register_def registry_complete_state_if_generation_def registry_remove_waiter_def
      with_slots_def split: prod.splits)

definition registry_wf :: "InFlightRegistry \<Rightarrow> bool" where
  "registry_wf reg \<longleftrightarrow> length (fr_shards reg) = kInFlightShards"

lemma flight_shard_idx_less: "registry_wf reg \<Longrightarrow> flight_shard_idx seed k < length (fr_shards reg)"
  by (simp add: registry_wf_def flight_shard_idx_def kInFlightShards_def)

lemma slots_for_with_slots:
  "registry_wf reg \<Longrightarrow> slots_for seed k (with_slots seed k' f reg) =
     (if flight_shard_idx seed k = flight_shard_idx seed k' then f (slots_for seed k reg) else slots_for seed k reg)"
  using flight_shard_idx_less [of reg seed k'] by (auto simp: slots_for_def with_slots_def nth_list_update)

lemma registry_wf_with_slots [simp]: "registry_wf (with_slots seed k f reg) \<longleftrightarrow> registry_wf reg"
  by (simp add: registry_wf_def with_slots_def)

section \<open>Leadership\<close>

text \<open>The entry of a key, and the life of a leader of generation \<open>g\<close> created at \<open>t\<close> in slot \<open>j\<close>.\<close>

definition leads :: "nat \<Rightarrow> string \<Rightarrow> u64 \<Rightarrow> u64 \<Rightarrow> InFlightEntry list \<Rightarrow> bool" where
  "leads j k g t slots \<longleftrightarrow> slot_of k slots = Some j \<and> fl_state (slots ! j) = InFlight \<and>
     fl_lifecycle_generation (slots ! j) = g \<and> fl_created_at_epoch_ms (slots ! j) = t"

text \<open>Operations that neither complete this leader nor outlive its window.\<close>

fun quiet :: "string \<Rightarrow> u64 \<Rightarrow> u64 \<Rightarrow> FlightOp \<Rightarrow> bool" where
  "quiet k g t (FlRegister k' now_ms w m) \<longleftrightarrow> k' = k \<longrightarrow> \<not> window_over now_ms t w"
| "quiet k g t (FlComplete k' g' st now_ms) \<longleftrightarrow> k' = k \<longrightarrow> g' \<noteq> 0 \<and> g' \<noteq> g"
| "quiet k g t (FlRemoveWaiter k') \<longleftrightarrow> True"

lemma slot_of_SomeD: "slot_of k slots = Some j \<Longrightarrow> j < length slots \<and> fl_active (slots ! j) \<and> fl_key (slots ! j) = k"
  by (auto simp: slot_of_def find_index_Some_iff active_with_def)

lemma slot_of_upd:
  assumes "slot_of k slots = Some j" and "i < length slots"
    and "i = j \<Longrightarrow> active_with k s" and "i \<noteq> j \<Longrightarrow> \<not> active_with k s"
  shows "slot_of k (slots[i := s]) = Some j"
  using assms by (auto simp: slot_of_def find_index_Some_iff nth_list_update)

text \<open>Updating another slot, or this one without ending its life, keeps the leader.\<close>

lemma leads_upd:
  assumes "leads j k g t slots" and "i < length slots"
    and "slot_of k slots = Some i \<Longrightarrow> active_with k s \<and> fl_state s = InFlight \<and> fl_lifecycle_generation s = g \<and>
      fl_created_at_epoch_ms s = t"
    and "slot_of k slots \<noteq> Some i \<Longrightarrow> \<not> active_with k s"
  shows "leads j k g t (slots[i := s])"
proof -
  have j: "slot_of k slots = Some j" using assms(1) by (simp add: leads_def)
  have "slot_of k (slots[i := s]) = Some j"
    by (rule slot_of_upd [OF j assms(2)]) (use assms(3,4) j in auto)
  with j assms(1-3) show ?thesis by (cases "i = j") (auto simp: leads_def)
qed

lemma strncpy_key_other: "k' \<noteq> k \<Longrightarrow> length k' \<le> 255 \<Longrightarrow> strncpy_z 255 k' \<noteq> k"
  by simp

lemma register_existing_keeps:
  assumes "\<not> window_over now_ms (fl_created_at_epoch_ms slot) w" and "fl_state slot = InFlight"
  shows "register_existing k now_ms w m slot = join_slot m slot"
  using assms by (simp add: register_existing_def)

lemma register_existing_other:
  "fl_key slot = k' \<Longrightarrow> length k' \<le> 255 \<Longrightarrow> fl_key (snd (register_existing k' now_ms w m slot)) = k'"
  by (auto simp: register_existing_def leader_result_def join_slot_def new_leader_def)

text \<open>\<open>leadsE\<close> opens a leader: its slot and what is in it.\<close>

lemma leadsE:
  assumes "leads j k g t slots"
  obtains "slot_of k slots = Some j" "j < length slots" "active_with k (slots ! j)"
    "fl_state (slots ! j) = InFlight" "fl_lifecycle_generation (slots ! j) = g" "fl_created_at_epoch_ms (slots ! j) = t"
  using assms slot_of_SomeD by (fastforce simp: leads_def active_with_def)

lemma register_leads_existing:
  assumes l: "leads j k g t slots" and q: "k' = k \<longrightarrow> \<not> window_over now_ms t w" and len: "length k' \<le> 255"
    and i: "slot_of k' slots = Some i"
  shows "leads j k g t (slots[i := snd (register_existing k' now_ms w m (slots ! i))])" (is "leads j k g t (slots[i := ?s])")
proof (rule leads_upd [OF l])
  note id = slot_of_SomeD [OF i]
  show "i < length slots" using id by simp
  show "active_with k ?s \<and> fl_state ?s = InFlight \<and> fl_lifecycle_generation ?s = g \<and> fl_created_at_epoch_ms ?s = t"
    if si: "slot_of k slots = Some i"
  proof -
    from slot_of_SomeD [OF si] id have "k' = k" by simp
    with si q l show ?thesis
      by (elim leadsE) (simp add: register_existing_keeps join_slot_def active_with_def)
  qed
  show "\<not> active_with k ?s" if "slot_of k slots \<noteq> Some i"
  proof -
    from that i have "k' \<noteq> k" by auto
    then show ?thesis
      using register_existing_other [of "slots ! i" k' now_ms w m] id len by (simp add: active_with_def)
  qed
qed

lemma register_leads:
  assumes l: "leads j k g t slots" and q: "k' = k \<longrightarrow> \<not> window_over now_ms t w" and len: "length k' \<le> 255"
  shows "leads j k g t (snd (register_slots k' now_ms w m slots))"
proof (cases "slot_of k' slots")
  case (Some i)
  then show ?thesis
    using register_leads_existing [OF l q len Some, of m] by (simp add: register_slots_def case_prod_beta)
next
  case None
  have j: "slot_of k slots = Some j" "active_with k (slots ! j)" "fl_state (slots ! j) = InFlight"
    using l by (auto elim: leadsE)
  have ne: "k' \<noteq> k" using None j(1) by auto
  show ?thesis
  proof (cases "find_index (reusable now_ms w) slots")
    case (Some i)
    then have i: "i < length slots" "reusable now_ms w (slots ! i)" by (auto simp: find_index_Some_iff)
    let ?s = "claim_slot k' now_ms (prepared_slot now_ms w (slots ! i))"
    have "i \<noteq> j" using i(2) j(2,3) by (auto simp: reusable_def terminal_entry_expired_def is_terminal_def active_with_def)
    moreover have "\<not> active_with k ?s" using ne len by (simp add: claim_slot_def active_with_def)
    ultimately have "leads j k g t (slots[i := ?s])" using leads_upd [OF l i(1), of ?s] j(1) by simp
    then show ?thesis using None Some by (simp add: register_slots_def leader_result_def)
  qed (use l None in \<open>simp add: register_slots_def\<close>)
qed

lemma complete_leads:
  assumes l: "leads j k g t slots" and q: "k' = k \<longrightarrow> g' \<noteq> 0 \<and> g' \<noteq> g"
  shows "leads j k g t (snd (complete_slots k' g' st now_ms slots))"
proof (cases "slot_of k' slots")
  case (Some i)
  note id = slot_of_SomeD [OF Some]
  show ?thesis
  proof (cases "k' = k")
    case True
    with q Some l have "snd (complete_slots k' g' st now_ms slots) = slots"
      by (elim leadsE) (auto simp: complete_slots_def)
    with l show ?thesis by simp
  next
    case False
    let ?s = "(slots ! i)\<lparr>fl_state := st, fl_completed_at_epoch_ms := now_ms\<rparr>"
    have "slot_of k slots \<noteq> Some i" using False id slot_of_SomeD [of k slots i] by auto
    then have "leads j k g t (slots[i := ?s])" using leads_upd [OF l, of i ?s] id False by (simp add: active_with_def)
    with l Some show ?thesis by (simp add: complete_slots_def)
  qed
qed (use l in \<open>simp add: complete_slots_def\<close>)

lemma remove_waiter_leads:
  assumes l: "leads j k g t slots"
  shows "leads j k g t (remove_waiter_slots k' slots)"
proof (cases "slot_of k' slots")
  case (Some i)
  let ?s = "(slots ! i)\<lparr>fl_waiter_count := fl_waiter_count (slots ! i) - 1\<rparr>"
  note id = slot_of_SomeD [OF Some]
  have "leads j k g t (slots[i := ?s])"
  proof (rule leads_upd [OF l])
    show "active_with k ?s \<and> fl_state ?s = InFlight \<and> fl_lifecycle_generation ?s = g \<and> fl_created_at_epoch_ms ?s = t"
      if "slot_of k slots = Some i" using l that by (elim leadsE) (simp add: active_with_def)
    show "\<not> active_with k ?s" if "slot_of k slots \<noteq> Some i" using that Some id by (auto simp: active_with_def)
  qed (use id in simp)
  with l Some show ?thesis by (simp add: remove_waiter_slots_def)
qed (use l in \<open>simp add: remove_waiter_slots_def\<close>)

lemma op_slots_leads:
  "leads j k g t slots \<Longrightarrow> quiet k g t op \<Longrightarrow> length (op_key op) \<le> 255 \<Longrightarrow> leads j k g t (op_slots op slots)"
  by (cases op) (simp_all add: register_leads complete_leads remove_waiter_leads)

lemma flight_run_leads:
  "registry_wf reg \<Longrightarrow> leads j k g t (slots_for seed k reg) \<Longrightarrow> list_all (\<lambda>op. quiet k g t op \<and> length (op_key op) \<le> 255) ops \<Longrightarrow>
   registry_wf (fold (flight_step seed) ops reg) \<and> leads j k g t (slots_for seed k (fold (flight_step seed) ops reg))"
proof (induction ops arbitrary: reg)
  case (Cons op ops)
  have "leads j k g t (slots_for seed k (flight_step seed op reg))"
    using Cons.prems op_slots_leads [of j k g t _ op] by (simp add: flight_step_slots slots_for_with_slots)
  then show ?case using Cons by (simp add: flight_step_slots)
qed simp

section \<open>Properties\<close>

text \<open>
  (C7) One leader at a time: from the moment a request leads a key, and until it completes with its
  own generation or its window passes, no other request becomes leader of that key, whatever
  registrations (of any key), completions (of other keys, or of this key with a stale
  generation) and departures of waiters come in between. A request for the key joins the
  leader's generation as a follower or is rejected.
\<close>

theorem coalescing_single_leader:
  assumes "registry_wf reg" and "leads j k g t (slots_for seed k reg)"
    and "list_all (\<lambda>op. quiet k g t op \<and> length (op_key op) \<le> 255) ops"
    and "\<not> window_over now_ms t w"
  shows "let r = fst (registry_register seed (Some (fold (flight_step seed) ops reg)) (Some k) now_ms w m)
    in r = \<lparr>rr_role = RoleFollower, rr_lifecycle_generation = g\<rparr> \<or> r = \<lparr>rr_role = RoleReject, rr_lifecycle_generation = 0\<rparr>"
proof -
  have "leads j k g t (slots_for seed k (fold (flight_step seed) ops reg))"
    using flight_run_leads [OF assms(1-3)] by simp
  then show ?thesis
    using assms(4)
    by (elim leadsE)
      (auto simp: registry_register_def register_slots_def register_existing_keeps join_slot_def Let_def split: prod.splits)
qed

text \<open>A fresh registry, and the first request for a key in it.\<close>

definition fresh_registry :: InFlightRegistry where
  "fresh_registry = \<lparr>fr_active_waiters = 0,
     fr_shards = replicate kInFlightShards \<lparr>fs_active_waiters = 0, fs_slots = replicate kSlotsPerShard InFlightEntry_default\<rparr>\<rparr>"

definition first_leader :: "HashSeed \<Rightarrow> InFlightRegistry" where
  "first_leader seed = flight_step seed (FlRegister ''k'' 1000 500 64) fresh_registry"

lemma fresh_registry_wf: "registry_wf fresh_registry"
  by (simp add: registry_wf_def fresh_registry_def)

lemma slots_for_fresh: "slots_for seed k fresh_registry = replicate kSlotsPerShard InFlightEntry_default"
  by (simp add: slots_for_def fresh_registry_def flight_shard_idx_def kInFlightShards_def)

lemma first_leader_facts: "registry_wf (first_leader seed)" "leads 0 ''k'' 1 1000 (slots_for seed ''k'' (first_leader seed))"
proof -
  have "slots_for seed ''k'' (first_leader seed) =
      claim_slot ''k'' 1000 InFlightEntry_default # replicate 15 InFlightEntry_default"
    by (simp add: first_leader_def flight_step_slots slots_for_with_slots fresh_registry_wf slots_for_fresh
        register_slots_def slot_of_def kSlotsPerShard_def numeral_eq_Suc active_with_def InFlightEntry_default_def
        reusable_def leader_result_def prepared_slot_def terminal_entry_expired_def)
  then show "leads 0 ''k'' 1 1000 (slots_for seed ''k'' (first_leader seed))"
    by (simp add: leads_def slot_of_def active_with_def claim_slot_def InFlightEntry_default_def)
qed (simp add: first_leader_def flight_step_slots fresh_registry_wf)

theorem coalescing_single_leader_witness:
  "let seed = \<lparr>k0 = 1, k1 = 2\<rparr>
   in fst (registry_register seed (Some (fold (flight_step seed) [FlComplete ''k'' 7 Failed 1100, FlRegister ''x'' 1200 500 64]
      (first_leader seed))) (Some ''k'') 1300 500 64) \<noteq> \<lparr>rr_role = RoleLeader, rr_lifecycle_generation = 2\<rparr>"
  using coalescing_single_leader [OF first_leader_facts(1) [of "\<lparr>k0 = 1, k1 = 2\<rparr>"] first_leader_facts(2),
      where ops = "[FlComplete ''k'' 7 Failed 1100, FlRegister ''x'' 1200 500 64]" and now_ms = 1300 and w = 500 and m = 64]
  by (auto simp: window_over_def Let_def)

text \<open>What a state other than \<^const>\<open>Stored\<close> tells a waiter.\<close>

fun wait_of :: "InFlightCompletionState \<Rightarrow> RegistryWaitResult" where
  "wait_of L1Ready = WaitL1Ready"
| "wait_of L2Ready = WaitL2Ready"
| "wait_of TooLargeForHandoff = WaitTooLargeForHandoff"
| "wait_of NotCacheable = WaitNotCacheable"
| "wait_of Failed = WaitFailed"
| "wait_of _ = WaitMissing"

lemma terminal_result_wait_of:
  "st \<noteq> InFlight \<Longrightarrow> st \<noteq> Stored \<Longrightarrow> fl_state e = st \<Longrightarrow> terminal_result e = Some (wait_of st, None)"
  by (cases st) (simp_all add: terminal_result_def)

lemma leads_not_predicate: "leads j k g t slots \<Longrightarrow> \<not> wait_predicate g (slots ! j)"
  by (elim leadsE) (simp add: wait_predicate_def replaced_def is_terminal_def active_with_def)

text \<open>
  No outcome of another lifecycle: an outcome other than timeout, missing or expired comes from a
  state the waiter observed in which the slot it registered in still has the generation it
  registered with; a shared response is that slot's snapshot.
\<close>

theorem wait_outcome_same_lifecycle:
  assumes "g \<noteq> 0" and "registry_wait_for_completion seed (Some reg) (Some k) g wakes = (r, out)"
    and "r \<noteq> WaitTimeout" and "r \<noteq> WaitMissing" and "r \<noteq> WaitExpired"
  shows "\<exists>w\<in>set (reg # wakes). \<exists>j. slot_of k (slots_for seed k reg) = Some j \<and>
    fl_lifecycle_generation (slots_for seed k w ! j) = g \<and> fl_active (slots_for seed k w ! j) \<and>
    terminal_result (slots_for seed k w ! j) = Some (r, out)"
proof -
  from assms obtain j where j: "slot_of k (slots_for seed k reg) = Some j" and
    n: "\<not> replaced g (slots_for seed k reg ! j)"
    by (auto simp: registry_wait_for_completion_def Let_def split: option.splits if_splits)
  show ?thesis
  proof (cases "terminal_result (slots_for seed k reg ! j)")
    case (Some x)
    then have "x = (r, out)" using assms(2) j n by (simp add: registry_wait_for_completion_def)
    with Some j n assms(1) slot_of_SomeD [OF j] show ?thesis by (auto simp: replaced_def)
  next
    case None
    with assms(2,3) j n obtain w where
      w: "find (\<lambda>w. wait_predicate g (slots_for seed k w ! j)) wakes = Some w"
      and a: "after_wait g (slots_for seed k w ! j) = (r, out)"
      by (auto simp: registry_wait_for_completion_def split: option.splits)
    have "w \<in> set wakes" using w by (auto simp: find_Some_iff)
    with a assms(1,4,5) j show ?thesis
      by (fastforce simp: after_wait_def replaced_def split: if_splits option.splits)
  qed
qed

theorem wait_outcome_same_lifecycle_witness:
  "let seed = \<lparr>k0 = 1, k1 = 2\<rparr>; reg = first_leader seed; w = flight_step seed (FlComplete ''k'' 1 L1Ready 1200) reg
   in \<exists>x\<in>set [reg, reg, w]. \<exists>j. slot_of ''k'' (slots_for seed ''k'' reg) = Some j \<and>
     fl_lifecycle_generation (slots_for seed ''k'' x ! j) = 1 \<and> fl_active (slots_for seed ''k'' x ! j) \<and>
     terminal_result (slots_for seed ''k'' x ! j) = Some (WaitL1Ready, None)"
proof -
  define seed where "seed = \<lparr>k0 = (1 :: u64), k1 = 2\<rparr>"
  let ?c = "flight_step seed (FlComplete ''k'' 1 L1Ready 1200) (first_leader seed)"
  have "leads 0 ''k'' 1 1000 (slots_for seed ''k'' (first_leader seed))" by (rule first_leader_facts)
  then have s: "slot_of ''k'' (slots_for seed ''k'' (first_leader seed)) = Some 0"
    "\<not> replaced 1 (slots_for seed ''k'' (first_leader seed) ! 0)"
    "terminal_result (slots_for seed ''k'' (first_leader seed) ! 0) = None"
    "\<not> wait_predicate 1 (slots_for seed ''k'' (first_leader seed) ! 0)"
    "wait_predicate 1 (slots_for seed ''k'' ?c ! 0)" "after_wait 1 (slots_for seed ''k'' ?c ! 0) = (WaitL1Ready, None)"
    using first_leader_facts(1) [of seed]
    by (auto elim!: leadsE simp: replaced_def terminal_result_def wait_predicate_def is_terminal_def active_with_def
        flight_step_slots slots_for_with_slots complete_slots_def after_wait_def)
  have "registry_wait_for_completion seed (Some (first_leader seed)) (Some ''k'') 1 [first_leader seed, ?c] = (WaitL1Ready, None)"
    using s by (simp add: registry_wait_for_completion_def del: flight_step.simps)
  from wait_outcome_same_lifecycle [OF _ this] show ?thesis unfolding Let_def seed_def by simp
qed

text \<open>
  (C34) Abandoned leaders block a shard: when every slot of a shard is held by a request that has not
  completed, a request for any further key of that shard is rejected at every later time, however
  long all windows have passed, and the shard does not change.
\<close>

theorem abandoned_leaders_block_shard:
  assumes "\<forall>s\<in>set (slots_for seed k reg). fl_active s \<and> fl_state s = InFlight \<and> fl_key s \<noteq> k"
  shows "fst (registry_register seed (Some reg) (Some k) now_ms w m) = \<lparr>rr_role = RoleReject, rr_lifecycle_generation = 0\<rparr> \<and>
    slots_for seed k (the (snd (registry_register seed (Some reg) (Some k) now_ms w m))) = slots_for seed k reg"
proof -
  have "slot_of k (slots_for seed k reg) = None" "find_index (reusable now_ms w) (slots_for seed k reg) = None"
    using assms by (auto simp: slot_of_def find_index_None_iff active_with_def reusable_def terminal_entry_expired_def is_terminal_def)
  then show ?thesis
    by (simp add: registry_register_def register_slots_def with_slots_def slots_for_def nth_list_update)
qed

theorem abandoned_leaders_block_shard_witness:
  "let seed = \<lparr>k0 = 1, k1 = 2\<rparr>;
       full = fresh_registry\<lparr>fr_shards := replicate kInFlightShards \<lparr>fs_active_waiters = 0,
         fs_slots = replicate kSlotsPerShard (claim_slot ''gone'' 0 InFlightEntry_default)\<rparr>\<rparr>
   in rr_role (fst (registry_register seed (Some full) (Some ''new'') (- 1) 500 64)) = RoleReject"
proof -
  let ?seed = "\<lparr>k0 = 1, k1 = 2\<rparr>"
  let ?full = "fresh_registry\<lparr>fr_shards := replicate kInFlightShards \<lparr>fs_active_waiters = 0,
         fs_slots = replicate kSlotsPerShard (claim_slot ''gone'' 0 InFlightEntry_default)\<rparr>\<rparr>"
  have "slots_for ?seed ''new'' ?full = replicate kSlotsPerShard (claim_slot ''gone'' 0 InFlightEntry_default)"
    by (simp add: slots_for_def flight_shard_idx_def kInFlightShards_def)
  then have "\<forall>s\<in>set (slots_for ?seed ''new'' ?full). fl_active s \<and> fl_state s = InFlight \<and> fl_key s \<noteq> ''new''"
    by (simp add: claim_slot_def)
  from abandoned_leaders_block_shard [OF this] show ?thesis by (simp add: Let_def)
qed

end
