(* ===== verification/Registry_Wait.thy ===== *)
theory Registry_Wait
  imports Inflight_Registry
begin

text \<open>
  The wait of a follower as the condition variable of its shard runs it: blocked, woken by the \<open>notify_all\<close> of a
  completion or spuriously, timed out at the deadline, and the evaluation of the predicate under the mutex, each of
  them interleaved with the operations of other threads. The outcome is that of \<^const>\<open>registry_wait_for_completion\<close>
  on the registries at the evaluations, and a completion is never missed.
\<close>

section \<open>The monitor\<close>

datatype WaitPhase = Blocked | Woken | TimedOut | Returned "RegistryWaitResult \<times> RegistrySharedResponseOutput option"

record Waiter =
  wt_registry :: InFlightRegistry
  wt_slot :: nat
  wt_phase :: WaitPhase

datatype WaitEvent = OtherOp FlightOp | Spurious | DeadlinePasses | Evaluate

text \<open>
  The part of \<open>registry_wait_for_completion\<close> before the wait. The predicate is false when the wait begins, so the
  thread blocks; slot 0 stands for no slot when it returns at once.
\<close>

definition begin_wait :: "HashSeed \<Rightarrow> string \<Rightarrow> u64 \<Rightarrow> InFlightRegistry \<Rightarrow> Waiter" where
  "begin_wait seed k expected reg =
     (case slot_of k (slots_for seed k reg) of
        None \<Rightarrow> \<lparr>wt_registry = reg, wt_slot = 0, wt_phase = Returned (WaitMissing, None)\<rparr>
      | Some j \<Rightarrow>
          \<lparr>wt_registry = reg, wt_slot = j, wt_phase =
             (if replaced expected (slots_for seed k reg ! j) then Returned (WaitExpired, None)
              else case terminal_result (slots_for seed k reg ! j) of Some r \<Rightarrow> Returned r | None \<Rightarrow> Blocked)\<rparr>)"

text \<open>A completion that finds its entry notifies every waiter of the shard of its key; no other operation does.\<close>

fun notifies :: "HashSeed \<Rightarrow> string \<Rightarrow> InFlightRegistry \<Rightarrow> FlightOp \<Rightarrow> bool" where
  "notifies seed k reg (FlComplete k' g st now_ms) \<longleftrightarrow>
     fst (registry_complete_state_if_generation seed (Some reg) (Some k') g st now_ms) \<and>
     flight_shard_idx seed k' = flight_shard_idx seed k"
| "notifies seed k reg op \<longleftrightarrow> False"

text \<open>
  A woken thread that finds the predicate false blocks again; one that timed out returns what the predicate says.
\<close>

fun wait_step :: "HashSeed \<Rightarrow> string \<Rightarrow> u64 \<Rightarrow> WaitEvent \<Rightarrow> Waiter \<Rightarrow> Waiter" where
  "wait_step seed k expected (OtherOp op) wt =
     wt\<lparr>wt_registry := flight_step seed op (wt_registry wt),
        wt_phase := (if wt_phase wt = Blocked \<and> notifies seed k (wt_registry wt) op then Woken else wt_phase wt)\<rparr>"
| "wait_step seed k expected Spurious wt =
     wt\<lparr>wt_phase := (if wt_phase wt = Blocked then Woken else wt_phase wt)\<rparr>"
| "wait_step seed k expected DeadlinePasses wt =
     wt\<lparr>wt_phase := (if wt_phase wt = Blocked then TimedOut else wt_phase wt)\<rparr>"
| "wait_step seed k expected Evaluate wt =
     (let entry = slots_for seed k (wt_registry wt) ! wt_slot wt; holds = wait_predicate expected entry
      in wt\<lparr>wt_phase := (case wt_phase wt of
           Woken \<Rightarrow> if holds then Returned (after_wait expected entry) else Blocked
         | TimedOut \<Rightarrow> if holds then Returned (after_wait expected entry) else Returned (WaitTimeout, None)
         | ph \<Rightarrow> ph)\<rparr>)"

fun returned :: "WaitPhase \<Rightarrow> bool" where
  "returned (Returned r) = True"
| "returned _ = False"

section \<open>The monitor implements the wait\<close>

text \<open>The registries in which the thread evaluates the predicate, up to its return.\<close>

fun evaluated :: "HashSeed \<Rightarrow> string \<Rightarrow> u64 \<Rightarrow> WaitEvent list \<Rightarrow> Waiter \<Rightarrow> InFlightRegistry list" where
  "evaluated seed k expected [] wt = []"
| "evaluated seed k expected (e # es) wt =
     (if e = Evaluate \<and> (wt_phase wt = Woken \<or> wt_phase wt = TimedOut) then [wt_registry wt] else []) @
     evaluated seed k expected es (wait_step seed k expected e wt)"

lemma returned_stays: "wt_phase wt = Returned r \<Longrightarrow> wt_phase (fold (wait_step seed k expected) es wt) = Returned r \<and>
    evaluated seed k expected es wt = []"
proof (induction es arbitrary: wt)
  case (Cons e es)
  then have "wt_phase (wait_step seed k expected e wt) = Returned r" by (cases e) (simp_all add: Let_def)
  with Cons show ?case by simp
qed simp

lemma wait_step_slot [simp]: "wt_slot (wait_step seed k expected e wt) = wt_slot wt"
  by (cases e) (simp_all add: Let_def)

text \<open>The outcome of a wait on slot \<open>j\<close> that looks at \<open>wakes\<close>.\<close>

definition outcome_of :: "HashSeed \<Rightarrow> string \<Rightarrow> u64 \<Rightarrow> nat \<Rightarrow> InFlightRegistry list \<Rightarrow>
    RegistryWaitResult \<times> RegistrySharedResponseOutput option" where
  "outcome_of seed k expected j wakes =
     (case find (\<lambda>w. wait_predicate expected (slots_for seed k w ! j)) wakes of
        None \<Rightarrow> (WaitTimeout, None) | Some w \<Rightarrow> after_wait expected (slots_for seed k w ! j))"

lemma step_returns:
  assumes "\<not> returned (wt_phase wt)" and "wt_phase (wait_step seed k expected e wt) = Returned r"
  shows "r = outcome_of seed k expected (wt_slot wt) (evaluated seed k expected (e # es) wt)"
  using assms returned_stays [OF assms(2), of seed k expected es]
  by (cases e; cases "wt_phase wt") (auto simp: Let_def outcome_of_def split: if_splits)

lemma step_waits:
  assumes "\<not> returned (wt_phase wt)" and "\<not> returned (wt_phase (wait_step seed k expected e wt))"
  shows "outcome_of seed k expected j (evaluated seed k expected (e # es) wt) =
      outcome_of seed k expected j (evaluated seed k expected es (wait_step seed k expected e wt)) \<or> j \<noteq> wt_slot wt"
  using assms by (cases e; cases "wt_phase wt") (auto simp: Let_def outcome_of_def split: if_splits)

lemma run_evaluations:
  assumes "\<not> returned (wt_phase wt)" and "wt_phase (fold (wait_step seed k expected) es wt) = Returned r"
  shows "r = outcome_of seed k expected (wt_slot wt) (evaluated seed k expected es wt)"
  using assms
proof (induction es arbitrary: wt)
  case (Cons e es)
  let ?w = "wait_step seed k expected e wt"
  show ?case
  proof (cases "returned (wt_phase ?w)")
    case True
    then obtain x where x: "wt_phase ?w = Returned x" by (cases "wt_phase ?w") simp_all
    with Cons.prems(2) returned_stays [OF x, of seed k expected es] have "x = r" by simp
    with step_returns [OF Cons.prems(1) x] show ?thesis by blast
  next
    case False
    from Cons.IH [OF this] Cons.prems(2) step_waits [OF Cons.prems(1) False, of "wt_slot wt" es] show ?thesis by simp
  qed
qed (cases "wt_phase wt", simp_all)

text \<open>
  When the monitor returns, it returns the value of \<open>registry_wait_for_completion\<close>, whose argument \<open>wakes\<close> are
  the registries at the evaluations.
\<close>

lemma monitor_implements_wait:
  assumes "wt_phase (fold (wait_step seed k expected) es (begin_wait seed k expected reg)) = Returned r"
  shows "registry_wait_for_completion seed (Some reg) (Some k) expected
    (evaluated seed k expected es (begin_wait seed k expected reg)) = r"
proof (cases "wt_phase (begin_wait seed k expected reg)")
  case (Returned x)
  with assms returned_stays [OF Returned, of seed k expected es] show ?thesis
    by (auto simp: registry_wait_for_completion_def begin_wait_def Let_def split: option.splits if_splits)
next
  case Blocked
  then obtain j where j: "slot_of k (slots_for seed k reg) = Some j" "\<not> replaced expected (slots_for seed k reg ! j)"
    "terminal_result (slots_for seed k reg ! j) = None" "wt_slot (begin_wait seed k expected reg) = j"
    by (auto simp: begin_wait_def split: option.splits if_splits)
  from run_evaluations [OF _ assms] Blocked j show ?thesis
    by (simp add: registry_wait_for_completion_def outcome_of_def)
qed (auto simp: begin_wait_def split: option.splits if_splits)

section \<open>The life of a completed slot\<close>

text \<open>Slot \<open>j\<close> holds the outcome of the leader of generation \<open>g\<close>, created at \<open>t\<close> and completed at \<open>now\<close>.\<close>

definition completed :: "nat \<Rightarrow> string \<Rightarrow> u64 \<Rightarrow> u64 \<Rightarrow> InFlightCompletionState \<Rightarrow> u64 \<Rightarrow> InFlightEntry list \<Rightarrow> bool" where
  "completed j k g t st now slots \<longleftrightarrow> slot_of k slots = Some j \<and> fl_state (slots ! j) = st \<and>
     fl_lifecycle_generation (slots ! j) = g \<and> fl_created_at_epoch_ms (slots ! j) = t \<and>
     fl_completed_at_epoch_ms (slots ! j) = now"

lemma completed_upd:
  assumes "completed j k g t st now slots" and "i < length slots" and "i \<noteq> j" and "\<not> active_with k s"
  shows "completed j k g t st now (slots[i := s])"
  using assms slot_of_upd [of k slots j i s] by (auto simp: completed_def)

text \<open>After the completion: no second completion by this leader, which completes once.\<close>

fun later_op :: "string \<Rightarrow> u64 \<Rightarrow> FlightOp \<Rightarrow> bool" where
  "later_op k g (FlComplete k' g' st now_ms) \<longleftrightarrow> k' = k \<longrightarrow> g' \<noteq> 0 \<and> g' \<noteq> g"
| "later_op k g op \<longleftrightarrow> True"

text \<open>The operations that do not begin a new life in the slot: no registration outside its windows.\<close>

fun keeps_life :: "string \<Rightarrow> u64 \<Rightarrow> InFlightCompletionState \<Rightarrow> u64 \<Rightarrow> FlightOp \<Rightarrow> bool" where
  "keeps_life k t st now (FlRegister k' now_ms w m) \<longleftrightarrow> \<not> window_over now_ms now w \<and>
     (k' = k \<longrightarrow> st \<noteq> NotCacheable \<and> st \<noteq> Failed \<and> \<not> window_over now_ms t w)"
| "keeps_life k t st now op \<longleftrightarrow> True"

lemma register_existing_cases:
  "snd (register_existing k now_ms w m e) = snd (join_slot m e) \<or>
   (fl_state e = NotCacheable \<or> fl_state e = Failed \<or> window_over now_ms (fl_completed_at_epoch_ms e) w \<or>
      window_over now_ms (fl_created_at_epoch_ms e) w) \<and>
   fl_lifecycle_generation (snd (register_existing k now_ms w m e)) = fl_lifecycle_generation e + 1"
  by (simp add: register_existing_def leader_result_def new_leader_def)

lemma register_completed_same:
  assumes c: "completed j k g t st now slots"
  shows "completed j k g t st now (slots[j := snd (register_existing k now_ms w m (slots ! j))]) \<or>
    \<not> keeps_life k t st now (FlRegister k now_ms w m) \<and>
    fl_lifecycle_generation (snd (register_existing k now_ms w m (slots ! j))) = g + 1"
  using register_existing_cases [of k now_ms w m "slots ! j"]
proof
  assume e: "snd (register_existing k now_ms w m (slots ! j)) = snd (join_slot m (slots ! j))"
  have j: "slot_of k slots = Some j" "j < length slots" "active_with k (slots ! j)"
    using c slot_of_SomeD [of k slots j] by (auto simp: completed_def active_with_def)
  have "active_with k (snd (join_slot m (slots ! j)))" using j(3) by (simp add: join_slot_def active_with_def)
  then have "slot_of k (slots[j := snd (join_slot m (slots ! j))]) = Some j" using slot_of_upd [OF j(1,2)] by simp
  then have "completed j k g t st now (slots[j := snd (join_slot m (slots ! j))])"
    using c j(2) by (simp add: completed_def join_slot_def)
  then show ?thesis unfolding e by blast
qed (use c in \<open>auto simp: completed_def\<close>)

lemma register_completed:
  assumes c: "completed j k g t st now slots" and len: "length k' \<le> 255"
  shows "completed j k g t st now (snd (register_slots k' now_ms w m slots)) \<or>
    \<not> keeps_life k t st now (FlRegister k' now_ms w m) \<and>
    fl_lifecycle_generation (snd (register_slots k' now_ms w m slots) ! j) = g + 1"
proof -
  have j: "slot_of k slots = Some j" "j < length slots" "active_with k (slots ! j)" "fl_completed_at_epoch_ms (slots ! j) = now"
    using c slot_of_SomeD [of k slots j] by (auto simp: completed_def active_with_def)
  consider "k' = k" | i where "k' \<noteq> k" "slot_of k' slots = Some i"
    | i where "k' \<noteq> k" "slot_of k' slots = None" "find_index (reusable now_ms w) slots = Some i"
    | "slot_of k' slots = None" "find_index (reusable now_ms w) slots = None" by (metis not_None_eq)
  then show ?thesis
  proof cases
    case 1
    then show ?thesis
      using register_completed_same [OF c, of now_ms w m] j(1,2) by (auto simp: register_slots_def case_prod_beta)
  next
    case (2 i)
    note id = slot_of_SomeD [OF 2(2)]
    have "i \<noteq> j" using id j(3) 2(1) by (auto simp: active_with_def)
    moreover have "\<not> active_with k (snd (register_existing k' now_ms w m (slots ! i)))"
      using register_existing_other [of "slots ! i" k' now_ms w m] id len 2(1) by (simp add: active_with_def)
    ultimately show ?thesis using completed_upd [OF c, of i] id 2(2) by (simp add: register_slots_def case_prod_beta)
  next
    case (3 i)
    let ?s = "claim_slot k' now_ms (prepared_slot now_ms w (slots ! i))"
    have i: "i < length slots" "reusable now_ms w (slots ! i)" using 3(3) by (auto simp: find_index_Some_iff)
    have eq: "snd (register_slots k' now_ms w m slots) = slots[i := ?s]" using 3 by (simp add: register_slots_def leader_result_def)
    show ?thesis
    proof (cases "i = j")
      case True
      with i(2) j have "window_over now_ms now w"
        by (auto simp: reusable_def terminal_entry_expired_def active_with_def split: if_splits)
      moreover have "fl_lifecycle_generation ?s = g + 1"
        using True c by (simp add: claim_slot_def prepared_slot_def reset_entry_for_reuse_def completed_def)
      ultimately show ?thesis using True i(1) by (simp add: eq)
    next
      case False
      have "\<not> active_with k ?s" using 3(1) len by (simp add: claim_slot_def active_with_def)
      from completed_upd [OF c i(1) False this] show ?thesis by (simp add: eq)
    qed
  qed (use c in \<open>simp add: register_slots_def\<close>)
qed

lemma complete_completed:
  assumes c: "completed j k g t st now slots" and q: "k' = k \<longrightarrow> g' \<noteq> 0 \<and> g' \<noteq> g"
  shows "completed j k g t st now (snd (complete_slots k' g' st' now_ms slots))"
proof (cases "slot_of k' slots")
  case (Some i)
  note id = slot_of_SomeD [OF Some]
  show ?thesis
  proof (cases "k' = k")
    case False
    let ?s = "(slots ! i)\<lparr>fl_state := st', fl_completed_at_epoch_ms := now_ms\<rparr>"
    have "i \<noteq> j" using id False c slot_of_SomeD [of k slots j] by (auto simp: completed_def)
    moreover have "\<not> active_with k ?s" using id False by (simp add: active_with_def)
    ultimately show ?thesis using completed_upd [OF c _ , of i ?s] id c Some by (simp add: complete_slots_def)
  qed (use c q Some in \<open>auto simp: completed_def complete_slots_def\<close>)
qed (use c in \<open>simp add: complete_slots_def\<close>)

lemma remove_waiter_completed:
  assumes c: "completed j k g t st now slots"
  shows "completed j k g t st now (remove_waiter_slots k' slots)"
proof (cases "slot_of k' slots")
  case (Some i)
  note id = slot_of_SomeD [OF Some]
  let ?s = "(slots ! i)\<lparr>fl_waiter_count := fl_waiter_count (slots ! i) - 1\<rparr>"
  have "completed j k g t st now (slots[i := ?s])"
  proof (cases "i = j")
    case True
    have "slot_of k slots = Some j" "active_with k (slots ! j)"
      using c slot_of_SomeD [of k slots j] by (auto simp: completed_def active_with_def)
    with True c id show ?thesis using slot_of_upd [of k slots j j ?s] by (auto simp: completed_def active_with_def)
  next
    case False
    have "\<not> active_with k ?s" using c False id Some by (auto simp: completed_def active_with_def)
    from completed_upd [OF c _ False this] id show ?thesis by simp
  qed
  with c Some show ?thesis by (simp add: remove_waiter_slots_def)
qed (use c in \<open>simp add: remove_waiter_slots_def\<close>)

lemma op_slots_completed:
  assumes "completed j k g t st now slots" and "later_op k g op" and "length (op_key op) \<le> 255"
  shows "completed j k g t st now (op_slots op slots) \<or>
    \<not> keeps_life k t st now op \<and> fl_lifecycle_generation (op_slots op slots ! j) = g + 1"
proof (cases op)
  case (FlRegister k' now_ms w m)
  with register_completed [OF assms(1), of k' now_ms w m] assms(3) show ?thesis by (simp del: keeps_life.simps)
next
  case (FlComplete k' g' st' now_ms)
  with complete_completed [OF assms(1), of k' g'] assms(2) show ?thesis by simp
next
  case (FlRemoveWaiter k')
  with remove_waiter_completed [OF assms(1)] show ?thesis by simp
qed

text \<open>Whatever the operation, the generation of a slot stays or is increased by one.\<close>

lemma register_existing_generation:
  "fl_lifecycle_generation (snd (register_existing k now_ms w m e)) = fl_lifecycle_generation e \<or>
   fl_lifecycle_generation (snd (register_existing k now_ms w m e)) = fl_lifecycle_generation e + 1"
  by (simp add: register_existing_def leader_result_def new_leader_def join_slot_def)

lemma claim_generation:
  "fl_lifecycle_generation (claim_slot k now_ms (prepared_slot now_ms w e)) = fl_lifecycle_generation e + 1"
  by (simp add: claim_slot_def prepared_slot_def reset_entry_for_reuse_def)

lemma op_slots_length [simp]: "length (op_slots op slots) = length slots"
  by (cases op) (simp_all add: register_slots_def complete_slots_def remove_waiter_slots_def leader_result_def case_prod_beta
      split: option.split)

lemma nth_update_at: "j < length xs \<Longrightarrow> xs[i := x] ! j = (if i = j then x else xs ! j)"
  by simp

lemma op_slots_generation:
  assumes "j < length slots"
  shows "fl_lifecycle_generation (op_slots op slots ! j) = fl_lifecycle_generation (slots ! j) \<or>
    fl_lifecycle_generation (op_slots op slots ! j) = fl_lifecycle_generation (slots ! j) + 1"
proof (cases op)
  case (FlRegister k now_ms w m)
  then show ?thesis
    using assms register_existing_generation [of k now_ms w m "slots ! j"]
    by (simp add: register_slots_def case_prod_beta leader_result_def nth_update_at claim_generation split: option.split)
qed (use assms in \<open>simp_all add: complete_slots_def remove_waiter_slots_def nth_update_at split: option.split\<close>)


section \<open>No completion is missed\<close>

text \<open>
  A waiter after the completion: it is not blocked, and its slot holds the outcome or, unless \<open>strict\<close>, began
  another life, at most one for each of the \<open>n\<close> events since.
\<close>

definition settled ::
  "bool \<Rightarrow> HashSeed \<Rightarrow> nat \<Rightarrow> string \<Rightarrow> u64 \<Rightarrow> u64 \<Rightarrow> InFlightCompletionState \<Rightarrow> u64 \<Rightarrow> nat \<Rightarrow> Waiter \<Rightarrow> bool" where
  "settled strict seed j k g t st now n wt \<longleftrightarrow> registry_wf (wt_registry wt) \<and> wt_slot wt = j \<and>
     j < length (slots_for seed k (wt_registry wt)) \<and> wt_phase wt \<noteq> Blocked \<and>
     (\<forall>r. wt_phase wt = Returned r \<longrightarrow> r = (wait_of st, None) \<or> \<not> strict \<and> r = (WaitExpired, None)) \<and>
     (completed j k g t st now (slots_for seed k (wt_registry wt)) \<or>
      \<not> strict \<and> (\<exists>m. 0 < m \<and> m \<le> n \<and> fl_lifecycle_generation (slots_for seed k (wt_registry wt) ! j) = g + of_nat m))"

fun later_event :: "string \<Rightarrow> u64 \<Rightarrow> WaitEvent \<Rightarrow> bool" where
  "later_event k g (OtherOp op) \<longleftrightarrow> later_op k g op \<and> length (op_key op) \<le> 255"
| "later_event k g e \<longleftrightarrow> True"

fun keeping_event :: "string \<Rightarrow> u64 \<Rightarrow> InFlightCompletionState \<Rightarrow> u64 \<Rightarrow> WaitEvent \<Rightarrow> bool" where
  "keeping_event k t st now (OtherOp op) \<longleftrightarrow> keeps_life k t st now op"
| "keeping_event k t st now e \<longleftrightarrow> True"

lemma step_registry:
  assumes "registry_wf reg" and "j < length (slots_for seed k reg)"
  shows "slots_for seed k (flight_step seed op reg) =
    (if flight_shard_idx seed (op_key op) = flight_shard_idx seed k then op_slots op (slots_for seed k reg) else slots_for seed k reg)"
    and "registry_wf (flight_step seed op reg)"
  using assms by (simp_all add: flight_step_slots slots_for_with_slots)

lemma settled_op:
  assumes s: "settled strict seed j k g t st now n wt" and op: "later_op k g op" "length (op_key op) \<le> 255"
    and keep: "strict \<longrightarrow> keeps_life k t st now op"
  shows "settled strict seed j k g t st now (Suc n) (wait_step seed k g (OtherOp op) wt)"
proof -
  let ?a = "slots_for seed k (wt_registry wt)" and ?b = "slots_for seed k (flight_step seed op (wt_registry wt))"
  have wf: "registry_wf (wt_registry wt)" "j < length ?a" using s by (simp_all add: settled_def)
  note b = step_registry [OF wf, of op]
  have "completed j k g t st now ?b \<or> \<not> strict \<and> (\<exists>m. 0 < m \<and> m \<le> Suc n \<and> fl_lifecycle_generation (?b ! j) = g + of_nat m)"
  proof (cases "flight_shard_idx seed (op_key op) = flight_shard_idx seed k")
    case False
    with s b(1) show ?thesis by (auto simp: settled_def le_Suc_eq)
  next
    case True
    then have eq: "?b = op_slots op ?a" using b(1) by simp
    from s consider "completed j k g t st now ?a"
      | m where "\<not> strict" "0 < m" "m \<le> n" "fl_lifecycle_generation (?a ! j) = g + of_nat m" by (auto simp: settled_def)
    then show ?thesis
    proof cases
      case 1
      from op_slots_completed [OF this op] keep show ?thesis unfolding eq
        by (metis One_nat_def Suc_le_mono le0 of_nat_1 zero_less_one)
    next
      case (2 m)
      from op_slots_generation [OF wf(2), of op] 2(4) consider
        "fl_lifecycle_generation (?b ! j) = g + of_nat m" | "fl_lifecycle_generation (?b ! j) = g + of_nat (Suc m)"
        by (auto simp: eq add.assoc add.commute)
      then show ?thesis using 2(1-3) by (metis Suc_le_mono le_SucI zero_less_Suc)
    qed
  qed
  moreover have "j < length ?b" using b(1) wf(2) by simp
  ultimately show ?thesis using s b(2) by (auto simp: settled_def)
qed

text \<open>The evaluation of a settled waiter finds the predicate true.\<close>

lemma settled_evaluates:
  assumes s: "settled strict seed j k g t st now n wt" and g: "g \<noteq> 0" and st: "st \<noteq> InFlight" "st \<noteq> Stored" and n: "n < 2 ^ 64"
  shows "wait_predicate g (slots_for seed k (wt_registry wt) ! j)"
    and "after_wait g (slots_for seed k (wt_registry wt) ! j) = (wait_of st, None) \<or>
      \<not> strict \<and> after_wait g (slots_for seed k (wt_registry wt) ! j) = (WaitExpired, None)"
proof -
  let ?e = "slots_for seed k (wt_registry wt) ! j"
  from s consider "completed j k g t st now (slots_for seed k (wt_registry wt))"
    | m where "\<not> strict" "0 < m" "m \<le> n" "fl_lifecycle_generation ?e = g + of_nat m" by (auto simp: settled_def)
  then have "wait_predicate g ?e \<and> (after_wait g ?e = (wait_of st, None) \<or> \<not> strict \<and> after_wait g ?e = (WaitExpired, None))"
  proof cases
    case 1
    then have "fl_active ?e" "fl_state ?e = st" "\<not> replaced g ?e"
      using slot_of_SomeD [of k "slots_for seed k (wt_registry wt)" j] by (auto simp: completed_def replaced_def)
    then show ?thesis using st terminal_result_wait_of [of st ?e] by (simp add: wait_predicate_def is_terminal_def after_wait_def)
  next
    case (2 m)
    have "of_nat m \<noteq> (0 :: u64)" using 2(2,3) n by (auto simp: word_of_nat_eq_0_iff dest: dvd_imp_le)
    then have "replaced g ?e" using 2(4) g by (simp add: replaced_def)
    with 2(1) g show ?thesis by (simp add: wait_predicate_def after_wait_def)
  qed
  then show "wait_predicate g ?e" "after_wait g ?e = (wait_of st, None) \<or> \<not> strict \<and> after_wait g ?e = (WaitExpired, None)" by blast+
qed

lemma settled_step:
  assumes s: "settled strict seed j k g t st now n wt" and e: "later_event k g e" "strict \<longrightarrow> keeping_event k t st now e"
    and g: "g \<noteq> 0" and st: "st \<noteq> InFlight" "st \<noteq> Stored" and n: "n < 2 ^ 64"
  shows "settled strict seed j k g t st now (Suc n) (wait_step seed k g e wt)"
    and "e = Evaluate \<Longrightarrow> returned (wt_phase (wait_step seed k g e wt))"
proof -
  have j: "wt_slot wt = j" and nb: "wt_phase wt \<noteq> Blocked" using s by (simp_all add: settled_def)
  note ev = settled_evaluates [OF s g st n]
  show "returned (wt_phase (wait_step seed k g e wt))" if "e = Evaluate"
    using that ev nb by (cases "wt_phase wt") (simp_all add: Let_def j)
  show "settled strict seed j k g t st now (Suc n) (wait_step seed k g e wt)"
  proof (cases e)
    case (OtherOp op)
    with settled_op [OF s, of op] e show ?thesis by simp
  next
    case Evaluate
    with s ev show ?thesis by (cases "wt_phase wt") (auto simp: settled_def Let_def le_Suc_eq)
  qed (use s in \<open>auto simp: settled_def le_Suc_eq\<close>)
qed

lemma settled_run:
  assumes "g \<noteq> 0" and "st \<noteq> InFlight" and "st \<noteq> Stored"
  shows "settled strict seed j k g t st now n wt \<Longrightarrow> list_all (later_event k g) es \<Longrightarrow>
    strict \<longrightarrow> list_all (keeping_event k t st now) es \<Longrightarrow> n + length es < 2 ^ 64 \<Longrightarrow>
    settled strict seed j k g t st now (n + length es) (fold (wait_step seed k g) es wt)"
proof (induction es arbitrary: n wt)
  case (Cons e es)
  have "settled strict seed j k g t st now (Suc n) (wait_step seed k g e wt)"
    using settled_step(1) [OF Cons.prems(1) _ _ assms, of e] Cons.prems(2-4) by simp
  from Cons.IH [OF this] Cons.prems(2-4) show ?case by simp
qed simp


text \<open>Before the completion: the leader still leads, and the other threads do nothing that ends its life.\<close>

fun earlier_event :: "string \<Rightarrow> u64 \<Rightarrow> u64 \<Rightarrow> WaitEvent \<Rightarrow> bool" where
  "earlier_event k g t (OtherOp op) \<longleftrightarrow> quiet k g t op \<and> length (op_key op) \<le> 255"
| "earlier_event k g t e \<longleftrightarrow> True"

lemma led_run:
  assumes "registry_wf (wt_registry wt)" and "leads j k g t (slots_for seed k (wt_registry wt))" and "list_all (earlier_event k g t) es"
  shows "registry_wf (wt_registry (fold (wait_step seed k g) es wt)) \<and>
    leads j k g t (slots_for seed k (wt_registry (fold (wait_step seed k g) es wt))) \<and>
    wt_slot (fold (wait_step seed k g) es wt) = wt_slot wt"
  using assms
proof (induction es arbitrary: wt)
  case (Cons e es)
  have "registry_wf (wt_registry (wait_step seed k g e wt)) \<and> leads j k g t (slots_for seed k (wt_registry (wait_step seed k g e wt)))"
  proof (cases e)
    case (OtherOp op)
    with flight_run_leads [OF Cons.prems(1,2), of "[op]"] Cons.prems(3) show ?thesis by simp
  qed (use Cons.prems in \<open>simp_all add: Let_def\<close>)
  with Cons.IH [of "wait_step seed k g e wt"] Cons.prems(3) show ?case by simp
qed simp

text \<open>The completion by the leader notifies the shard and settles a waiter that has not returned.\<close>

lemma completion_settles:
  assumes "registry_wf (wt_registry wt)" and l: "leads (wt_slot wt) k g t (slots_for seed k (wt_registry wt))"
    and "\<not> returned (wt_phase wt)"
  shows "settled strict seed (wt_slot wt) k g t st now 0 (wait_step seed k g (OtherOp (FlComplete k g st now)) wt)"
proof -
  let ?j = "wt_slot wt" and ?a = "slots_for seed k (wt_registry wt)"
  let ?s = "(?a ! wt_slot wt)\<lparr>fl_state := st, fl_completed_at_epoch_ms := now\<rparr>"
  have c: "complete_slots k g st now ?a = (True, ?a[?j := ?s])" using l by (elim leadsE) (simp add: complete_slots_def)
  then have note': "notifies seed k (wt_registry wt) (FlComplete k g st now)"
    by (simp add: registry_complete_state_if_generation_def)
  have b: "slots_for seed k (flight_step seed (FlComplete k g st now) (wt_registry wt)) = ?a[?j := ?s]"
    using assms(1) c by (simp only: flight_step_slots slots_for_with_slots op_key.simps op_slots.simps snd_conv simp_thms if_True)
  have "slot_of k (?a[?j := ?s]) = Some ?j"
    using l by (elim leadsE) (rule slot_of_upd, auto simp: active_with_def)
  then have "completed ?j k g t st now (?a[?j := ?s])" and "?j < length ?a"
    using l by (auto elim!: leadsE simp: completed_def)
  moreover have "registry_wf (flight_step seed (FlComplete k g st now) (wt_registry wt))"
    using assms(1) by (simp only: flight_step_slots registry_wf_with_slots)
  ultimately show ?thesis
    using assms(3) note' b by (cases "wt_phase wt") (simp_all del: flight_step.simps notifies.simps add: settled_def)
qed

text \<open>
  (C8) Followers are woken: a follower waits for the leader of generation \<open>g\<close>, under every interleaving of its condition
  variable (spurious wake-ups, the deadline, evaluations) with quiet operations of other threads, and has not
  returned when the leader completes. Then the completion is not missed: whatever other threads do afterwards, the
  next time the follower holds the mutex it returns, with the leader's outcome or, if the slot was meanwhile given
  to a new life, with \<open>WaitExpired\<close>; it neither blocks again nor times out. If no registration outside
  the slot's windows came in between, it returns the leader's outcome. Completions with the outcome \<^const>\<open>Stored\<close> are
  left out: the only completion the program calls, \<open>registry_complete_state_if_generation\<close>, is never given it. The
  bound on the number of later events keeps the 64-bit generation from coming back to \<open>g\<close>.
\<close>

theorem follower_receives_completion:
  assumes "registry_wf reg" and "leads j k g t (slots_for seed k reg)" and "g \<noteq> 0" and "st \<noteq> InFlight" and "st \<noteq> Stored"
    and "list_all (earlier_event k g t) es"
    and "\<not> returned (wt_phase (fold (wait_step seed k g) es (begin_wait seed k g reg)))"
    and "list_all (later_event k g) es'" and "length es' < 2 ^ 64"
    and "wt = fold (wait_step seed k g) (es @ OtherOp (FlComplete k g st now) # es' @ [Evaluate]) (begin_wait seed k g reg)"
  shows "(wt_phase wt = Returned (wait_of st, None) \<or> wt_phase wt = Returned (WaitExpired, None)) \<and>
    (list_all (keeping_event k t st now) es' \<longrightarrow> wt_phase wt = Returned (wait_of st, None))"
proof -
  let ?b = "begin_wait seed k g reg"
  let ?w = "fold (wait_step seed k g) es ?b"
  let ?c = "wait_step seed k g (OtherOp (FlComplete k g st now)) ?w"
  let ?d = "fold (wait_step seed k g) es' ?c"
  have b: "wt_registry ?b = reg" "wt_slot ?b = j" using assms(2) by (auto elim!: leadsE simp: begin_wait_def)
  have w: "registry_wf (wt_registry ?w)" "leads j k g t (slots_for seed k (wt_registry ?w))" "wt_slot ?w = j"
    using led_run [of ?b j k g t seed es] assms(1,2,6) b by simp_all
  have fin: "settled strict seed j k g t st now (Suc (length es')) wt \<and> returned (wt_phase wt)"
    if "strict \<longrightarrow> list_all (keeping_event k t st now) es'" for strict
  proof -
    have "settled strict seed j k g t st now 0 ?c" using completion_settles [of ?w k g t seed] w assms(7) by simp
    from settled_run [OF assms(3-5) this assms(8) that] assms(9)
    have d: "settled strict seed j k g t st now (length es') ?d" by simp
    have "wt = wait_step seed k g Evaluate ?d" by (simp only: assms(10) fold_append fold_Cons fold_Nil o_apply id_apply)
    with settled_step [OF d, of Evaluate] assms(3-5,9) show ?thesis by simp
  qed
  have r: "wt_phase wt = Returned (wait_of st, None) \<or> \<not> strict \<and> wt_phase wt = Returned (WaitExpired, None)"
    if "settled strict seed j k g t st now n wt" "returned (wt_phase wt)" for strict n
    using that by (cases "wt_phase wt") (auto simp: settled_def)
  show ?thesis using fin [of False] fin [of True] r by blast
qed

theorem follower_receives_completion_witness:
  "let seed = \<lparr>k0 = 1, k1 = 2\<rparr>
   in wt_phase (fold (wait_step seed ''k'' 1)
        [Spurious, Evaluate, OtherOp (FlRegister ''k'' 1100 500 64), DeadlinePasses, OtherOp (FlComplete ''k'' 1 L1Ready 1200),
         OtherOp (FlRegister ''k'' 1300 500 64), Evaluate] (begin_wait seed ''k'' 1 (first_leader seed))) = Returned (WaitL1Ready, None)"
proof -
  define seed where "seed = \<lparr>k0 = (1 :: u64), k1 = 2\<rparr>"
  let ?es = "[Spurious, Evaluate, OtherOp (FlRegister ''k'' 1100 500 64), DeadlinePasses]"
    and ?es' = "[OtherOp (FlRegister ''k'' 1300 500 64)]"
  note l = first_leader_facts [of seed]
  have b: "begin_wait seed ''k'' 1 (first_leader seed) = \<lparr>wt_registry = first_leader seed, wt_slot = 0, wt_phase = Blocked\<rparr>"
    using l(2) by (auto elim!: leadsE simp: begin_wait_def replaced_def terminal_result_def)
  have nr: "\<not> returned (wt_phase (fold (wait_step seed ''k'' 1) ?es (begin_wait seed ''k'' 1 (first_leader seed))))"
    using leads_not_predicate [OF l(2)] by (simp add: b Let_def)
  have q: "list_all (earlier_event ''k'' 1 1000) ?es" "list_all (later_event ''k'' 1) ?es'"
    "list_all (keeping_event ''k'' 1000 L1Ready 1200) ?es'"
    by (simp_all add: window_over_def)
  from follower_receives_completion [OF l _ _ _ q(1) nr q(2) _ refl, of L1Ready 1200] q(3)
  have "wt_phase (fold (wait_step seed ''k'' 1) (?es @ OtherOp (FlComplete ''k'' 1 L1Ready 1200) # ?es' @ [Evaluate])
      (begin_wait seed ''k'' 1 (first_leader seed))) = Returned (WaitL1Ready, None)"
    by (simp del: fold_simps)
  then show ?thesis unfolding Let_def seed_def [symmetric] by (simp only: append.simps)
qed

end
