(* ===== verification/L2_Cache.thy ===== *)
theory L2_Cache
  imports Cache_Entry
begin

text \<open>
  The second cache level (\<^verbatim>\<open>src/cache/l2_rocksdb_cache.cpp\<close>) over a key-value database that is a
  parameter: a record of the operations the code calls, on an abstract database state. Opening,
  closing and destroying the database are calls into that library and are not modelled.
\<close>

section \<open>The database\<close>

datatype DbRead = DbNotFound | DbError | DbFound string

record 'db RocksDb =
  db_get :: "'db \<Rightarrow> string \<Rightarrow> DbRead"
  db_put :: "'db \<Rightarrow> string \<Rightarrow> string \<Rightarrow> bool \<times> 'db"
  db_delete :: "'db \<Rightarrow> string \<Rightarrow> bool \<times> 'db"

text \<open>What the library documents: a successful write is what the next read of the key returns.\<close>

definition put_reads_back :: "'db RocksDb \<Rightarrow> bool" where
  "put_reads_back rocks \<longleftrightarrow>
     (\<forall>db k v db'. db_put rocks db k v = (True, db') \<longrightarrow> db_get rocks db' k = DbFound v)"

section \<open>Operations\<close>

definition kL2MaxBodySize :: nat where "kL2MaxBodySize = 1048576"

datatype L2PutResult = L2Stored | L2EncodeError | L2BodyTooLarge | L2StorageError

text \<open>\<open>L2Overread\<close> stands for the read beyond the stored bytes that the decoder does not exclude.\<close>

datatype L2GetResult =
    L2Hit CacheEntry | L2Miss | L2Expired | L2DecodeError | L2BodyTooLargeForBuffer | L2RocksDbError
  | L2Overread

definition l2_put :: "'db RocksDb \<Rightarrow> 'db option \<Rightarrow> CacheEntry \<Rightarrow> bool \<times> 'db option" where
  "l2_put rocks cache entry =
     (case cache of
        None \<Rightarrow> (False, None)
      | Some db \<Rightarrow>
          (case cache_entry_encode entry (replicate (kCacheEntryEncodedOverhead + ent_body_len entry) NUL) of
             None \<Rightarrow> (False, cache)
           | Some bytes \<Rightarrow> let (ok, db') = db_put rocks db (ent_key entry) bytes in (ok, Some db')))"

definition l2_put_result ::
  "'db RocksDb \<Rightarrow> 'db option \<Rightarrow> CacheEntry \<Rightarrow> string option \<Rightarrow> L2PutResult \<times> 'db option" where
  "l2_put_result rocks cache entry enc_buf =
     (case (cache, enc_buf) of
        (Some db, Some buf) \<Rightarrow>
          if ent_body_len entry > kL2MaxBodySize then (L2BodyTooLarge, cache)
          else if length buf < kCacheEntryEncodedOverhead + ent_body_len entry then (L2BodyTooLarge, cache)
          else (case cache_entry_encode entry buf of
                  None \<Rightarrow> (L2EncodeError, cache)
                | Some bytes \<Rightarrow>
                    let (ok, db') = db_put rocks db (ent_key entry) bytes
                    in (if ok then L2Stored else L2StorageError, Some db'))
      | _ \<Rightarrow> (L2EncodeError, cache))"

definition l2_get_result ::
  "'db RocksDb \<Rightarrow> 'db option \<Rightarrow> string option \<Rightarrow> int \<Rightarrow> nat option \<Rightarrow> nat \<Rightarrow> L2GetResult" where
  "l2_get_result rocks cache key now_ms body_buf body_buf_size =
     (case (cache, key) of
        (Some db, Some k) \<Rightarrow>
          (case db_get rocks db k of
             DbNotFound \<Rightarrow> L2Miss
           | DbError \<Rightarrow> L2RocksDbError
           | DbFound raw \<Rightarrow>
               (case cache_entry_decode (Some raw) CacheEntry_default body_buf body_buf_size of
                  DecodeOverread n \<Rightarrow> L2Overread
                | DecodeFail _ \<Rightarrow>
                    if length raw > body_buf_size + kCacheEntryEncodedOverhead then L2BodyTooLargeForBuffer
                    else L2DecodeError
                | DecodeOk decoded \<Rightarrow>
                    if now_ms > 0 \<and> \<not> cache_ttl_valid now_ms (ent_expires_at_epoch_ms decoded) then L2Expired
                    else L2Hit decoded))
      | _ \<Rightarrow> L2Miss)"

definition l2_get ::
  "'db RocksDb \<Rightarrow> 'db option \<Rightarrow> string option \<Rightarrow> int \<Rightarrow> nat option \<Rightarrow> nat \<Rightarrow> CacheEntry option" where
  "l2_get rocks cache key now_ms body_buf body_buf_size =
     (case l2_get_result rocks cache key now_ms body_buf body_buf_size of L2Hit e \<Rightarrow> Some e | _ \<Rightarrow> None)"

definition l2_remove :: "'db RocksDb \<Rightarrow> 'db option \<Rightarrow> string option \<Rightarrow> bool \<times> 'db option" where
  "l2_remove rocks cache key =
     (case (cache, key) of
        (Some db, Some k) \<Rightarrow>
          if db_get rocks db k = DbNotFound then (False, cache)
          else let (ok, db') = db_delete rocks db k in (ok, Some db')
      | _ \<Rightarrow> (False, cache))"

section \<open>Properties\<close>

definition live :: "int \<Rightarrow> CacheEntry \<Rightarrow> bool" where
  "live now_ms e \<longleftrightarrow> (now_ms > 0 \<longrightarrow> cache_ttl_valid now_ms (ent_expires_at_epoch_ms e))"

text \<open>
  (C35) A stored entry is read back: when the database keeps its promise, an entry that the store
  reports as stored is what a lookup of its key returns into a buffer that can hold its body, up to
  the two statistics that are not stored, as long as it has not expired; into a smaller buffer the
  lookup reports the body as too large. It never reads beyond the stored bytes.
\<close>

theorem l2_get_after_put:
  assumes "put_reads_back rocks" and "entry_wf e"
    and "l2_put_result rocks (Some db) e (Some buf) = (L2Stored, db')"
  shows "l2_get_result rocks db' (Some (ent_key e)) now_ms (Some cap) cap =
    (if cap < ent_body_len e then L2BodyTooLargeForBuffer
     else if live now_ms e then L2Hit (e\<lparr>ent_original_body_len := 0, ent_removed_fields := 0\<rparr>)
     else L2Expired)"
proof -
  have fits: "kCacheEntryEncodedOverhead + ent_body_len e \<le> length buf"
    using assms(3) by (auto simp: l2_put_result_def split: if_splits)
  from encode_decode [OF assms(2) fits, of "ent_body_len e"] obtain bytes where
    enc: "cache_entry_encode e buf = Some bytes" and
    len: "length bytes = kCacheEntryEncodedOverhead + ent_body_len e" by blast
  obtain db2 where db2: "db' = Some db2" "db_put rocks db (ent_key e) bytes = (True, db2)"
    using assms(3) enc by (auto simp: l2_put_result_def split: if_splits prod.splits)
  then have g: "db_get rocks db2 (ent_key e) = DbFound bytes" using assms(1) by (simp add: put_reads_back_def)
  show ?thesis
  proof (cases "ent_body_len e \<le> cap")
    case True
    with encode_decode [OF assms(2) fits True, of CacheEntry_default] enc
    have "cache_entry_decode (Some bytes) CacheEntry_default (Some cap) cap =
        DecodeOk (e\<lparr>ent_original_body_len := 0, ent_removed_fields := 0\<rparr>)"
      by (simp add: CacheEntry_default_def)
    with True g db2 show ?thesis by (simp add: l2_get_result_def live_def)
  next
    case False
    obtain o' where "cache_entry_decode (Some bytes) CacheEntry_default (Some cap) cap = DecodeFail o'"
      using decode_too_large [OF assms(2) enc, of cap CacheEntry_default] False by auto
    with False g db2 len show ?thesis by (simp add: l2_get_result_def)
  qed
qed

text \<open>A database that is a map, as in the tests of the cache.\<close>

definition map_rocks :: "(string \<rightharpoonup> string) RocksDb" where
  "map_rocks = \<lparr>db_get = \<lambda>m k. (case m k of None \<Rightarrow> DbNotFound | Some v \<Rightarrow> DbFound v), db_put = \<lambda>m k v. (True, m(k \<mapsto> v)),
     db_delete = \<lambda>m k. (True, m(k := None))\<rparr>"

lemma map_rocks_reads_back: "put_reads_back map_rocks"
  by (simp add: put_reads_back_def map_rocks_def)

theorem l2_get_after_put_witness:
  "let e = CacheEntry_default\<lparr>ent_key := ''GET|r'', ent_status_code := 200, ent_body := Some ''x'', ent_body_len := 1,
             ent_created_at_epoch_ms := 10, ent_expires_at_epoch_ms := 1000\<rparr>
   in \<exists>db. l2_put_result map_rocks (Some Map.empty) e (Some (replicate 2000 NUL)) = (L2Stored, db) \<and>
        l2_get_result map_rocks db (Some ''GET|r'') 500 (Some 64) 64 = L2Hit e \<and>
        l2_get_result map_rocks db (Some ''GET|r'') 500 (Some 0) 0 = L2BodyTooLargeForBuffer"
proof -
  let ?e = "CacheEntry_default\<lparr>ent_key := ''GET|r'', ent_status_code := 200, ent_body := Some ''x'', ent_body_len := 1,
             ent_created_at_epoch_ms := 10, ent_expires_at_epoch_ms := 1000\<rparr>"
  let ?buf = "replicate 2000 NUL"
  have wf: "entry_wf ?e"
    by (simp add: entry_wf_def CacheEntry_default_def NUL_def kCacheKeyMaxLen_def kCacheContentTypeMaxLen_def)
  have len: "kCacheEntryEncodedOverhead + ent_body_len ?e \<le> length ?buf"
    by (simp add: kCacheEntryEncodedOverhead_def kCacheKeyMaxLen_def kCacheContentTypeMaxLen_def)
  from encode_decode [OF wf len order_refl] obtain bytes where enc: "cache_entry_encode ?e ?buf = Some bytes" by blast
  let ?db = "Some [''GET|r'' \<mapsto> bytes]"
  have put: "l2_put_result map_rocks (Some Map.empty) ?e (Some ?buf) = (L2Stored, ?db)"
    using len enc by (simp add: l2_put_result_def map_rocks_def kL2MaxBodySize_def)
  note g = l2_get_after_put [OF map_rocks_reads_back wf put]
  from g [of 500 64] g [of 500 0] put show ?thesis
    unfolding Let_def by (intro exI [of _ ?db]) (simp add: live_def CacheEntry_default_def cache_ttl_valid_def)
qed

end
