(* ===== verification/Coalescing.thy ===== *)
theory Coalescing
  imports Policy Metrics Inflight_Registry L1_Cache L2_Cache
begin

text \<open>
  The coalescing decision (\<^verbatim>\<open>src/coalescing\<close>): eligibility, safety, the key, the mapping of
  the registry's answer to an action, the fallback of a follower, and the body-size tiers of the
  hand-over from leader to followers.
\<close>

section \<open>Eligibility and safety\<close>

datatype CoalescingRejectionReason = RejNone | RejMethodNotGet | RejAuthenticatedRequest

definition get_rejection_reason_string :: "CoalescingRejectionReason \<Rightarrow> string" where
  "get_rejection_reason_string reason =
     (case reason of RejNone \<Rightarrow> ''none'' | RejMethodNotGet \<Rightarrow> ''method_not_get''
      | RejAuthenticatedRequest \<Rightarrow> ''authenticated_request'')"

record CoalescingEligibility =
  ce_is_eligible :: bool
  ce_rejection_reason :: CoalescingRejectionReason

definition evaluate_coalescing_eligibility :: "HttpMethod \<Rightarrow> CoalescingEligibility" where
  "evaluate_coalescing_eligibility m =
     (if m = MethodGet then \<lparr>ce_is_eligible = True, ce_rejection_reason = RejNone\<rparr>
      else \<lparr>ce_is_eligible = False, ce_rejection_reason = RejMethodNotGet\<rparr>)"

record CoalescingSafetyInput =
  cs_has_authorization_header :: bool
  cs_has_cookie_header :: bool
  cs_allow_authenticated :: bool

definition evaluate_coalescing_safety :: "CoalescingSafetyInput \<Rightarrow> CoalescingEligibility" where
  "evaluate_coalescing_safety inp =
     (if cs_allow_authenticated inp then \<lparr>ce_is_eligible = True, ce_rejection_reason = RejNone\<rparr>
      else if cs_has_authorization_header inp \<or> cs_has_cookie_header inp then
        \<lparr>ce_is_eligible = False, ce_rejection_reason = RejAuthenticatedRequest\<rparr>
      else \<lparr>ce_is_eligible = True, ce_rejection_reason = RejNone\<rparr>)"

section \<open>The key\<close>

record CoalescingKeyInput =
  cki_method :: HttpMethod
  cki_route_name :: "string option"
  cki_normalized_path :: "string option"
  cki_normalized_query :: "string option"
  cki_selected_fields :: "string option"
  cki_policy_version :: u32

definition CoalescingKeyInput_default :: CoalescingKeyInput where
  "CoalescingKeyInput_default =
     \<lparr>cki_method = MethodGet, cki_route_name = None, cki_normalized_path = None, cki_normalized_query = None,
      cki_selected_fields = None, cki_policy_version = 0\<rparr>"

definition opt_cstr :: "string option \<Rightarrow> string" where
  "opt_cstr s = (case s of None \<Rightarrow> [] | Some x \<Rightarrow> x)"

text \<open>The text left in the buffer comes first, also when it was cut.\<close>

definition build_coalescing_key :: "CoalescingKeyInput \<Rightarrow> nat \<Rightarrow> string \<times> bool" where
  "build_coalescing_key inp out_size =
     (if out_size = 0 then ([], False)
      else if cki_method inp \<noteq> MethodGet then ([], False)
      else case (cki_route_name inp, cki_normalized_path inp) of
          (Some route, Some path) \<Rightarrow>
            (let text = ''c_key:'' @ route @ '':'' @ show_u32 (cki_policy_version inp) @ '':'' @ path @ ''?'' @
                   opt_cstr (cki_normalized_query inp) @ ''&fields='' @ opt_cstr (cki_selected_fields inp)
             in (take (out_size - 1) text, length text < out_size))
        | _ \<Rightarrow> ([], False))"

section \<open>The decision\<close>

datatype CoalescingAction = ActLeader | ActFollower | ActBypass | ActReject

datatype CoalescingDecisionReason =
    RsnPolicyDisabled | RsnMethodNotGet | RsnAuthenticatedRequest | RsnMissingKey | RsnLeaderCreated
  | RsnFollowerJoined | RsnTooManyWaiters | RsnWaitWindowExpired

definition get_decision_reason_string :: "CoalescingDecisionReason \<Rightarrow> string" where
  "get_decision_reason_string reason =
     (case reason of
        RsnPolicyDisabled \<Rightarrow> ''policy_disabled''
      | RsnMethodNotGet \<Rightarrow> ''method_not_get''
      | RsnAuthenticatedRequest \<Rightarrow> ''authenticated_request''
      | RsnMissingKey \<Rightarrow> ''missing_key''
      | RsnLeaderCreated \<Rightarrow> ''leader_created''
      | RsnFollowerJoined \<Rightarrow> ''follower_joined''
      | RsnTooManyWaiters \<Rightarrow> ''too_many_waiters''
      | RsnWaitWindowExpired \<Rightarrow> ''wait_window_expired'')"

record CoalescingDecision =
  dec_action :: CoalescingAction
  dec_reason :: CoalescingDecisionReason
  dec_key :: string
  dec_lifecycle_generation :: u64

record CoalescingDecisionContext =
  dc_policy :: "CoalescingPolicy option"
  dc_method :: HttpMethod
  dc_safety_input :: CoalescingSafetyInput
  dc_key_input :: CoalescingKeyInput
  dc_now_ms :: u64
  dc_metrics :: "CoalescingMetrics option"

definition bypass_decision :: "CoalescingDecisionReason \<Rightarrow> string \<Rightarrow> CoalescingDecision" where
  "bypass_decision r key = \<lparr>dec_action = ActBypass, dec_reason = r, dec_key = key, dec_lifecycle_generation = 0\<rparr>"

text \<open>The decision, the registry after it and the metrics after it.\<close>

definition evaluate_coalescing_decision ::
  "HashSeed \<Rightarrow> InFlightRegistry option \<Rightarrow> CoalescingDecisionContext \<Rightarrow>
   CoalescingDecision \<times> InFlightRegistry option \<times> CoalescingMetrics option" where
  "evaluate_coalescing_decision seed registry ctx =
     (let bypass = (\<lambda>r key. (bypass_decision r key, registry, record_coalescing_event (dc_metrics ctx) CO_Bypass))
      in case dc_policy ctx of
           None \<Rightarrow> bypass RsnPolicyDisabled []
         | Some policy \<Rightarrow>
             if \<not> co_enabled policy then bypass RsnPolicyDisabled []
             else if \<not> ce_is_eligible (evaluate_coalescing_eligibility (dc_method ctx)) then bypass RsnMethodNotGet []
             else if \<not> ce_is_eligible (evaluate_coalescing_safety (dc_safety_input ctx)) then
               bypass RsnAuthenticatedRequest []
             else let (key, ok) = build_coalescing_key (dc_key_input ctx) 256
                  in if \<not> ok then bypass RsnMissingKey key
                     else let (res, registry') = registry_register seed registry (Some key) (dc_now_ms ctx)
                                (co_backend_timeout_ms policy) (co_max_waiters_per_key policy);
                              (act, rsn, ev) = (case rr_role res of
                                 RoleLeader \<Rightarrow> (ActLeader, RsnLeaderCreated, CO_Leader)
                               | RoleFollower \<Rightarrow> (ActFollower, RsnFollowerJoined, CO_Follower)
                               | RoleReject \<Rightarrow> (ActReject, RsnTooManyWaiters, CO_TooManyWaiters))
                          in (\<lparr>dec_action = act, dec_reason = rsn, dec_key = key,
                               dec_lifecycle_generation = rr_lifecycle_generation res\<rparr>,
                              registry', record_coalescing_event (dc_metrics ctx) ev))"

section \<open>Fallback and wait window\<close>

definition handle_timeout_fallback ::
  "HashSeed \<Rightarrow> InFlightRegistry option \<Rightarrow> CoalescingDecision \<Rightarrow> InFlightRegistry option \<times> CoalescingDecision" where
  "handle_timeout_fallback seed registry decision =
     (case registry of
        None \<Rightarrow> (registry, decision)
      | Some _ \<Rightarrow>
          (registry_remove_waiter seed registry (Some (dec_key decision)),
           decision\<lparr>dec_action := ActBypass, dec_reason := RsnWaitWindowExpired\<rparr>))"

definition kMaxWaitWindowMs :: u32 where "kMaxWaitWindowMs = 30000"

datatype WaitWindowValidationResult = WindowValid | WindowInvalidZero | WindowInvalidTooLong

definition validate_wait_window :: "u32 \<Rightarrow> WaitWindowValidationResult" where
  "validate_wait_window wait_window_ms =
     (if wait_window_ms = 0 then WindowInvalidZero
      else if wait_window_ms > kMaxWaitWindowMs then WindowInvalidTooLong
      else WindowValid)"

definition has_wait_window_expired :: "u64 \<Rightarrow> u64 \<Rightarrow> u32 \<Rightarrow> bool" where
  "has_wait_window_expired start_epoch_ms now_epoch_ms wait_window_ms \<longleftrightarrow>
     now_epoch_ms \<ge> start_epoch_ms + ucast wait_window_ms"

section \<open>Body-size tiers\<close>

definition kL2BodyBufSize :: nat where "kL2BodyBufSize = 65536"

datatype CoalescingCompletionHandoffTarget =
    HandL1Inline | HandL2Completion | HandNotCacheable | HandStoreToL2NoFollowerHandoff | HandTooLargeForL2

definition decide_coalescing_completion_handoff :: "nat \<Rightarrow> CoalescingCompletionHandoffTarget" where
  "decide_coalescing_completion_handoff body_len =
     (if body_len = 0 then HandNotCacheable
      else if body_len \<le> kL1MaxBodySize then HandL1Inline
      else if body_len \<le> kL2BodyBufSize then HandL2Completion
      else if body_len \<le> kL2MaxBodySize then HandStoreToL2NoFollowerHandoff
      else HandTooLargeForL2)"

end
