(* ===== verification/Ring_Buffer.thy ===== *)
theory Ring_Buffer
  imports Prelude
begin

text \<open>
  The bounded rings of \<^verbatim>\<open>include/runtime/worker_queue.h\<close>: slots with head, tail and count, as the
  lookup, store and invalidate lanes of a shard and the ready queue of a worker have them.
  \<open>bounded_queue\<close> is what the worker relies on, a first-in first-out queue of bounded length.
\<close>

section \<open>The ring\<close>

record 'a ring =
  rg_slots :: "'a list"
  rg_head :: nat
  rg_tail :: nat
  rg_count :: nat

definition ring_reset :: "'a ring \<Rightarrow> 'a ring" where
  "ring_reset r = r\<lparr>rg_head := 0, rg_tail := 0, rg_count := 0\<rparr>"

definition ring_full :: "'a ring \<Rightarrow> bool" where
  "ring_full r \<longleftrightarrow> rg_count r \<ge> length (rg_slots r)"

definition ring_push :: "'a \<Rightarrow> 'a ring \<Rightarrow> 'a ring" where
  "ring_push x r = r\<lparr>rg_slots := (rg_slots r)[rg_tail r := x],
     rg_tail := (rg_tail r + 1) mod length (rg_slots r), rg_count := rg_count r + 1\<rparr>"

definition ring_pop :: "'a ring \<Rightarrow> ('a \<times> 'a ring) option" where
  "ring_pop r =
     (if rg_count r > 0 then
        Some (rg_slots r ! rg_head r,
              r\<lparr>rg_head := (rg_head r + 1) mod length (rg_slots r), rg_count := rg_count r - 1\<rparr>)
      else None)"

section \<open>The contract\<close>

locale bounded_queue =
  fixes inv :: "'q \<Rightarrow> bool" and contents :: "'q \<Rightarrow> 'a list" and full :: "'q \<Rightarrow> bool"
    and push :: "'a \<Rightarrow> 'q \<Rightarrow> 'q" and pop :: "'q \<Rightarrow> ('a \<times> 'q) option"
  assumes inv_push: "inv q \<Longrightarrow> \<not> full q \<Longrightarrow> inv (push x q)"
    and contents_push: "inv q \<Longrightarrow> \<not> full q \<Longrightarrow> contents (push x q) = contents q @ [x]"
    and pop_empty: "inv q \<Longrightarrow> pop q = None \<longleftrightarrow> contents q = []"
    and inv_pop: "inv q \<Longrightarrow> pop q = Some (x, q') \<Longrightarrow> inv q'"
    and contents_pop: "inv q \<Longrightarrow> pop q = Some (x, q') \<Longrightarrow> contents q = x # contents q'"
begin

text \<open>A client's run: guarded pushes and pops; what is popped comes out in the order of the pushes.\<close>

fun run :: "'a option list \<Rightarrow> 'q \<Rightarrow> 'a list \<times> 'a list \<times> 'q" where
  "run [] q = ([], [], q)"
| "run (Some x # ops) q =
     (if full q then run ops q else (case run ops (push x q) of (ins, outs, q') \<Rightarrow> (x # ins, outs, q')))"
| "run (None # ops) q =
     (case pop q of None \<Rightarrow> run ops q
      | Some (x, q1) \<Rightarrow> (case run ops q1 of (ins, outs, q') \<Rightarrow> (ins, x # outs, q')))"

lemma run_fifo:
  "inv q \<Longrightarrow> run ops q = (ins, outs, q') \<Longrightarrow> inv q' \<and> contents q @ ins = outs @ contents q'"
proof (induction ops q arbitrary: ins outs q' rule: run.induct)
  case (2 x ops q)
  show ?case
  proof (cases "full q")
    case False
    with 2(4) obtain ins1 where r: "run ops (push x q) = (ins1, outs, q')" "ins = x # ins1"
      by (auto split: prod.splits)
    from 2(2) [OF False inv_push [OF 2(3) False] r(1)] show ?thesis
      by (simp add: contents_push [OF 2(3) False] r(2))
  qed (use 2 in simp)
next
  case (3 ops q)
  show ?case
  proof (cases "pop q")
    case (Some xq)
    then obtain x q1 where p: "pop q = Some (x, q1)" by (cases xq) auto
    with 3(4) obtain outs1 where r: "run ops q1 = (ins, outs1, q')" "outs = x # outs1" by (auto split: prod.splits)
    from 3(2) [OF p refl inv_pop [OF 3(3) p] r(1)] show ?thesis by (simp add: contents_pop [OF 3(3) p] r(2))
  qed (use 3 in simp)
qed simp

end

section \<open>The ring is such a queue\<close>

definition ring_inv :: "'a ring \<Rightarrow> bool" where
  "ring_inv r \<longleftrightarrow> rg_slots r \<noteq> [] \<and> rg_head r < length (rg_slots r) \<and> rg_count r \<le> length (rg_slots r) \<and>
     rg_tail r = (rg_head r + rg_count r) mod length (rg_slots r)"

definition ring_list :: "'a ring \<Rightarrow> 'a list" where
  "ring_list r = map (\<lambda>i. rg_slots r ! ((rg_head r + i) mod length (rg_slots r))) [0..<rg_count r]"

lemma length_ring_list [simp]: "length (ring_list r) = rg_count r"
  by (simp add: ring_list_def)

lemma ring_inv_push: "ring_inv r \<Longrightarrow> \<not> ring_full r \<Longrightarrow> ring_inv (ring_push x r)"
  by (auto simp: ring_inv_def ring_full_def ring_push_def mod_Suc_eq)

lemma ring_list_push:
  assumes "ring_inv r" and "\<not> ring_full r"
  shows "ring_list (ring_push x r) = ring_list r @ [x]"
proof -
  let ?n = "length (rg_slots r)" and ?h = "rg_head r" and ?c = "rg_count r"
  have n: "?c < ?n" "rg_tail r = (?h + ?c) mod ?n" "?h < ?n"
    using assms by (auto simp: ring_inv_def ring_full_def)
  have "(?h + ?c) mod ?n \<noteq> (?h + i) mod ?n" if "i < ?c" for i
  proof
    assume "(?h + ?c) mod ?n = (?h + i) mod ?n"
    then have "?c mod ?n = i mod ?n" by (simp add: nat_mod_eq_iff)
    with that n show False by simp
  qed
  moreover have "(?h + i) mod ?n < ?n" for i using n by (intro mod_less_divisor) linarith
  ultimately show ?thesis
    using n(2) by (auto simp: ring_list_def ring_push_def)
qed

lemma ring_pop_Some:
  assumes "ring_inv r" and "ring_pop r = Some (x, r')"
  shows "ring_inv r'" and "ring_list r = x # ring_list r'"
proof -
  let ?n = "length (rg_slots r)" and ?h = "rg_head r"
  have c: "rg_count r > 0" and r': "r' = r\<lparr>rg_head := (?h + 1) mod ?n, rg_count := rg_count r - 1\<rparr>"
    and x: "x = rg_slots r ! ?h"
    using assms(2) by (auto simp: ring_pop_def split: if_splits)
  obtain k where k: "rg_count r = Suc k" using c by (cases "rg_count r") auto
  have "(?h + Suc k) mod ?n = (Suc ?h mod ?n + k) mod ?n" by (simp add: mod_add_left_eq)
  then show "ring_inv r'"
    using assms(1) by (auto simp: ring_inv_def r' k)
  have "[0..<rg_count r] = 0 # map Suc [0..<rg_count r - 1]"
    using c by (cases "rg_count r") (simp_all add: upt_conv_Cons map_Suc_upt)
  then show "ring_list r = x # ring_list r'"
    using assms(1) by (simp add: ring_list_def r' x ring_inv_def mod_add_left_eq)
qed

lemma ring_pop_None: "ring_pop r = None \<longleftrightarrow> ring_list r = []"
  by (simp add: ring_pop_def ring_list_def)

interpretation ring: bounded_queue ring_inv ring_list ring_full ring_push ring_pop
  by unfold_locales (simp_all add: ring_inv_push ring_list_push ring_pop_None ring_pop_Some)

lemma ring_reset_inv: "rg_slots r \<noteq> [] \<Longrightarrow> ring_inv (ring_reset r) \<and> ring_list (ring_reset r) = []"
  by (simp add: ring_inv_def ring_reset_def ring_list_def)

lemma length_slots_push [simp]: "length (rg_slots (ring_push x r)) = length (rg_slots r)"
  by (simp add: ring_push_def)

lemma length_slots_pop: "ring_pop r = Some (x, r') \<Longrightarrow> length (rg_slots r') = length (rg_slots r)"
  by (auto simp: ring_pop_def split: if_splits)

lemma ring_full_iff: "ring_inv r \<Longrightarrow> ring_full r \<longleftrightarrow> length (ring_list r) = length (rg_slots r)"
  by (auto simp: ring_full_def ring_inv_def)

text \<open>
  The rings are first-in first-out: over any sequence of pushes (refused when the ring is full)
  and pops on a ring in its invariant, the jobs taken out followed by those still queued are
  the jobs queued at the start followed by those accepted, in order; none is lost, repeated or
  overtaken, however often head and tail wrap around.
\<close>

theorem ring_fifo:
  assumes "ring_inv r" and "ring.run ops r = (accepted, taken, r')"
  shows "ring_inv r' \<and> ring_list r @ accepted = taken @ ring_list r'"
  using assms by (rule ring.run_fifo)

theorem ring_fifo_witness:
  "let r = \<lparr>rg_slots = [0, 0], rg_head = 1, rg_tail = 1, rg_count = 0\<rparr>
   in \<exists>r'. ring.run [Some (1 :: nat), Some 2, Some 3, None, Some 4, None] r = ([1, 2, 4], [1, 2], r') \<and> ring_list r' = [4]"
proof -
  let ?r = "\<lparr>rg_slots = [0, 0], rg_head = 1, rg_tail = 1, rg_count = 0\<rparr>"
  have i: "ring_inv ?r" by (simp add: ring_inv_def)
  obtain r' where r: "ring.run [Some (1 :: nat), Some 2, Some 3, None, Some 4, None] ?r = ([1, 2, 4], [1, 2], r')"
    by (simp add: ring_full_def ring_push_def ring_pop_def)
  from ring_fifo [OF i r] show ?thesis using r by (simp add: ring_list_def Let_def)
qed

end
