(* ===== verification/Worker_Queue.thy ===== *)
theory Worker_Queue
  imports Ring_Buffer L2_Cache L1_Cache Inflight_Registry Metrics
begin

text \<open>
  The background worker queue (\<^verbatim>\<open>src/runtime/worker_queue.cpp\<close>): 256 shards with three job lanes, the
  table of pending lookups and the pool of store bodies, the ready queues of the workers, and the
  execution of jobs against the two cache levels. Each operation under a mutex is one step. The
  clock is an argument. A queued store job's body pointer leads into the pool: the job carries the
  slot and the bytes are read from the pool when it runs. The gauges that mirror the queue depth
  and the lane waits are not modelled.
\<close>

section \<open>Data\<close>

definition kRuntimeShardCount :: nat where "kRuntimeShardCount = 256"
definition kRuntimeQueueSlotsPerShard :: nat where "kRuntimeQueueSlotsPerShard = 16"
definition kRuntimePendingSlotsPerShard :: nat where "kRuntimePendingSlotsPerShard = 16"
definition kWorkerQueueMaxWorkers :: nat where "kWorkerQueueMaxWorkers = 8"
definition kAsyncL2MaxBodySize :: nat where "kAsyncL2MaxBodySize = 65536"
definition kAsyncL2StoreDefaultMaxBodySize :: nat where "kAsyncL2StoreDefaultMaxBodySize = 65536"
definition kAsyncL2StoreAbsoluteMaxBodySize :: nat where "kAsyncL2StoreAbsoluteMaxBodySize = kL2MaxBodySize"
definition kAsyncL2StoreEncScratchSize :: nat where
  "kAsyncL2StoreEncScratchSize = kCacheEntryEncodedOverhead + kAsyncL2StoreAbsoluteMaxBodySize"

lemmas queue_limits = kRuntimeShardCount_def kRuntimeQueueSlotsPerShard_def kRuntimePendingSlotsPerShard_def
  kWorkerQueueMaxWorkers_def

record L2LookupJob =
  lj_key :: string
  lj_key_hash :: u32
  lj_enqueued_at_ms :: u64

record L2StoreJob =
  sj_key :: string
  sj_entry :: CacheEntry
  sj_body_slot :: nat
  sj_body_len :: nat
  sj_coalescing_handoff_enabled :: bool
  sj_has_registry :: bool
  sj_coalescing_key :: string
  sj_lifecycle_generation :: u64
  sj_enqueued_at_ms :: u64

record L2InvalidateJob =
  ij_key :: string
  ij_key_hash :: u32
  ij_enqueued_at_ms :: u64

record PendingSlot =
  pn_key :: string
  pn_hash :: u32
  pn_occupied :: bool

record StoreBodyPool =
  bp_bodies :: "string list"
  bp_body_sizes :: "nat list"
  bp_occupied :: "bool list"

datatype RuntimeShardState = ShardIdle | ShardQueued | ShardProcessing

record RuntimeShard =
  rs_pending :: "PendingSlot list"
  rs_pending_count :: nat
  rs_lookup :: "L2LookupJob ring"
  rs_store :: "L2StoreJob ring"
  rs_invalidate :: "L2InvalidateJob ring"
  rs_body_pool :: StoreBodyPool
  rs_state :: RuntimeShardState

text \<open>Of a worker thread the queue's operations use whether it is joinable: \<open>wq_workers\<close> has that per thread.\<close>

record WorkerQueue =
  wq_shards :: "RuntimeShard list"
  wq_workers :: "bool list"
  wq_running :: bool
  wq_worker_count :: nat
  wq_worker_owned_shards :: "nat list list"
  wq_worker_ready :: "nat ring list"
  wq_store_body_pool_bytes_in_use :: u64
  wq_async_store_max_body_size :: nat
  wq_async_store_body_pool_slot_size :: nat
  wq_effective_worker_count :: nat
  wq_effective_lookup_lane_quota :: nat
  wq_effective_store_lane_quota :: nat
  wq_effective_invalidate_lane_quota :: nat
  wq_effective_async_store_max_body_size :: nat

record WorkerQueueConfig =
  wc_worker_count :: nat
  wc_async_store_max_body_size :: nat
  wc_lookup_lane_quota :: nat
  wc_store_lane_quota :: nat
  wc_invalidate_lane_quota :: nat

text \<open>What jobs run against; \<open>wr_registry\<close> is the registry a store job points to.\<close>

record 'db WorkerQueueResources =
  wr_l2_cache :: "'db option"
  wr_l1_cache :: "L1Cache option"
  wr_runtime_metrics :: "RuntimeMetrics option"
  wr_coalescing_metrics :: "CoalescingMetrics option"
  wr_cache_metrics :: "CacheMetrics option"
  wr_registry :: "InFlightRegistry option"

text \<open>The member initialisers: what a queue holds before \<open>worker_queue_init\<close>.\<close>

definition RuntimeShard_default :: RuntimeShard where
  "RuntimeShard_default =
     (let lookup = \<lparr>lj_key = [], lj_key_hash = 0, lj_enqueued_at_ms = 0\<rparr>;
          store = \<lparr>sj_key = [], sj_entry = CacheEntry_default, sj_body_slot = 0, sj_body_len = 0,
                   sj_coalescing_handoff_enabled = False, sj_has_registry = False, sj_coalescing_key = [],
                   sj_lifecycle_generation = 0, sj_enqueued_at_ms = 0\<rparr>;
          invalidate = \<lparr>ij_key = [], ij_key_hash = 0, ij_enqueued_at_ms = 0\<rparr>
      in \<lparr>rs_pending = replicate kRuntimePendingSlotsPerShard \<lparr>pn_key = [], pn_hash = 0, pn_occupied = False\<rparr>,
          rs_pending_count = 0,
          rs_lookup = \<lparr>rg_slots = replicate kRuntimeQueueSlotsPerShard lookup, rg_head = 0, rg_tail = 0, rg_count = 0\<rparr>,
          rs_store = \<lparr>rg_slots = replicate kRuntimeQueueSlotsPerShard store, rg_head = 0, rg_tail = 0, rg_count = 0\<rparr>,
          rs_invalidate = \<lparr>rg_slots = replicate kRuntimeQueueSlotsPerShard invalidate, rg_head = 0, rg_tail = 0, rg_count = 0\<rparr>,
          rs_body_pool = \<lparr>bp_bodies = replicate kRuntimeQueueSlotsPerShard [],
            bp_body_sizes = replicate kRuntimeQueueSlotsPerShard 0, bp_occupied = replicate kRuntimeQueueSlotsPerShard False\<rparr>,
          rs_state = ShardIdle\<rparr>)"

definition WorkerQueue_default :: WorkerQueue where
  "WorkerQueue_default =
     \<lparr>wq_shards = replicate kRuntimeShardCount RuntimeShard_default,
      wq_workers = replicate kWorkerQueueMaxWorkers False, wq_running = False, wq_worker_count = 0,
      wq_worker_owned_shards = replicate kWorkerQueueMaxWorkers [],
      wq_worker_ready = replicate kWorkerQueueMaxWorkers
        \<lparr>rg_slots = replicate kRuntimeShardCount 0, rg_head = 0, rg_tail = 0, rg_count = 0\<rparr>,
      wq_store_body_pool_bytes_in_use = 0, wq_async_store_max_body_size = kAsyncL2StoreDefaultMaxBodySize,
      wq_async_store_body_pool_slot_size = kAsyncL2StoreDefaultMaxBodySize + 1, wq_effective_worker_count = 0,
      wq_effective_lookup_lane_quota = 4, wq_effective_store_lane_quota = 1, wq_effective_invalidate_lane_quota = 1,
      wq_effective_async_store_max_body_size = 0\<rparr>"

definition WorkerQueueConfig_default :: WorkerQueueConfig where
  "WorkerQueueConfig_default = \<lparr>wc_worker_count = 2, wc_async_store_max_body_size = 0, wc_lookup_lane_quota = 4,
     wc_store_lane_quota = 1, wc_invalidate_lane_quota = 1\<rparr>"

section \<open>Pending lookups\<close>

definition pending_match :: "string \<Rightarrow> u32 \<Rightarrow> PendingSlot \<Rightarrow> bool" where
  "pending_match key hash p \<longleftrightarrow> pn_occupied p \<and> pn_hash p = hash \<and> pn_key p = key"

definition shard_pending_try_mark :: "RuntimeShard \<Rightarrow> string \<Rightarrow> u32 \<Rightarrow> RuntimeShard option" where
  "shard_pending_try_mark s key hash =
     (if list_ex (pending_match key hash) (rs_pending s) then None
      else case find_index (\<lambda>p. \<not> pn_occupied p) (rs_pending s) of
          Some i \<Rightarrow>
            Some (s\<lparr>rs_pending := (rs_pending s)[i :=
                      \<lparr>pn_key = strncpy_z (kCacheKeyMaxLen - 1) key, pn_hash = hash, pn_occupied = True\<rparr>],
                    rs_pending_count := rs_pending_count s + 1\<rparr>)
        | None \<Rightarrow> None)"

definition shard_pending_clear :: "RuntimeShard \<Rightarrow> string \<Rightarrow> u32 \<Rightarrow> RuntimeShard" where
  "shard_pending_clear s key hash =
     (case find_index (pending_match key hash) (rs_pending s) of
        Some i \<Rightarrow>
          s\<lparr>rs_pending := (rs_pending s)[i := (rs_pending s ! i)\<lparr>pn_occupied := False, pn_hash := 0\<rparr>],
            rs_pending_count := rs_pending_count s - 1\<rparr>
      | None \<Rightarrow> s)"

section \<open>Shards and ready queues\<close>

definition shard_has_pending_work :: "RuntimeShard \<Rightarrow> bool" where
  "shard_has_pending_work s \<longleftrightarrow>
     rg_count (rs_lookup s) > 0 \<or> rg_count (rs_store s) > 0 \<or> rg_count (rs_invalidate s) > 0"

definition hash_key_to_shard :: "HashSeed \<Rightarrow> string \<Rightarrow> nat" where
  "hash_key_to_shard seed key = unat (hash_cstr_keyed (Some key) seed) mod kRuntimeShardCount"

definition fold_hash :: "HashSeed \<Rightarrow> string \<Rightarrow> u32" where
  "fold_hash seed key =
     (let h = hash_cstr_keyed (Some key) seed in ucast (xor h (drop_bit 32 h)))"

definition update_shard :: "nat \<Rightarrow> (RuntimeShard \<Rightarrow> RuntimeShard) \<Rightarrow> WorkerQueue \<Rightarrow> WorkerQueue" where
  "update_shard i f q = q\<lparr>wq_shards := (wq_shards q)[i := f (wq_shards q ! i)]\<rparr>"

definition worker_ready_try_push :: "nat \<Rightarrow> nat \<Rightarrow> WorkerQueue \<Rightarrow> bool \<times> WorkerQueue" where
  "worker_ready_try_push worker_id shard_id q =
     (if worker_id \<ge> wq_worker_count q then (False, q)
      else if rg_count (wq_worker_ready q ! worker_id) \<ge> kRuntimeShardCount then (False, q)
      else (True, q\<lparr>wq_worker_ready := (wq_worker_ready q)[worker_id :=
              ring_push shard_id (wq_worker_ready q ! worker_id)]\<rparr>))"

definition worker_ready_try_pop :: "nat \<Rightarrow> WorkerQueue \<Rightarrow> (nat \<times> WorkerQueue) option" where
  "worker_ready_try_pop worker_id q =
     (if worker_id \<ge> wq_worker_count q then None
      else case ring_pop (wq_worker_ready q ! worker_id) of
          None \<Rightarrow> None
        | Some (shard_id, r) \<Rightarrow> Some (shard_id, q\<lparr>wq_worker_ready := (wq_worker_ready q)[worker_id := r]\<rparr>))"

text \<open>The push that follows the critical section when a shard leaves the idle state.\<close>

definition push_owner :: "nat \<Rightarrow> WorkerQueue \<Rightarrow> WorkerQueue" where
  "push_owner sid q = snd (worker_ready_try_push (sid mod wq_worker_count q) sid q)"

definition wake :: "RuntimeShard \<Rightarrow> bool \<times> RuntimeShard" where
  "wake s = (if rs_state s = ShardIdle then (True, s\<lparr>rs_state := ShardQueued\<rparr>) else (False, s))"

section \<open>Initialisation\<close>

definition owned_shards :: "nat \<Rightarrow> nat \<Rightarrow> nat list" where
  "owned_shards worker_count w = (if w < worker_count then filter (\<lambda>s. s mod worker_count = w) [0..<kRuntimeShardCount] else [])"

definition init_shard :: "RuntimeShard \<Rightarrow> RuntimeShard" where
  "init_shard s =
     s\<lparr>rs_pending := map (\<lambda>p. p\<lparr>pn_occupied := False\<rparr>) (rs_pending s), rs_pending_count := 0,
       rs_lookup := ring_reset (rs_lookup s), rs_store := ring_reset (rs_store s),
       rs_invalidate := ring_reset (rs_invalidate s),
       rs_body_pool := (rs_body_pool s)\<lparr>bp_body_sizes := replicate kRuntimeQueueSlotsPerShard 0,
         bp_occupied := replicate kRuntimeQueueSlotsPerShard False\<rparr>,
       rs_state := ShardIdle\<rparr>"

text \<open>
  \<open>malloc_ok\<close> says whether the 256 allocations of the body pools succeed; the queue that a failed
  initialisation leaves behind is not modelled.
\<close>

definition release_body_pools :: "WorkerQueue \<Rightarrow> WorkerQueue" where
  "release_body_pools q = q\<lparr>wq_shards := map (\<lambda>s. s\<lparr>rs_body_pool :=
     \<lparr>bp_bodies = replicate kRuntimeQueueSlotsPerShard [], bp_body_sizes = replicate kRuntimeQueueSlotsPerShard 0,
      bp_occupied = replicate kRuntimeQueueSlotsPerShard False\<rparr>\<rparr>) (wq_shards q)\<rparr>"

definition worker_queue_init :: "bool \<Rightarrow> WorkerQueue option \<Rightarrow> WorkerQueueConfig \<Rightarrow> string + WorkerQueue" where
  "worker_queue_init malloc_ok queue config =
     (case queue of None \<Rightarrow> Inl ''queue pointer is null''
      | Some q0 \<Rightarrow>
        (let size = (if wc_async_store_max_body_size config = 0 then kAsyncL2StoreDefaultMaxBodySize
                     else wc_async_store_max_body_size config);
             q = release_body_pools q0
         in if wc_worker_count config = 0 \<or> wc_worker_count config > kWorkerQueueMaxWorkers then Inl ''invalid worker_count''
            else if wc_lookup_lane_quota config = 0 then Inl ''worker_queue: lookup_lane_quota must be >= 1''
            else if wc_store_lane_quota config = 0 then Inl ''worker_queue: store_lane_quota must be >= 1''
            else if wc_invalidate_lane_quota config = 0 then Inl ''worker_queue: invalidate_lane_quota must be >= 1''
            else if size > kAsyncL2StoreAbsoluteMaxBodySize then
              Inl ''worker_queue: async_store_max_body_size exceeds absolute cap''
            else if size + 1 > (2 ^ 64 - 1) div kRuntimeQueueSlotsPerShard then Inl ''invalid async_store_max_body_size''
            else if \<not> malloc_ok then Inl ''failed to allocate store body pool''
            else Inr (q\<lparr>wq_worker_count := wc_worker_count config, wq_running := False,
                        wq_async_store_max_body_size := size, wq_async_store_body_pool_slot_size := size + 1,
                        wq_effective_worker_count := wc_worker_count config,
                        wq_effective_lookup_lane_quota := wc_lookup_lane_quota config,
                        wq_effective_store_lane_quota := wc_store_lane_quota config,
                        wq_effective_invalidate_lane_quota := wc_invalidate_lane_quota config,
                        wq_effective_async_store_max_body_size := size,
                        wq_worker_ready := map (\<lambda>r. (ring_reset r)\<lparr>rg_slots := map (\<lambda>_. 0) (rg_slots r)\<rparr>) (wq_worker_ready q),
                        wq_worker_owned_shards := map (owned_shards (wc_worker_count config)) [0..<kWorkerQueueMaxWorkers],
                        wq_store_body_pool_bytes_in_use := 0,
                        wq_shards := map init_shard (wq_shards q)\<rparr>)))"

text \<open>
  Starting makes the threads of the configured workers joinable; the resources are passed to the workers
  separately and what the threads do are the steps below.
\<close>

definition worker_queue_start :: "WorkerQueue option \<Rightarrow> string + WorkerQueue" where
  "worker_queue_start queue =
     (case queue of None \<Rightarrow> Inl ''queue pointer is null''
      | Some q \<Rightarrow> if wq_running q then Inl ''queue already running'' else
          Inr (q\<lparr>wq_running := True,
                 wq_workers := fold (\<lambda>i ws. ws[i := True]) [0..<wq_worker_count q] (wq_workers q)\<rparr>))"

section \<open>Enqueueing\<close>

text \<open>
  The critical section of each enqueue: acceptance, whether the owner must be woken, and the queue. The
  public operation performs the push afterwards.
\<close>

definition enqueue_lookup_locked ::
  "HashSeed \<Rightarrow> u64 \<Rightarrow> L2LookupJob \<Rightarrow> WorkerQueue \<Rightarrow> RuntimeMetrics option \<Rightarrow>
   bool \<times> bool \<times> WorkerQueue \<times> RuntimeMetrics option" where
  "enqueue_lookup_locked seed now_ms job q m =
     (let hash = fold_hash seed (lj_key job); i = hash_key_to_shard seed (lj_key job); s = wq_shards q ! i
      in case shard_pending_try_mark s (lj_key job) hash of
           None \<Rightarrow> (False, False, q, m)
         | Some s1 \<Rightarrow>
             if rg_count (rs_lookup s1) \<ge> kRuntimeQueueSlotsPerShard then
               (False, False, update_shard i (\<lambda>_. shard_pending_clear s1 (lj_key job) hash) q,
                record_runtime_event m RM_EnqueueDropped)
             else
               (let job' = job\<lparr>lj_key_hash := hash, lj_enqueued_at_ms := now_ms\<rparr>;
                    (push, s2) = wake (s1\<lparr>rs_lookup := ring_push job' (rs_lookup s1)\<rparr>)
                in (True, push, update_shard i (\<lambda>_. s2) q, record_runtime_event m RM_Enqueue)))"

definition worker_queue_try_enqueue_lookup ::
  "HashSeed \<Rightarrow> u64 \<Rightarrow> WorkerQueue option \<Rightarrow> L2LookupJob \<Rightarrow> RuntimeMetrics option \<Rightarrow>
   bool \<times> WorkerQueue option \<times> RuntimeMetrics option" where
  "worker_queue_try_enqueue_lookup seed now_ms queue job m =
     (case queue of
        None \<Rightarrow> (False, queue, m)
      | Some q \<Rightarrow>
          if \<not> wq_running q then (False, queue, m)
          else let (ok, push, q', m') = enqueue_lookup_locked seed now_ms job q m
               in (ok, Some (if push then push_owner (hash_key_to_shard seed (lj_key job)) q' else q'), m'))"

definition copied_len :: "L2StoreJob \<Rightarrow> nat" where
  "copied_len job = (if ent_body (sj_entry job) \<noteq> None \<and> sj_body_len job > 0 then sj_body_len job else 0)"

text \<open>The copy of the body into the pool slot and the push of the job that refers to it.\<close>

definition put_store_job :: "u64 \<Rightarrow> nat \<Rightarrow> L2StoreJob \<Rightarrow> RuntimeShard \<Rightarrow> RuntimeShard" where
  "put_store_job now_ms slot job s =
     (let n = copied_len job; pool = rs_body_pool s;
          bytes = (case ent_body (sj_entry job) of None \<Rightarrow> [] | Some b \<Rightarrow> take n b);
          job' = job\<lparr>sj_enqueued_at_ms := now_ms, sj_body_slot := slot, sj_body_len := n,
                     sj_entry := (sj_entry job)\<lparr>ent_body_len := n, ent_body := None\<rparr>\<rparr>;
          pool' = pool\<lparr>bp_bodies := (bp_bodies pool)[slot := bytes],
                       bp_body_sizes := (bp_body_sizes pool)[slot := n],
                       bp_occupied := (bp_occupied pool)[slot := True]\<rparr>
      in s\<lparr>rs_store := ring_push job' (rs_store s), rs_body_pool := pool'\<rparr>)"

definition enqueue_store_locked ::
  "HashSeed \<Rightarrow> u64 \<Rightarrow> L2StoreJob \<Rightarrow> WorkerQueue \<Rightarrow> RuntimeMetrics option \<Rightarrow>
   bool \<times> bool \<times> WorkerQueue \<times> RuntimeMetrics option" where
  "enqueue_store_locked seed now_ms job q m =
     (let i = hash_key_to_shard seed (sj_key job); s = wq_shards q ! i; pool = rs_body_pool s
      in case find_index (\<lambda>b. \<not> b) (bp_occupied pool) of
           None \<Rightarrow> (False, False, q, record_runtime_event m RM_L2AsyncStoreBodyPoolFull)
         | Some slot \<Rightarrow>
             if rg_count (rs_store s) \<ge> kRuntimeQueueSlotsPerShard then
               (False, False, q, record_runtime_event m RM_EnqueueDropped)
             else if copied_len job > wq_async_store_max_body_size q then
               (False, False, q, record_runtime_event m RM_L2StoreOversizedSkipped)
             else
               (let (push, s') = wake (put_store_job now_ms slot job s)
                in (True, push,
                    (update_shard i (\<lambda>_. s') q)\<lparr>wq_store_body_pool_bytes_in_use :=
                       wq_store_body_pool_bytes_in_use q + of_nat (copied_len job)\<rparr>,
                    record_runtime_event m RM_Enqueue)))"

definition worker_queue_try_enqueue_store ::
  "HashSeed \<Rightarrow> u64 \<Rightarrow> WorkerQueue option \<Rightarrow> L2StoreJob \<Rightarrow> RuntimeMetrics option \<Rightarrow>
   bool \<times> WorkerQueue option \<times> RuntimeMetrics option" where
  "worker_queue_try_enqueue_store seed now_ms queue job m =
     (case queue of
        None \<Rightarrow> (False, queue, m)
      | Some q \<Rightarrow>
          if \<not> wq_running q then (False, queue, m)
          else let (ok, push, q', m') = enqueue_store_locked seed now_ms job q m
               in (ok, Some (if push then push_owner (hash_key_to_shard seed (sj_key job)) q' else q'), m'))"

definition enqueue_invalidate_locked ::
  "HashSeed \<Rightarrow> u64 \<Rightarrow> u64 \<Rightarrow> string \<Rightarrow> WorkerQueue \<Rightarrow> RuntimeMetrics option \<Rightarrow> CacheMetrics option \<Rightarrow>
   bool \<times> bool \<times> WorkerQueue \<times> RuntimeMetrics option \<times> CacheMetrics option" where
  "enqueue_invalidate_locked seed clock_ms now_ms key q m cm =
     (let i = hash_key_to_shard seed key; s = wq_shards q ! i
      in if rg_count (rs_invalidate s) \<ge> kRuntimeQueueSlotsPerShard then
           (False, False, q, record_runtime_event m RM_EnqueueDropped, record_cache_event cm CM_L2RemoveFailed)
         else
           (let job = \<lparr>ij_key = strncpy_z (kCacheKeyMaxLen - 1) key, ij_key_hash = 0,
                       ij_enqueued_at_ms = (if now_ms > 0 then now_ms else clock_ms)\<rparr>;
                (push, s') = wake (s\<lparr>rs_invalidate := ring_push job (rs_invalidate s)\<rparr>)
            in (True, push, update_shard i (\<lambda>_. s') q, record_runtime_event m RM_Enqueue,
                record_cache_event cm CM_L2RemoveEnqueued)))"

definition worker_queue_enqueue_l2_invalidate ::
  "HashSeed \<Rightarrow> u64 \<Rightarrow> WorkerQueue option \<Rightarrow> string option \<Rightarrow> u64 \<Rightarrow> RuntimeMetrics option \<Rightarrow> CacheMetrics option \<Rightarrow>
   bool \<times> WorkerQueue option \<times> RuntimeMetrics option \<times> CacheMetrics option" where
  "worker_queue_enqueue_l2_invalidate seed clock_ms queue key now_ms m cm =
     (case queue of
        None \<Rightarrow> (False, queue, m, cm)
      | Some q \<Rightarrow>
          (case key of
             None \<Rightarrow> (False, queue, m, record_cache_event cm CM_L2RemoveFailed)
           | Some k \<Rightarrow>
               if k = [] \<or> \<not> wq_running q then (False, queue, m, record_cache_event cm CM_L2RemoveFailed)
               else let (ok, push, q', m', cm') = enqueue_invalidate_locked seed clock_ms now_ms k q m cm
                    in (ok, Some (if push then push_owner (hash_key_to_shard seed k) q' else q'), m', cm')))"

section \<open>Execution\<close>

definition count_runtime :: "RuntimeMetricEvent \<Rightarrow> 'db WorkerQueueResources \<Rightarrow> 'db WorkerQueueResources" where
  "count_runtime e w = w\<lparr>wr_runtime_metrics := record_runtime_event (wr_runtime_metrics w) e\<rparr>"

definition count_cache :: "CacheMetricEvent \<Rightarrow> 'db WorkerQueueResources \<Rightarrow> 'db WorkerQueueResources" where
  "count_cache e w = w\<lparr>wr_cache_metrics := record_cache_event (wr_cache_metrics w) e\<rparr>"

text \<open>Promotion of a hit into the first level.\<close>

definition promote :: "HashSeed \<Rightarrow> CacheEntry \<Rightarrow> 'db WorkerQueueResources \<Rightarrow> 'db WorkerQueueResources" where
  "promote seed hit w =
     (case wr_l1_cache w of
        None \<Rightarrow> w
      | Some _ \<Rightarrow>
          if \<not> l1_can_store_entry hit then count_runtime RM_L2ToL1PromotionSkippedBodyTooLarge w
          else let (ok, l1, cm) = l1_put_if_newer seed (wr_l1_cache w) hit (wr_cache_metrics w);
                   w = w\<lparr>wr_l1_cache := l1, wr_cache_metrics := cm\<rparr>
               in count_runtime (if ok then RM_L2ToL1Promotion else RM_L2ToL1StaleRejected) w)"

definition execute_lookup_job ::
  "'db RocksDb \<Rightarrow> HashSeed \<Rightarrow> u64 \<Rightarrow> L2LookupJob \<Rightarrow> RuntimeShard \<Rightarrow> 'db WorkerQueueResources \<Rightarrow>
   RuntimeShard \<times> 'db WorkerQueueResources" where
  "execute_lookup_job rocks seed now_ms job shard w =
     (let w = count_runtime RM_JobExecuted w;
          w = (case wr_l2_cache w of
                 None \<Rightarrow> count_runtime RM_JobError (count_runtime RM_L2LookupError w)
               | Some _ \<Rightarrow>
                   (case l2_get_result rocks (wr_l2_cache w) (Some (lj_key job)) (sint now_ms)
                           (Some kAsyncL2MaxBodySize) kAsyncL2MaxBodySize of
                      L2Hit hit \<Rightarrow> promote seed hit (count_runtime RM_L2LookupHit w)
                    | L2Miss \<Rightarrow> count_runtime RM_L2LookupMiss w
                    | L2Expired \<Rightarrow> count_runtime RM_L2LookupExpired w
                    | L2BodyTooLargeForBuffer \<Rightarrow> count_runtime RM_L2LookupBodyTooLargeForBuffer w
                    | L2DecodeError \<Rightarrow> count_runtime RM_L2LookupDecodeError w
                    | L2RocksDbError \<Rightarrow> count_runtime RM_L2LookupError (count_runtime RM_L2LookupRocksDbError w)
                    | L2Overread \<Rightarrow> w))
      in (shard_pending_clear shard (lj_key job) (lj_key_hash job), w))"

text \<open>The hand-over of a leader's large response to its followers.\<close>

definition complete_handoff ::
  "HashSeed \<Rightarrow> u64 \<Rightarrow> L2StoreJob \<Rightarrow> InFlightCompletionState \<Rightarrow> CoalescingMetricEvent \<Rightarrow>
   'db WorkerQueueResources \<Rightarrow> 'db WorkerQueueResources" where
  "complete_handoff seed now_ms job st ev w =
     (if sj_coalescing_handoff_enabled job \<and> sj_has_registry job then
        w\<lparr>wr_registry := snd (registry_complete_state_if_generation seed (wr_registry w) (Some (sj_coalescing_key job))
            (sj_lifecycle_generation job) st now_ms),
          wr_coalescing_metrics := record_coalescing_event (wr_coalescing_metrics w) ev\<rparr>
      else w)"

text \<open>The entry with the bytes its body pointer leads to.\<close>

definition queued_entry :: "StoreBodyPool \<Rightarrow> L2StoreJob \<Rightarrow> CacheEntry" where
  "queued_entry pool job = (sj_entry job)\<lparr>ent_body := Some (bp_bodies pool ! sj_body_slot job)\<rparr>"

definition execute_store_job ::
  "'db RocksDb \<Rightarrow> HashSeed \<Rightarrow> u64 \<Rightarrow> L2StoreJob \<Rightarrow> RuntimeShard \<Rightarrow> u64 \<Rightarrow> 'db WorkerQueueResources \<Rightarrow>
   RuntimeShard \<times> u64 \<times> 'db WorkerQueueResources" where
  "execute_store_job rocks seed now_ms job shard bytes_in_use w =
     (let pool = rs_body_pool shard;
          w = count_runtime RM_JobExecuted w;
          w = (case wr_l2_cache w of
                 None \<Rightarrow>
                   complete_handoff seed now_ms job Failed CO_LeaderL2HandoffFailed
                     (count_runtime RM_JobError (count_runtime RM_L2StoreError w))
               | Some _ \<Rightarrow>
                   (let (pr, l2) = l2_put_result rocks (wr_l2_cache w) (queued_entry pool job)
                                     (Some (replicate kAsyncL2StoreEncScratchSize NUL));
                        w = w\<lparr>wr_l2_cache := l2\<rparr>
                    in case pr of
                         L2Stored \<Rightarrow>
                           complete_handoff seed now_ms job L2Ready CO_LeaderL2HandoffReady (count_runtime RM_L2StoreSuccess w)
                       | L2EncodeError \<Rightarrow>
                           complete_handoff seed now_ms job Failed CO_LeaderL2HandoffFailed
                             (count_runtime RM_JobError (count_runtime RM_L2StoreEncodeError w))
                       | L2BodyTooLarge \<Rightarrow>
                           complete_handoff seed now_ms job Failed CO_LeaderL2HandoffFailed
                             (count_runtime RM_JobError (count_runtime RM_L2StoreBodyTooLarge w))
                       | L2StorageError \<Rightarrow>
                           complete_handoff seed now_ms job Failed CO_LeaderL2HandoffFailed
                             (count_runtime RM_JobError (count_runtime RM_L2StoreError w))));
          slot = sj_body_slot job
      in if slot < kRuntimeQueueSlotsPerShard then
           (shard\<lparr>rs_body_pool := pool\<lparr>bp_body_sizes := (bp_body_sizes pool)[slot := 0],
                                       bp_occupied := (bp_occupied pool)[slot := False]\<rparr>\<rparr>,
            bytes_in_use - of_nat (bp_body_sizes pool ! slot), w)
         else (shard, bytes_in_use, w))"

definition execute_invalidate_job ::
  "'db RocksDb \<Rightarrow> L2InvalidateJob \<Rightarrow> 'db WorkerQueueResources \<Rightarrow> 'db WorkerQueueResources" where
  "execute_invalidate_job rocks job w =
     (let w = count_runtime RM_JobExecuted w
      in case wr_l2_cache w of
           None \<Rightarrow> count_runtime RM_JobError (count_runtime RM_L2InvalidateError (count_cache CM_L2RemoveFailed w))
         | Some _ \<Rightarrow>
             (let (ok, l2) = l2_remove rocks (wr_l2_cache w) (Some (ij_key job));
                  w = w\<lparr>wr_l2_cache := l2\<rparr>
              in count_runtime RM_L2InvalidateSuccess
                   (count_cache (if ok then CM_L2RemoveSuccess else CM_L2RemoveMiss) w)))"

section \<open>Popping\<close>

definition shard_try_pop_lookup_job :: "nat \<Rightarrow> WorkerQueue \<Rightarrow> (L2LookupJob \<times> WorkerQueue) option" where
  "shard_try_pop_lookup_job sid q =
     (if sid \<ge> kRuntimeShardCount then None
      else case ring_pop (rs_lookup (wq_shards q ! sid)) of
          None \<Rightarrow> None
        | Some (job, r) \<Rightarrow> Some (job, update_shard sid (\<lambda>s. s\<lparr>rs_lookup := r\<rparr>) q))"

definition shard_try_pop_store_job :: "nat \<Rightarrow> WorkerQueue \<Rightarrow> (L2StoreJob \<times> WorkerQueue) option" where
  "shard_try_pop_store_job sid q =
     (if sid \<ge> kRuntimeShardCount then None
      else case ring_pop (rs_store (wq_shards q ! sid)) of
          None \<Rightarrow> None
        | Some (job, r) \<Rightarrow> Some (job, update_shard sid (\<lambda>s. s\<lparr>rs_store := r\<rparr>) q))"

definition shard_try_pop_invalidate_job :: "nat \<Rightarrow> WorkerQueue \<Rightarrow> (L2InvalidateJob \<times> WorkerQueue) option" where
  "shard_try_pop_invalidate_job sid q =
     (if sid \<ge> kRuntimeShardCount then None
      else case ring_pop (rs_invalidate (wq_shards q ! sid)) of
          None \<Rightarrow> None
        | Some (job, r) \<Rightarrow> Some (job, update_shard sid (\<lambda>s. s\<lparr>rs_invalidate := r\<rparr>) q))"

section \<open>Lanes\<close>

text \<open>Up to \<open>n\<close> jobs of a lane; the result counts those executed.\<close>

fun run_lookups ::
  "'db RocksDb \<Rightarrow> HashSeed \<Rightarrow> u64 \<Rightarrow> nat \<Rightarrow> nat \<Rightarrow> WorkerQueue \<Rightarrow> 'db WorkerQueueResources \<Rightarrow>
   nat \<times> WorkerQueue \<times> 'db WorkerQueueResources" where
  "run_lookups rocks seed now_ms 0 sid q w = (0, q, w)"
| "run_lookups rocks seed now_ms (Suc n) sid q w =
     (case shard_try_pop_lookup_job sid q of
        None \<Rightarrow> (0, q, w)
      | Some (job, q1) \<Rightarrow>
          (let (s, w1) = execute_lookup_job rocks seed now_ms job (wq_shards q1 ! sid) w;
               (k, q2, w2) = run_lookups rocks seed now_ms n sid (update_shard sid (\<lambda>_. s) q1) w1
           in (Suc k, q2, w2)))"

fun run_invalidates ::
  "'db RocksDb \<Rightarrow> nat \<Rightarrow> nat \<Rightarrow> WorkerQueue \<Rightarrow> 'db WorkerQueueResources \<Rightarrow>
   nat \<times> WorkerQueue \<times> 'db WorkerQueueResources" where
  "run_invalidates rocks 0 sid q w = (0, q, w)"
| "run_invalidates rocks (Suc n) sid q w =
     (case shard_try_pop_invalidate_job sid q of
        None \<Rightarrow> (0, q, w)
      | Some (job, q1) \<Rightarrow>
          (let (k, q2, w2) = run_invalidates rocks n sid q1 (execute_invalidate_job rocks job w)
           in (Suc k, q2, w2)))"

fun run_stores ::
  "'db RocksDb \<Rightarrow> HashSeed \<Rightarrow> u64 \<Rightarrow> nat \<Rightarrow> nat \<Rightarrow> WorkerQueue \<Rightarrow> 'db WorkerQueueResources \<Rightarrow>
   nat \<times> WorkerQueue \<times> 'db WorkerQueueResources" where
  "run_stores rocks seed now_ms 0 sid q w = (0, q, w)"
| "run_stores rocks seed now_ms (Suc n) sid q w =
     (case shard_try_pop_store_job sid q of
        None \<Rightarrow> (0, q, w)
      | Some (job, q1) \<Rightarrow>
          (let (s, b, w1) = execute_store_job rocks seed now_ms job (wq_shards q1 ! sid)
                              (wq_store_body_pool_bytes_in_use q1) w;
               (k, q2, w2) = run_stores rocks seed now_ms n sid
                               ((update_shard sid (\<lambda>_. s) q1)\<lparr>wq_store_body_pool_bytes_in_use := b\<rparr>) w1
           in (Suc k, q2, w2)))"

section \<open>The worker\<close>

definition shard_try_mark_processing :: "nat \<Rightarrow> nat \<Rightarrow> WorkerQueue \<Rightarrow> WorkerQueue option" where
  "shard_try_mark_processing worker_id sid q =
     (if sid mod wq_worker_count q \<noteq> worker_id then None
      else if rs_state (wq_shards q ! sid) \<noteq> ShardQueued then None
      else Some (update_shard sid (\<lambda>s. s\<lparr>rs_state := ShardProcessing\<rparr>) q))"

text \<open>The critical section of \<open>shard_requeue_or_clear\<close>: whether a push is due, and the queue.\<close>

definition requeue_locked :: "nat \<Rightarrow> WorkerQueue \<Rightarrow> bool \<times> WorkerQueue" where
  "requeue_locked sid q =
     (if shard_has_pending_work (wq_shards q ! sid) then
        (wq_running q, update_shard sid (\<lambda>s. s\<lparr>rs_state := ShardQueued\<rparr>) q)
      else (False, update_shard sid (\<lambda>s. s\<lparr>rs_state := ShardIdle\<rparr>) q))"

definition shard_requeue_or_clear :: "nat \<Rightarrow> WorkerQueue \<Rightarrow> WorkerQueue" where
  "shard_requeue_or_clear sid q =
     (if sid \<ge> kRuntimeShardCount then q
      else let (push, q') = requeue_locked sid q in if push then push_owner sid q' else q')"

definition process_ready_shard ::
  "'db RocksDb \<Rightarrow> HashSeed \<Rightarrow> u64 \<Rightarrow> nat \<Rightarrow> nat \<Rightarrow> WorkerQueue \<Rightarrow> 'db WorkerQueueResources \<Rightarrow>
   WorkerQueue \<times> 'db WorkerQueueResources" where
  "process_ready_shard rocks seed now_ms worker_id sid q w =
     (case shard_try_mark_processing worker_id sid q of
        None \<Rightarrow> (q, w)
      | Some q1 \<Rightarrow>
          (let (lookups, q2, w2) = run_lookups rocks seed now_ms (wq_effective_lookup_lane_quota q1) sid q1 w;
               (_, q3, w3) = run_invalidates rocks (wq_effective_invalidate_lane_quota q2) sid q2 w2;
               (stores, q4, w4) = run_stores rocks seed now_ms (wq_effective_store_lane_quota q3) sid q3 w3;
               w5 = (if lookups = wq_effective_lookup_lane_quota q4 \<and> stores = wq_effective_store_lane_quota q4 \<and>
                        rg_count (rs_store (wq_shards q4 ! sid)) > 0
                     then count_runtime RM_WorkerStoreLaneStarvation w4 else w4)
           in (shard_requeue_or_clear sid q4, w5)))"

text \<open>One owned shard of a drain: up to the quota of each lane, then the state is restored.\<close>

definition drain_shard ::
  "'db RocksDb \<Rightarrow> HashSeed \<Rightarrow> u64 \<Rightarrow> nat \<Rightarrow> WorkerQueue \<times> 'db WorkerQueueResources \<Rightarrow>
   bool \<times> WorkerQueue \<times> 'db WorkerQueueResources" where
  "drain_shard rocks seed now_ms sid = (\<lambda>(q, w).
     let (a, q1, w1) = run_lookups rocks seed now_ms (wq_effective_lookup_lane_quota q) sid q w;
         (b, q2, w2) = run_invalidates rocks (wq_effective_invalidate_lane_quota q1) sid q1 w1;
         (c, q3, w3) = run_stores rocks seed now_ms (wq_effective_store_lane_quota q2) sid q2 w2
     in (a + b + c > 0, shard_requeue_or_clear sid q3, w3))"

fun drain_shards ::
  "'db RocksDb \<Rightarrow> HashSeed \<Rightarrow> u64 \<Rightarrow> nat list \<Rightarrow> WorkerQueue \<times> 'db WorkerQueueResources \<Rightarrow>
   bool \<times> WorkerQueue \<times> 'db WorkerQueueResources" where
  "drain_shards rocks seed now_ms [] qw = (False, qw)"
| "drain_shards rocks seed now_ms (sid # sids) qw =
     (let (worked, qw1) = drain_shard rocks seed now_ms sid qw;
          (rest, qw2) = drain_shards rocks seed now_ms sids qw1
      in (worked \<or> rest, qw2))"

definition worker_drain_owned_once ::
  "'db RocksDb \<Rightarrow> HashSeed \<Rightarrow> u64 \<Rightarrow> nat \<Rightarrow> WorkerQueue \<times> 'db WorkerQueueResources \<Rightarrow>
   bool \<times> WorkerQueue \<times> 'db WorkerQueueResources" where
  "worker_drain_owned_once rocks seed now_ms worker_id qw =
     (if worker_id \<ge> wq_worker_count (fst qw) then (False, qw)
      else drain_shards rocks seed now_ms (wq_worker_owned_shards (fst qw) ! worker_id) qw)"

text \<open>The shutdown drain: passes over the owned shards until one finds nothing to do.\<close>

partial_function (option) drain_owned_shards ::
  "'db RocksDb \<Rightarrow> HashSeed \<Rightarrow> u64 \<Rightarrow> nat \<Rightarrow> WorkerQueue \<times> 'db WorkerQueueResources \<Rightarrow>
   (WorkerQueue \<times> 'db WorkerQueueResources) option" where
  "drain_owned_shards rocks seed now_ms worker_id qw =
     (case worker_drain_owned_once rocks seed now_ms worker_id qw of
        (worked, qw') \<Rightarrow> if worked then drain_owned_shards rocks seed now_ms worker_id qw' else Some qw')"

text \<open>
  What is left of a worker's loop once \<open>running\<close> is false: the shards still in its ready queue, then
  the drain.
\<close>

partial_function (option) worker_loop_stopping ::
  "'db RocksDb \<Rightarrow> HashSeed \<Rightarrow> u64 \<Rightarrow> nat \<Rightarrow> WorkerQueue \<times> 'db WorkerQueueResources \<Rightarrow>
   (WorkerQueue \<times> 'db WorkerQueueResources) option" where
  "worker_loop_stopping rocks seed now_ms worker_id qw =
     (case worker_ready_try_pop worker_id (fst qw) of
        Some (sid, q) \<Rightarrow>
          worker_loop_stopping rocks seed now_ms worker_id (process_ready_shard rocks seed now_ms worker_id sid q (snd qw))
      | None \<Rightarrow> drain_owned_shards rocks seed now_ms worker_id qw)"

fun join_workers ::
  "'db RocksDb \<Rightarrow> HashSeed \<Rightarrow> u64 \<Rightarrow> nat list \<Rightarrow> WorkerQueue \<times> 'db WorkerQueueResources \<Rightarrow>
   (WorkerQueue \<times> 'db WorkerQueueResources) option" where
  "join_workers rocks seed now_ms [] qw = Some qw"
| "join_workers rocks seed now_ms (i # is) qw =
     (case worker_loop_stopping rocks seed now_ms i qw of
        None \<Rightarrow> None | Some qw' \<Rightarrow> join_workers rocks seed now_ms is qw')"

text \<open>
  Only joinable threads are joined; they are run to their end one after the other, in the order in which they
  are joined. A join leaves the thread not joinable.
\<close>

definition worker_queue_shutdown ::
  "'db RocksDb \<Rightarrow> HashSeed \<Rightarrow> u64 \<Rightarrow> WorkerQueue option \<Rightarrow> 'db WorkerQueueResources \<Rightarrow>
   (WorkerQueue option \<times> 'db WorkerQueueResources) option" where
  "worker_queue_shutdown rocks seed now_ms queue w =
     (case queue of
        None \<Rightarrow> Some (None, w)
      | Some q \<Rightarrow>
          (let joined = filter (\<lambda>i. wq_workers q ! i) [0..<wq_worker_count q]
           in case join_workers rocks seed now_ms joined (q\<lparr>wq_running := False\<rparr>, w) of
                None \<Rightarrow> None
              | Some (q', w') \<Rightarrow>
                  Some (Some (release_body_pools
                          (q'\<lparr>wq_workers := fold (\<lambda>i ws. ws[i := False]) joined (wq_workers q')\<rparr>)), w')))"

end
