(* ===== verification/Worker_Drain.thy ===== *)
theory Worker_Drain
  imports Worker_Queue
begin

text \<open>
  The shutdown of the worker queue: every pass of \<open>worker_drain_owned_once\<close> that works takes a job out of the
  queue, so the drain loop and the stopping worker's loop end, and they end with the owned shards
  empty and idle.
\<close>

section \<open>Load\<close>

definition shard_load :: "RuntimeShard \<Rightarrow> nat" where
  "shard_load s = rg_count (rs_lookup s) + rg_count (rs_invalidate s) + rg_count (rs_store s)"

definition total_load :: "WorkerQueue \<Rightarrow> nat" where
  "total_load q = (\<Sum>s\<leftarrow>wq_shards q. shard_load s)"

lemma has_pending_work_load: "shard_has_pending_work s \<longleftrightarrow> shard_load s \<noteq> 0"
  by (auto simp: shard_has_pending_work_def shard_load_def)

lemma total_load_update:
  "sid < length (wq_shards q) \<Longrightarrow>
     total_load (update_shard sid f q) + shard_load (wq_shards q ! sid) = total_load q + shard_load (f (wq_shards q ! sid))"
  using elem_le_sum_list [of sid "map shard_load (wq_shards q)"]
  by (simp add: total_load_def update_shard_def map_update sum_list_update)

lemma total_load_bytes [simp]: "total_load (q\<lparr>wq_store_body_pool_bytes_in_use := b\<rparr>) = total_load q"
  by (simp add: total_load_def)

lemma total_load_ready [simp]: "total_load (q\<lparr>wq_worker_ready := r\<rparr>) = total_load q"
  by (simp add: total_load_def)

section \<open>One shard at a time\<close>

text \<open>\<open>touched sid s' q q'\<close>: \<open>q'\<close> is \<open>q\<close> with shard \<open>sid\<close> replaced by \<open>s'\<close>, up to the byte counter.\<close>

definition touched :: "nat \<Rightarrow> RuntimeShard \<Rightarrow> WorkerQueue \<Rightarrow> WorkerQueue \<Rightarrow> bool" where
  "touched sid s' q q' \<longleftrightarrow> (\<exists>b. q' = (update_shard sid (\<lambda>_. s') q)\<lparr>wq_store_body_pool_bytes_in_use := b\<rparr>)"

lemma touched_update [simp]: "touched sid s' q (update_shard sid (\<lambda>_. s') q)"
  unfolding touched_def by (rule exI [of _ "wq_store_body_pool_bytes_in_use q"]) (simp add: update_shard_def)

lemma touched_refl: "sid < length (wq_shards q) \<Longrightarrow> touched sid (wq_shards q ! sid) q q"
  unfolding touched_def by (rule exI [of _ "wq_store_body_pool_bytes_in_use q"]) (simp add: update_shard_def)

lemma touched_bytes: "touched sid s' q q' \<Longrightarrow> touched sid s' q (q'\<lparr>wq_store_body_pool_bytes_in_use := b\<rparr>)"
  by (auto simp: touched_def)

lemma touched_trans: "touched sid s1 q q1 \<Longrightarrow> touched sid s2 q1 q2 \<Longrightarrow> touched sid s2 q q2"
  by (auto simp: touched_def update_shard_def)

lemma touched_fields:
  assumes "touched sid s' q q'"
  shows "length (wq_shards q') = length (wq_shards q)"
    and "sid < length (wq_shards q) \<Longrightarrow> wq_shards q' ! sid = s'"
    and "j \<noteq> sid \<Longrightarrow> wq_shards q' ! j = wq_shards q ! j"
    and "wq_running q' = wq_running q" and "wq_worker_count q' = wq_worker_count q"
    and "wq_worker_owned_shards q' = wq_worker_owned_shards q" and "wq_worker_ready q' = wq_worker_ready q"
    and "wq_effective_lookup_lane_quota q' = wq_effective_lookup_lane_quota q"
    and "wq_effective_store_lane_quota q' = wq_effective_store_lane_quota q"
    and "wq_effective_invalidate_lane_quota q' = wq_effective_invalidate_lane_quota q"
    and "wq_workers q' = wq_workers q"
  using assms by (auto simp: touched_def update_shard_def)

lemma touched_load:
  assumes "touched sid s' q q'" and "sid < length (wq_shards q)"
  shows "total_load q' + shard_load (wq_shards q ! sid) = total_load q + shard_load s'"
  using assms total_load_update [of sid q "\<lambda>_. s'"] by (auto simp: touched_def)

section \<open>Lanes\<close>

lemma pending_clear_fields [simp]:
  "rs_lookup (shard_pending_clear s k h) = rs_lookup s" "rs_invalidate (shard_pending_clear s k h) = rs_invalidate s"
  "rs_store (shard_pending_clear s k h) = rs_store s" "rs_state (shard_pending_clear s k h) = rs_state s"
  "rs_body_pool (shard_pending_clear s k h) = rs_body_pool s"
  by (simp_all add: shard_pending_clear_def split: option.split)

lemma execute_lookup_shard:
  "fst (execute_lookup_job rocks seed now_ms job s w) = shard_pending_clear s (lj_key job) (lj_key_hash job)"
  by (simp add: execute_lookup_job_def Let_def)

text \<open>A store job frees its pool slot and leaves the rest of the shard.\<close>

definition free_slot :: "nat \<Rightarrow> RuntimeShard \<Rightarrow> RuntimeShard" where
  "free_slot slot s = (if slot < kRuntimeQueueSlotsPerShard then
     s\<lparr>rs_body_pool := (rs_body_pool s)\<lparr>bp_body_sizes := (bp_body_sizes (rs_body_pool s))[slot := 0],
         bp_occupied := (bp_occupied (rs_body_pool s))[slot := False]\<rparr>\<rparr> else s)"

lemma free_slot_fields [simp]:
  "rs_lookup (free_slot i s) = rs_lookup s" "rs_invalidate (free_slot i s) = rs_invalidate s"
  "rs_store (free_slot i s) = rs_store s" "rs_state (free_slot i s) = rs_state s"
  by (simp_all add: free_slot_def)

lemma execute_store_shard:
  "fst (execute_store_job rocks seed now_ms job s b w) = free_slot (sj_body_slot job) s"
  by (simp add: execute_store_job_def Let_def free_slot_def)

lemma ring_pop_count: "ring_pop r = Some (x, r') \<Longrightarrow> rg_count r = Suc (rg_count r')"
  by (auto simp: ring_pop_def split: if_splits)

lemma ring_pop_None_count: "ring_pop r = None \<longleftrightarrow> rg_count r = 0"
  by (simp add: ring_pop_def)

text \<open>
  What the three lanes share: a run of at most \<open>n\<close> steps, each of which takes one job off the lane and leaves
  the other two and the state of the shard.
\<close>

locale lane =
  fixes run :: "nat \<Rightarrow> nat \<Rightarrow> WorkerQueue \<Rightarrow> 'w \<Rightarrow> nat \<times> WorkerQueue \<times> 'w"
    and job_step :: "nat \<Rightarrow> WorkerQueue \<Rightarrow> 'w \<Rightarrow> (WorkerQueue \<times> 'w) option"
    and jobs :: "RuntimeShard \<Rightarrow> nat" and others :: "RuntimeShard \<Rightarrow> nat \<times> nat"
  assumes run_0: "run 0 sid q w = (0, q, w)"
    and run_Suc: "run (Suc n) sid q w = (case job_step sid q w of None \<Rightarrow> (0, q, w)
                    | Some (q1, w1) \<Rightarrow> (case run n sid q1 w1 of (k, q2, w2) \<Rightarrow> (Suc k, q2, w2)))"
    and step_None: "sid < length (wq_shards q) \<Longrightarrow> sid < kRuntimeShardCount \<Longrightarrow> job_step sid q w = None \<Longrightarrow>
                      jobs (wq_shards q ! sid) = 0"
    and step_Some: "sid < length (wq_shards q) \<Longrightarrow> job_step sid q w = Some (q1, w1) \<Longrightarrow>
                      \<exists>s'. touched sid s' q q1 \<and> rs_state s' = rs_state (wq_shards q ! sid) \<and>
                           Suc (jobs s') = jobs (wq_shards q ! sid) \<and> others s' = others (wq_shards q ! sid)"
begin

lemma run_touched:
  assumes "run n sid q w = (k, q', w')" and "sid < length (wq_shards q)" and "sid < kRuntimeShardCount"
  shows "k = min n (jobs (wq_shards q ! sid)) \<and>
    (\<exists>s'. touched sid s' q q' \<and> rs_state s' = rs_state (wq_shards q ! sid) \<and>
          jobs s' + k = jobs (wq_shards q ! sid) \<and> others s' = others (wq_shards q ! sid))"
  using assms
proof (induction n arbitrary: q w k)
  case 0
  then show ?case using touched_refl by (auto simp: run_0)
next
  case (Suc n)
  show ?case
  proof (cases "job_step sid q w")
    case None
    then show ?thesis
      using Suc.prems touched_refl step_None [OF Suc.prems(2,3) None] by (auto simp: run_Suc)
  next
    case (Some p)
    then obtain q1 w1 k1 where p: "job_step sid q w = Some (q1, w1)" and r: "run n sid q1 w1 = (k1, q', w')" "k = Suc k1"
      using Suc.prems(1) by (cases p) (auto simp: run_Suc split: prod.splits)
    obtain s1 where t: "touched sid s1 q q1" and s1: "rs_state s1 = rs_state (wq_shards q ! sid)"
        "Suc (jobs s1) = jobs (wq_shards q ! sid)" "others s1 = others (wq_shards q ! sid)"
      using step_Some [OF Suc.prems(2) p] by blast
    note at = touched_fields(2) [OF t Suc.prems(2)]
    have "sid < length (wq_shards q1)" using Suc.prems(2) touched_fields(1) [OF t] by simp
    from Suc.IH [OF r(1) this Suc.prems(3)] obtain s' where "k1 = min n (jobs s1)" "touched sid s' q1 q'"
        "rs_state s' = rs_state s1" "jobs s' + k1 = jobs s1" "others s' = others s1"
      unfolding at by blast
    then show ?thesis
      using touched_trans [OF t] s1 r(2) by (intro conjI exI [of _ s']) auto
  qed
qed

end

definition lookup_step :: "'db RocksDb \<Rightarrow> HashSeed \<Rightarrow> u64 \<Rightarrow> nat \<Rightarrow> WorkerQueue \<Rightarrow> 'db WorkerQueueResources \<Rightarrow>
    (WorkerQueue \<times> 'db WorkerQueueResources) option" where
  "lookup_step rocks seed now_ms sid q w =
     (case shard_try_pop_lookup_job sid q of None \<Rightarrow> None
      | Some (job, q1) \<Rightarrow> let (s, w1) = execute_lookup_job rocks seed now_ms job (wq_shards q1 ! sid) w
                          in Some (update_shard sid (\<lambda>_. s) q1, w1))"

definition invalidate_step :: "'db RocksDb \<Rightarrow> nat \<Rightarrow> WorkerQueue \<Rightarrow> 'db WorkerQueueResources \<Rightarrow>
    (WorkerQueue \<times> 'db WorkerQueueResources) option" where
  "invalidate_step rocks sid q w =
     (case shard_try_pop_invalidate_job sid q of None \<Rightarrow> None
      | Some (job, q1) \<Rightarrow> Some (q1, execute_invalidate_job rocks job w))"

definition store_step :: "'db RocksDb \<Rightarrow> HashSeed \<Rightarrow> u64 \<Rightarrow> nat \<Rightarrow> WorkerQueue \<Rightarrow> 'db WorkerQueueResources \<Rightarrow>
    (WorkerQueue \<times> 'db WorkerQueueResources) option" where
  "store_step rocks seed now_ms sid q w =
     (case shard_try_pop_store_job sid q of None \<Rightarrow> None
      | Some (job, q1) \<Rightarrow>
          let (s, b, w1) = execute_store_job rocks seed now_ms job (wq_shards q1 ! sid) (wq_store_body_pool_bytes_in_use q1) w
          in Some ((update_shard sid (\<lambda>_. s) q1)\<lparr>wq_store_body_pool_bytes_in_use := b\<rparr>, w1))"

lemma touched_twice:
  "touched sid s' q (update_shard sid (\<lambda>_. s') (update_shard sid f q))"
  unfolding touched_def
  by (rule exI [of _ "wq_store_body_pool_bytes_in_use q"]) (simp add: update_shard_def)

lemma touched_twice_bytes:
  "touched sid s' q ((update_shard sid (\<lambda>_. s') (update_shard sid f q))\<lparr>wq_store_body_pool_bytes_in_use := b\<rparr>)"
  by (rule touched_bytes) (rule touched_twice)

lemma touched_update_fun: "touched sid (f (wq_shards q ! sid)) q (update_shard sid f q)"
  unfolding touched_def
  by (rule exI [of _ "wq_store_body_pool_bytes_in_use q"]) (simp add: update_shard_def)

interpretation lookups: lane "run_lookups rocks seed now_ms" "lookup_step rocks seed now_ms"
  "\<lambda>s. rg_count (rs_lookup s)" "\<lambda>s. (rg_count (rs_invalidate s), rg_count (rs_store s))" for rocks seed now_ms
proof
  fix sid q w q1 w1 assume len: "sid < length (wq_shards q)" and st: "lookup_step rocks seed now_ms sid q w = Some (q1, w1)"
  then obtain job r where p: "ring_pop (rs_lookup (wq_shards q ! sid)) = Some (job, r)"
    and q1: "q1 = update_shard sid (\<lambda>_. fst (execute_lookup_job rocks seed now_ms job ((wq_shards q ! sid)\<lparr>rs_lookup := r\<rparr>) w))
                    (update_shard sid (\<lambda>s. s\<lparr>rs_lookup := r\<rparr>) q)"
    by (auto simp: lookup_step_def shard_try_pop_lookup_job_def update_shard_def Let_def case_prod_beta
        split: option.splits if_splits)
  show "\<exists>s'. touched sid s' q q1 \<and> rs_state s' = rs_state (wq_shards q ! sid) \<and>
      Suc (rg_count (rs_lookup s')) = rg_count (rs_lookup (wq_shards q ! sid)) \<and>
      (rg_count (rs_invalidate s'), rg_count (rs_store s')) =
        (rg_count (rs_invalidate (wq_shards q ! sid)), rg_count (rs_store (wq_shards q ! sid)))"
    unfolding q1 by (rule exI, rule conjI, rule touched_twice) (simp add: execute_lookup_shard ring_pop_count [OF p])
qed (auto simp: lookup_step_def shard_try_pop_lookup_job_def ring_pop_None_count Let_def case_prod_beta
     split: option.splits)

interpretation invalidates: lane "run_invalidates rocks" "invalidate_step rocks"
  "\<lambda>s. rg_count (rs_invalidate s)" "\<lambda>s. (rg_count (rs_lookup s), rg_count (rs_store s))" for rocks
proof
  fix sid q w q1 w1 assume len: "sid < length (wq_shards q)" and st: "invalidate_step rocks sid q w = Some (q1, w1)"
  then obtain job r where p: "ring_pop (rs_invalidate (wq_shards q ! sid)) = Some (job, r)"
    and q1: "q1 = update_shard sid (\<lambda>s. s\<lparr>rs_invalidate := r\<rparr>) q"
    by (auto simp: invalidate_step_def shard_try_pop_invalidate_job_def split: option.splits if_splits)
  show "\<exists>s'. touched sid s' q q1 \<and> rs_state s' = rs_state (wq_shards q ! sid) \<and>
      Suc (rg_count (rs_invalidate s')) = rg_count (rs_invalidate (wq_shards q ! sid)) \<and>
      (rg_count (rs_lookup s'), rg_count (rs_store s')) =
        (rg_count (rs_lookup (wq_shards q ! sid)), rg_count (rs_store (wq_shards q ! sid)))"
    unfolding q1 by (rule exI, rule conjI, rule touched_update_fun) (simp add: ring_pop_count [OF p])
qed (auto simp: invalidate_step_def shard_try_pop_invalidate_job_def ring_pop_None_count Let_def case_prod_beta
     split: option.splits)

interpretation stores: lane "run_stores rocks seed now_ms" "store_step rocks seed now_ms"
  "\<lambda>s. rg_count (rs_store s)" "\<lambda>s. (rg_count (rs_lookup s), rg_count (rs_invalidate s))" for rocks seed now_ms
proof
  fix sid q w q1 w1 assume len: "sid < length (wq_shards q)" and st: "store_step rocks seed now_ms sid q w = Some (q1, w1)"
  then obtain job r b where p: "ring_pop (rs_store (wq_shards q ! sid)) = Some (job, r)"
    and q1: "q1 = (update_shard sid (\<lambda>_. fst (execute_store_job rocks seed now_ms job ((wq_shards q ! sid)\<lparr>rs_store := r\<rparr>)
                     (wq_store_body_pool_bytes_in_use q) w))
                    (update_shard sid (\<lambda>s. s\<lparr>rs_store := r\<rparr>) q))\<lparr>wq_store_body_pool_bytes_in_use := b\<rparr>"
    by (auto simp: store_step_def shard_try_pop_store_job_def update_shard_def Let_def case_prod_beta
        split: option.splits if_splits)
  show "\<exists>s'. touched sid s' q q1 \<and> rs_state s' = rs_state (wq_shards q ! sid) \<and>
      Suc (rg_count (rs_store s')) = rg_count (rs_store (wq_shards q ! sid)) \<and>
      (rg_count (rs_lookup s'), rg_count (rs_invalidate s')) =
        (rg_count (rs_lookup (wq_shards q ! sid)), rg_count (rs_invalidate (wq_shards q ! sid)))"
    unfolding q1 by (rule exI, rule conjI, rule touched_twice_bytes) (simp add: execute_store_shard ring_pop_count [OF p])
qed (auto simp: store_step_def shard_try_pop_store_job_def ring_pop_None_count Let_def case_prod_beta
     split: option.splits)

section \<open>Well-formed queues\<close>

definition queue_wf :: "WorkerQueue \<Rightarrow> bool" where
  "queue_wf q \<longleftrightarrow> length (wq_shards q) = kRuntimeShardCount \<and> 0 < wq_worker_count q \<and> wq_worker_count q \<le> kWorkerQueueMaxWorkers \<and>
     wq_worker_owned_shards q = map (owned_shards (wq_worker_count q)) [0..<kWorkerQueueMaxWorkers] \<and>
     0 < wq_effective_lookup_lane_quota q \<and> 0 < wq_effective_store_lane_quota q \<and> 0 < wq_effective_invalidate_lane_quota q \<and>
     length (wq_worker_ready q) = kWorkerQueueMaxWorkers \<and>
     (\<forall>r\<in>set (wq_worker_ready q). ring_inv r \<and> length (rg_slots r) = kRuntimeShardCount \<and>
        (\<forall>sid\<in>set (ring_list r). sid < kRuntimeShardCount))"

lemma queue_wf_touched: "touched sid s' q q' \<Longrightarrow> queue_wf q' = queue_wf q"
  unfolding queue_wf_def by (simp add: touched_fields)

text \<open>Nothing queued, nothing scheduled.\<close>

definition shard_quiet :: "RuntimeShard \<Rightarrow> bool" where
  "shard_quiet s \<longleftrightarrow> \<not> shard_has_pending_work s \<and> rs_state s = ShardIdle"

lemma shard_quiet_load: "shard_quiet s \<longleftrightarrow> shard_load s = 0 \<and> rs_state s = ShardIdle"
  by (auto simp: shard_quiet_def has_pending_work_load)

lemma requeue_stopped:
  assumes "sid < kRuntimeShardCount" and "sid < length (wq_shards q)" and "\<not> wq_running q"
  shows "\<exists>s'. touched sid s' q (shard_requeue_or_clear sid q) \<and> shard_load s' = shard_load (wq_shards q ! sid) \<and>
    rs_state s' = (if shard_load s' = 0 then ShardIdle else ShardQueued)"
proof -
  let ?s = "wq_shards q ! sid" and ?st = "if shard_load (wq_shards q ! sid) = 0 then ShardIdle else ShardQueued"
  have "shard_requeue_or_clear sid q = update_shard sid (\<lambda>s. s\<lparr>rs_state := ?st\<rparr>) q"
    using assms by (simp add: shard_requeue_or_clear_def requeue_locked_def has_pending_work_load)
  moreover have "touched sid (?s\<lparr>rs_state := ?st\<rparr>) q (update_shard sid (\<lambda>s. s\<lparr>rs_state := ?st\<rparr>) q)"
    by (rule touched_update_fun)
  ultimately show ?thesis
    by (intro exI [of _ "?s\<lparr>rs_state := ?st\<rparr>"]) (simp add: shard_load_def)
qed

text \<open>The three lanes one after the other, as both \<open>process_ready_shard\<close> and the drain run them.\<close>

lemma three_lanes:
  assumes sid: "sid < length (wq_shards q)" "sid < kRuntimeShardCount"
    and a: "run_lookups rocks seed now_ms n1 sid q w = (a, q1, w1)"
    and b: "run_invalidates rocks n2 sid q1 w1 = (b, q2, w2)"
    and c: "run_stores rocks seed now_ms n3 sid q2 w2 = (c, q3, w3)"
  obtains s' where "touched sid s' q q3" and "rs_state s' = rs_state (wq_shards q ! sid)"
    and "shard_load s' + (a + b + c) = shard_load (wq_shards q ! sid)"
    and "0 < n1 \<Longrightarrow> 0 < n2 \<Longrightarrow> 0 < n3 \<Longrightarrow> a + b + c = 0 \<Longrightarrow> shard_load s' = 0"
proof -
  from lookups.run_touched [OF a sid] obtain s1 where t1: "touched sid s1 q q1"
    and s1: "rs_state s1 = rs_state (wq_shards q ! sid)" "rg_count (rs_lookup s1) + a = rg_count (rs_lookup (wq_shards q ! sid))"
      "a = min n1 (rg_count (rs_lookup (wq_shards q ! sid)))" "rg_count (rs_invalidate s1) = rg_count (rs_invalidate (wq_shards q ! sid))"
      "rg_count (rs_store s1) = rg_count (rs_store (wq_shards q ! sid))" by auto
  have sid1: "sid < length (wq_shards q1)" using sid(1) touched_fields(1) [OF t1] by simp
  note at1 = touched_fields(2) [OF t1 sid(1)]
  from invalidates.run_touched [OF b sid1 sid(2)] obtain s2 where t2: "touched sid s2 q1 q2"
    and s2: "rs_state s2 = rs_state s1" "rg_count (rs_invalidate s2) + b = rg_count (rs_invalidate s1)"
      "b = min n2 (rg_count (rs_invalidate s1))" "rg_count (rs_lookup s2) = rg_count (rs_lookup s1)"
      "rg_count (rs_store s2) = rg_count (rs_store s1)" unfolding at1 by auto
  have sid2: "sid < length (wq_shards q2)" using sid1 touched_fields(1) [OF t2] by simp
  note at2 = touched_fields(2) [OF t2 sid1]
  from stores.run_touched [OF c sid2 sid(2)] obtain s3 where t3: "touched sid s3 q2 q3"
    and s3: "rs_state s3 = rs_state s2" "rg_count (rs_store s3) + c = rg_count (rs_store s2)"
      "c = min n3 (rg_count (rs_store s2))" "rg_count (rs_lookup s3) = rg_count (rs_lookup s2)"
      "rg_count (rs_invalidate s3) = rg_count (rs_invalidate s2)" unfolding at2 by auto
  show thesis
    by (rule that [OF touched_trans [OF touched_trans [OF t1 t2] t3]])
      (use s1 s2 s3 in \<open>auto simp: shard_load_def\<close>)
qed

section \<open>Draining\<close>

lemma drain_shard_stopped:
  assumes wf: "queue_wf q" and stop: "\<not> wq_running q" and sid: "sid < kRuntimeShardCount"
    and d: "drain_shard rocks seed now_ms sid (q, w) = (worked, q', w')"
  obtains s' where "touched sid s' q q'" and "rs_state s' = (if shard_load s' = 0 then ShardIdle else ShardQueued)"
    and "shard_load s' \<le> shard_load (wq_shards q ! sid)" and "worked \<Longrightarrow> shard_load s' < shard_load (wq_shards q ! sid)"
    and "\<not> worked \<Longrightarrow> shard_load s' = 0"
proof -
  obtain a q1 w1 where a: "run_lookups rocks seed now_ms (wq_effective_lookup_lane_quota q) sid q w = (a, q1, w1)"
    by (metis prod_cases3)
  obtain b q2 w2 where b: "run_invalidates rocks (wq_effective_invalidate_lane_quota q1) sid q1 w1 = (b, q2, w2)"
    by (metis prod_cases3)
  obtain c q3 w3 where c: "run_stores rocks seed now_ms (wq_effective_store_lane_quota q2) sid q2 w2 = (c, q3, w3)"
    by (metis prod_cases3)
  have len: "sid < length (wq_shards q)" using wf sid by (simp add: queue_wf_def)
  from lookups.run_touched [OF a len sid] obtain s1 where t1: "touched sid s1 q q1" by auto
  have len1: "sid < length (wq_shards q1)" using len touched_fields(1) [OF t1] by simp
  from invalidates.run_touched [OF b len1 sid] obtain s2 where t2: "touched sid s2 q1 q2" by auto
  from three_lanes [OF len sid a b c] obtain s3 where t3: "touched sid s3 q q3"
    and s3: "shard_load s3 + (a + b + c) = shard_load (wq_shards q ! sid)"
      "a + b + c = 0 \<Longrightarrow> shard_load s3 = 0"
    using wf touched_fields(9,10) [OF t1] touched_fields(9) [OF t2] unfolding queue_wf_def by metis
  have q': "q' = shard_requeue_or_clear sid q3" and k: "worked \<longleftrightarrow> a + b + c > 0"
    using d by (auto simp: drain_shard_def a b c)
  have len3: "sid < length (wq_shards q3)" "\<not> wq_running q3" using len stop touched_fields [OF t3] by simp_all
  from requeue_stopped [OF sid len3] obtain s' where s': "touched sid s' q3 q'" "shard_load s' = shard_load s3"
      "rs_state s' = (if shard_load s' = 0 then ShardIdle else ShardQueued)"
    unfolding q' touched_fields(2) [OF t3 len] by blast
  show thesis
    by (rule that [OF touched_trans [OF t3 s'(1)] s'(3)]) (use s3 s'(2) k in auto)
qed

lemma drain_shards_stopped:
  assumes "queue_wf q" and "\<not> wq_running q" and "\<forall>sid\<in>set sids. sid < kRuntimeShardCount"
    and "drain_shards rocks seed now_ms sids (q, w) = (worked, q', w')"
  shows "queue_wf q' \<and> \<not> wq_running q' \<and> wq_worker_count q' = wq_worker_count q \<and> wq_workers q' = wq_workers q \<and> wq_worker_ready q' = wq_worker_ready q \<and>
    total_load q' \<le> total_load q \<and> (worked \<longrightarrow> total_load q' < total_load q) \<and>
    (\<not> worked \<longrightarrow> (\<forall>sid\<in>set sids. shard_quiet (wq_shards q' ! sid))) \<and>
    (\<forall>j<kRuntimeShardCount. shard_quiet (wq_shards q ! j) \<longrightarrow> shard_quiet (wq_shards q' ! j))"
  using assms
proof (induction sids arbitrary: q w worked)
  case (Cons sid sids)
  obtain d q1 w1 where d: "drain_shard rocks seed now_ms sid (q, w) = (d, q1, w1)" by (metis prod_cases3)
  obtain e where e: "drain_shards rocks seed now_ms sids (q1, w1) = (e, q', w')" and worked: "worked \<longleftrightarrow> d \<or> e"
    using Cons.prems(4) d by (auto split: prod.splits)
  have sid: "sid < kRuntimeShardCount" "sid < length (wq_shards q)" using Cons.prems(1,3) by (simp_all add: queue_wf_def)
  from drain_shard_stopped [OF Cons.prems(1,2) sid(1) d] obtain s' where t: "touched sid s' q q1"
    and s': "rs_state s' = (if shard_load s' = 0 then ShardIdle else ShardQueued)"
      "shard_load s' \<le> shard_load (wq_shards q ! sid)" "d \<Longrightarrow> shard_load s' < shard_load (wq_shards q ! sid)"
      "\<not> d \<Longrightarrow> shard_load s' = 0" by metis
  have wf: "queue_wf q1" "\<not> wq_running q1" using Cons.prems(1,2) queue_wf_touched [OF t] touched_fields(4) [OF t] by simp_all
  note ih = Cons.IH [OF wf _ e]
  have load: "total_load q1 \<le> total_load q" "d \<Longrightarrow> total_load q1 < total_load q"
    using touched_load [OF t sid(2)] s'(2,3) by linarith+
  have keep: "shard_quiet (wq_shards q1 ! j)" if "j < kRuntimeShardCount" "shard_quiet (wq_shards q ! j)" for j
    using that s'(1,2) touched_fields(2) [OF t sid(2)] touched_fields(3) [OF t, of j]
    by (cases "j = sid") (auto simp: shard_quiet_load)
  have here: "\<not> d \<Longrightarrow> shard_quiet (wq_shards q1 ! sid)"
    using s'(1,4) touched_fields(2) [OF t sid(2)] by (simp add: shard_quiet_load)
  show ?case
    using ih Cons.prems(3) load keep here sid(1) worked touched_fields [OF t] by (auto intro: less_le_trans le_less_trans)
qed auto

lemma owned_less: "sid \<in> set (owned_shards n w) \<Longrightarrow> sid < kRuntimeShardCount"
  by (auto simp: owned_shards_def split: if_splits)

lemma drain_owned_shards_returns:
  assumes "queue_wf q" and "\<not> wq_running q" and "worker_id < wq_worker_count q"
  shows "\<exists>q' w'. drain_owned_shards rocks seed now_ms worker_id (q, w) = Some (q', w') \<and>
    queue_wf q' \<and> \<not> wq_running q' \<and> wq_worker_count q' = wq_worker_count q \<and> wq_workers q' = wq_workers q \<and> wq_worker_ready q' = wq_worker_ready q \<and>
    (\<forall>sid\<in>set (owned_shards (wq_worker_count q) worker_id). shard_quiet (wq_shards q' ! sid)) \<and>
    (\<forall>j<kRuntimeShardCount. shard_quiet (wq_shards q ! j) \<longrightarrow> shard_quiet (wq_shards q' ! j))"
  using assms
proof (induction "total_load q" arbitrary: q w rule: less_induct)
  case less
  obtain d q1 w1 where d: "worker_drain_owned_once rocks seed now_ms worker_id (q, w) = (d, q1, w1)" by (metis prod_cases3)
  have "wq_worker_owned_shards q ! worker_id = owned_shards (wq_worker_count q) worker_id"
    using less.prems(1,3) by (simp add: queue_wf_def)
  then have "drain_shards rocks seed now_ms (owned_shards (wq_worker_count q) worker_id) (q, w) = (d, q1, w1)"
    using d less.prems(3) by (simp add: worker_drain_owned_once_def)
  from drain_shards_stopped [OF less.prems(1,2) _ this] owned_less
  have one: "queue_wf q1" "\<not> wq_running q1" "wq_worker_count q1 = wq_worker_count q \<and> wq_workers q1 = wq_workers q" "wq_worker_ready q1 = wq_worker_ready q"
    "d \<Longrightarrow> total_load q1 < total_load q" "\<not> d \<Longrightarrow> \<forall>sid\<in>set (owned_shards (wq_worker_count q) worker_id). shard_quiet (wq_shards q1 ! sid)"
    "\<forall>j<kRuntimeShardCount. shard_quiet (wq_shards q ! j) \<longrightarrow> shard_quiet (wq_shards q1 ! j)" by blast+
  show ?case
  proof (cases d)
    case False
    then have "drain_owned_shards rocks seed now_ms worker_id (q, w) = Some (q1, w1)"
      by (simp add: drain_owned_shards.simps d)
    with one False show ?thesis by auto
  next
    case True
    then have eq: "drain_owned_shards rocks seed now_ms worker_id (q, w) = drain_owned_shards rocks seed now_ms worker_id (q1, w1)"
      by (subst drain_owned_shards.simps) (simp add: d)
    have "worker_id < wq_worker_count q1" using one(3) less.prems(3) by simp
    from less.hyps [OF one(5) [OF True] one(1,2) this, of w1] one(3,4,7) show ?thesis
      unfolding eq by metis
  qed
qed

section \<open>Stopping\<close>

lemma queue_wf_pop:
  assumes "queue_wf q" and "worker_ready_try_pop worker_id q = Some (sid, q1)"
  shows "queue_wf q1" and "sid < kRuntimeShardCount" and "wq_running q1 = wq_running q" and "wq_worker_count q1 = wq_worker_count q \<and> wq_workers q1 = wq_workers q"
    and "wq_shards q1 = wq_shards q" and "rg_count (wq_worker_ready q1 ! worker_id) < rg_count (wq_worker_ready q ! worker_id)"
proof -
  obtain r where wid: "worker_id < wq_worker_count q" and p: "ring_pop (wq_worker_ready q ! worker_id) = Some (sid, r)"
    and q1: "q1 = q\<lparr>wq_worker_ready := (wq_worker_ready q)[worker_id := r]\<rparr>"
    using assms(2) by (auto simp: worker_ready_try_pop_def split: if_splits option.splits)
  have len: "worker_id < length (wq_worker_ready q)" using assms(1) wid by (simp add: queue_wf_def)
  then have "wq_worker_ready q ! worker_id \<in> set (wq_worker_ready q)" by simp
  with assms(1) have wr: "ring_inv (wq_worker_ready q ! worker_id)" "length (rg_slots (wq_worker_ready q ! worker_id)) = kRuntimeShardCount"
      "\<forall>x\<in>set (ring_list (wq_worker_ready q ! worker_id)). x < kRuntimeShardCount"
    unfolding queue_wf_def by blast+
  note r = ring_pop_Some [OF wr(1) p] length_slots_pop [OF p]
  show "sid < kRuntimeShardCount" using wr(3) r(2) by simp
  have "ring_inv r \<and> length (rg_slots r) = kRuntimeShardCount \<and> (\<forall>x\<in>set (ring_list r). x < kRuntimeShardCount)"
    using r wr by auto
  then show "queue_wf q1"
    using assms(1) set_update_subset_insert [of "wq_worker_ready q" worker_id r] unfolding queue_wf_def q1 by auto
  show "wq_running q1 = wq_running q" "wq_worker_count q1 = wq_worker_count q \<and> wq_workers q1 = wq_workers q" "wq_shards q1 = wq_shards q"
    "rg_count (wq_worker_ready q1 ! worker_id) < rg_count (wq_worker_ready q ! worker_id)"
    using ring_pop_count [OF p] len by (simp_all add: q1)
qed

lemma process_ready_shard_stopped:
  assumes wf: "queue_wf q" and stop: "\<not> wq_running q" and sid: "sid < kRuntimeShardCount"
    and p: "process_ready_shard rocks seed now_ms worker_id sid q w = (q', w')"
  shows "queue_wf q' \<and> \<not> wq_running q' \<and> wq_worker_count q' = wq_worker_count q \<and> wq_workers q' = wq_workers q \<and> wq_worker_ready q' = wq_worker_ready q \<and>
    (\<forall>j<kRuntimeShardCount. shard_quiet (wq_shards q ! j) \<longrightarrow> shard_quiet (wq_shards q' ! j))"
proof (cases "shard_try_mark_processing worker_id sid q")
  case None
  then show ?thesis using p wf stop by (simp add: process_ready_shard_def)
next
  case (Some q1)
  then have st: "rs_state (wq_shards q ! sid) = ShardQueued" and q1: "q1 = update_shard sid (\<lambda>s. s\<lparr>rs_state := ShardProcessing\<rparr>) q"
    by (auto simp: shard_try_mark_processing_def split: if_splits)
  have t1: "touched sid ((wq_shards q ! sid)\<lparr>rs_state := ShardProcessing\<rparr>) q q1" unfolding q1 by (rule touched_update_fun)
  obtain a q2 w2 where a: "run_lookups rocks seed now_ms (wq_effective_lookup_lane_quota q1) sid q1 w = (a, q2, w2)"
    by (metis prod_cases3)
  obtain b q3 w3 where b: "run_invalidates rocks (wq_effective_invalidate_lane_quota q2) sid q2 w2 = (b, q3, w3)"
    by (metis prod_cases3)
  obtain c q4 w4 where c: "run_stores rocks seed now_ms (wq_effective_store_lane_quota q3) sid q3 w3 = (c, q4, w4)"
    by (metis prod_cases3)
  have len: "sid < length (wq_shards q1)" using wf sid touched_fields(1) [OF t1] by (simp add: queue_wf_def)
  obtain s4 where t4: "touched sid s4 q1 q4" using three_lanes [OF len sid a b c] by metis
  have q': "q' = shard_requeue_or_clear sid q4" using p by (simp add: process_ready_shard_def Some a b c)
  have "sid < length (wq_shards q4)" "\<not> wq_running q4"
    using len stop touched_fields [OF t4] touched_fields [OF t1] by simp_all
  from requeue_stopped [OF sid this] obtain s' where "touched sid s' q4 q'" unfolding q' by blast
  then have t: "touched sid s' q q'" using touched_trans [OF t1] touched_trans [OF t4] by blast
  have "shard_quiet (wq_shards q' ! j)" if "shard_quiet (wq_shards q ! j)" for j
    using that st touched_fields(3) [OF t, of j] by (cases "j = sid") (auto simp: shard_quiet_def)
  then show ?thesis using wf stop queue_wf_touched [OF t] touched_fields [OF t] by auto
qed

lemma worker_loop_stopping_returns:
  assumes "queue_wf q" and "\<not> wq_running q" and "worker_id < wq_worker_count q"
  shows "\<exists>q' w'. worker_loop_stopping rocks seed now_ms worker_id (q, w) = Some (q', w') \<and>
    queue_wf q' \<and> \<not> wq_running q' \<and> wq_worker_count q' = wq_worker_count q \<and> wq_workers q' = wq_workers q \<and>
    (\<forall>sid\<in>set (owned_shards (wq_worker_count q) worker_id). shard_quiet (wq_shards q' ! sid)) \<and>
    (\<forall>j<kRuntimeShardCount. shard_quiet (wq_shards q ! j) \<longrightarrow> shard_quiet (wq_shards q' ! j))"
  using assms
proof (induction "rg_count (wq_worker_ready q ! worker_id)" arbitrary: q w rule: less_induct)
  case less
  show ?case
  proof (cases "worker_ready_try_pop worker_id q")
    case None
    then have "worker_loop_stopping rocks seed now_ms worker_id (q, w) = drain_owned_shards rocks seed now_ms worker_id (q, w)"
      by (simp add: worker_loop_stopping.simps)
    with drain_owned_shards_returns [OF less.prems, of rocks seed now_ms w] show ?thesis by metis
  next
    case (Some p)
    then obtain sid q1 where p: "worker_ready_try_pop worker_id q = Some (sid, q1)" by (cases p) auto
    obtain q2 w2 where r: "process_ready_shard rocks seed now_ms worker_id sid q1 w = (q2, w2)" by fastforce
    note pop = queue_wf_pop [OF less.prems(1) p]
    have "\<not> wq_running q1" using pop(3) less.prems(2) by simp
    note pr = process_ready_shard_stopped [OF pop(1) this pop(2) r]
    have eq: "worker_loop_stopping rocks seed now_ms worker_id (q, w) = worker_loop_stopping rocks seed now_ms worker_id (q2, w2)"
      by (subst worker_loop_stopping.simps) (simp add: p r)
    have "rg_count (wq_worker_ready q2 ! worker_id) < rg_count (wq_worker_ready q ! worker_id)"
        "queue_wf q2" "\<not> wq_running q2" "worker_id < wq_worker_count q2"
      using pr pop(4,6) less.prems(3) by simp_all
    from less.hyps [OF this, of w2] pr pop(4,5) show ?thesis unfolding eq by metis
  qed
qed

lemma join_workers_returns:
  assumes "queue_wf q" and "\<not> wq_running q" and "\<forall>i\<in>set is. i < wq_worker_count q"
  shows "\<exists>q' w'. join_workers rocks seed now_ms is (q, w) = Some (q', w') \<and>
    queue_wf q' \<and> \<not> wq_running q' \<and> wq_worker_count q' = wq_worker_count q \<and> wq_workers q' = wq_workers q \<and>
    (\<forall>i\<in>set is. \<forall>sid\<in>set (owned_shards (wq_worker_count q) i). shard_quiet (wq_shards q' ! sid)) \<and>
    (\<forall>j<kRuntimeShardCount. shard_quiet (wq_shards q ! j) \<longrightarrow> shard_quiet (wq_shards q' ! j))"
  using assms
proof (induction "is" arbitrary: q w)
  case (Cons i "is")
  then have "i < wq_worker_count q" by simp
  from worker_loop_stopping_returns [OF Cons.prems(1,2) this, of rocks seed now_ms w]
  obtain q1 w1 where 1: "worker_loop_stopping rocks seed now_ms i (q, w) = Some (q1, w1)" "queue_wf q1" "\<not> wq_running q1"
      "wq_worker_count q1 = wq_worker_count q \<and> wq_workers q1 = wq_workers q" "\<forall>sid\<in>set (owned_shards (wq_worker_count q) i). shard_quiet (wq_shards q1 ! sid)"
      "\<forall>j<kRuntimeShardCount. shard_quiet (wq_shards q ! j) \<longrightarrow> shard_quiet (wq_shards q1 ! j)" by blast
  have "\<forall>i\<in>set is. i < wq_worker_count q1" using Cons.prems(3) 1(4) by simp
  from Cons.IH [OF 1(2,3) this, of w1] obtain q2 w2 where 2: "join_workers rocks seed now_ms is (q1, w1) = Some (q2, w2)"
      "queue_wf q2" "\<not> wq_running q2" "wq_worker_count q2 = wq_worker_count q1 \<and> wq_workers q2 = wq_workers q1"
      "\<forall>i\<in>set is. \<forall>sid\<in>set (owned_shards (wq_worker_count q1) i). shard_quiet (wq_shards q2 ! sid)"
      "\<forall>j<kRuntimeShardCount. shard_quiet (wq_shards q1 ! j) \<longrightarrow> shard_quiet (wq_shards q2 ! j)" by blast
  have "join_workers rocks seed now_ms (i # is) (q, w) = Some (q2, w2)" by (simp add: 1(1) 2(1))
  then show ?case using 1 2 owned_less by (intro exI [of _ q2] exI [of _ w2]) auto
qed auto

lemma owned_by: "sid < kRuntimeShardCount \<Longrightarrow> 0 < n \<Longrightarrow> sid \<in> set (owned_shards n (sid mod n))"
  by (simp add: owned_shards_def)

lemma hash_key_to_shard_less: "hash_key_to_shard seed key < kRuntimeShardCount"
  by (simp add: hash_key_to_shard_def queue_limits)

text \<open>A queue as the process allocates it, and the queue its initialisation gives.\<close>

lemma init_wf:
  assumes "worker_queue_init malloc_ok (Some WorkerQueue_default) config = Inr q"
  shows "queue_wf q" and "\<not> wq_running q" and "wq_shards q = replicate kRuntimeShardCount (init_shard RuntimeShard_default)"
    and "wq_worker_ready q = wq_worker_ready WorkerQueue_default"
  using assms
  by (auto simp: worker_queue_init_def Let_def queue_wf_def release_body_pools_def WorkerQueue_default_def RuntimeShard_default_def
      init_shard_def ring_inv_def ring_reset_def ring_list_def queue_limits map_replicate_const split: if_splits)

text \<open>The threads a start makes joinable.\<close>

lemma length_fold_set: "length (fold (\<lambda>i ws. ws[i := b]) is ws) = length ws"
  by (induction "is" arbitrary: ws) simp_all

lemma nth_fold_set: "j < n \<Longrightarrow> n \<le> length ws \<Longrightarrow> fold (\<lambda>i ws. ws[i := b]) [0..<n] ws ! j = b"
  by (induction n) (auto simp: nth_list_update length_fold_set)

definition workers_started :: "WorkerQueue \<Rightarrow> bool" where
  "workers_started q \<longleftrightarrow> list_all (\<lambda>i. wq_workers q ! i) [0..<wq_worker_count q]"

lemma init_workers:
  assumes "worker_queue_init malloc_ok (Some WorkerQueue_default) config = Inr q"
  shows "wq_workers q = replicate kWorkerQueueMaxWorkers False"
  using assms by (auto simp: worker_queue_init_def Let_def release_body_pools_def WorkerQueue_default_def split: if_splits)

lemma start_workers:
  assumes "worker_queue_start (Some q0) = Inr q" and "queue_wf q0" and "length (wq_workers q0) = kWorkerQueueMaxWorkers"
  shows "workers_started q" and "queue_wf q" and "wq_running q" and "wq_shards q = wq_shards q0"
    and "wq_worker_ready q = wq_worker_ready q0"
proof -
  have q: "q = q0\<lparr>wq_running := True, wq_workers := fold (\<lambda>i ws. ws[i := True]) [0..<wq_worker_count q0] (wq_workers q0)\<rparr>"
    using assms(1) by (simp add: worker_queue_start_def split: if_splits)
  show "workers_started q"
    using assms(2,3) by (auto simp: q workers_started_def list_all_iff queue_wf_def nth_fold_set)
qed (use assms(1,2) in \<open>auto simp: worker_queue_start_def queue_wf_def split: if_splits\<close>)

text \<open>
  (C5) Shutdown of a started queue ends and leaves nothing behind: for every well-formed queue whose worker threads have
  been started and not joined yet, every content of the lanes and ready queues, every storage behaviour and cache
  content, the joins of \<open>worker_queue_shutdown\<close> return (neither the worker's loop nor its drain can run forever),
  and afterwards the queue does not run, no thread is left to join, and every shard is idle with its lookup, store
  and invalidate lanes empty. The threads run to their end one after the other, in the order of the joins. Without
  started threads nothing is drained: \<open>shutdown_without_threads\<close> says so.
\<close>

theorem worker_shutdown_drains:
  assumes "queue_wf q" and "workers_started q" and "length (wq_workers q) = kWorkerQueueMaxWorkers"
  shows "\<exists>q' w'. worker_queue_shutdown rocks seed now_ms (Some q) w = Some (Some q', w') \<and> \<not> wq_running q' \<and>
    length (wq_shards q') = kRuntimeShardCount \<and> (\<forall>i<wq_worker_count q. \<not> wq_workers q' ! i) \<and>
    (\<forall>s\<in>set (wq_shards q'). \<not> shard_has_pending_work s \<and> rs_state s = ShardIdle)"
proof -
  have wf: "queue_wf (q\<lparr>wq_running := False\<rparr>)" and n: "0 < wq_worker_count q" using assms by (simp_all add: queue_wf_def)
  have all: "filter (\<lambda>i. wq_workers q ! i) [0..<wq_worker_count q] = [0..<wq_worker_count q]"
    using assms(2) by (auto simp: workers_started_def list_all_iff intro: filter_True)
  obtain q' w' where j: "join_workers rocks seed now_ms [0..<wq_worker_count q] (q\<lparr>wq_running := False\<rparr>, w) = Some (q', w')"
    and q': "queue_wf q'" "\<not> wq_running q'" "wq_workers q' = wq_workers q"
      "\<forall>i<wq_worker_count q. \<forall>sid\<in>set (owned_shards (wq_worker_count q) i). shard_quiet (wq_shards q' ! sid)"
    using join_workers_returns [OF wf, of "[0..<wq_worker_count q]" rocks seed now_ms w] by auto
  have "shard_quiet (wq_shards q' ! sid)" if "sid < kRuntimeShardCount" for sid
    using q'(4) owned_by [OF that n] mod_less_divisor [OF n, of sid] by blast
  then have "\<forall>s\<in>set (wq_shards q'). shard_quiet s" using q'(1) by (auto simp: in_set_conv_nth queue_wf_def)
  then have quiet: "\<forall>s\<in>set (wq_shards (release_body_pools (q'\<lparr>wq_workers := ws\<rparr>))). shard_quiet s" for ws
    by (auto simp: release_body_pools_def shard_quiet_def shard_has_pending_work_def)
  have "wq_worker_count q \<le> kWorkerQueueMaxWorkers" using assms(1) by (simp add: queue_wf_def)
  then have "\<not> fold (\<lambda>i ws. ws[i := False]) [0..<wq_worker_count q] (wq_workers q') ! i" if "i < wq_worker_count q" for i
    using that assms(3) q'(3) by (simp add: nth_fold_set)
  then have cleared: "\<forall>i<wq_worker_count q. \<not> fold (\<lambda>i ws. ws[i := False]) [0..<wq_worker_count q] (wq_workers q') ! i" by blast
  let ?q = "release_body_pools (q'\<lparr>wq_workers := fold (\<lambda>i ws. ws[i := False]) [0..<wq_worker_count q] (wq_workers q')\<rparr>)"
  have "worker_queue_shutdown rocks seed now_ms (Some q) w = Some (Some ?q, w')"
    by (simp add: worker_queue_shutdown_def all j)
  moreover have "\<not> wq_running ?q" "length (wq_shards ?q) = kRuntimeShardCount" "\<forall>i<wq_worker_count q. \<not> wq_workers ?q ! i"
    using q'(1,2) cleared by (simp_all add: release_body_pools_def queue_wf_def)
  moreover have "\<forall>s\<in>set (wq_shards ?q). \<not> shard_has_pending_work s \<and> rs_state s = ShardIdle"
    using quiet by (simp add: shard_quiet_def)
  ultimately show ?thesis by blast
qed

text \<open>With no joinable thread, \<open>worker_queue_shutdown\<close> only stops the queue and frees the body pools.\<close>

lemma shutdown_without_threads:
  assumes "list_all (\<lambda>i. \<not> wq_workers q ! i) [0..<wq_worker_count q]"
  shows "worker_queue_shutdown rocks seed now_ms (Some q) w = Some (Some (release_body_pools (q\<lparr>wq_running := False\<rparr>)), w)"
proof -
  have none: "filter (\<lambda>i. wq_workers q ! i) [0..<wq_worker_count q] = []"
    using assms by (simp add: filter_empty_conv list_all_iff)
  show ?thesis by (simp add: worker_queue_shutdown_def none)
qed

theorem worker_shutdown_drains_witness:
  "\<exists>q0 q q' w'. worker_queue_init True (Some WorkerQueue_default) WorkerQueueConfig_default = Inr q0 \<and>
     worker_queue_start (Some q0) = Inr q \<and>
     (let q1 = update_shard 5 (\<lambda>s. s\<lparr>rs_invalidate := ring_push \<lparr>ij_key = ''k'', ij_key_hash = 0, ij_enqueued_at_ms = 1\<rparr> (rs_invalidate s),
                                    rs_state := ShardQueued\<rparr>) q
      in shard_has_pending_work (wq_shards q1 ! 5) \<and>
         worker_queue_shutdown \<lparr>db_get = \<lambda>m k. DbNotFound, db_put = \<lambda>m k v. (True, m), db_delete = \<lambda>m k. (True, m)\<rparr>
           \<lparr>k0 = 1, k1 = 2\<rparr> 7 (Some q1)
           \<lparr>wr_l2_cache = Some (), wr_l1_cache = None, wr_runtime_metrics = None, wr_coalescing_metrics = None,
            wr_cache_metrics = None, wr_registry = None\<rparr> = Some (Some q', w') \<and>
         \<not> shard_has_pending_work (wq_shards q' ! 5))"
proof -
  obtain q0 where q0: "worker_queue_init True (Some WorkerQueue_default) WorkerQueueConfig_default = Inr q0"
    by (simp add: worker_queue_init_def WorkerQueueConfig_default_def queue_limits kAsyncL2StoreAbsoluteMaxBodySize_def
        kAsyncL2StoreDefaultMaxBodySize_def kL2MaxBodySize_def Let_def)
  obtain q where st: "worker_queue_start (Some q0) = Inr q" using init_wf(2) [OF q0] by (simp add: worker_queue_start_def)
  have l0: "length (wq_workers q0) = kWorkerQueueMaxWorkers" by (simp add: init_workers [OF q0])
  note q = start_workers [OF st init_wf(1) [OF q0] l0]
  have lq: "length (wq_workers q) = kWorkerQueueMaxWorkers"
    using st l0 by (auto simp: worker_queue_start_def length_fold_set split: if_splits)
  let ?f = "\<lambda>s. s\<lparr>rs_invalidate := ring_push \<lparr>ij_key = ''k'', ij_key_hash = 0, ij_enqueued_at_ms = 1\<rparr> (rs_invalidate s), rs_state := ShardQueued\<rparr>"
  let ?q = "update_shard 5 ?f q"
  have wf: "queue_wf ?q" using q(2) queue_wf_touched [OF touched_update_fun] by blast
  have ws: "workers_started ?q" "length (wq_workers ?q) = kWorkerQueueMaxWorkers"
    using q(1) lq by (simp_all add: workers_started_def update_shard_def)
  have len: "length (wq_shards q) = 256" using q(2) by (simp add: queue_wf_def queue_limits)
  obtain q' w' where r: "worker_queue_shutdown \<lparr>db_get = \<lambda>m k. DbNotFound, db_put = \<lambda>m k v. (True, m), db_delete = \<lambda>m k. (True, m)\<rparr>
           \<lparr>k0 = 1, k1 = 2\<rparr> 7 (Some ?q)
           \<lparr>wr_l2_cache = Some (), wr_l1_cache = None, wr_runtime_metrics = None, wr_coalescing_metrics = None,
            wr_cache_metrics = None, wr_registry = None\<rparr> = Some (Some q', w')"
    and q': "length (wq_shards q') = 256" "\<forall>s\<in>set (wq_shards q'). \<not> shard_has_pending_work s \<and> rs_state s = ShardIdle"
    using worker_shutdown_drains [OF wf ws] unfolding queue_limits by blast
  show ?thesis
    by (rule exI [of _ q0], rule exI [of _ q], rule exI [of _ q'], rule exI [of _ w'])
      (use q0 st r q' len in \<open>simp add: Let_def update_shard_def shard_has_pending_work_def ring_push_def\<close>)
qed

end
