(* ===== verification/Worker_Wakeup.thy ===== *)
theory Worker_Wakeup
  imports Worker_Drain "HOL-Library.Multiset"
begin

text \<open>
  The threads of the worker queue: request threads that enqueue, and one thread per worker that takes a shard from
  its ready queue, marks it, runs jobs and requeues or clears it. A step is one critical section, and steps
  of different threads interleave freely. A push that follows a critical section is a step of its own; between the
  two the shard is in the multiset of due pushes. The invariant is that a shard is scheduled exactly once
  while it is queued, so that no work waits in a shard that no worker will look at.
\<close>

section \<open>The system\<close>

datatype worker_pc = Waiting | Took nat | Working nat

record system =
  sy_queue :: WorkerQueue
  sy_due :: "nat multiset"
  sy_pc :: "nat \<Rightarrow> worker_pc"

definition due_if :: "bool \<Rightarrow> nat \<Rightarrow> nat multiset" where
  "due_if push sid = (if push then {#sid#} else {#})"

inductive wq_step :: "HashSeed \<Rightarrow> system \<Rightarrow> system \<Rightarrow> bool" for seed :: HashSeed where
  enqueue_lookup:
    "\<lbrakk>wq_running (sy_queue \<sigma>); enqueue_lookup_locked seed now_ms job (sy_queue \<sigma>) m = (ok, push, q', m')\<rbrakk> \<Longrightarrow>
     wq_step seed \<sigma> (\<sigma>\<lparr>sy_queue := q', sy_due := sy_due \<sigma> + due_if push (hash_key_to_shard seed (lj_key job))\<rparr>)"
| enqueue_store:
    "\<lbrakk>wq_running (sy_queue \<sigma>); enqueue_store_locked seed now_ms sjob (sy_queue \<sigma>) m = (ok, push, q', m')\<rbrakk> \<Longrightarrow>
     wq_step seed \<sigma> (\<sigma>\<lparr>sy_queue := q', sy_due := sy_due \<sigma> + due_if push (hash_key_to_shard seed (sj_key sjob))\<rparr>)"
| enqueue_invalidate:
    "\<lbrakk>wq_running (sy_queue \<sigma>);
      enqueue_invalidate_locked seed clock_ms now_ms key (sy_queue \<sigma>) m cm = (ok, push, q', m', cm')\<rbrakk> \<Longrightarrow>
     wq_step seed \<sigma> (\<sigma>\<lparr>sy_queue := q', sy_due := sy_due \<sigma> + due_if push (hash_key_to_shard seed key)\<rparr>)"
| push: "sid \<in># sy_due \<sigma> \<Longrightarrow>
     wq_step seed \<sigma> (\<sigma>\<lparr>sy_queue := push_owner sid (sy_queue \<sigma>), sy_due := sy_due \<sigma> - {#sid#}\<rparr>)"
| take_ready: "\<lbrakk>sy_pc \<sigma> w = Waiting; worker_ready_try_pop w (sy_queue \<sigma>) = Some (sid, q')\<rbrakk> \<Longrightarrow>
     wq_step seed \<sigma> (\<sigma>\<lparr>sy_queue := q', sy_pc := (sy_pc \<sigma>)(w := Took sid)\<rparr>)"
| mark: "\<lbrakk>sy_pc \<sigma> w = Took sid; shard_try_mark_processing w sid (sy_queue \<sigma>) = Some q'\<rbrakk> \<Longrightarrow>
     wq_step seed \<sigma> (\<sigma>\<lparr>sy_queue := q', sy_pc := (sy_pc \<sigma>)(w := Working sid)\<rparr>)"
| mark_refused: "\<lbrakk>sy_pc \<sigma> w = Took sid; shard_try_mark_processing w sid (sy_queue \<sigma>) = None\<rbrakk> \<Longrightarrow>
     wq_step seed \<sigma> (\<sigma>\<lparr>sy_pc := (sy_pc \<sigma>)(w := Waiting)\<rparr>)"
| pop_lookup: "\<lbrakk>sy_pc \<sigma> w = Working sid; shard_try_pop_lookup_job sid (sy_queue \<sigma>) = Some (job, q')\<rbrakk> \<Longrightarrow>
     wq_step seed \<sigma> (\<sigma>\<lparr>sy_queue := q'\<rparr>)"
| pop_store: "\<lbrakk>sy_pc \<sigma> w = Working sid; shard_try_pop_store_job sid (sy_queue \<sigma>) = Some (sjob, q')\<rbrakk> \<Longrightarrow>
     wq_step seed \<sigma> (\<sigma>\<lparr>sy_queue := q'\<rparr>)"
| pop_invalidate: "\<lbrakk>sy_pc \<sigma> w = Working sid; shard_try_pop_invalidate_job sid (sy_queue \<sigma>) = Some (ijob, q')\<rbrakk> \<Longrightarrow>
     wq_step seed \<sigma> (\<sigma>\<lparr>sy_queue := q'\<rparr>)"
| lookup_done: "sy_pc \<sigma> w = Working sid \<Longrightarrow>
     wq_step seed \<sigma> (\<sigma>\<lparr>sy_queue := update_shard sid (\<lambda>s. shard_pending_clear s key hash) (sy_queue \<sigma>)\<rparr>)"
| store_done: "sy_pc \<sigma> w = Working sid \<Longrightarrow>
     wq_step seed \<sigma> (\<sigma>\<lparr>sy_queue := (update_shard sid (free_slot slot) (sy_queue \<sigma>))\<lparr>wq_store_body_pool_bytes_in_use := b\<rparr>\<rparr>)"
| requeue: "\<lbrakk>sy_pc \<sigma> w = Working sid; requeue_locked sid (sy_queue \<sigma>) = (push, q')\<rbrakk> \<Longrightarrow>
     wq_step seed \<sigma> (\<sigma>\<lparr>sy_queue := q', sy_due := sy_due \<sigma> + due_if push sid, sy_pc := (sy_pc \<sigma>)(w := Waiting)\<rparr>)"

inductive_cases wq_stepE: "wq_step seed \<sigma> \<sigma>'"

section \<open>The invariant\<close>

definition owner :: "WorkerQueue \<Rightarrow> nat \<Rightarrow> nat" where
  "owner q sid = sid mod wq_worker_count q"

text \<open>How often a shard waits to be looked at.\<close>

definition scheduled :: "system \<Rightarrow> nat \<Rightarrow> nat" where
  "scheduled \<sigma> sid = (let q = sy_queue \<sigma> in
     count_list (ring_list (wq_worker_ready q ! owner q sid)) sid + count (sy_due \<sigma>) sid + of_bool (sy_pc \<sigma> (owner q sid) = Took sid))"

definition shard_ok :: "system \<Rightarrow> nat \<Rightarrow> bool" where
  "shard_ok \<sigma> sid = (let s = wq_shards (sy_queue \<sigma>) ! sid in
     scheduled \<sigma> sid = of_bool (rs_state s = ShardQueued) \<and>
     (sy_pc \<sigma> (owner (sy_queue \<sigma>) sid) = Working sid \<longleftrightarrow> rs_state s = ShardProcessing) \<and>
     (rs_state s = ShardIdle \<longrightarrow> shard_load s = 0))"

definition system_inv :: "system \<Rightarrow> bool" where
  "system_inv \<sigma> \<longleftrightarrow> (let q = sy_queue \<sigma> in
     queue_wf q \<and> wq_running q \<and>
     (\<forall>w<wq_worker_count q. \<forall>sid\<in>set (ring_list (wq_worker_ready q ! w)). owner q sid = w) \<and>
     (\<forall>sid. sid \<in># sy_due \<sigma> \<longrightarrow> sid < kRuntimeShardCount) \<and>
     (\<forall>w sid. sy_pc \<sigma> w = Took sid \<or> sy_pc \<sigma> w = Working sid \<longrightarrow> owner q sid = w \<and> sid < kRuntimeShardCount) \<and>
     (\<forall>sid<kRuntimeShardCount. shard_ok \<sigma> sid))"

text \<open>A step that touches one shard and possibly the due pushes and the state of its owner.\<close>

lemma system_inv_touched:
  assumes inv: "system_inv \<sigma>" and t: "touched sid s' (sy_queue \<sigma>) q'" and sid: "sid < kRuntimeShardCount"
    and pc: "pc' = (sy_pc \<sigma>)(owner (sy_queue \<sigma>) sid := p)" "p = sy_pc \<sigma> (owner (sy_queue \<sigma>) sid) \<or> p \<in> {Waiting, Took sid, Working sid}"
    and old: "p \<noteq> sy_pc \<sigma> (owner (sy_queue \<sigma>) sid) \<Longrightarrow> sy_pc \<sigma> (owner (sy_queue \<sigma>) sid) \<in> {Waiting, Took sid, Working sid}"
    and ok: "shard_ok \<lparr>sy_queue = q', sy_due = sy_due \<sigma> + due_if push sid, sy_pc = pc'\<rparr> sid"
  shows "system_inv \<lparr>sy_queue = q', sy_due = sy_due \<sigma> + due_if push sid, sy_pc = pc'\<rparr>"
proof -
  let ?q = "sy_queue \<sigma>"
  note f = touched_fields [OF t]
  have own: "owner q' j = owner ?q j" for j by (simp add: owner_def f)
  have "shard_ok \<lparr>sy_queue = q', sy_due = sy_due \<sigma> + due_if push sid, sy_pc = pc'\<rparr> j" if "j < kRuntimeShardCount" for j
  proof (cases "j = sid")
    case False
    have "shard_ok \<sigma> j" using inv that by (simp add: system_inv_def Let_def)
    moreover have "pc' (owner ?q j) = Took j \<longleftrightarrow> sy_pc \<sigma> (owner ?q j) = Took j"
        "pc' (owner ?q j) = Working j \<longleftrightarrow> sy_pc \<sigma> (owner ?q j) = Working j"
      using pc old False by (auto split: if_splits)
    ultimately show ?thesis
      using False by (simp add: shard_ok_def scheduled_def Let_def own f due_if_def)
  qed (use ok in simp)
  moreover have "\<forall>w x. pc' w = Took x \<or> pc' w = Working x \<longrightarrow> owner ?q x = w \<and> x < kRuntimeShardCount"
    using inv pc sid by (auto simp: system_inv_def Let_def split: if_splits)
  ultimately show ?thesis
    using inv sid by (auto simp: system_inv_def Let_def own f queue_wf_touched [OF t] due_if_def split: if_splits)
qed

lemma system_inv_parts:
  assumes "system_inv \<sigma>"
  shows "queue_wf (sy_queue \<sigma>)" and "wq_running (sy_queue \<sigma>)"
    and "sid < kRuntimeShardCount \<Longrightarrow> shard_ok \<sigma> sid" and "sid \<in># sy_due \<sigma> \<Longrightarrow> sid < kRuntimeShardCount"
    and "sid < kRuntimeShardCount \<Longrightarrow> sid < length (wq_shards (sy_queue \<sigma>))"
    and "sy_pc \<sigma> w = Took sid \<Longrightarrow> w = owner (sy_queue \<sigma>) sid \<and> sid < kRuntimeShardCount"
    and "sy_pc \<sigma> w = Working sid \<Longrightarrow> w = owner (sy_queue \<sigma>) sid \<and> sid < kRuntimeShardCount"
  using assms by (auto simp: system_inv_def Let_def queue_wf_def)

section \<open>Enqueueing keeps it\<close>

definition enqueue_effect :: "nat \<Rightarrow> bool \<Rightarrow> WorkerQueue \<Rightarrow> WorkerQueue \<Rightarrow> bool" where
  "enqueue_effect sid push q q' \<longleftrightarrow> (\<exists>s'. touched sid s' q q' \<and>
     (if push then rs_state (wq_shards q ! sid) = ShardIdle \<and> rs_state s' = ShardQueued
      else rs_state s' = rs_state (wq_shards q ! sid) \<and>
           (rs_state s' = ShardIdle \<longrightarrow> shard_load s' = shard_load (wq_shards q ! sid))))"

lemma enqueue_effect_wake:
  "wake s = (push, s') \<Longrightarrow> rs_state s = rs_state (wq_shards q ! sid) \<Longrightarrow> touched sid s' q q' \<Longrightarrow>
   enqueue_effect sid push q q'"
  by (auto simp: enqueue_effect_def wake_def split: if_splits)

lemma enqueue_effect_none: "sid < length (wq_shards q) \<Longrightarrow> enqueue_effect sid False q q"
  using touched_refl by (auto simp: enqueue_effect_def)

lemma pending_mark_fields:
  assumes "shard_pending_try_mark s k h = Some s1"
  shows "rs_lookup s1 = rs_lookup s" "rs_invalidate s1 = rs_invalidate s" "rs_store s1 = rs_store s" "rs_state s1 = rs_state s"
  using assms by (auto simp: shard_pending_try_mark_def split: if_splits option.splits)

lemma enqueue_lookup_effect:
  assumes "enqueue_lookup_locked seed now_ms job q m = (ok, push, q', m')" and "length (wq_shards q) = kRuntimeShardCount"
  shows "enqueue_effect (hash_key_to_shard seed (lj_key job)) push q q'"
proof -
  let ?i = "hash_key_to_shard seed (lj_key job)" and ?h = "fold_hash seed (lj_key job)"
  let ?s = "wq_shards q ! ?i"
  have len: "?i < length (wq_shards q)" using assms(2) hash_key_to_shard_less by simp
  show ?thesis
  proof (cases "shard_pending_try_mark ?s (lj_key job) ?h")
    case None
    then show ?thesis using assms(1) enqueue_effect_none [OF len] by (simp add: enqueue_lookup_locked_def Let_def)
  next
    case (Some s1)
    note f = pending_mark_fields [OF Some]
    show ?thesis
    proof (cases "rg_count (rs_lookup s1) \<ge> kRuntimeQueueSlotsPerShard")
      case True
      then have "push = False" "q' = update_shard ?i (\<lambda>_. shard_pending_clear s1 (lj_key job) ?h) q"
        using assms(1) Some by (simp_all add: enqueue_lookup_locked_def Let_def)
      then show ?thesis
        using touched_update by (auto simp: enqueue_effect_def f shard_load_def intro!: exI [of _ "shard_pending_clear s1 (lj_key job) ?h"])
    next
      case False
      let ?s2 = "s1\<lparr>rs_lookup := ring_push (job\<lparr>lj_key_hash := ?h, lj_enqueued_at_ms := now_ms\<rparr>) (rs_lookup s1)\<rparr>"
      obtain p s2 where w: "wake ?s2 = (p, s2)" by fastforce
      then have "push = p" "q' = update_shard ?i (\<lambda>_. s2) q"
        using assms(1) Some False by (simp_all add: enqueue_lookup_locked_def Let_def)
      then show ?thesis using enqueue_effect_wake [OF w, of q ?i q'] f by simp
    qed
  qed
qed

lemma enqueue_store_effect:
  assumes "enqueue_store_locked seed now_ms job q m = (ok, push, q', m')" and "length (wq_shards q) = kRuntimeShardCount"
  shows "enqueue_effect (hash_key_to_shard seed (sj_key job)) push q q'"
proof -
  let ?i = "hash_key_to_shard seed (sj_key job)"
  let ?s = "wq_shards q ! ?i"
  have len: "?i < length (wq_shards q)" using assms(2) hash_key_to_shard_less by simp
  show ?thesis
  proof (cases "ok")
    case False
    then have "q' = q" "push = False" using assms(1)
      by (auto simp: enqueue_store_locked_def Let_def split: option.splits if_splits prod.splits)
    then show ?thesis using enqueue_effect_none [OF len] by simp
  next
    case True
    then obtain slot b s2 where w: "wake (put_store_job now_ms slot job ?s) = (push, s2)"
      and q': "q' = (update_shard ?i (\<lambda>_. s2) q)\<lparr>wq_store_body_pool_bytes_in_use := b\<rparr>"
      using assms(1) by (auto simp: enqueue_store_locked_def Let_def split: option.splits if_splits prod.splits)
    have "touched ?i s2 q q'" unfolding q' by (rule touched_bytes) simp
    then show ?thesis using enqueue_effect_wake [OF w, of q ?i q'] by (simp add: put_store_job_def Let_def)
  qed
qed

lemma enqueue_invalidate_effect:
  assumes "enqueue_invalidate_locked seed clock_ms now_ms key q m cm = (ok, push, q', m', cm')"
    and "length (wq_shards q) = kRuntimeShardCount"
  shows "enqueue_effect (hash_key_to_shard seed key) push q q'"
proof -
  let ?i = "hash_key_to_shard seed key"
  let ?s = "wq_shards q ! ?i"
  have len: "?i < length (wq_shards q)" using assms(2) hash_key_to_shard_less by simp
  show ?thesis
  proof (cases "ok")
    case False
    then have "q' = q" "push = False" using assms(1)
      by (auto simp: enqueue_invalidate_locked_def Let_def split: if_splits prod.splits)
    then show ?thesis using enqueue_effect_none [OF len] by simp
  next
    case True
    then obtain j s2 where w: "wake (?s\<lparr>rs_invalidate := ring_push j (rs_invalidate ?s)\<rparr>) = (push, s2)"
      and q': "q' = update_shard ?i (\<lambda>_. s2) q"
      using assms(1) by (auto simp: enqueue_invalidate_locked_def Let_def split: if_splits prod.splits)
    show ?thesis using enqueue_effect_wake [OF w, of q ?i q'] by (simp add: q')
  qed
qed

lemma system_inv_enqueue:
  assumes inv: "system_inv \<sigma>" and e: "enqueue_effect sid push (sy_queue \<sigma>) q'" and sid: "sid < kRuntimeShardCount"
  shows "system_inv (\<sigma>\<lparr>sy_queue := q', sy_due := sy_due \<sigma> + due_if push sid\<rparr>)"
proof -
  let ?q = "sy_queue \<sigma>"
  obtain s' where t: "touched sid s' ?q q'" and s': "if push then rs_state (wq_shards ?q ! sid) = ShardIdle \<and> rs_state s' = ShardQueued
      else rs_state s' = rs_state (wq_shards ?q ! sid) \<and> (rs_state s' = ShardIdle \<longrightarrow> shard_load s' = shard_load (wq_shards ?q ! sid))"
    using e by (auto simp: enqueue_effect_def)
  note at = touched_fields(2) [OF t system_inv_parts(5) [OF inv sid]]
  have own: "owner q' sid = owner ?q sid" by (simp add: owner_def touched_fields [OF t])
  have "system_inv \<lparr>sy_queue = q', sy_due = sy_due \<sigma> + due_if push sid, sy_pc = sy_pc \<sigma>\<rparr>"
  proof (rule system_inv_touched [OF inv t sid])
    show "sy_pc \<sigma> = (sy_pc \<sigma>)(owner ?q sid := sy_pc \<sigma> (owner ?q sid))" by simp
    show "shard_ok \<lparr>sy_queue = q', sy_due = sy_due \<sigma> + due_if push sid, sy_pc = sy_pc \<sigma>\<rparr> sid"
      using system_inv_parts(3) [OF inv sid] s' unfolding shard_ok_def scheduled_def Let_def
      by (auto simp: at own touched_fields(7) [OF t] due_if_def split: if_splits)
  qed simp_all
  then show ?thesis by (cases \<sigma>) simp
qed

section \<open>The ready queues\<close>

lemma distinct_count_list: "(\<And>x. count_list xs x \<le> 1) \<Longrightarrow> distinct xs"
proof (induction xs)
  case (Cons a xs)
  have "count_list xs x \<le> 1" for x using Cons.prems [of x] by (simp split: if_splits)
  moreover have "a \<notin> set xs" using Cons.prems [of a] by (simp add: count_list_0_iff)
  ultimately show ?case using Cons.IH by simp
qed simp

lemma ready_ring:
  assumes "system_inv \<sigma>" and "w < wq_worker_count (sy_queue \<sigma>)"
  shows "ring_inv (wq_worker_ready (sy_queue \<sigma>) ! w)" and "length (rg_slots (wq_worker_ready (sy_queue \<sigma>) ! w)) = kRuntimeShardCount"
    and "w < length (wq_worker_ready (sy_queue \<sigma>))"
    and "sid \<in> set (ring_list (wq_worker_ready (sy_queue \<sigma>) ! w)) \<Longrightarrow> sid < kRuntimeShardCount \<and> owner (sy_queue \<sigma>) sid = w"
proof -
  show w: "w < length (wq_worker_ready (sy_queue \<sigma>))" using assms by (simp add: system_inv_def queue_wf_def Let_def)
  then have "wq_worker_ready (sy_queue \<sigma>) ! w \<in> set (wq_worker_ready (sy_queue \<sigma>))" by simp
  then show "ring_inv (wq_worker_ready (sy_queue \<sigma>) ! w)" "length (rg_slots (wq_worker_ready (sy_queue \<sigma>) ! w)) = kRuntimeShardCount"
    "sid \<in> set (ring_list (wq_worker_ready (sy_queue \<sigma>) ! w)) \<Longrightarrow> sid < kRuntimeShardCount \<and> owner (sy_queue \<sigma>) sid = w"
    using assms unfolding system_inv_def queue_wf_def Let_def by blast+
qed

lemma owner_less: "queue_wf q \<Longrightarrow> owner q sid < wq_worker_count q"
  by (simp add: owner_def queue_wf_def)

text \<open>A shard with a due push is in no ready queue, and there is room for it.\<close>

lemma ready_room:
  assumes inv: "system_inv \<sigma>" and due: "sid \<in># sy_due \<sigma>"
  defines "r \<equiv> wq_worker_ready (sy_queue \<sigma>) ! owner (sy_queue \<sigma>) sid"
  shows "sid \<notin> set (ring_list r)" and "rg_count r < kRuntimeShardCount"
proof -
  let ?q = "sy_queue \<sigma>"
  have ow: "owner ?q sid < wq_worker_count ?q" by (rule owner_less [OF system_inv_parts(1) [OF inv]])
  note rr = ready_ring(4) [OF inv ow, folded r_def]
  have one: "count_list (ring_list r) x + count (sy_due \<sigma>) x \<le> 1" if "x < kRuntimeShardCount" "owner ?q x = owner ?q sid" for x
  proof -
    have "scheduled \<sigma> x \<le> 1" using system_inv_parts(3) [OF inv that(1)] by (simp add: shard_ok_def Let_def)
    then show ?thesis by (simp add: scheduled_def Let_def that(2) r_def)
  qed
  have "count (sy_due \<sigma>) sid > 0" using due by simp
  then have "count_list (ring_list r) sid = 0" using one [OF system_inv_parts(4) [OF inv due] refl] by linarith
  then show notin: "sid \<notin> set (ring_list r)" by (simp add: count_list_0_iff)
  have "count_list (ring_list r) x \<le> 1" for x
  proof (cases "x \<in> set (ring_list r)")
    case True
    then show ?thesis using one [of x] rr by (meson add_leD1)
  qed (simp add: count_notin)
  then have "distinct (ring_list r)" by (rule distinct_count_list)
  moreover have "set (ring_list r) \<subseteq> {..<kRuntimeShardCount} - {sid}" using rr notin by auto
  then have "card (set (ring_list r)) \<le> card ({..<kRuntimeShardCount} - {sid})" by (intro card_mono) simp_all
  ultimately show "rg_count r < kRuntimeShardCount"
    using system_inv_parts(4) [OF inv due] by (simp add: distinct_card)
qed

text \<open>A step that replaces one ready queue.\<close>

lemma system_inv_ready:
  assumes inv: "system_inv \<sigma>" and w: "w < wq_worker_count (sy_queue \<sigma>)" and r: "ring_inv r'" "length (rg_slots r') = kRuntimeShardCount"
    and elems: "\<And>x. x \<in> set (ring_list r') \<Longrightarrow> x < kRuntimeShardCount \<and> owner (sy_queue \<sigma>) x = w"
    and due: "\<And>x. x \<in># due' \<Longrightarrow> x < kRuntimeShardCount"
    and pc: "\<And>x. p = Took x \<Longrightarrow> x < kRuntimeShardCount \<and> owner (sy_queue \<sigma>) x = w" "\<And>x. p = Working x \<longleftrightarrow> sy_pc \<sigma> w = Working x"
    and cnt: "\<And>x. owner (sy_queue \<sigma>) x = w \<Longrightarrow> count_list (ring_list r') x + count due' x + of_bool (p = Took x) =
                count_list (ring_list (wq_worker_ready (sy_queue \<sigma>) ! w)) x + count (sy_due \<sigma>) x + of_bool (sy_pc \<sigma> w = Took x)"
      "\<And>x. owner (sy_queue \<sigma>) x \<noteq> w \<Longrightarrow> count due' x = count (sy_due \<sigma>) x"
  shows "system_inv \<lparr>sy_queue = (sy_queue \<sigma>)\<lparr>wq_worker_ready := (wq_worker_ready (sy_queue \<sigma>))[w := r']\<rparr>,
    sy_due = due', sy_pc = (sy_pc \<sigma>)(w := p)\<rparr>"
proof -
  let ?q = "sy_queue \<sigma>" and ?q' = "(sy_queue \<sigma>)\<lparr>wq_worker_ready := (wq_worker_ready (sy_queue \<sigma>))[w := r']\<rparr>"
  have len: "w < length (wq_worker_ready ?q)" by (rule ready_ring(3) [OF inv w])
  have own [simp]: "owner ?q' x = owner ?q x" for x by (simp add: owner_def)
  have "queue_wf ?q'"
    using system_inv_parts(1) [OF inv] r elems set_update_subset_insert [of "wq_worker_ready ?q" w r'] unfolding queue_wf_def by auto
  moreover have "shard_ok \<lparr>sy_queue = ?q', sy_due = due', sy_pc = (sy_pc \<sigma>)(w := p)\<rparr> x" if "x < kRuntimeShardCount" for x
  proof -
    have "scheduled \<lparr>sy_queue = ?q', sy_due = due', sy_pc = (sy_pc \<sigma>)(w := p)\<rparr> x = scheduled \<sigma> x"
      using cnt len by (cases "owner ?q x = w") (simp_all add: scheduled_def Let_def)
    then show ?thesis using system_inv_parts(3) [OF inv that] pc(2) by (auto simp: shard_ok_def Let_def)
  qed
  ultimately show ?thesis
    using inv elems due pc len unfolding system_inv_def Let_def by (auto simp: nth_list_update)
qed

lemma system_inv_push:
  assumes inv: "system_inv \<sigma>" and due: "sid \<in># sy_due \<sigma>"
  shows "system_inv (\<sigma>\<lparr>sy_queue := push_owner sid (sy_queue \<sigma>), sy_due := sy_due \<sigma> - {#sid#}\<rparr>)"
proof -
  let ?q = "sy_queue \<sigma>" and ?w = "owner (sy_queue \<sigma>) sid"
  let ?r = "wq_worker_ready (sy_queue \<sigma>) ! owner (sy_queue \<sigma>) sid"
  have ow: "?w < wq_worker_count ?q" by (rule owner_less [OF system_inv_parts(1) [OF inv]])
  note rr = ready_ring [OF inv ow] and room = ready_room [OF inv due]
  have nf: "\<not> ring_full ?r" using room(2) rr(2) by (simp add: ring_full_def)
  have q': "push_owner sid ?q = ?q\<lparr>wq_worker_ready := (wq_worker_ready ?q)[?w := ring_push sid ?r]\<rparr>"
    using room(2) ow by (simp add: push_owner_def worker_ready_try_push_def owner_def)
  have "system_inv \<lparr>sy_queue = ?q\<lparr>wq_worker_ready := (wq_worker_ready ?q)[?w := ring_push sid ?r]\<rparr>,
      sy_due = sy_due \<sigma> - {#sid#}, sy_pc = (sy_pc \<sigma>)(?w := sy_pc \<sigma> ?w)\<rparr>"
  proof (rule system_inv_ready [OF inv ow])
    show "ring_inv (ring_push sid ?r)" by (rule ring_inv_push [OF rr(1) nf])
    show "x < kRuntimeShardCount \<and> owner ?q x = ?w" if "x \<in> set (ring_list (ring_push sid ?r))" for x
      using that rr(4) system_inv_parts(4) [OF inv due] by (auto simp: ring_list_push [OF rr(1) nf])
    show "x < kRuntimeShardCount" if "x \<in># sy_due \<sigma> - {#sid#}" for x
      using system_inv_parts(4) [OF inv] in_diffD [OF that] by blast
    show "x < kRuntimeShardCount \<and> owner ?q x = ?w" if "sy_pc \<sigma> ?w = Took x" for x
      using system_inv_parts(6) [OF inv that] by simp
    show "count_list (ring_list (ring_push sid ?r)) x + count (sy_due \<sigma> - {#sid#}) x + of_bool (sy_pc \<sigma> ?w = Took x) =
        count_list (ring_list ?r) x + count (sy_due \<sigma>) x + of_bool (sy_pc \<sigma> ?w = Took x)" for x
    proof (cases "x = sid")
      case True
      have "count (sy_due \<sigma>) sid > 0" using due by simp
      then show ?thesis by (simp add: True ring_list_push [OF rr(1) nf])
    qed (simp add: ring_list_push [OF rr(1) nf])
  qed (use rr in auto)
  then show ?thesis unfolding q' by (cases \<sigma>) simp
qed

lemma system_inv_take:
  assumes inv: "system_inv \<sigma>" and pc: "sy_pc \<sigma> w = Waiting" and p: "worker_ready_try_pop w (sy_queue \<sigma>) = Some (sid, q')"
  shows "system_inv (\<sigma>\<lparr>sy_queue := q', sy_pc := (sy_pc \<sigma>)(w := Took sid)\<rparr>)"
proof -
  let ?q = "sy_queue \<sigma>" and ?r = "wq_worker_ready (sy_queue \<sigma>) ! w"
  obtain r where w: "w < wq_worker_count ?q" and r: "ring_pop ?r = Some (sid, r)"
    and q': "q' = ?q\<lparr>wq_worker_ready := (wq_worker_ready ?q)[w := r]\<rparr>"
    using p by (auto simp: worker_ready_try_pop_def split: if_splits option.splits)
  note rr = ready_ring [OF inv w]
  note pop = ring_pop_Some [OF rr(1) r]
  have "system_inv \<lparr>sy_queue = ?q\<lparr>wq_worker_ready := (wq_worker_ready ?q)[w := r]\<rparr>,
      sy_due = sy_due \<sigma>, sy_pc = (sy_pc \<sigma>)(w := Took sid)\<rparr>"
    by (rule system_inv_ready [OF inv w])
      (use pop rr length_slots_pop [OF r] system_inv_parts(4) [OF inv] pc in auto)
  then show ?thesis unfolding q' by (cases \<sigma>) simp
qed

section \<open>The worker's steps\<close>

lemma system_inv_work:
  assumes inv: "system_inv \<sigma>" and pc: "sy_pc \<sigma> w = Working sid" and t: "touched sid s' (sy_queue \<sigma>) q'"
    and st: "rs_state s' = rs_state (wq_shards (sy_queue \<sigma>) ! sid)"
  shows "system_inv (\<sigma>\<lparr>sy_queue := q'\<rparr>)"
proof -
  note w = system_inv_parts(7) [OF inv pc]
  note ok = system_inv_parts(3) [OF inv conjunct2 [OF w]]
  have "rs_state (wq_shards (sy_queue \<sigma>) ! sid) = ShardProcessing" using ok pc w by (simp add: shard_ok_def Let_def)
  then have "enqueue_effect sid False (sy_queue \<sigma>) q'" using t st by (auto simp: enqueue_effect_def)
  from system_inv_enqueue [OF inv this conjunct2 [OF w]] show ?thesis by (cases \<sigma>) (simp add: due_if_def)
qed

lemma system_inv_mark:
  assumes inv: "system_inv \<sigma>" and pc: "sy_pc \<sigma> w = Took sid" and m: "shard_try_mark_processing w sid (sy_queue \<sigma>) = Some q'"
  shows "system_inv (\<sigma>\<lparr>sy_queue := q', sy_pc := (sy_pc \<sigma>)(w := Working sid)\<rparr>)"
proof -
  let ?q = "sy_queue \<sigma>"
  let ?s' = "(wq_shards ?q ! sid)\<lparr>rs_state := ShardProcessing\<rparr>"
  have w: "w = owner ?q sid" and sid: "sid < kRuntimeShardCount" using system_inv_parts(6) [OF inv pc] by simp_all
  have st: "rs_state (wq_shards ?q ! sid) = ShardQueued" and q': "q' = update_shard sid (\<lambda>s. s\<lparr>rs_state := ShardProcessing\<rparr>) ?q"
    using m by (auto simp: shard_try_mark_processing_def split: if_splits)
  have t: "touched sid ?s' ?q q'" unfolding q' by (rule touched_update_fun)
  note at = touched_fields(2) [OF t system_inv_parts(5) [OF inv sid]]
  have own: "owner q' sid = owner ?q sid" by (simp add: owner_def touched_fields [OF t])
  have "system_inv \<lparr>sy_queue = q', sy_due = sy_due \<sigma> + due_if False sid, sy_pc = (sy_pc \<sigma>)(w := Working sid)\<rparr>"
    unfolding w
  proof (rule system_inv_touched [OF inv t sid refl])
    show "shard_ok \<lparr>sy_queue = q', sy_due = sy_due \<sigma> + due_if False sid, sy_pc = (sy_pc \<sigma>)(owner ?q sid := Working sid)\<rparr> sid"
      using system_inv_parts(3) [OF inv sid] pc st unfolding shard_ok_def scheduled_def Let_def
      by (simp add: at own touched_fields(7) [OF t] due_if_def w)
  qed (use pc w in simp_all)
  then show ?thesis by (cases \<sigma>) (simp add: due_if_def)
qed

lemma system_inv_requeue:
  assumes inv: "system_inv \<sigma>" and pc: "sy_pc \<sigma> w = Working sid" and r: "requeue_locked sid (sy_queue \<sigma>) = (push, q')"
  shows "system_inv (\<sigma>\<lparr>sy_queue := q', sy_due := sy_due \<sigma> + due_if push sid, sy_pc := (sy_pc \<sigma>)(w := Waiting)\<rparr>)"
proof -
  let ?q = "sy_queue \<sigma>"
  let ?st = "if shard_load (wq_shards ?q ! sid) = 0 then ShardIdle else ShardQueued"
  let ?s' = "(wq_shards ?q ! sid)\<lparr>rs_state := ?st\<rparr>"
  have w: "w = owner ?q sid" and sid: "sid < kRuntimeShardCount" using system_inv_parts(7) [OF inv pc] by simp_all
  have push: "push \<longleftrightarrow> shard_load (wq_shards ?q ! sid) \<noteq> 0" and q': "q' = update_shard sid (\<lambda>s. s\<lparr>rs_state := ?st\<rparr>) ?q"
    using r system_inv_parts(2) [OF inv] by (auto simp: requeue_locked_def has_pending_work_load split: if_splits)
  have t: "touched sid ?s' ?q q'" unfolding q' by (rule touched_update_fun)
  note at = touched_fields(2) [OF t system_inv_parts(5) [OF inv sid]]
  have own: "owner q' sid = owner ?q sid" by (simp add: owner_def touched_fields [OF t])
  have load: "shard_load ?s' = shard_load (wq_shards ?q ! sid)" by (simp add: shard_load_def)
  have "system_inv \<lparr>sy_queue = q', sy_due = sy_due \<sigma> + due_if push sid, sy_pc = (sy_pc \<sigma>)(w := Waiting)\<rparr>"
    unfolding w
  proof (rule system_inv_touched [OF inv t sid refl])
    show "shard_ok \<lparr>sy_queue = q', sy_due = sy_due \<sigma> + due_if push sid, sy_pc = (sy_pc \<sigma>)(owner ?q sid := Waiting)\<rparr> sid"
      using system_inv_parts(3) [OF inv sid] pc push load unfolding shard_ok_def scheduled_def Let_def
      by (auto simp: at own touched_fields(7) [OF t] due_if_def w)
  qed (use pc w in simp_all)
  then show ?thesis by (cases \<sigma>) simp
qed

text \<open>A worker that took a shard can mark it: the refusal in the code never happens.\<close>

lemma took_marks:
  assumes inv: "system_inv \<sigma>" and pc: "sy_pc \<sigma> w = Took sid"
  shows "\<exists>q'. shard_try_mark_processing w sid (sy_queue \<sigma>) = Some q'"
proof -
  have w: "w = owner (sy_queue \<sigma>) sid" and sid: "sid < kRuntimeShardCount" using system_inv_parts(6) [OF inv pc] by simp_all
  have "scheduled \<sigma> sid > 0" using pc w by (simp add: scheduled_def Let_def)
  then have "rs_state (wq_shards (sy_queue \<sigma>) ! sid) = ShardQueued"
    using system_inv_parts(3) [OF inv sid] by (auto simp: shard_ok_def Let_def split: if_splits)
  then show ?thesis using w by (simp add: shard_try_mark_processing_def owner_def)
qed

lemma pop_job_touched:
  assumes "sid < kRuntimeShardCount"
  shows "shard_try_pop_lookup_job sid q = Some (j, q') \<Longrightarrow> \<exists>s'. touched sid s' q q' \<and> rs_state s' = rs_state (wq_shards q ! sid)"
    and "shard_try_pop_store_job sid q = Some (k, q') \<Longrightarrow> \<exists>s'. touched sid s' q q' \<and> rs_state s' = rs_state (wq_shards q ! sid)"
    and "shard_try_pop_invalidate_job sid q = Some (l, q') \<Longrightarrow> \<exists>s'. touched sid s' q q' \<and> rs_state s' = rs_state (wq_shards q ! sid)"
  using touched_update_fun [of sid "\<lambda>s. s\<lparr>rs_lookup := r\<rparr>" q for r] touched_update_fun [of sid "\<lambda>s. s\<lparr>rs_store := r\<rparr>" q for r]
    touched_update_fun [of sid "\<lambda>s. s\<lparr>rs_invalidate := r\<rparr>" q for r]
  by (fastforce simp: shard_try_pop_lookup_job_def shard_try_pop_store_job_def shard_try_pop_invalidate_job_def
      split: if_splits option.splits)+

lemma system_inv_step:
  assumes step: "wq_step seed \<sigma> \<sigma>'" and inv: "system_inv \<sigma>"
  shows "system_inv \<sigma>'"
  using step
proof cases
  case (enqueue_lookup now_ms job m ok push q' m')
  then show ?thesis using enqueue_lookup_effect system_inv_enqueue [OF inv] hash_key_to_shard_less system_inv_parts(1) [OF inv]
    by (simp add: queue_wf_def)
next
  case (enqueue_store now_ms sjob m ok push q' m')
  then show ?thesis using enqueue_store_effect system_inv_enqueue [OF inv] hash_key_to_shard_less system_inv_parts(1) [OF inv]
    by (simp add: queue_wf_def)
next
  case (enqueue_invalidate clock_ms now_ms key m cm ok push q' m' cm')
  then show ?thesis using enqueue_invalidate_effect system_inv_enqueue [OF inv] hash_key_to_shard_less system_inv_parts(1) [OF inv]
    by (simp add: queue_wf_def)
next
  case (push sid)
  then show ?thesis using system_inv_push [OF inv] by simp
next
  case (take_ready w sid q')
  then show ?thesis using system_inv_take [OF inv] by simp
next
  case (mark w sid q')
  then show ?thesis using system_inv_mark [OF inv] by simp
next
  case (mark_refused w sid)
  then show ?thesis using took_marks [OF inv mark_refused(2)] by simp
next
  case (pop_lookup w sid job q')
  from pop_job_touched(1) [OF conjunct2 [OF system_inv_parts(7) [OF inv pop_lookup(2)]] pop_lookup(3)]
  obtain s' where "touched sid s' (sy_queue \<sigma>) q'" "rs_state s' = rs_state (wq_shards (sy_queue \<sigma>) ! sid)" by blast
  then show ?thesis unfolding pop_lookup(1) by (rule system_inv_work [OF inv pop_lookup(2)])
next
  case (pop_store w sid job q')
  from pop_job_touched(2) [OF conjunct2 [OF system_inv_parts(7) [OF inv pop_store(2)]] pop_store(3)]
  obtain s' where "touched sid s' (sy_queue \<sigma>) q'" "rs_state s' = rs_state (wq_shards (sy_queue \<sigma>) ! sid)" by blast
  then show ?thesis unfolding pop_store(1) by (rule system_inv_work [OF inv pop_store(2)])
next
  case (pop_invalidate w sid job q')
  from pop_job_touched(3) [OF conjunct2 [OF system_inv_parts(7) [OF inv pop_invalidate(2)]] pop_invalidate(3)]
  obtain s' where "touched sid s' (sy_queue \<sigma>) q'" "rs_state s' = rs_state (wq_shards (sy_queue \<sigma>) ! sid)" by blast
  then show ?thesis unfolding pop_invalidate(1) by (rule system_inv_work [OF inv pop_invalidate(2)])
next
  case (lookup_done w sid key hash)
  show ?thesis unfolding lookup_done(1) by (rule system_inv_work [OF inv lookup_done(2) touched_update_fun]) simp
next
  case (store_done w sid slot b)
  show ?thesis unfolding store_done(1)
    by (rule system_inv_work [OF inv store_done(2) touched_bytes [OF touched_update_fun]]) simp
next
  case (requeue w sid push q')
  then show ?thesis using system_inv_requeue [OF inv] by simp
qed

section \<open>No lost wakeups\<close>

definition started :: "WorkerQueue \<Rightarrow> system" where
  "started q = \<lparr>sy_queue = q, sy_due = {#}, sy_pc = \<lambda>_. Waiting\<rparr>"

lemma system_inv_started:
  assumes i: "worker_queue_init malloc_ok (Some WorkerQueue_default) config = Inr q0" and "worker_queue_start (Some q0) = Inr q"
  shows "system_inv (started q)"
proof -
  note q0 = init_wf [OF i]
  have "length (wq_workers q0) = kWorkerQueueMaxWorkers" by (simp add: init_workers [OF i])
  note q = start_workers [OF assms(2) q0(1) this]
  have empty: "ring_list (wq_worker_ready q ! w) = []" if "w < kWorkerQueueMaxWorkers" for w
    using that by (simp add: q(5) q0(4) WorkerQueue_default_def ring_list_def)
  note wf = q(2)
  have own: "owner q sid < kWorkerQueueMaxWorkers" for sid using owner_less [OF wf, of sid] wf by (simp add: queue_wf_def)
  have "shard_ok (started q) sid" if "sid < kRuntimeShardCount" for sid
    using that q0(3) empty [OF own]
    by (simp add: shard_ok_def scheduled_def Let_def started_def q(4) init_shard_def shard_load_def ring_reset_def)
  then show ?thesis
    using wf empty q(3) by (auto simp: system_inv_def Let_def started_def queue_wf_def)
qed

lemma system_inv_reachable:
  "(wq_step seed)\<^sup>*\<^sup>* \<sigma> \<sigma>' \<Longrightarrow> system_inv \<sigma> \<Longrightarrow> system_inv \<sigma>'"
  by (induction rule: rtranclp_induct) (auto intro: system_inv_step)

text \<open>
  (C4) No wakeup is lost: in every state the threads can reach from a started queue, under every interleaving of their
  critical sections, a shard with work in any lane is in the ready queue of the worker that owns it, or a push of
  it is due, or its owner has taken it or is working on it. A due push is never refused for want of room, and
  a worker that takes a shard is never refused the processing mark (the two results the code ignores).
\<close>

theorem no_lost_wakeup:
  assumes "worker_queue_init malloc_ok (Some WorkerQueue_default) config = Inr q0" and "worker_queue_start (Some q0) = Inr q"
    and "(wq_step seed)\<^sup>*\<^sup>* (started q) \<sigma>"
  shows "(\<forall>sid<kRuntimeShardCount. shard_has_pending_work (wq_shards (sy_queue \<sigma>) ! sid) \<longrightarrow>
            sid \<in> set (ring_list (wq_worker_ready (sy_queue \<sigma>) ! owner (sy_queue \<sigma>) sid)) \<or> sid \<in># sy_due \<sigma> \<or>
            sy_pc \<sigma> (owner (sy_queue \<sigma>) sid) = Took sid \<or> sy_pc \<sigma> (owner (sy_queue \<sigma>) sid) = Working sid) \<and>
    (\<forall>sid. sid \<in># sy_due \<sigma> \<longrightarrow> fst (worker_ready_try_push (owner (sy_queue \<sigma>) sid) sid (sy_queue \<sigma>))) \<and>
    (\<forall>w sid. sy_pc \<sigma> w = Took sid \<longrightarrow> shard_try_mark_processing w sid (sy_queue \<sigma>) \<noteq> None)"
proof -
  have inv: "system_inv \<sigma>" using system_inv_reachable [OF assms(3) system_inv_started [OF assms(1,2)]] .
  have "sid \<in> set (ring_list (wq_worker_ready (sy_queue \<sigma>) ! owner (sy_queue \<sigma>) sid)) \<or> sid \<in># sy_due \<sigma> \<or>
      sy_pc \<sigma> (owner (sy_queue \<sigma>) sid) = Took sid \<or> sy_pc \<sigma> (owner (sy_queue \<sigma>) sid) = Working sid"
    if sid: "sid < kRuntimeShardCount" and "shard_has_pending_work (wq_shards (sy_queue \<sigma>) ! sid)" for sid
  proof (cases "rs_state (wq_shards (sy_queue \<sigma>) ! sid)")
    case ShardQueued
    then have "scheduled \<sigma> sid = 1" using system_inv_parts(3) [OF inv sid] by (simp add: shard_ok_def Let_def)
    then show ?thesis
      using count_notin [of sid "ring_list (wq_worker_ready (sy_queue \<sigma>) ! owner (sy_queue \<sigma>) sid)"]
        not_in_iff [of sid "sy_due \<sigma>"] unfolding scheduled_def Let_def by (auto simp: of_bool_def split: if_splits)
  qed (use that system_inv_parts(3) [OF inv sid] in \<open>auto simp: shard_ok_def Let_def has_pending_work_load\<close>)
  moreover have "fst (worker_ready_try_push (owner (sy_queue \<sigma>) sid) sid (sy_queue \<sigma>))" if "sid \<in># sy_due \<sigma>" for sid
    using ready_room(2) [OF inv that] owner_less [OF system_inv_parts(1) [OF inv], of sid] by (simp add: worker_ready_try_push_def)
  moreover have "shard_try_mark_processing w sid (sy_queue \<sigma>) \<noteq> None" if "sy_pc \<sigma> w = Took sid" for w sid
    using took_marks [OF inv that] by auto
  ultimately show ?thesis by blast
qed

theorem no_lost_wakeup_witness:
  "\<exists>q0 q \<sigma> sid. worker_queue_init True (Some WorkerQueue_default) WorkerQueueConfig_default = Inr q0 \<and>
     worker_queue_start (Some q0) = Inr q \<and> (wq_step \<lparr>k0 = 1, k1 = 2\<rparr>)\<^sup>*\<^sup>* (started q) \<sigma> \<and>
     shard_has_pending_work (wq_shards (sy_queue \<sigma>) ! sid) \<and> sid \<in># sy_due \<sigma> \<and>
     fst (worker_ready_try_push (owner (sy_queue \<sigma>) sid) sid (sy_queue \<sigma>))"
proof -
  let ?seed = "\<lparr>k0 = 1, k1 = 2\<rparr>"
  let ?sid = "hash_key_to_shard ?seed ''k''"
  obtain q0 where q0: "worker_queue_init True (Some WorkerQueue_default) WorkerQueueConfig_default = Inr q0"
    by (simp add: worker_queue_init_def WorkerQueueConfig_default_def queue_limits kAsyncL2StoreAbsoluteMaxBodySize_def
        kAsyncL2StoreDefaultMaxBodySize_def kL2MaxBodySize_def Let_def)
  note i = init_wf [OF q0]
  let ?q = "q0\<lparr>wq_running := True, wq_workers := fold (\<lambda>i ws. ws[i := True]) [0..<wq_worker_count q0] (wq_workers q0)\<rparr>"
  have st: "worker_queue_start (Some q0) = Inr ?q" using i(2) by (simp add: worker_queue_start_def)
  have len: "?sid < 256" using hash_key_to_shard_less [of ?seed "''k''"] by (simp add: queue_limits)
  obtain q' m' cm' where e: "enqueue_invalidate_locked ?seed 5 0 ''k'' ?q None None = (True, True, q', m', cm')"
    and w: "shard_has_pending_work (wq_shards q' ! ?sid)"
    using len by (simp add: enqueue_invalidate_locked_def Let_def i(3) queue_limits init_shard_def ring_reset_def ring_push_def wake_def
        update_shard_def shard_has_pending_work_def)
  let ?\<sigma> = "(started ?q)\<lparr>sy_queue := q', sy_due := sy_due (started ?q) + due_if True ?sid\<rparr>"
  have step: "wq_step ?seed (started ?q) ?\<sigma>"
    by (rule wq_step.enqueue_invalidate [where now_ms = 0 and clock_ms = 5 and m = None and cm = None, OF _ ])
      (use e in \<open>simp_all add: started_def\<close>)
  then have reach: "(wq_step ?seed)\<^sup>*\<^sup>* (started ?q) ?\<sigma>" by (rule r_into_rtranclp)
  have due: "?sid \<in># sy_due ?\<sigma>" by (simp add: due_if_def)
  have "fst (worker_ready_try_push (owner (sy_queue ?\<sigma>) ?sid) ?sid (sy_queue ?\<sigma>))"
    using no_lost_wakeup [OF q0 st reach] due by blast
  then show ?thesis using q0 st reach due w by (intro exI [of _ q0] exI [of _ ?q] exI [of _ ?\<sigma>] exI [of _ ?sid]) simp
qed

end
