(* ===== verification/Worker_Store.thy ===== *)
theory Worker_Store
  imports Worker_Drain
begin

text \<open>
  The store lane of one shard with its body pool. A queued store job does not carry its body: it names a pool slot,
  which request threads and the worker reuse. The abstract lane is a queue of whole entries; the simulation shows
  that every store the worker executes has the effect on the database of putting the entry as it was accepted.
\<close>

section \<open>The lane\<close>

text \<open>
  \<open>la_accepted\<close> lists the entries of the accepted jobs, \<open>la_writes\<close> the database before and after each execution.
\<close>

record 'db store_lane =
  la_queue :: WorkerQueue
  la_resources :: "'db WorkerQueueResources"
  la_running :: "L2StoreJob option"
  la_accepted :: "CacheEntry list"
  la_writes :: "('db option \<times> 'db option) list"

text \<open>The entry of a job as its enqueue sees it: the first \<open>copied_len\<close> bytes of the caller's buffer.\<close>

definition accepted_entry :: "L2StoreJob \<Rightarrow> CacheEntry" where
  "accepted_entry job = (sj_entry job)\<lparr>ent_body_len := copied_len job,
     ent_body := Some (case ent_body (sj_entry job) of None \<Rightarrow> [] | Some b \<Rightarrow> take (copied_len job) b)\<rparr>"

text \<open>
  The steps of shard \<open>sid\<close>: an enqueue of a job that hashes to it, the pop and the execution by its worker, and
  every step of another thread or lane, which leaves the store ring and the pool of the shard alone and may
  change anything else, the database included.
\<close>

inductive lane_step :: "'db RocksDb \<Rightarrow> HashSeed \<Rightarrow> nat \<Rightarrow> 'db store_lane \<Rightarrow> 'db store_lane \<Rightarrow> bool"
  for rocks :: "'db RocksDb" and seed sid where
  enqueue: "\<lbrakk>hash_key_to_shard seed (sj_key job) = sid;
      enqueue_store_locked seed now_ms job (la_queue l) m = (ok, push, q', m')\<rbrakk> \<Longrightarrow>
     lane_step rocks seed sid l
       (l\<lparr>la_queue := q', la_accepted := la_accepted l @ (if ok then [accepted_entry job] else [])\<rparr>)"
| pop: "\<lbrakk>la_running l = None; shard_try_pop_store_job sid (la_queue l) = Some (job, q')\<rbrakk> \<Longrightarrow>
     lane_step rocks seed sid l (l\<lparr>la_queue := q', la_running := Some job\<rparr>)"
| execute: "\<lbrakk>la_running l = Some job;
      execute_store_job rocks seed now_ms job (wq_shards (la_queue l) ! sid)
        (wq_store_body_pool_bytes_in_use (la_queue l)) (la_resources l) = (s', b', w')\<rbrakk> \<Longrightarrow>
     lane_step rocks seed sid l
       (l\<lparr>la_queue := (update_shard sid (\<lambda>_. s') (la_queue l))\<lparr>wq_store_body_pool_bytes_in_use := b'\<rparr>,
          la_resources := w', la_running := None,
          la_writes := la_writes l @ [(wr_l2_cache (la_resources l), wr_l2_cache w')]\<rparr>)"
| other: "\<lbrakk>length (wq_shards q') = length (wq_shards (la_queue l));
      rs_store (wq_shards q' ! sid) = rs_store (wq_shards (la_queue l) ! sid);
      rs_body_pool (wq_shards q' ! sid) = rs_body_pool (wq_shards (la_queue l) ! sid)\<rbrakk> \<Longrightarrow>
     lane_step rocks seed sid l (l\<lparr>la_queue := q', la_resources := w'\<rparr>)"

section \<open>The simulation\<close>

definition lane_pool :: "nat \<Rightarrow> 'db store_lane \<Rightarrow> StoreBodyPool" where
  "lane_pool sid l = rs_body_pool (wq_shards (la_queue l) ! sid)"

definition lane_jobs :: "nat \<Rightarrow> 'db store_lane \<Rightarrow> L2StoreJob list" where
  "lane_jobs sid l = (case la_running l of None \<Rightarrow> [] | Some j \<Rightarrow> [j]) @ ring_list (rs_store (wq_shards (la_queue l) ! sid))"

definition pool_wf :: "StoreBodyPool \<Rightarrow> bool" where
  "pool_wf p \<longleftrightarrow> length (bp_bodies p) = kRuntimeQueueSlotsPerShard \<and> length (bp_body_sizes p) = kRuntimeQueueSlotsPerShard \<and>
     length (bp_occupied p) = kRuntimeQueueSlotsPerShard"

text \<open>The abstract store: the database after an entry was put, as \<open>l2_put_result\<close> puts it from the worker's scratch buffer.\<close>

definition put_entry :: "'db RocksDb \<Rightarrow> 'db option \<Rightarrow> CacheEntry \<Rightarrow> 'db option" where
  "put_entry rocks db e = snd (l2_put_result rocks db e (Some (replicate kAsyncL2StoreEncScratchSize NUL)))"

definition effects_of :: "'db RocksDb \<Rightarrow> ('db option \<times> 'db option) list \<Rightarrow> CacheEntry list \<Rightarrow> bool" where
  "effects_of rocks = list_all2 (\<lambda>(before, after) e. after = put_entry rocks before e)"

definition slots_ok :: "StoreBodyPool \<Rightarrow> L2StoreJob list \<Rightarrow> bool" where
  "slots_ok p js \<longleftrightarrow> pool_wf p \<and> distinct (map sj_body_slot js) \<and>
     (\<forall>j\<in>set js. sj_body_slot j < kRuntimeQueueSlotsPerShard \<and> bp_occupied p ! sj_body_slot j)"

definition lane_inv :: "'db RocksDb \<Rightarrow> nat \<Rightarrow> 'db store_lane \<Rightarrow> bool" where
  "lane_inv rocks sid l \<longleftrightarrow> (let r = rs_store (wq_shards (la_queue l) ! sid) in
     sid < length (wq_shards (la_queue l)) \<and> ring_inv r \<and> length (rg_slots r) = kRuntimeQueueSlotsPerShard \<and>
     slots_ok (lane_pool sid l) (lane_jobs sid l) \<and>
     (\<exists>ds. la_accepted l = ds @ map (queued_entry (lane_pool sid l)) (lane_jobs sid l) \<and> effects_of rocks (la_writes l) ds))"

text \<open>A job put into a free slot: the earlier jobs keep their entries, and the job leads to the entry of its caller.\<close>

lemma put_store_job_slots:
  assumes ok: "slots_ok p js" and slot: "find_index (\<lambda>b. \<not> b) (bp_occupied p) = Some slot"
    and "p = rs_body_pool s" and "p' = rs_body_pool (put_store_job now_ms slot job s)"
    and "job' = job\<lparr>sj_enqueued_at_ms := now_ms, sj_body_slot := slot, sj_body_len := copied_len job,
                sj_entry := (sj_entry job)\<lparr>ent_body_len := copied_len job, ent_body := None\<rparr>\<rparr>"
  shows "slots_ok p' (js @ [job'])" and "map (queued_entry p') (js @ [job']) = map (queued_entry p) js @ [accepted_entry job]"
proof -
  have free: "slot < length (bp_occupied p)" "\<not> bp_occupied p ! slot" using find_index_SomeD(1,2) [OF slot] by auto
  have len: "slot < kRuntimeQueueSlotsPerShard" "slot < length (bp_bodies p)"
    using free(1) ok by (simp_all add: slots_ok_def pool_wf_def)
  have p': "p' = p\<lparr>bp_bodies := (bp_bodies p)[slot := the (ent_body (accepted_entry job))],
      bp_body_sizes := (bp_body_sizes p)[slot := copied_len job], bp_occupied := (bp_occupied p)[slot := True]\<rparr>"
    by (simp add: assms(3,4) put_store_job_def Let_def accepted_entry_def)
  have fresh: "slot \<notin> sj_body_slot ` set js" using ok free(2) by (auto simp: slots_ok_def)
  then have same: "queued_entry p' j = queued_entry p j" if "j \<in> set js" for j
    using that by (cases "sj_body_slot j = slot") (auto simp: queued_entry_def p')
  show "map (queued_entry p') (js @ [job']) = map (queued_entry p) js @ [accepted_entry job]"
    using same len by (simp add: queued_entry_def p' assms(5) accepted_entry_def)
  show "slots_ok p' (js @ [job'])"
    using ok fresh len free(1) by (auto simp: slots_ok_def pool_wf_def p' assms(5) nth_list_update)
qed

lemma wake_store: "wake s = (push, s') \<Longrightarrow> rs_store s' = rs_store s \<and> rs_body_pool s' = rs_body_pool s"
  by (auto simp: wake_def split: if_splits)

text \<open>An enqueue of the shard: refused with the queue as it was, or the job is the last of the ring.\<close>

lemma lane_inv_enqueue:
  assumes inv: "lane_inv rocks sid l" and sid: "hash_key_to_shard seed (sj_key job) = sid"
    and e: "enqueue_store_locked seed now_ms job (la_queue l) m = (ok, push, q', m')"
  shows "lane_inv rocks sid (l\<lparr>la_queue := q', la_accepted := la_accepted l @ (if ok then [accepted_entry job] else [])\<rparr>)"
proof (cases ok)
  case False
  then have "q' = la_queue l" using e by (auto simp: enqueue_store_locked_def Let_def split: option.splits if_splits prod.splits)
  with False inv show ?thesis by (simp add: lane_inv_def lane_jobs_def lane_pool_def)
next
  case True
  let ?s = "wq_shards (la_queue l) ! sid" and ?js = "lane_jobs sid l"
  obtain slot s' where slot: "find_index (\<lambda>b. \<not> b) (bp_occupied (rs_body_pool ?s)) = Some slot"
    and room: "rg_count (rs_store ?s) < kRuntimeQueueSlotsPerShard" and wk: "wake (put_store_job now_ms slot job ?s) = (push, s')"
    and q': "q' = (update_shard sid (\<lambda>_. s') (la_queue l))\<lparr>wq_store_body_pool_bytes_in_use :=
        wq_store_body_pool_bytes_in_use (la_queue l) + of_nat (copied_len job)\<rparr>"
    using e True sid by (auto simp: enqueue_store_locked_def Let_def split: option.splits if_splits prod.splits)
  have old: "sid < length (wq_shards (la_queue l))" "ring_inv (rs_store ?s)"
    "length (rg_slots (rs_store ?s)) = kRuntimeQueueSlotsPerShard" "slots_ok (rs_body_pool ?s) ?js"
    using inv by (simp_all add: lane_inv_def Let_def lane_pool_def)
  define job' where "job' = job\<lparr>sj_enqueued_at_ms := now_ms, sj_body_slot := slot, sj_body_len := copied_len job,
                sj_entry := (sj_entry job)\<lparr>ent_body_len := copied_len job, ent_body := None\<rparr>\<rparr>"
  have s': "rs_store s' = ring_push job' (rs_store ?s)" "rs_body_pool s' = rs_body_pool (put_store_job now_ms slot job ?s)"
    using wake_store [OF wk] by (simp_all add: put_store_job_def Let_def job'_def)
  have nf: "\<not> ring_full (rs_store ?s)" using room old(3) by (simp add: ring_full_def)
  let ?l = "l\<lparr>la_queue := q', la_accepted := la_accepted l @ (if ok then [accepted_entry job] else [])\<rparr>"
  have at: "wq_shards q' ! sid = s'" using old(1) by (simp add: q' update_shard_def)
  have new: "lane_jobs sid ?l = ?js @ [job']" "lane_pool sid ?l = rs_body_pool s'"
    by (simp_all add: lane_jobs_def lane_pool_def at s'(1) ring_list_push [OF old(2) nf])
  note put = put_store_job_slots [OF old(4) slot refl s'(2) job'_def]
  show ?thesis
    using inv put ring_inv_push [OF old(2) nf] old True unfolding lane_inv_def Let_def new
    by (auto simp: at s'(1) lane_pool_def) (simp add: q' update_shard_def)
qed

lemma handoff_database [simp]: "wr_l2_cache (complete_handoff seed now_ms job st ev w) = wr_l2_cache w"
  "wr_l2_cache (count_runtime ev' w) = wr_l2_cache w"
  by (simp_all add: complete_handoff_def count_runtime_def)

text \<open>What an execution does to the database: it puts the entry its job leads to in the pool.\<close>

lemma execute_store_database:
  "wr_l2_cache (snd (snd (execute_store_job rocks seed now_ms job s b w))) =
     put_entry rocks (wr_l2_cache w) (queued_entry (rs_body_pool s) job)"
  by (simp add: execute_store_job_def Let_def put_entry_def l2_put_result_def split: option.splits prod.splits L2PutResult.splits)

lemma free_slot_slots:
  assumes "slots_ok (rs_body_pool s) (job # js)"
  shows "slots_ok (rs_body_pool (free_slot (sj_body_slot job) s)) js"
    and "queued_entry (rs_body_pool (free_slot (sj_body_slot job) s)) = queued_entry (rs_body_pool s)"
proof -
  have "bp_occupied (rs_body_pool s) ! sj_body_slot j \<and> sj_body_slot j \<noteq> sj_body_slot job" if "j \<in> set js" for j
    using assms that by (auto simp: slots_ok_def) (metis image_eqI)
  then show "slots_ok (rs_body_pool (free_slot (sj_body_slot job) s)) js"
    using assms by (auto simp: slots_ok_def pool_wf_def free_slot_def nth_list_update)
qed (simp add: queued_entry_def free_slot_def fun_eq_iff)

lemma lane_inv_execute:
  assumes inv: "lane_inv rocks sid l" and run: "la_running l = Some job"
    and x: "execute_store_job rocks seed now_ms job (wq_shards (la_queue l) ! sid)
        (wq_store_body_pool_bytes_in_use (la_queue l)) (la_resources l) = (s', b', w')"
  shows "lane_inv rocks sid
    (l\<lparr>la_queue := (update_shard sid (\<lambda>_. s') (la_queue l))\<lparr>wq_store_body_pool_bytes_in_use := b'\<rparr>,
       la_resources := w', la_running := None,
       la_writes := la_writes l @ [(wr_l2_cache (la_resources l), wr_l2_cache w')]\<rparr>)" (is "lane_inv rocks sid ?l")
proof -
  let ?s = "wq_shards (la_queue l) ! sid"
  have s': "s' = free_slot (sj_body_slot job) ?s"
    and w': "wr_l2_cache w' = put_entry rocks (wr_l2_cache (la_resources l)) (queued_entry (rs_body_pool ?s) job)"
    using execute_store_shard [of rocks seed now_ms job ?s] execute_store_database [of rocks seed now_ms job ?s] x
    by (metis fst_conv, metis snd_conv)
  have jobs: "lane_jobs sid l = job # ring_list (rs_store ?s)" by (simp add: lane_jobs_def run)
  have sid: "sid < length (wq_shards (la_queue l))" using inv by (simp add: lane_inv_def Let_def)
  have new: "lane_jobs sid ?l = ring_list (rs_store ?s)" "lane_pool sid ?l = rs_body_pool s'"
    using sid by (simp_all add: lane_jobs_def lane_pool_def update_shard_def s')
  obtain ds where ds: "la_accepted l = ds @ map (queued_entry (rs_body_pool ?s)) (lane_jobs sid l)" "effects_of rocks (la_writes l) ds"
    using inv by (auto simp: lane_inv_def Let_def lane_pool_def)
  have "slots_ok (rs_body_pool ?s) (job # ring_list (rs_store ?s))"
    using inv by (simp add: lane_inv_def Let_def lane_pool_def jobs)
  note free = free_slot_slots [OF this, folded s']
  have acc: "la_accepted l = (ds @ [queued_entry (rs_body_pool ?s) job]) @ map (queued_entry (rs_body_pool s')) (ring_list (rs_store ?s))"
    using ds(1) by (simp add: jobs free(2))
  have eff: "effects_of rocks (la_writes ?l) (ds @ [queued_entry (rs_body_pool ?s) job])"
    using ds(2) w' by (simp add: effects_of_def list_all2_appendI)
  have "ring_inv (rs_store ?s)" "length (rg_slots (rs_store ?s)) = kRuntimeQueueSlotsPerShard"
    using inv by (simp_all add: lane_inv_def Let_def)
  with free(1) acc eff sid show ?thesis
    unfolding lane_inv_def Let_def new by (auto simp: update_shard_def s')
qed

lemma lane_inv_pop:
  assumes inv: "lane_inv rocks sid l" and run: "la_running l = None"
    and p: "shard_try_pop_store_job sid (la_queue l) = Some (job, q')"
  shows "lane_inv rocks sid (l\<lparr>la_queue := q', la_running := Some job\<rparr>)" (is "lane_inv rocks sid ?l")
proof -
  let ?s = "wq_shards (la_queue l) ! sid"
  obtain r where r: "ring_pop (rs_store ?s) = Some (job, r)" and q': "q' = update_shard sid (\<lambda>s. s\<lparr>rs_store := r\<rparr>) (la_queue l)"
    using p by (auto simp: shard_try_pop_store_job_def split: option.splits if_splits)
  have old: "sid < length (wq_shards (la_queue l))" "ring_inv (rs_store ?s)" using inv by (simp_all add: lane_inv_def Let_def)
  have "lane_jobs sid ?l = lane_jobs sid l" "lane_pool sid ?l = lane_pool sid l"
    using ring_pop_Some [OF old(2) r] old(1) by (simp_all add: lane_jobs_def lane_pool_def q' update_shard_def run)
  then show ?thesis
    using inv ring_pop_Some [OF old(2) r] length_slots_pop [OF r] by (simp add: lane_inv_def Let_def q' update_shard_def)
qed

lemma lane_inv_step: "lane_step rocks seed sid l l' \<Longrightarrow> lane_inv rocks sid l \<Longrightarrow> lane_inv rocks sid l'"
proof (induction rule: lane_step.induct)
  case (enqueue job now_ms l m ok push q' m')
  then show ?case using lane_inv_enqueue by blast
next
  case (pop l job q')
  then show ?case using lane_inv_pop by blast
next
  case (execute l job now_ms s' b' w')
  then show ?case using lane_inv_execute by blast
next
  case (other q' l w')
  then show ?case by (simp add: lane_inv_def Let_def lane_jobs_def lane_pool_def)
qed

lemma lane_inv_reachable: "(lane_step rocks seed sid)\<^sup>*\<^sup>* l l' \<Longrightarrow> lane_inv rocks sid l \<Longrightarrow> lane_inv rocks sid l'"
  by (induction rule: rtranclp_induct) (auto intro: lane_inv_step)

definition new_lane :: "WorkerQueue \<Rightarrow> 'db WorkerQueueResources \<Rightarrow> 'db store_lane" where
  "new_lane q w = \<lparr>la_queue = q, la_resources = w, la_running = None, la_accepted = [], la_writes = []\<rparr>"

lemma lane_inv_new:
  assumes "worker_queue_init malloc_ok (Some WorkerQueue_default) config = Inr q" and "sid < kRuntimeShardCount"
  shows "lane_inv rocks sid (new_lane q w)"
  using assms(2) unfolding lane_inv_def new_lane_def lane_jobs_def lane_pool_def
  by (simp add: init_wf(3) [OF assms(1)] slots_ok_def pool_wf_def init_shard_def RuntimeShard_default_def Let_def
      ring_reset_def ring_inv_def ring_list_def effects_of_def queue_limits)

lemma lane_reach:
  "lane_step rocks seed sid a b \<Longrightarrow> (lane_step rocks seed sid)\<^sup>*\<^sup>* b c \<Longrightarrow> (lane_step rocks seed sid)\<^sup>*\<^sup>* a c"
  by (rule converse_rtranclp_into_rtranclp)

text \<open>The worker's own loop over the lane is a run of these steps.\<close>

lemma run_stores_lane:
  assumes "run_stores rocks seed now_ms n sid q w = (k, q', w')" and "la_queue l = q" and "la_resources l = w" and "la_running l = None"
  shows "\<exists>l'. (lane_step rocks seed sid)\<^sup>*\<^sup>* l l' \<and> la_queue l' = q' \<and> la_resources l' = w' \<and> la_running l' = None"
  using assms
proof (induction n arbitrary: k q w l)
  case (Suc n)
  show ?case
  proof (cases "shard_try_pop_store_job sid q")
    case None
    with Suc.prems show ?thesis by auto
  next
    case (Some p)
    obtain job q1 where p: "shard_try_pop_store_job sid q = Some (job, q1)" using Some by (cases p) auto
    obtain s1 b1 w1 where x: "execute_store_job rocks seed now_ms job (wq_shards q1 ! sid)
        (wq_store_body_pool_bytes_in_use q1) w = (s1, b1, w1)" by (metis prod_cases3)
    let ?q2 = "(update_shard sid (\<lambda>_. s1) q1)\<lparr>wq_store_body_pool_bytes_in_use := b1\<rparr>"
    obtain k2 where rest: "run_stores rocks seed now_ms n sid ?q2 w1 = (k2, q', w')"
      using Suc.prems(1) by (auto simp: p x Let_def split: prod.splits)
    have s1: "lane_step rocks seed sid l (l\<lparr>la_queue := q1, la_running := Some job\<rparr>)"
      by (rule lane_step.pop) (use Suc.prems p in simp_all)
    let ?l2 = "l\<lparr>la_queue := ?q2, la_resources := w1, la_running := None, la_writes := la_writes l @ [(wr_l2_cache w, wr_l2_cache w1)]\<rparr>"
    have s2: "lane_step rocks seed sid (l\<lparr>la_queue := q1, la_running := Some job\<rparr>) ?l2"
      using lane_step.execute [of "l\<lparr>la_queue := q1, la_running := Some job\<rparr>" job rocks seed now_ms sid s1 b1 w1] Suc.prems x by simp
    from Suc.IH [OF rest, of ?l2] obtain l' where
      "(lane_step rocks seed sid)\<^sup>*\<^sup>* ?l2 l'" "la_queue l' = q'" "la_resources l' = w'" "la_running l' = None" by auto
    moreover have "(lane_step rocks seed sid)\<^sup>*\<^sup>* l l'"
      by (rule lane_reach [OF s1 lane_reach [OF s2]]) fact
    ultimately show ?thesis by blast
  qed
qed auto

text \<open>
  (C6) An asynchronous store writes the entry that was accepted: along every interleaving of the enqueues, pops and
  executions of a shard with anything the other threads do, the accepted entries are, in order, those the worker has
  executed and those of the running and queued jobs. Each execution changed the database exactly as putting the
  accepted entry does, with the body bytes its caller had when it enqueued, whatever the database was before; and a job
  still queued leads to its entry in the body pool. No reuse of a pool slot ever changes the body of a waiting job.
\<close>

theorem store_lane_refines_queue:
  assumes "worker_queue_init malloc_ok (Some WorkerQueue_default) config = Inr q" and "sid < kRuntimeShardCount"
    and "(lane_step rocks seed sid)\<^sup>*\<^sup>* (new_lane q w) l"
  shows "\<exists>executed. la_accepted l = executed @ map (queued_entry (lane_pool sid l)) (lane_jobs sid l) \<and>
    list_all2 (\<lambda>(before, after) e. after = put_entry rocks before e) (la_writes l) executed"
  using lane_inv_reachable [OF assms(3) lane_inv_new [OF assms(1,2)]] by (auto simp: lane_inv_def Let_def effects_of_def)

text \<open>A job whose enqueue succeeds, its pop and its execution, against a database that logs its writes.\<close>

definition log_rocks :: "(string \<times> string) list RocksDb" where
  "log_rocks = \<lparr>db_get = \<lambda>m k. (case map_of m k of None \<Rightarrow> DbNotFound | Some v \<Rightarrow> DbFound v),
     db_put = \<lambda>m k v. (True, (k, v) # m), db_delete = \<lambda>m k. (True, filter (\<lambda>p. fst p \<noteq> k) m)\<rparr>"

definition sample_store_job :: L2StoreJob where
  "sample_store_job =
     \<lparr>sj_key = ''k'', sj_entry = CacheEntry_default\<lparr>ent_key := ''k'', ent_body := Some ''body''\<rparr>, sj_body_slot = 0,
      sj_body_len = 4, sj_coalescing_handoff_enabled = False, sj_has_registry = False, sj_coalescing_key = [],
      sj_lifecycle_generation = 0, sj_enqueued_at_ms = 0\<rparr>"

lemma sample_enqueue:
  assumes "worker_queue_init malloc_ok (Some WorkerQueue_default) WorkerQueueConfig_default = Inr q"
  shows "fst (enqueue_store_locked seed now_ms sample_store_job q m)"
proof -
  have "wq_async_store_max_body_size q = kAsyncL2StoreDefaultMaxBodySize"
    using assms by (auto simp: worker_queue_init_def Let_def WorkerQueueConfig_default_def split: if_splits)
  moreover have "find_index (\<lambda>b. \<not> b) (replicate kRuntimeQueueSlotsPerShard False) = Some 0"
    by (simp add: find_index_Some_iff queue_limits)
  ultimately show ?thesis
    using hash_key_to_shard_less [of seed "''k''"]
    by (simp add: enqueue_store_locked_def Let_def init_wf(3) [OF assms] sample_store_job_def init_shard_def
        ring_reset_def copied_len_def case_prod_beta queue_limits kAsyncL2StoreDefaultMaxBodySize_def kL2MaxBodySize_def)
qed

lemma lane_can_pop:
  assumes "lane_inv rocks sid l" and "la_writes l = []" and "la_running l = None" and "la_accepted l \<noteq> []" and "sid < kRuntimeShardCount"
  shows "shard_try_pop_store_job sid (la_queue l) \<noteq> None"
proof -
  have "ring_list (rs_store (wq_shards (la_queue l) ! sid)) \<noteq> []"
    using assms by (auto simp: lane_inv_def Let_def effects_of_def lane_jobs_def)
  then have "ring_pop (rs_store (wq_shards (la_queue l) ! sid)) \<noteq> None"
    by (simp add: ring_pop_None_count ring_list_def)
  then show ?thesis using assms(5) by (auto simp: shard_try_pop_store_job_def)
qed

theorem store_lane_refines_queue_witness:
  "\<exists>q l after. worker_queue_init True (Some WorkerQueue_default) WorkerQueueConfig_default = Inr q \<and>
     (let w = \<lparr>wr_l2_cache = Some [], wr_l1_cache = None, wr_runtime_metrics = None, wr_coalescing_metrics = None,
               wr_cache_metrics = None, wr_registry = None\<rparr>; seed = \<lparr>k0 = 1, k1 = 2\<rparr>
      in (lane_step log_rocks seed (hash_key_to_shard seed ''k''))\<^sup>*\<^sup>* (new_lane q w) l \<and>
         la_accepted l = [accepted_entry sample_store_job] \<and> la_writes l = [(Some [], after)] \<and>
         after = put_entry log_rocks (Some []) (accepted_entry sample_store_job))"
proof -
  define seed where "seed = \<lparr>k0 = (1 :: u64), k1 = 2\<rparr>"
  define w where "w = \<lparr>wr_l2_cache = Some ([] :: (string \<times> string) list), wr_l1_cache = None, wr_runtime_metrics = None, wr_coalescing_metrics = None,
      wr_cache_metrics = None, wr_registry = None\<rparr>"
  define sid where "sid = hash_key_to_shard seed ''k''"
  have sid: "sid < kRuntimeShardCount" "hash_key_to_shard seed (sj_key sample_store_job) = sid"
    using hash_key_to_shard_less [of seed "''k''"] by (simp_all add: sid_def sample_store_job_def)
  obtain q where q: "worker_queue_init True (Some WorkerQueue_default) WorkerQueueConfig_default = Inr q"
    by (simp add: worker_queue_init_def WorkerQueueConfig_default_def queue_limits kAsyncL2StoreAbsoluteMaxBodySize_def
        kAsyncL2StoreDefaultMaxBodySize_def kL2MaxBodySize_def Let_def)
  obtain push q1 m where e: "enqueue_store_locked seed 9 sample_store_job q None = (True, push, q1, m)"
    using sample_enqueue [OF q, of seed 9 None] by (metis prod_cases4 fst_conv)
  let ?l1 = "(new_lane q w)\<lparr>la_queue := q1, la_accepted := [accepted_entry sample_store_job]\<rparr>"
  have s1: "lane_step log_rocks seed sid (new_lane q w) ?l1"
    using lane_step.enqueue [of seed sample_store_job sid 9 "new_lane q w" None True push q1 m log_rocks] sid e by (simp add: new_lane_def)
  have "lane_inv log_rocks sid ?l1" by (rule lane_inv_step [OF s1 lane_inv_new [OF q sid(1)]])
  then obtain job q2 where p: "shard_try_pop_store_job sid q1 = Some (job, q2)"
    using lane_can_pop [of log_rocks sid ?l1] sid(1) by (auto simp: new_lane_def)
  let ?l2 = "?l1\<lparr>la_queue := q2, la_running := Some job\<rparr>"
  have s2: "lane_step log_rocks seed sid ?l1 ?l2" by (rule lane_step.pop) (use p in \<open>simp_all add: new_lane_def\<close>)
  obtain s' b' w' where x: "execute_store_job log_rocks seed 9 job (wq_shards (la_queue ?l2) ! sid)
      (wq_store_body_pool_bytes_in_use (la_queue ?l2)) (la_resources ?l2) = (s', b', w')" by (metis prod_cases3)
  have run: "la_running ?l2 = Some job" by simp
  note s3 = lane_step.execute [OF run x]
  define l where "l = ?l2\<lparr>la_queue := (update_shard sid (\<lambda>_. s') (la_queue ?l2))\<lparr>wq_store_body_pool_bytes_in_use := b'\<rparr>,
     la_resources := w', la_running := None, la_writes := la_writes ?l2 @ [(wr_l2_cache (la_resources ?l2), wr_l2_cache w')]\<rparr>"
  have reach: "(lane_step log_rocks seed sid)\<^sup>*\<^sup>* (new_lane q w) l"
    unfolding l_def by (rule lane_reach [OF s1 lane_reach [OF s2 lane_reach [OF s3 rtranclp.rtrancl_refl]]])
  have l: "la_accepted l = [accepted_entry sample_store_job]" "la_writes l = [(Some [], wr_l2_cache w')]"
    by (simp_all add: l_def new_lane_def w_def)
  from store_lane_refines_queue [OF q sid(1) reach] l
  have "wr_l2_cache w' = put_entry log_rocks (Some []) (accepted_entry sample_store_job)"
    by (auto simp: list_all2_Cons1)
  with q reach l show ?thesis unfolding Let_def seed_def [symmetric] w_def [symmetric] sid_def [symmetric] by blast
qed

end
