(* ===== verification/Apg_Context.thy ===== *)
theory Apg_Context
  imports Policy Metrics Query_View Compression L1_Cache L2_Cache Epoch_Store Coalescing Worker_Queue
begin

text \<open>
  The request context (\<^verbatim>\<open>include/apg/context.h\<close>) that every stage reads and writes, and the stage
  runner (\<^verbatim>\<open>src/apg/pipeline.cpp\<close>). Pointers to the shared components are options that hold the component
  itself; a stage returns the context with the component as it leaves it. \<open>ctx_probe_metrics\<close> belongs to the same
  object as \<open>ctx_coalescing_metrics\<close>, and \<open>ctx_variant_registry\<close> is a process-wide singleton of the code. Character arrays are the text they
  hold, and an array with its count is a list. The scratch buffer for bodies has no field: an entry carries its body.
\<close>

section \<open>The context\<close>

definition kRawPathBufferSize :: nat where "kRawPathBufferSize = 1024"
definition kRawQueryBufferSize :: nat where "kRawQueryBufferSize = 1024"
definition kMaxPendingInvalidationTargets :: nat where "kMaxPendingInvalidationTargets = 8"
definition kInvalidationRouteIdMaxLen :: nat where "kInvalidationRouteIdMaxLen = 64"

record RequestMutationOutput =
  rm_path :: string
  rm_path_length :: nat
  rm_applied :: bool
  rm_reason :: "string option"
  rm_limit_to_apply :: u32

record CompressionDecisionOutput =
  cdo_evaluated :: bool
  cdo_candidate :: bool
  cdo_skip_reason :: CompressionSkipReason
  cdo_algorithm_hint :: CompressionAlgorithm

datatype MutationInvalidationDecision =
    MidNone | MidPrepared | MidApplied | MidSkippedNoPolicy | MidSkippedNonMutationMethod
  | MidSkippedMethodNotEnabled | MidSkippedStatusNotSuccessful | MidFailedEpochStoreMissing | MidFailedEpochBump

record PendingMutationInvalidationPlan =
  pl_prepared :: bool
  pl_applied :: bool
  pl_skipped :: bool
  pl_failed :: bool
  pl_decision :: MutationInvalidationDecision
  pl_success_status_min :: u16
  pl_success_status_max :: u16
  pl_targets :: "string list"
  pl_reason :: "string option"

definition PendingMutationInvalidationPlan_default :: PendingMutationInvalidationPlan where
  "PendingMutationInvalidationPlan_default =
     \<lparr>pl_prepared = False, pl_applied = False, pl_skipped = False, pl_failed = False, pl_decision = MidNone,
      pl_success_status_min = 200, pl_success_status_max = 299, pl_targets = [], pl_reason = None\<rparr>"

text \<open>One entry of the process-wide registry of the field variant admission stage.\<close>

record VariantAdmissionEntry =
  va_key :: string
  va_route_id :: string
  va_count :: u32
  va_admitted :: bool

text \<open>The members of \<^verbatim>\<open>CoalescingMetrics\<close> that the follower stage updates itself, not through an event.\<close>

record FollowerProbeMetrics =
  fp_active_follower_waiters :: u32
  fp_total :: u64
  fp_hit_total :: u64
  fp_miss_total :: u64
  fp_body_too_large_total :: u64
  fp_latency_ms_total :: u64
  fp_latency_ms_count :: u64
  fp_latency_ms_max :: u64
  fp_l2ready_total :: u64
  fp_timeout_final_total :: u64

record 'db ApgTransformContext =
  ctx_request_id :: u64
  ctx_input_payload_bytes :: nat
  ctx_output_payload_bytes :: nat
  ctx_executed_stage_count :: u32
  ctx_raw_path :: string
  ctx_raw_path_length :: nat
  ctx_raw_query :: string
  ctx_raw_query_length :: nat
  ctx_request_query_view :: RequestQueryView
  ctx_request_query_view_ready :: bool
  ctx_client_query_present :: bool
  ctx_selected_fields :: "string list"
  ctx_removed_field_count :: nat
  ctx_trace_buffer :: "string option"
  ctx_trace_capacity :: nat
  ctx_trace_length :: nat
  ctx_matched_policy :: "RoutePolicy option"
  ctx_active_routes :: "RoutePolicy list option"
  ctx_l1_cache :: "L1Cache option"
  ctx_route_cache_epoch_store :: "RouteCacheEpochStore option"
  ctx_request_method :: HttpMethod
  ctx_request_epoch_ms :: int
  ctx_route_cache_epoch :: u64
  ctx_route_cache_epoch_ready :: bool
  ctx_cache_key :: string
  ctx_cache_key_ready :: bool
  ctx_cache_eligible :: bool
  ctx_request_has_authorization :: bool
  ctx_request_has_cookie :: bool
  ctx_cache_auth_bypass :: bool
  ctx_private_cache_scope_ready :: bool
  ctx_private_cache_scope_hash :: string
  ctx_cache_vary :: "(string \<times> string) list"
  ctx_cache_vary_ready :: bool
  ctx_cache_hit :: bool
  ctx_cache_layer :: "string option"
  ctx_should_return_immediate_response :: bool
  ctx_cached_response :: CacheEntry
  ctx_response_status_code :: u16
  ctx_response_body :: "string option"
  ctx_response_body_len :: nat
  ctx_response_body_size_known :: bool
  ctx_response_content_type :: string
  ctx_response_content_type_len :: nat
  ctx_l2_cache :: "'db option"
  ctx_request_mutation :: RequestMutationOutput
  ctx_pagination_warning :: bool
  ctx_pagination_warning_reason :: "string option"
  ctx_client_accept_encoding :: AcceptEncoding
  ctx_response_content_encoding :: ContentEncodingResult
  ctx_compression_decision :: CompressionDecisionOutput
  ctx_compression_decision_final :: bool
  ctx_coalescing_decision :: CoalescingDecision
  ctx_coalescing_registry :: "InFlightRegistry option"
  ctx_worker_queue :: "WorkerQueue option"
  ctx_variant_cache_key :: string
  ctx_variant_cache_key_ready :: bool
  ctx_variant_admission_passed :: bool
  ctx_sanitized_query :: string
  ctx_sanitized_query_ready :: bool
  ctx_mutation_invalidation :: PendingMutationInvalidationPlan
  ctx_pagination_metrics :: "PaginationMetrics option"
  ctx_cache_metrics :: "CacheMetrics option"
  ctx_compression_metrics :: "CompressionMetrics option"
  ctx_coalescing_metrics :: "CoalescingMetrics option"
  ctx_runtime_metrics :: "RuntimeMetrics option"
  ctx_probe_metrics :: "FollowerProbeMetrics option"
  ctx_variant_registry :: "VariantAdmissionEntry list"

definition ApgTransformContext_default :: "'db ApgTransformContext" where
  "ApgTransformContext_default =
     \<lparr>ctx_request_id = 0, ctx_input_payload_bytes = 0, ctx_output_payload_bytes = 0, ctx_executed_stage_count = 0,
      ctx_raw_path = [], ctx_raw_path_length = 0, ctx_raw_query = [], ctx_raw_query_length = 0,
      ctx_request_query_view = [], ctx_request_query_view_ready = False, ctx_client_query_present = False,
      ctx_selected_fields = [], ctx_removed_field_count = 0,
      ctx_trace_buffer = None, ctx_trace_capacity = 0, ctx_trace_length = 0,
      ctx_matched_policy = None, ctx_active_routes = None, ctx_l1_cache = None, ctx_route_cache_epoch_store = None,
      ctx_request_method = MethodGet, ctx_request_epoch_ms = 0, ctx_route_cache_epoch = 0,
      ctx_route_cache_epoch_ready = False, ctx_cache_key = [], ctx_cache_key_ready = False, ctx_cache_eligible = False,
      ctx_request_has_authorization = False, ctx_request_has_cookie = False, ctx_cache_auth_bypass = False,
      ctx_private_cache_scope_ready = False, ctx_private_cache_scope_hash = [],
      ctx_cache_vary = [], ctx_cache_vary_ready = False, ctx_cache_hit = False, ctx_cache_layer = None,
      ctx_should_return_immediate_response = False, ctx_cached_response = CacheEntry_default,
      ctx_response_status_code = 0, ctx_response_body = None, ctx_response_body_len = 0,
      ctx_response_body_size_known = False, ctx_response_content_type = [], ctx_response_content_type_len = 0,
      ctx_l2_cache = None,
      ctx_request_mutation = \<lparr>rm_path = [], rm_path_length = 0, rm_applied = False, rm_reason = None, rm_limit_to_apply = 0\<rparr>,
      ctx_pagination_warning = False, ctx_pagination_warning_reason = None,
      ctx_client_accept_encoding = AcceptEncoding_default, ctx_response_content_encoding = ContentEncodingResult_default,
      ctx_compression_decision = \<lparr>cdo_evaluated = False, cdo_candidate = False, cdo_skip_reason = SkipNone, cdo_algorithm_hint = AlgNone\<rparr>,
      ctx_compression_decision_final = False,
      ctx_coalescing_decision = \<lparr>dec_action = ActLeader, dec_reason = RsnPolicyDisabled, dec_key = [], dec_lifecycle_generation = 0\<rparr>, ctx_coalescing_registry = None, ctx_worker_queue = None,
      ctx_variant_cache_key = [], ctx_variant_cache_key_ready = False, ctx_variant_admission_passed = False,
      ctx_sanitized_query = [], ctx_sanitized_query_ready = False,
      ctx_mutation_invalidation = PendingMutationInvalidationPlan_default,
      ctx_pagination_metrics = None, ctx_cache_metrics = None, ctx_compression_metrics = None,
      ctx_coalescing_metrics = None, ctx_runtime_metrics = None, ctx_probe_metrics = None, ctx_variant_registry = []\<rparr>"

section \<open>The stage runner\<close>

datatype StageResult = StageContinue | StageError | StageSkipRemaining

record StageOutput =
  so_result :: StageResult
  so_note :: "string option"

type_synonym 'db ApgStage = "'db ApgTransformContext \<Rightarrow> StageOutput \<times> 'db ApgTransformContext"

definition cont :: "string \<Rightarrow> StageOutput" where
  "cont note = \<lparr>so_result = StageContinue, so_note = Some note\<rparr>"

definition append_trace :: "char \<Rightarrow> 'db ApgTransformContext \<Rightarrow> 'db ApgTransformContext" where
  "append_trace token ctx =
     (case ctx_trace_buffer ctx of
        None \<Rightarrow> ctx
      | Some buf \<Rightarrow>
          if ctx_trace_length ctx + 1 < ctx_trace_capacity ctx then
            ctx\<lparr>ctx_trace_buffer := Some (take (ctx_trace_length ctx) buf @ [token]),
                ctx_trace_length := ctx_trace_length ctx + 1\<rparr>
          else ctx)"

definition trace_token :: "StageResult \<Rightarrow> char" where
  "trace_token r = (case r of StageContinue \<Rightarrow> CHR ''C'' | StageError \<Rightarrow> CHR ''E'' | StageSkipRemaining \<Rightarrow> CHR ''S'')"

fun run_stages :: "'db ApgStage list \<Rightarrow> StageOutput \<Rightarrow> 'db ApgTransformContext \<Rightarrow> StageOutput \<times> 'db ApgTransformContext" where
  "run_stages [] latest ctx = (latest, ctx)"
| "run_stages (stage # stages) latest ctx =
     (let (out, ctx) = stage ctx; ctx = append_trace (trace_token (so_result out)) ctx
      in if so_result out = StageContinue then run_stages stages out ctx else (out, ctx))"

definition run_pipeline :: "'db ApgStage list \<Rightarrow> 'db ApgTransformContext \<Rightarrow> StageOutput \<times> 'db ApgTransformContext" where
  "run_pipeline stages ctx =
     run_stages stages \<lparr>so_result = StageContinue, so_note = None\<rparr>
       (ctx\<lparr>ctx_trace_length := 0,
            ctx_trace_buffer := (if ctx_trace_capacity ctx > 0 then map_option (\<lambda>_. []) (ctx_trace_buffer ctx) else ctx_trace_buffer ctx)\<rparr>)"

end
