(* ===== verification/Field_Selection.thy ===== *)
theory Field_Selection
  imports Apg_Context
begin

text \<open>
  The client's field selection (\<^verbatim>\<open>src/field_selection/request_target.cpp\<close> and its header): splitting the
  request target, parsing the \<open>fields\<close> parameter, enforcing the policy on it, and matching JSON paths against
  the compiled selection.
\<close>

section \<open>The request target\<close>

definition bounded_copy :: "string \<Rightarrow> nat \<Rightarrow> string" where
  "bounded_copy src capacity = (if capacity = 0 then [] else take (capacity - 1) src)"

definition set_path_and_query :: "string \<Rightarrow> string \<Rightarrow> 'db ApgTransformContext \<Rightarrow> 'db ApgTransformContext" where
  "set_path_and_query p q ctx =
     ctx\<lparr>ctx_raw_path := bounded_copy p kRawPathBufferSize, ctx_raw_path_length := length (bounded_copy p kRawPathBufferSize),
         ctx_raw_query := bounded_copy q kRawQueryBufferSize, ctx_raw_query_length := length (bounded_copy q kRawQueryBufferSize)\<rparr>"

definition extract_raw_path_and_query :: "string option \<Rightarrow> 'db ApgTransformContext option \<Rightarrow> bool \<times> 'db ApgTransformContext option" where
  "extract_raw_path_and_query request_target context =
     (case context of
        None \<Rightarrow> (False, None)
      | Some ctx \<Rightarrow>
          (True, Some (case request_target of
             None \<Rightarrow> set_path_and_query [] [] ctx
           | Some t \<Rightarrow>
               if t = [] then set_path_and_query [] [] ctx
               else set_path_and_query (takeWhile (\<lambda>c. c \<noteq> CHR ''?'') t) (tl (dropWhile (\<lambda>c. c \<noteq> CHR ''?'') t)) ctx)))"

section \<open>The fields parameter\<close>

definition query_key_is_fields :: "string \<Rightarrow> bool" where
  "query_key_is_fields key \<longleftrightarrow> key = ''fields''"

function parse_fields_value :: "string \<Rightarrow> string list \<Rightarrow> string list" where
  "parse_fields_value v out =
     (let tok = takeWhile (\<lambda>c. c \<noteq> CHR '','') v; rest = dropWhile (\<lambda>c. c \<noteq> CHR '','') v
      in if tok \<noteq> [] \<and> length out \<ge> kMaxFields then out
         else let out' = (if tok \<noteq> [] then out @ [bounded_copy tok kMaxFieldNameLen] else out)
              in if rest = [] then out' else parse_fields_value (tl rest) out')"
  by pat_completeness auto
termination
proof (relation "measure (\<lambda>(v, out). length v)", goal_cases)
  case (2 v out tok rest out')
  then have "length rest \<le> length v" "length (tl rest) < length rest"
    by (simp_all add: length_dropWhile_le)
  then show ?case by simp
qed simp

declare parse_fields_value.simps [simp del]

definition parse_fields_view :: "RequestQueryView \<Rightarrow> string list" where
  "parse_fields_view view =
     (case find (\<lambda>p. query_key_is_fields (qp_key p)) view of
        None \<Rightarrow> []
      | Some p \<Rightarrow> (case qp_value p of None \<Rightarrow> [] | Some v \<Rightarrow> parse_fields_value v []))"

definition parse_fields_query_parameter :: "'db ApgTransformContext \<Rightarrow> string list" where
  "parse_fields_query_parameter ctx =
     (if ctx_request_query_view_ready ctx then parse_fields_view (ctx_request_query_view ctx)
      else parse_fields_view (parse_query_view (Some (take (ctx_raw_query_length ctx) (ctx_raw_query ctx)))))"

definition clear_selected_fields :: "'db ApgTransformContext \<Rightarrow> 'db ApgTransformContext" where
  "clear_selected_fields ctx = ctx\<lparr>ctx_selected_fields := [], ctx_request_query_view_ready := False, ctx_request_query_view := []\<rparr>"

definition parse_and_store_selected_fields :: "'db ApgTransformContext \<Rightarrow> 'db ApgTransformContext" where
  "parse_and_store_selected_fields ctx =
     (let ctx = (clear_selected_fields ctx)\<lparr>ctx_client_query_present := False\<rparr>;
          ctx = (if \<not> ctx_request_query_view_ready ctx then
                   ctx\<lparr>ctx_request_query_view := parse_query_view (Some (take (ctx_raw_query_length ctx) (ctx_raw_query ctx))), ctx_request_query_view_ready := True\<rparr>
                 else ctx);
          ctx = ctx\<lparr>ctx_client_query_present := list_ex (\<lambda>p. query_key_is_fields (qp_key p)) (ctx_request_query_view ctx)\<rparr>
      in ctx\<lparr>ctx_selected_fields := map (\<lambda>f. bounded_copy f kMaxFieldNameLen) (parse_fields_query_parameter ctx)\<rparr>)"

section \<open>Policy enforcement\<close>

text \<open>The compaction in place: \<open>i\<close> reads, \<open>w\<close> writes.\<close>

fun enforce_loop :: "FieldFilterPolicy \<Rightarrow> nat list \<Rightarrow> nat \<Rightarrow> string list \<Rightarrow> nat \<times> string list" where
  "enforce_loop pol [] w fs = (w, fs)"
| "enforce_loop pol (i # is) w fs =
     (if \<not> apply_field_filter pol (Some (fs ! i)) then enforce_loop pol is w fs
      else enforce_loop pol is (w + 1) (if w \<noteq> i then fs[w := bounded_copy (fs ! i) kMaxFieldNameLen] else fs))"

definition enforce_selected_fields_policy :: "'db ApgTransformContext \<Rightarrow> FieldFilterPolicy \<Rightarrow> 'db ApgTransformContext" where
  "enforce_selected_fields_policy ctx pol =
     (let (w, fs) = enforce_loop pol [0..<length (ctx_selected_fields ctx)] 0 (ctx_selected_fields ctx)
      in ctx\<lparr>ctx_selected_fields := take w fs\<rparr>)"

section \<open>Compiled selection\<close>

fun field_hash_from :: "u32 \<Rightarrow> string \<Rightarrow> u32" where
  "field_hash_from h [] = h"
| "field_hash_from h (c # cs) = field_hash_from ((push_bit 5 h + h) + word_of_nat (char_code c)) cs"

definition field_hash :: "string option \<Rightarrow> u32" where
  "field_hash s = (case s of None \<Rightarrow> 0 | Some t \<Rightarrow> field_hash_from 5381 t)"

record CompiledFieldSelection =
  cfs_exact :: "(string \<times> u32 \<times> nat) list"
  cfs_descendant :: "(string \<times> u32 \<times> nat) list"

record SelectionMatchResult =
  sm_exact_selected :: bool
  sm_has_selected_descendant :: bool

definition starts_with_path_prefix :: "string \<Rightarrow> string \<Rightarrow> bool" where
  "starts_with_path_prefix full_path selected \<longleftrightarrow>
     take (length full_path) selected = full_path \<and> length full_path < length selected \<and>
     (selected ! length full_path = CHR ''.'' \<or> selected ! length full_path = CHR ''['')"

fun compile_fields :: "string list \<Rightarrow> CompiledFieldSelection \<Rightarrow> CompiledFieldSelection" where
  "compile_fields [] out = out"
| "compile_fields (s # ss) out =
     (if s = [] then compile_fields ss out
      else let e = (s, field_hash (Some s), length s);
               out = (if length (cfs_exact out) < kMaxFields then out\<lparr>cfs_exact := cfs_exact out @ [e]\<rparr> else out);
               out = (if length (cfs_descendant out) < kMaxFields then out\<lparr>cfs_descendant := cfs_descendant out @ [e]\<rparr> else out)
           in compile_fields ss out)"

definition compile_field_selection :: "'db ApgTransformContext \<Rightarrow> CompiledFieldSelection" where
  "compile_field_selection ctx =
     compile_fields (take kMaxFields (ctx_selected_fields ctx)) \<lparr>cfs_exact = [], cfs_descendant = []\<rparr>"

definition match_selection_compiled :: "CompiledFieldSelection \<Rightarrow> string \<Rightarrow> SelectionMatchResult" where
  "match_selection_compiled sel full_path =
     (if full_path = [] then \<lparr>sm_exact_selected = False, sm_has_selected_descendant = False\<rparr>
      else \<lparr>sm_exact_selected = list_ex (\<lambda>(p, h, n). h = field_hash (Some full_path) \<and> n = length full_path \<and> p = full_path) (cfs_exact sel),
            sm_has_selected_descendant = list_ex (\<lambda>(p, h, n). n > length full_path \<and> starts_with_path_prefix full_path p) (cfs_descendant sel)\<rparr>)"

section \<open>What they compute\<close>

lemma split_comma_span:
  "split_comma v = takeWhile (\<lambda>c. c \<noteq> CHR '','') v #
     (if dropWhile (\<lambda>c. c \<noteq> CHR '','') v = [] then [] else split_comma (tl (dropWhile (\<lambda>c. c \<noteq> CHR '','') v)))"
  by (induction v) auto

lemma parse_fields_value_spec:
  "length out \<le> kMaxFields \<Longrightarrow>
   parse_fields_value v out = take kMaxFields (out @ map (\<lambda>t. bounded_copy t kMaxFieldNameLen) (filter (\<lambda>t. t \<noteq> []) (split_comma v)))"
proof (induction v out rule: parse_fields_value.induct)
  case (1 v out)
  let ?tok = "takeWhile (\<lambda>c. c \<noteq> CHR '','') v" and ?rest = "dropWhile (\<lambda>c. c \<noteq> CHR '','') v"
  let ?F = "if ?tok \<noteq> [] then out @ [bounded_copy ?tok kMaxFieldNameLen] else out"
  show ?case
  proof (cases "?tok \<noteq> [] \<and> length out \<ge> kMaxFields")
    case True
    then show ?thesis using 1(2) by (subst parse_fields_value.simps) (simp add: Let_def)
  next
    case False
    then have F: "length ?F \<le> kMaxFields" using 1(2) by auto
    have step: "parse_fields_value v out = (if ?rest = [] then ?F else parse_fields_value (tl ?rest) ?F)"
      using False by (subst parse_fields_value.simps) (simp only: Let_def if_False)
    have more: "out @ map (\<lambda>t. bounded_copy t kMaxFieldNameLen) (filter (\<lambda>t. t \<noteq> []) (?tok # ts)) =
                ?F @ map (\<lambda>t. bounded_copy t kMaxFieldNameLen) (filter (\<lambda>t. t \<noteq> []) ts)" for ts
      by simp
    show ?thesis
    proof (cases "?rest = []")
      case True
      with step F show ?thesis by (simp only: split_comma_span [of v] more if_True) simp
    next
      case rest: False
      have "parse_fields_value (tl ?rest) ?F =
              take kMaxFields (?F @ map (\<lambda>t. bounded_copy t kMaxFieldNameLen) (filter (\<lambda>t. t \<noteq> []) (split_comma (tl ?rest))))"
        by (rule "1.IH" [OF refl refl False refl rest F])
      with step rest show ?thesis by (simp only: split_comma_span [of v] more if_False)
    qed
  qed
qed

lemma bounded_copy_id: "length f < n \<Longrightarrow> bounded_copy f n = f"
  by (simp add: bounded_copy_def)

lemma enforce_loop_filter:
  assumes "w \<le> i" "i \<le> length fs" "\<forall>f\<in>set fs. length f < kMaxFieldNameLen"
    and "enforce_loop pol [i..<length fs] w fs = (w', fs')"
  shows "take w' fs' = take w fs @ filter (\<lambda>f. apply_field_filter pol (Some f)) (drop i fs)"
  using assms
proof (induction "length fs - i" arbitrary: i w fs)
  case 0
  then show ?case by simp
next
  case (Suc n)
  then have i: "i < length fs" by simp
  then have d: "drop i fs = fs ! i # drop (Suc i) fs" by (simp add: Cons_nth_drop_Suc)
  have up: "[i..<length fs] = i # [Suc i..<length fs]" using i by (simp add: upt_conv_Cons)
  show ?case
  proof (cases "apply_field_filter pol (Some (fs ! i))")
    case False
    with Suc.prems up have "enforce_loop pol [Suc i..<length fs] w fs = (w', fs')" by simp
    with Suc.hyps(1) [of fs "Suc i" w] Suc.hyps(2) Suc.prems i d False show ?thesis by simp
  next
    case True
    let ?fs = "if w \<noteq> i then fs[w := bounded_copy (fs ! i) kMaxFieldNameLen] else fs"
    have short: "bounded_copy (fs ! i) kMaxFieldNameLen = fs ! i"
      using Suc.prems(3) i by (simp add: bounded_copy_id)
    have fs: "?fs = fs[w := fs ! i]" by (simp add: short)
    have "enforce_loop pol [Suc i..<length ?fs] (Suc w) ?fs = (w', fs')"
      using Suc.prems(4) up True by (cases "w = i") simp_all
    moreover have "\<forall>f\<in>set ?fs. length f < kMaxFieldNameLen"
      unfolding fs using Suc.prems(3) i by (auto dest!: set_update_subset_insert [THEN subsetD])
    ultimately have "take w' fs' = take (Suc w) ?fs @ filter (\<lambda>f. apply_field_filter pol (Some f)) (drop (Suc i) ?fs)"
      using Suc.hyps(1) [of ?fs "Suc i" "Suc w"] Suc.hyps(2) Suc.prems(1) i by simp
    moreover have "take (Suc w) ?fs = take w fs @ [fs ! i]"
      unfolding fs using Suc.prems(1) i by (simp add: take_Suc_conv_app_nth)
    moreover have "drop (Suc i) ?fs = drop (Suc i) fs"
      unfolding fs using Suc.prems(1) by simp
    ultimately show ?thesis using d True by simp
  qed
qed

text \<open>The fields a stored selection may hold.\<close>

definition selection_wf :: "'db ApgTransformContext \<Rightarrow> bool" where
  "selection_wf ctx \<longleftrightarrow>
     length (ctx_selected_fields ctx) \<le> kMaxFields \<and>
     list_all (\<lambda>f. f \<noteq> [] \<and> length f < kMaxFieldNameLen) (ctx_selected_fields ctx)"

lemma parse_fields_value_wf:
  "length (parse_fields_value v []) \<le> kMaxFields"
  "f \<in> set (parse_fields_value v []) \<Longrightarrow> f \<noteq> [] \<and> length f < kMaxFieldNameLen"
  by (auto simp: parse_fields_value_spec bounded_copy_def kMaxFieldNameLen_def dest!: in_set_takeD)

lemma parse_fields_view_wf:
  "length (parse_fields_view view) \<le> kMaxFields"
  "f \<in> set (parse_fields_view view) \<Longrightarrow> f \<noteq> [] \<and> length f < kMaxFieldNameLen"
  using parse_fields_value_wf by (auto simp: parse_fields_view_def split: option.splits)

lemma parse_and_store_fields:
  "ctx_selected_fields (parse_and_store_selected_fields ctx) =
     parse_fields_view (parse_query_view (Some (take (ctx_raw_query_length ctx) (ctx_raw_query ctx))))"
  using parse_fields_view_wf(2)
  by (auto simp: parse_and_store_selected_fields_def clear_selected_fields_def parse_fields_query_parameter_def Let_def
      intro!: map_idI bounded_copy_id)

lemma parse_and_store_wf: "selection_wf (parse_and_store_selected_fields ctx)"
  using parse_fields_view_wf by (auto simp: selection_wf_def parse_and_store_fields list_all_iff)

lemma enforce_filter:
  assumes "selection_wf ctx"
  shows "ctx_selected_fields (enforce_selected_fields_policy ctx pol) =
           filter (\<lambda>f. apply_field_filter pol (Some f)) (ctx_selected_fields ctx)"
proof -
  obtain w fs where l: "enforce_loop pol [0..<length (ctx_selected_fields ctx)] 0 (ctx_selected_fields ctx) = (w, fs)"
    by (cases "enforce_loop pol [0..<length (ctx_selected_fields ctx)] 0 (ctx_selected_fields ctx)")
  have "take w fs = take 0 (ctx_selected_fields ctx) @
          filter (\<lambda>f. apply_field_filter pol (Some f)) (drop 0 (ctx_selected_fields ctx))"
    by (rule enforce_loop_filter [OF _ _ _ l]) (use assms in \<open>auto simp: selection_wf_def list_all_iff\<close>)
  with l show ?thesis by (simp add: enforce_selected_fields_policy_def)
qed

lemma enforce_wf: "selection_wf ctx \<Longrightarrow> selection_wf (enforce_selected_fields_policy ctx pol)"
  unfolding selection_wf_def [of "enforce_selected_fields_policy ctx pol"]
  by (auto simp: enforce_filter selection_wf_def list_all_iff intro: le_trans [OF length_filter_le])

text \<open>The compiled selection matches a path exactly when the listed fields do.\<close>

lemma compile_fields_entries:
  "length (cfs_exact out) + length ss \<le> kMaxFields \<Longrightarrow> cfs_descendant out = cfs_exact out \<Longrightarrow>
   cfs_exact (compile_fields ss out) = cfs_exact out @ map (\<lambda>s. (s, field_hash (Some s), length s)) (filter (\<lambda>s. s \<noteq> []) ss) \<and>
   cfs_descendant (compile_fields ss out) = cfs_exact (compile_fields ss out)"
  by (induction ss out rule: compile_fields.induct) (auto simp: Let_def)

lemma match_selection_spec:
  assumes "path \<noteq> []"
  shows "sm_exact_selected (match_selection_compiled (compile_field_selection ctx) path) \<longleftrightarrow> path \<in> set (take kMaxFields (ctx_selected_fields ctx))"
    and "sm_has_selected_descendant (match_selection_compiled (compile_field_selection ctx) path) \<longleftrightarrow>
           (\<exists>f\<in>set (take kMaxFields (ctx_selected_fields ctx)). starts_with_path_prefix path f)"
proof -
  let ?e = "\<lparr>cfs_exact = [], cfs_descendant = []\<rparr>" and ?ss = "take kMaxFields (ctx_selected_fields ctx)"
  have c: "cfs_exact (compile_fields ?ss ?e) = map (\<lambda>s. (s, field_hash (Some s), length s)) (filter (\<lambda>s. s \<noteq> []) ?ss)"
    "cfs_descendant (compile_fields ?ss ?e) = cfs_exact (compile_fields ?ss ?e)"
    using compile_fields_entries [of ?e ?ss] by auto
  show "sm_exact_selected (match_selection_compiled (compile_field_selection ctx) path) \<longleftrightarrow> path \<in> set ?ss"
    using assms by (auto simp: match_selection_compiled_def compile_field_selection_def c list_ex_iff)
  show "sm_has_selected_descendant (match_selection_compiled (compile_field_selection ctx) path) \<longleftrightarrow>
          (\<exists>f\<in>set ?ss. starts_with_path_prefix path f)"
    using assms by (auto simp: match_selection_compiled_def compile_field_selection_def c list_ex_iff starts_with_path_prefix_def)
qed

end
