(* ===== verification/Json_Text.thy ===== *)
theory Json_Text
  imports Prelude
begin

text \<open>
  The JSON scanner of \<^verbatim>\<open>src/json_transform/filter_flat_json.cpp\<close>: tokens and the consumers that
  step over a value. The body and index pair is the text from the index on, so a token or slice is the difference
  of two such texts; \<open>None\<close> is the failure status. The consumers thread the count of encountered fields.

  The reference is a parser into trees whose nodes keep their text. The consumers accept what the parser
  accepts and count its members, and a value's text determines its tree whatever follows it.
\<close>

section \<open>Tokens\<close>

definition is_whitespace :: "char \<Rightarrow> bool" where
  "is_whitespace ch \<longleftrightarrow> ch = CHR '' '' \<or> ch = CHR 0x09 \<or> ch = CHR 0x0A \<or> ch = CHR 0x0D"

definition skip_whitespace :: "string \<Rightarrow> string" where
  "skip_whitespace s = dropWhile is_whitespace s"

definition starts :: "char \<Rightarrow> string \<Rightarrow> bool" where
  "starts c s \<longleftrightarrow> s \<noteq> [] \<and> hd s = c"

definition slice_to :: "string \<Rightarrow> string \<Rightarrow> string" where
  "slice_to s r = take (length s - length r) s"

fun string_token_loop :: "string \<Rightarrow> string \<Rightarrow> (string \<times> string) option" where
  "string_token_loop [] decoded = None"
| "string_token_loop (ch # cs) decoded =
     (if ch = CHR 0x22 then Some (decoded, cs)
      else if char_code ch < 32 then None
      else if ch = CHR 0x5C then (case cs of [] \<Rightarrow> None | escaped # cs' \<Rightarrow> string_token_loop cs' (decoded @ [escaped]))
      else string_token_loop cs (decoded @ [ch]))"

definition parse_json_string_token :: "string \<Rightarrow> (string \<times> string) option" where
  "parse_json_string_token s = (if \<not> starts (CHR 0x22) s then None else string_token_loop (tl s) [])"

definition number_int :: "string \<Rightarrow> string option" where
  "number_int s =
     (if s = [] then None
      else if hd s = CHR ''0'' then Some (tl s)
      else if is_digit (hd s) then Some (dropWhile is_digit s)
      else None)"

definition number_digits :: "string \<Rightarrow> string option" where
  "number_digits s = (if s = [] \<or> \<not> is_digit (hd s) then None else Some (dropWhile is_digit s))"

definition number_frac :: "string \<Rightarrow> string option" where
  "number_frac s = (if starts (CHR ''.'') s then number_digits (tl s) else Some s)"

definition number_exp :: "string \<Rightarrow> string option" where
  "number_exp s =
     (if starts (CHR ''e'') s \<or> starts (CHR ''E'') s then
        let r = tl s; r = (if starts (CHR ''+'') r \<or> starts (CHR ''-'') r then tl r else r)
        in number_digits r
      else Some s)"

definition parse_number_token :: "string \<Rightarrow> string option" where
  "parse_number_token s =
     Option.bind (number_int (if starts (CHR ''-'') s then tl s else s)) (\<lambda>r. Option.bind (number_frac r) number_exp)"

definition parse_literal_token :: "string \<Rightarrow> string \<Rightarrow> string option" where
  "parse_literal_token s literal = (if take (length literal) s = literal then Some (drop (length literal) s) else None)"

definition consume_primitive :: "string \<Rightarrow> string option" where
  "consume_primitive s =
     (if s = [] then None
      else if hd s = CHR 0x22 then map_option snd (parse_json_string_token s)
      else if hd s = CHR ''t'' then parse_literal_token s ''true''
      else if hd s = CHR ''f'' then parse_literal_token s ''false''
      else if hd s = CHR ''n'' then parse_literal_token s ''null''
      else if hd s = CHR ''-'' \<or> is_digit (hd s) then parse_number_token s
      else None)"

text \<open>The head of a member up to its value (key token, decoded key, text from the value on), and what follows a
  value: a comma and the next item, or the closing bracket.\<close>

definition member_head :: "string \<Rightarrow> (string \<times> string \<times> string) option" where
  "member_head s =
     (case parse_json_string_token s of
        None \<Rightarrow> None
      | Some (key, r) \<Rightarrow>
          if \<not> starts (CHR '':'') (skip_whitespace r) then None
          else Some (slice_to s r, key, skip_whitespace (tl (skip_whitespace r))))"

definition after_value :: "char \<Rightarrow> string \<Rightarrow> (bool \<times> string) option" where
  "after_value close s =
     (let r = skip_whitespace s
      in if r = [] then None
         else if hd r = CHR '','' then Some (True, skip_whitespace (tl r))
         else if hd r = close then Some (False, tl r)
         else None)"

text \<open>An opening bracket: the first item, or the end of an empty object or array.\<close>

definition open_bracket :: "char \<Rightarrow> char \<Rightarrow> string \<Rightarrow> (bool \<times> string) option" where
  "open_bracket opening close s =
     (if \<not> starts opening s then None
      else let r = skip_whitespace (tl s)
           in if starts close r then Some (False, tl r) else Some (True, r))"

section \<open>Lengths\<close>

lemma skip_whitespace_le: "length (skip_whitespace s) \<le> length s"
  by (simp add: skip_whitespace_def length_dropWhile_le)

lemma starts_simps [simp]: "\<not> starts c []" "starts c (x # xs) \<longleftrightarrow> x = c"
  by (simp_all add: starts_def)

lemma starts_length: "starts c s \<Longrightarrow> length (tl s) < length s"
  by (cases s) auto

lemma skip_tl_less: "s \<noteq> [] \<Longrightarrow> length (skip_whitespace (tl s)) < length s"
  using skip_whitespace_le [of "tl s"] by (cases s) auto

lemma string_token_loop_length: "string_token_loop s d = Some (k, r) \<Longrightarrow> length r < length s"
  by (induction s d rule: string_token_loop.induct) (auto split: if_splits list.splits)

lemma string_token_length: "parse_json_string_token s = Some (k, r) \<Longrightarrow> length r < length s"
  by (cases s) (auto simp: parse_json_string_token_def split: if_splits dest!: string_token_loop_length)

lemma number_digits_length: "number_digits s = Some r \<Longrightarrow> length r < length s"
  by (cases s) (auto simp: number_digits_def length_dropWhile_le le_imp_less_Suc split: if_splits)

lemma number_int_length: "number_int s = Some r \<Longrightarrow> length r < length s"
  by (cases s) (auto simp: number_int_def length_dropWhile_le le_imp_less_Suc split: if_splits)

lemma number_frac_length: "number_frac s = Some r \<Longrightarrow> length r \<le> length s"
  using number_digits_length [of "tl s" r] by (auto simp: number_frac_def split: if_splits)

lemma number_exp_length: "number_exp s = Some r \<Longrightarrow> length r \<le> length s"
  using number_digits_length [of "tl s" r] number_digits_length [of "tl (tl s)" r]
  by (auto simp: number_exp_def Let_def split: if_splits)

lemma number_length: "parse_number_token s = Some r \<Longrightarrow> length r < length s"
  by (cases s)
    (auto simp: parse_number_token_def bind_eq_Some_conv number_int_def [of "[]"] split: if_splits
      dest!: number_int_length number_frac_length number_exp_length)

lemma literal_length: "parse_literal_token s l = Some r \<Longrightarrow> l \<noteq> [] \<Longrightarrow> length r < length s"
  by (cases s; cases l) (auto simp: parse_literal_token_def split: if_splits)

lemma consume_primitive_length: "consume_primitive s = Some r \<Longrightarrow> length r < length s"
  by (auto simp: consume_primitive_def split: if_splits dest: string_token_length number_length literal_length)

lemma tl_skip_less: "skip_whitespace s \<noteq> [] \<Longrightarrow> length (tl (skip_whitespace s)) < length s"
  using skip_whitespace_le [of s] by (cases "skip_whitespace s") auto

lemma skip_tl_skip_less: "skip_whitespace s \<noteq> [] \<Longrightarrow> length (skip_whitespace (tl (skip_whitespace s))) < length s"
  using skip_tl_less [of "skip_whitespace s"] skip_whitespace_le [of s] by linarith

lemma member_head_length: "member_head s = Some (tok, k, r) \<Longrightarrow> length r < length s"
  by (auto simp: member_head_def starts_def split: option.splits if_splits
      dest!: string_token_length skip_tl_skip_less)

lemma after_value_length: "after_value c s = Some (b, r) \<Longrightarrow> length r < length s"
  using skip_tl_skip_less [of s] tl_skip_less [of s] by (auto simp: after_value_def Let_def split: if_splits)

lemma open_bracket_length: "open_bracket a z s = Some (b, r) \<Longrightarrow> length r < length s"
  using skip_tl_less [of s] starts_length [of z "skip_whitespace (tl s)"]
  by (auto simp: open_bracket_def Let_def starts_def split: if_splits)

section \<open>Consumers\<close>

function consume_json_value_any :: "string \<Rightarrow> nat \<Rightarrow> (string \<times> nat) option"
  and consume_object_any :: "string \<Rightarrow> nat \<Rightarrow> (string \<times> nat) option"
  and consume_object_loop :: "string \<Rightarrow> nat \<Rightarrow> (string \<times> nat) option"
  and consume_array_any :: "string \<Rightarrow> nat \<Rightarrow> (string \<times> nat) option"
  and consume_array_loop :: "string \<Rightarrow> nat \<Rightarrow> (string \<times> nat) option" where
  "consume_json_value_any s m =
     (if starts (CHR ''{'') s then consume_object_any s m
      else if starts (CHR ''['') s then consume_array_any s m
      else map_option (\<lambda>r. (r, m)) (consume_primitive s))"
| "consume_object_any s m =
     (case open_bracket (CHR ''{'') (CHR ''}'') s of
        None \<Rightarrow> None
      | Some (more, r) \<Rightarrow> if more then consume_object_loop r m else Some (r, m))"
| "consume_object_loop s m =
     (case member_head s of
        None \<Rightarrow> None
      | Some (_, _, v) \<Rightarrow>
         (case consume_json_value_any v (m + 1) of
            None \<Rightarrow> None
          | Some (r, m') \<Rightarrow>
             (case after_value (CHR ''}'') r of
                None \<Rightarrow> None
              | Some (more, r') \<Rightarrow> if more then consume_object_loop r' m' else Some (r', m'))))"
| "consume_array_any s m =
     (case open_bracket (CHR ''['') (CHR '']'') s of
        None \<Rightarrow> None
      | Some (more, r) \<Rightarrow> if more then consume_array_loop r m else Some (r, m))"
| "consume_array_loop s m =
     (case consume_json_value_any s m of
        None \<Rightarrow> None
      | Some (r, m') \<Rightarrow>
         (case after_value (CHR '']'') r of
            None \<Rightarrow> None
          | Some (more, r') \<Rightarrow> if more then consume_array_loop r' m' else Some (r', m')))"
  by pat_completeness auto

lemmas scan_lengths = consume_primitive_length member_head_length after_value_length open_bracket_length

lemma consume_shorter_dom:
  shows "consume_json_value_any_consume_object_any_consume_object_loop_consume_array_any_consume_array_loop_dom (Inl (Inl (s, m))) \<Longrightarrow> consume_json_value_any s m = Some (r, n) \<Longrightarrow> length r < length s"
    and "consume_json_value_any_consume_object_any_consume_object_loop_consume_array_any_consume_array_loop_dom (Inl (Inr (s, m))) \<Longrightarrow> consume_object_any s m = Some (r, n) \<Longrightarrow> length r < length s"
    and "consume_json_value_any_consume_object_any_consume_object_loop_consume_array_any_consume_array_loop_dom (Inr (Inl (s, m))) \<Longrightarrow> consume_object_loop s m = Some (r, n) \<Longrightarrow> length r < length s"
    and "consume_json_value_any_consume_object_any_consume_object_loop_consume_array_any_consume_array_loop_dom (Inr (Inr (Inl (s, m)))) \<Longrightarrow> consume_array_any s m = Some (r, n) \<Longrightarrow> length r < length s"
    and "consume_json_value_any_consume_object_any_consume_object_loop_consume_array_any_consume_array_loop_dom (Inr (Inr (Inr (s, m)))) \<Longrightarrow> consume_array_loop s m = Some (r, n) \<Longrightarrow> length r < length s"
proof (induction s m and s m and s m and s m and s m arbitrary: r n and r n and r n and r n and r n
    rule: consume_json_value_any_consume_object_any_consume_object_loop_consume_array_any_consume_array_loop.pinduct)
qed (fastforce simp: consume_json_value_any.psimps consume_object_any.psimps consume_object_loop.psimps
      consume_array_any.psimps consume_array_loop.psimps
      split: option.splits prod.splits if_splits dest: scan_lengths intro: less_trans)+

termination consume_json_value_any
proof (relation "measure (case_sum (case_sum (\<lambda>(s, m). 3 * length s + 1) (\<lambda>(s, m). 3 * length s))
    (case_sum (\<lambda>(s, m). 3 * length s + 2) (case_sum (\<lambda>(s, m). 3 * length s) (\<lambda>(s, m). 3 * length s + 2))))")
qed (auto dest!: scan_lengths consume_shorter_dom(1))

declare consume_json_value_any.simps [simp del] consume_object_any.simps [simp del] consume_object_loop.simps [simp del]
  consume_array_any.simps [simp del] consume_array_loop.simps [simp del]

section \<open>The reference parser\<close>

datatype jtree =
    JPrim string
  | JObject string "(string \<times> string \<times> jtree) list"
  | JArray string "jtree list"

fun jtext :: "jtree \<Rightarrow> string" where
  "jtext (JPrim s) = s"
| "jtext (JObject s _) = s"
| "jtext (JArray s _) = s"

fun jfields :: "jtree \<Rightarrow> nat" where
  "jfields (JPrim _) = 0"
| "jfields (JObject _ ms) = sum_list (map (\<lambda>(_, _, v). jfields v + 1) ms)"
| "jfields (JArray _ vs) = sum_list (map jfields vs)"

function jvalue :: "string \<Rightarrow> (jtree \<times> string) option"
  and jmembers :: "string \<Rightarrow> ((string \<times> string \<times> jtree) list \<times> string) option"
  and jelements :: "string \<Rightarrow> (jtree list \<times> string) option" where
  "jvalue s =
     (if starts (CHR ''{'') s then
        (case open_bracket (CHR ''{'') (CHR ''}'') s of
           None \<Rightarrow> None
         | Some (more, r) \<Rightarrow>
             if more then map_option (\<lambda>(ms, r'). (JObject (slice_to s r') ms, r')) (jmembers r) else Some (JObject (slice_to s r) [], r))
      else if starts (CHR ''['') s then
        (case open_bracket (CHR ''['') (CHR '']'') s of
           None \<Rightarrow> None
         | Some (more, r) \<Rightarrow>
             if more then map_option (\<lambda>(vs, r'). (JArray (slice_to s r') vs, r')) (jelements r) else Some (JArray (slice_to s r) [], r))
      else map_option (\<lambda>r. (JPrim (slice_to s r), r)) (consume_primitive s))"
| "jmembers s =
     (case member_head s of
        None \<Rightarrow> None
      | Some (tok, k, v) \<Rightarrow>
         (case jvalue v of
            None \<Rightarrow> None
          | Some (t, r) \<Rightarrow>
             (case after_value (CHR ''}'') r of
                None \<Rightarrow> None
              | Some (more, r') \<Rightarrow>
                  if more then map_option (\<lambda>(ms, r''). ((tok, k, t) # ms, r'')) (jmembers r')
                  else Some ([(tok, k, t)], r'))))"
| "jelements s =
     (case jvalue s of
        None \<Rightarrow> None
      | Some (t, r) \<Rightarrow>
         (case after_value (CHR '']'') r of
            None \<Rightarrow> None
          | Some (more, r') \<Rightarrow>
              if more then map_option (\<lambda>(ts, r''). (t # ts, r'')) (jelements r') else Some ([t], r')))"
  by pat_completeness auto

lemma jparse_shorter_dom:
  shows "jvalue_jmembers_jelements_dom (Inl s) \<Longrightarrow> jvalue s = Some (t, r) \<Longrightarrow> length r < length s"
    and "jvalue_jmembers_jelements_dom (Inr (Inl s)) \<Longrightarrow> jmembers s = Some (ms, r) \<Longrightarrow> length r < length s"
    and "jvalue_jmembers_jelements_dom (Inr (Inr s)) \<Longrightarrow> jelements s = Some (ts, r) \<Longrightarrow> length r < length s"
proof (induction s and s and s arbitrary: t r and ms r and ts r rule: jvalue_jmembers_jelements.pinduct)
qed (fastforce simp: jvalue.psimps jmembers.psimps jelements.psimps
      split: option.splits prod.splits if_splits dest: scan_lengths intro: less_trans)+

termination jvalue
proof (relation "measure (case_sum (\<lambda>s. 3 * length s) (case_sum (\<lambda>s. 3 * length s + 2) (\<lambda>s. 3 * length s + 2)))")
qed (auto dest!: scan_lengths jparse_shorter_dom(1))

declare jvalue.simps [simp del] jmembers.simps [simp del] jelements.simps [simp del]

lemma consume_jparse:
  shows "consume_json_value_any s m = map_option (\<lambda>(t, r). (r, m + jfields t)) (jvalue s)"
    and "consume_object_loop s m = map_option (\<lambda>(ms, r). (r, m + sum_list (map (\<lambda>(_, _, v). jfields v + 1) ms))) (jmembers s)"
    and "consume_array_loop s m = map_option (\<lambda>(ts, r). (r, m + sum_list (map jfields ts))) (jelements s)"
proof (induction s and s and s arbitrary: m and m and m rule: jvalue_jmembers_jelements.induct)
  case (1 s)
  then show ?case
    by (subst jvalue.simps, subst consume_json_value_any.simps)
      (auto simp: consume_object_any.simps consume_array_any.simps option.map_comp comp_def split_def split: option.splits)
next
  case (2 s)
  then show ?case
    by (subst jmembers.simps, subst consume_object_loop.simps)
      (auto simp: option.map_comp comp_def split_def add.assoc split: option.splits)
next
  case (3 s)
  then show ?case
    by (subst jelements.simps, subst consume_array_loop.simps)
      (auto simp: option.map_comp comp_def split_def add.assoc split: option.splits)
qed

lemma consume_object_jvalue:
  "starts (CHR ''{'') s \<Longrightarrow> consume_object_any s m = map_option (\<lambda>(t, r). (r, m + jfields t)) (jvalue s)"
  by (simp add: consume_jparse(1) [symmetric] consume_json_value_any.simps)

lemma consume_array_jvalue:
  "starts (CHR ''['') s \<Longrightarrow> consume_array_any s m = map_option (\<lambda>(t, r). (r, m + jfields t)) (jvalue s)"
  by (cases s) (simp_all add: consume_jparse(1) [symmetric] consume_json_value_any.simps)

section \<open>A value's text determines its tree\<close>

text \<open>What may follow a value without being read as part of a number, and a text that skipping leaves alone.\<close>

definition follows :: "string \<Rightarrow> bool" where
  "follows r \<longleftrightarrow> r = [] \<or> \<not> (is_digit (hd r) \<or> hd r = CHR ''.'' \<or> hd r = CHR ''e'' \<or> hd r = CHR ''E'')"

definition tight :: "string \<Rightarrow> bool" where
  "tight r \<longleftrightarrow> r = [] \<or> \<not> is_whitespace (hd r)"

lemma slice_to_append [simp]: "slice_to (p @ r) r = p"
  by (simp add: slice_to_def)

lemma skip_whitespace_split: "\<exists>w. w @ skip_whitespace s = s \<and> (\<forall>c\<in>set w. is_whitespace c)"
  by (rule exI [of _ "takeWhile is_whitespace s"]) (auto simp: skip_whitespace_def dest: set_takeWhileD)

lemma tight_skip [simp]: "tight (skip_whitespace s)"
  by (induction s) (auto simp: tight_def skip_whitespace_def)

lemma skip_whitespace_white: "\<forall>c\<in>set w. is_whitespace c \<Longrightarrow> skip_whitespace (w @ r) = skip_whitespace r"
  by (simp add: skip_whitespace_def)

lemma skip_whitespace_tight: "tight r \<Longrightarrow> skip_whitespace r = r"
  by (cases r) (simp_all add: tight_def skip_whitespace_def)

lemma tight_append: "p \<noteq> [] \<Longrightarrow> tight (p @ r) \<longleftrightarrow> \<not> is_whitespace (hd p)"
  by (simp add: tight_def)

lemma string_token_loop_local:
  "string_token_loop s d = Some (k, r) \<Longrightarrow> \<exists>p. s = p @ r \<and> (\<forall>r'. string_token_loop (p @ r') d = Some (k, r'))"
proof (induction s d rule: string_token_loop.induct)
  case (2 ch cs d)
  consider "ch = CHR 0x22" | e cs' where "ch = CHR 0x5C" "cs = e # cs'" | "ch = CHR 0x5C" "cs = []"
    | "ch \<noteq> CHR 0x22" "ch \<noteq> CHR 0x5C" by (cases cs) auto
  then show ?case
  proof cases
    case 1
    with 2 show ?thesis by (intro exI [of _ "[ch]"]) simp
  next
    case (2 e cs')
    with "2.IH"(1) [of e cs'] "2.prems" obtain p where
      "cs' = p @ r" "\<forall>r'. string_token_loop (p @ r') (d @ [e]) = Some (k, r')" by (auto simp: char_code_def)
    with 2 show ?thesis by (intro exI [of _ "ch # e # p"]) (simp add: char_code_def)
  next
    case 3
    with "2.prems" show ?thesis by (simp add: char_code_def)
  next
    case 4
    with "2.IH"(2) "2.prems" obtain p where
      "\<not> char_code ch < 32" "cs = p @ r" "\<forall>r'. string_token_loop (p @ r') (d @ [ch]) = Some (k, r')"
      by (auto split: if_splits)
    with 4 show ?thesis by (intro exI [of _ "ch # p"]) simp
  qed
qed simp

lemma string_token_local:
  assumes "parse_json_string_token s = Some (k, r)"
  shows "\<exists>p. p \<noteq> [] \<and> s = p @ r \<and> (\<forall>r'. parse_json_string_token (p @ r') = Some (k, r'))"
proof -
  from assms have l: "starts (CHR 0x22) s" "string_token_loop (tl s) [] = Some (k, r)"
    by (simp_all add: parse_json_string_token_def split: if_splits)
  from string_token_loop_local [OF l(2)] obtain p where
    p: "tl s = p @ r" "\<forall>r'. string_token_loop (p @ r') [] = Some (k, r')" by blast
  from l(1) p(1) have "s = CHR 0x22 # p @ r" by (cases s) auto
  with p(2) show ?thesis
    by (intro exI [of _ "CHR 0x22 # p"]) (simp add: parse_json_string_token_def)
qed

lemma dropWhile_digit_local: "\<not> (r' \<noteq> [] \<and> is_digit (hd r')) \<Longrightarrow> dropWhile is_digit (takeWhile is_digit s @ r') = r'"
  by (cases r') (auto simp: dropWhile_append3 dest: set_takeWhileD)

lemma number_digits_local:
  assumes "number_digits s = Some r"
  shows "\<exists>p. p \<noteq> [] \<and> s = p @ r \<and> (\<forall>r'. follows r' \<longrightarrow> number_digits (p @ r') = Some r')"
proof -
  from assms have s: "s \<noteq> []" "is_digit (hd s)" "r = dropWhile is_digit s"
    by (auto simp: number_digits_def split: if_splits)
  then have h: "takeWhile is_digit s \<noteq> []" "hd (takeWhile is_digit s) = hd s" by (cases s; simp)+
  then have "number_digits (takeWhile is_digit s @ r') = Some r'" if "follows r'" for r'
    using that s dropWhile_digit_local [of r' s] by (auto simp: number_digits_def follows_def)
  with s h show ?thesis by (intro exI [of _ "takeWhile is_digit s"]) auto
qed

lemma number_int_local:
  assumes "number_int s = Some r"
  shows "\<exists>p. p \<noteq> [] \<and> s = p @ r \<and> (\<forall>r'. \<not> (r' \<noteq> [] \<and> is_digit (hd r')) \<longrightarrow> number_int (p @ r') = Some r')"
proof (cases "hd s = CHR ''0''")
  case True
  with assms show ?thesis
    by (cases s; intro exI [of _ "[CHR ''0'']"]) (auto simp: number_int_def)
next
  case False
  with assms have s: "s \<noteq> []" "is_digit (hd s)" "r = dropWhile is_digit s"
    by (auto simp: number_int_def split: if_splits)
  then have h: "takeWhile is_digit s \<noteq> []" "hd (takeWhile is_digit s) = hd s" by (cases s; simp)+
  then have "number_int (takeWhile is_digit s @ r') = Some r'" if "\<not> (r' \<noteq> [] \<and> is_digit (hd r'))" for r'
    using that s False dropWhile_digit_local [of r' s] by (auto simp: number_int_def)
  with s h show ?thesis by (intro exI [of _ "takeWhile is_digit s"]) auto
qed

lemma number_frac_local:
  assumes "number_frac s = Some r"
  shows "\<exists>p. (p = [] \<or> hd p = CHR ''.'') \<and> s = p @ r \<and>
           (\<forall>r'. \<not> (r' \<noteq> [] \<and> (is_digit (hd r') \<or> hd r' = CHR ''.'')) \<longrightarrow> number_frac (p @ r') = Some r')"
proof (cases "starts (CHR ''.'') s")
  case True
  with assms have "number_digits (tl s) = Some r" by (simp add: number_frac_def)
  then have s: "tl s \<noteq> []" "is_digit (hd (tl s))" "r = dropWhile is_digit (tl s)"
    by (auto simp: number_digits_def split: if_splits)
  then have h: "takeWhile is_digit (tl s) \<noteq> []" "hd (takeWhile is_digit (tl s)) = hd (tl s)" by (cases "tl s"; simp)+
  have "number_frac ((CHR ''.'' # takeWhile is_digit (tl s)) @ r') = Some r'"
    if "\<not> (r' \<noteq> [] \<and> (is_digit (hd r') \<or> hd r' = CHR ''.''))" for r'
    using that s h dropWhile_digit_local [of r' "tl s"] by (auto simp: number_frac_def number_digits_def)
  moreover from True s have "s = (CHR ''.'' # takeWhile is_digit (tl s)) @ r" by (cases s) auto
  ultimately show ?thesis by (intro exI [of _ "CHR ''.'' # takeWhile is_digit (tl s)"]) auto
next
  case False
  with assms show ?thesis by (intro exI [of _ "[]"]) (auto simp: number_frac_def starts_def)
qed

lemma number_exp_local:
  assumes "number_exp s = Some r"
  shows "\<exists>p. (p = [] \<or> hd p = CHR ''e'' \<or> hd p = CHR ''E'') \<and> s = p @ r \<and>
           (\<forall>r'. follows r' \<longrightarrow> number_exp (p @ r') = Some r')"
proof (cases "starts (CHR ''e'') s \<or> starts (CHR ''E'') s")
  case True
  then obtain c t where s: "s = c # t" "c = CHR ''e'' \<or> c = CHR ''E''" by (cases s) auto
  show ?thesis
  proof (cases "starts (CHR ''+'') t \<or> starts (CHR ''-'') t")
    case True
    then obtain d u where t: "t = d # u" "d = CHR ''+'' \<or> d = CHR ''-''" by (cases t) auto
    with s assms have "number_digits u = Some r" by (auto simp: number_exp_def)
    from number_digits_local [OF this] obtain p where
      p: "u = p @ r" "\<forall>r'. follows r' \<longrightarrow> number_digits (p @ r') = Some r'" by blast
    with s t show ?thesis by (intro exI [of _ "c # d # p"]) (auto simp: number_exp_def)
  next
    case False
    with s assms have "number_digits t = Some r" by (auto simp: number_exp_def)
    from number_digits_local [OF this] obtain p where
      p: "p \<noteq> []" "t = p @ r" "\<forall>r'. follows r' \<longrightarrow> number_digits (p @ r') = Some r'" by blast
    with s False show ?thesis
      by (intro exI [of _ "c # p"]) (cases p; auto simp: number_exp_def)
  qed
next
  case False
  with assms show ?thesis by (intro exI [of _ "[]"]) (auto simp: number_exp_def starts_def follows_def)
qed

lemma number_local:
  assumes "parse_number_token s = Some r"
  shows "\<exists>p. p \<noteq> [] \<and> s = p @ r \<and> (\<forall>r'. follows r' \<longrightarrow> parse_number_token (p @ r') = Some r')"
proof -
  let ?t = "if starts (CHR ''-'') s then tl s else s"
  let ?sign = "if starts (CHR ''-'') s then [CHR ''-''] else []"
  have sign: "s = ?sign @ ?t" by (cases s) auto
  from assms obtain a b where steps: "number_int ?t = Some a" "number_frac a = Some b" "number_exp b = Some r"
    by (auto simp: parse_number_token_def bind_eq_Some_conv)
  from number_int_local [OF steps(1)] obtain p1 where
    p1: "p1 \<noteq> []" "?t = p1 @ a" "\<And>r'. \<not> (r' \<noteq> [] \<and> is_digit (hd r')) \<Longrightarrow> number_int (p1 @ r') = Some r'" by blast
  from number_frac_local [OF steps(2)] obtain p2 where
    p2: "p2 = [] \<or> hd p2 = CHR ''.''" "a = p2 @ b"
      "\<And>r'. \<not> (r' \<noteq> [] \<and> (is_digit (hd r') \<or> hd r' = CHR ''.'')) \<Longrightarrow> number_frac (p2 @ r') = Some r'" by blast
  from number_exp_local [OF steps(3)] obtain p3 where
    p3: "p3 = [] \<or> hd p3 = CHR ''e'' \<or> hd p3 = CHR ''E''" "b = p3 @ r" "\<And>r'. follows r' \<Longrightarrow> number_exp (p3 @ r') = Some r'" by blast
  have nd [simp]: "\<not> is_digit (CHR ''.'')" "\<not> is_digit (CHR ''e'')" "\<not> is_digit (CHR ''E'')"
    by (simp_all add: is_digit_def char_code_def)
  have signed: "starts (CHR ''-'') (?sign @ p1 @ x) \<longleftrightarrow> starts (CHR ''-'') s" for x
    using p1(1,2) by (cases s; cases p1) auto
  have "parse_number_token (?sign @ p1 @ p2 @ p3 @ r') = Some r'" if f: "follows r'" for r'
  proof -
    have tail: "\<not> (p3 @ r' \<noteq> [] \<and> (is_digit (hd (p3 @ r')) \<or> hd (p3 @ r') = CHR ''.''))"
      using f p3(1) by (cases p3) (auto simp: follows_def)
    then have "number_frac (p2 @ p3 @ r') = Some (p3 @ r')" by (rule p2(3))
    moreover have "number_int (p1 @ p2 @ p3 @ r') = Some (p2 @ p3 @ r')"
      using tail p2(1) by (intro p1(3)) (cases p2; auto)
    moreover have "(if starts (CHR ''-'') (?sign @ p1 @ p2 @ p3 @ r') then tl (?sign @ p1 @ p2 @ p3 @ r') else ?sign @ p1 @ p2 @ p3 @ r') = p1 @ p2 @ p3 @ r'"
      unfolding signed by simp
    ultimately show ?thesis using p3(3) [OF f] by (simp only: parse_number_token_def bind.bind_lunit)
  qed
  moreover have "s = (?sign @ p1 @ p2 @ p3) @ r" using sign p1(2) p2(2) p3(2) by simp
  ultimately show ?thesis using p1(1) by (intro exI [of _ "?sign @ p1 @ p2 @ p3"]) auto
qed

lemma literal_local:
  assumes "parse_literal_token s l = Some r"
  shows "s = l @ r \<and> parse_literal_token (l @ r') l = Some r'"
proof -
  from assms have "take (length l) s = l" "drop (length l) s = r" by (auto simp: parse_literal_token_def split: if_splits)
  then have "s = l @ r" using append_take_drop_id [of "length l" s] by simp
  then show ?thesis by (simp add: parse_literal_token_def)
qed

lemma consume_primitive_local:
  assumes "consume_primitive s = Some r"
  shows "\<exists>p. p \<noteq> [] \<and> s = p @ r \<and> (\<forall>r'. follows r' \<longrightarrow> consume_primitive (p @ r') = Some r')"
proof -
  from assms have ne: "s \<noteq> []" by (auto simp: consume_primitive_def)
  consider (str) k where "hd s = CHR 0x22" "parse_json_string_token s = Some (k, r)"
    | (lit) l where "(l, hd s) \<in> {(''true'', CHR ''t''), (''false'', CHR ''f''), (''null'', CHR ''n'')}" "parse_literal_token s l = Some r"
    | (num) "hd s = CHR ''-'' \<or> is_digit (hd s)" "hd s \<noteq> CHR 0x22" "hd s \<noteq> CHR ''t''" "hd s \<noteq> CHR ''f''" "hd s \<noteq> CHR ''n''"
        "parse_number_token s = Some r"
    using assms by (auto simp: consume_primitive_def split: if_splits)
  then show ?thesis
  proof cases
    case str
    from string_token_local [OF str(2)] obtain p where
      "p \<noteq> []" "s = p @ r" "\<forall>r'. parse_json_string_token (p @ r') = Some (k, r')" by blast
    with str(1) show ?thesis by (intro exI [of _ p]) (auto simp: consume_primitive_def)
  next
    case lit
    from literal_local [OF lit(2)] lit(1) show ?thesis
      by (intro exI [of _ l]) (auto simp: consume_primitive_def)
  next
    case num
    from number_local [OF num(6)] obtain p where
      "p \<noteq> []" "s = p @ r" "\<forall>r'. follows r' \<longrightarrow> parse_number_token (p @ r') = Some r'" by blast
    with num(1-5) show ?thesis by (intro exI [of _ p]) (auto simp: consume_primitive_def)
  qed
qed

lemma member_head_local:
  assumes "member_head s = Some (tok, k, v)"
  shows "\<exists>p. s = tok @ p @ v \<and> tight v \<and> parse_json_string_token tok = Some (k, []) \<and>
           (\<forall>v'. tight v' \<longrightarrow> member_head (tok @ p @ v') = Some (tok, k, v'))"
proof -
  from assms obtain r where r: "parse_json_string_token s = Some (k, r)" "starts (CHR '':'') (skip_whitespace r)"
    "tok = slice_to s r" "v = skip_whitespace (tl (skip_whitespace r))"
    by (auto simp: member_head_def split: option.splits if_splits)
  from string_token_local [OF r(1)] obtain p where
    p: "s = p @ r" "\<And>r'. parse_json_string_token (p @ r') = Some (k, r')" by blast
  have tok: "tok = p" using r(3) p(1) by simp
  obtain w1 where w1: "w1 @ skip_whitespace r = r" "\<forall>c\<in>set w1. is_whitespace c" using skip_whitespace_split by blast
  obtain u where u: "skip_whitespace r = CHR '':'' # u" using r(2) by (cases "skip_whitespace r") auto
  obtain w2 where w2: "w2 @ v = u" "\<forall>c\<in>set w2. is_whitespace c"
    using skip_whitespace_split [of u] r(4) u by auto
  have "member_head (p @ (w1 @ CHR '':'' # w2) @ v') = Some (p, k, v')" if "tight v'" for v'
  proof -
    have "skip_whitespace (w1 @ CHR '':'' # w2 @ v') = CHR '':'' # w2 @ v'"
      using w1(2) by (simp add: skip_whitespace_white) (simp add: skip_whitespace_def is_whitespace_def)
    moreover have "skip_whitespace (w2 @ v') = v'" using w2(2) that by (simp add: skip_whitespace_white skip_whitespace_tight)
    ultimately show ?thesis using p(2) by (simp add: member_head_def)
  qed
  moreover have "s = p @ (w1 @ CHR '':'' # w2) @ v" using p(1) w1(1) u w2(1) by (metis append.assoc append_Cons)
  moreover have "tight v" by (simp add: r(4))
  ultimately show ?thesis using p(2) [of "[]"] unfolding tok by (intro exI [of _ "w1 @ CHR '':'' # w2"]) simp
qed

lemma after_value_local:
  assumes "after_value c s = Some (more, r)"
  shows "\<exists>p. p \<noteq> [] \<and> s = p @ r \<and> (is_whitespace (hd p) \<or> hd p = CHR '','' \<or> hd p = c) \<and> (more \<longrightarrow> tight r) \<and>
           (\<forall>r'. (more \<longrightarrow> tight r') \<longrightarrow> after_value c (p @ r') = Some (more, r'))"
proof -
  obtain w where w: "w @ skip_whitespace s = s" "\<forall>c\<in>set w. is_whitespace c" using skip_whitespace_split by blast
  from assms obtain d u where u: "skip_whitespace s = d # u" by (cases "skip_whitespace s") (auto simp: after_value_def)
  have nd: "\<not> is_whitespace d" using tight_skip [of s] by (simp add: u tight_def)
  have skip: "skip_whitespace (w @ d # x) = d # x" for x
    using w(2) nd by (simp add: skip_whitespace_white skip_whitespace_tight tight_def)
  show ?thesis
  proof (cases "d = CHR '',''")
    case True
    with assms u have r: "more" "r = skip_whitespace u" by (auto simp: after_value_def)
    obtain w2 where w2: "w2 @ r = u" "\<forall>c\<in>set w2. is_whitespace c" using skip_whitespace_split [of u] r(2) by blast
    have "skip_whitespace (w2 @ r') = r'" if "tight r'" for r'
      using w2(2) that by (simp add: skip_whitespace_white skip_whitespace_tight)
    then have "after_value c ((w @ d # w2) @ r') = Some (more, r')" if "tight r'" for r'
      using that True r(1) skip [of "w2 @ r'"] by (simp add: after_value_def)
    moreover have "is_whitespace (hd (w @ d # w2)) \<or> hd (w @ d # w2) = CHR '',''" using w(2) True by (cases w) auto
    moreover have "(w @ d # w2) @ r = s" using w(1) u w2(1) by simp
    ultimately show ?thesis using r(1) r(2) by (intro exI [of _ "w @ d # w2"]) auto
  next
    case False
    with assms u have r: "\<not> more" "d = c" "r = u" by (auto simp: after_value_def split: if_splits)
    have "after_value c ((w @ [d]) @ r') = Some (more, r')" for r'
      using False r skip [of r'] by (simp add: after_value_def)
    moreover have "is_whitespace (hd (w @ [d])) \<or> hd (w @ [d]) = c" using w(2) r(2) by (cases w) auto
    moreover have "(w @ [d]) @ r = s" using w(1) u r(3) by simp
    ultimately show ?thesis using r(1) by (intro exI [of _ "w @ [d]"]) auto
  qed
qed

lemma open_bracket_local:
  assumes "open_bracket a z s = Some (more, r)"
  shows "\<exists>p. p \<noteq> [] \<and> hd p = a \<and> s = p @ r \<and> (more \<longrightarrow> tight r \<and> \<not> starts z r) \<and>
           (\<forall>r'. (more \<longrightarrow> tight r' \<and> \<not> starts z r') \<longrightarrow> \<not> is_whitespace z \<longrightarrow> open_bracket a z (p @ r') = Some (more, r'))"
proof -
  from assms obtain u where u: "s = a # u" by (cases s) (auto simp: open_bracket_def split: if_splits)
  obtain w where w: "w @ skip_whitespace u = u" "\<forall>c\<in>set w. is_whitespace c" using skip_whitespace_split by blast
  show ?thesis
  proof (cases "starts z (skip_whitespace u)")
    case True
    with assms u have r: "\<not> more" "skip_whitespace u = z # r"
      by (auto simp: open_bracket_def starts_def split: if_splits)
    have "open_bracket a z ((a # w @ [z]) @ r') = Some (more, r')" if "\<not> is_whitespace z" for r'
      using that w(2) r(1) by (simp add: open_bracket_def skip_whitespace_white) (simp add: skip_whitespace_def)
    moreover have "(a # w @ [z]) @ r = s" using w(1) u r(2) by simp
    ultimately show ?thesis using r(1) by (intro exI [of _ "a # w @ [z]"]) auto
  next
    case False
    with assms u have r: "more" "r = skip_whitespace u" by (auto simp: open_bracket_def split: if_splits)
    have "open_bracket a z ((a # w) @ r') = Some (more, r')" if "tight r'" "\<not> starts z r'" for r'
      using that w(2) r(1) by (simp add: open_bracket_def skip_whitespace_white skip_whitespace_tight)
    moreover have "(a # w) @ r = s" using w(1) u r(2) by simp
    ultimately show ?thesis using r False by (intro exI [of _ "a # w"]) auto
  qed
qed

lemma follows_after: "after_value c s = Some (more, r) \<Longrightarrow> c = CHR ''}'' \<or> c = CHR '']'' \<Longrightarrow> follows s"
  by (drule after_value_local) (auto simp: follows_def is_whitespace_def is_digit_def char_code_def)

lemma follows_append: "p \<noteq> [] \<Longrightarrow> follows (p @ r) \<Longrightarrow> follows (p @ r')"
  by (simp add: follows_def)

lemma tight_append_cong: "p \<noteq> [] \<Longrightarrow> tight (p @ r) \<Longrightarrow> tight (p @ r')"
  by (simp add: tight_def)

lemma not_starts_append_cong: "p \<noteq> [] \<Longrightarrow> \<not> starts z (p @ r) \<Longrightarrow> \<not> starts z (p @ r')"
  by (simp add: starts_def)

lemma not_white_brackets [simp]: "\<not> is_whitespace (CHR ''}'')" "\<not> is_whitespace (CHR '']'')"
  by (simp_all add: is_whitespace_def)

text \<open>A bracketed value, from the locality of its items.\<close>

lemma bracket_local:
  assumes "open_bracket a z s = Some (more, r)" and "\<not> is_whitespace z"
    and "more \<Longrightarrow> items r = Some (xs, r') \<and> (\<exists>q. q \<noteq> [] \<and> r = q @ r' \<and> (\<forall>r''. items (q @ r'') = Some (xs, r'')))"
    and "\<not> more \<Longrightarrow> r' = r"
  shows "\<exists>p. p \<noteq> [] \<and> hd p = a \<and> s = p @ r' \<and>
           (\<forall>r''. \<exists>u. open_bracket a z (p @ r'') = Some (more, u) \<and> (if more then items u = Some (xs, r'') else u = r''))"
proof -
  from open_bracket_local [OF assms(1)] obtain p where
    p: "p \<noteq> []" "hd p = a" "s = p @ r" "more \<longrightarrow> tight r \<and> \<not> starts z r"
      "\<And>x. (more \<longrightarrow> tight x \<and> \<not> starts z x) \<Longrightarrow> open_bracket a z (p @ x) = Some (more, x)"
    using assms(2) by blast
  show ?thesis
  proof (cases more)
    case False
    with p assms(4) show ?thesis by (intro exI [of _ p]) auto
  next
    case True
    with assms(3) obtain q where q: "q \<noteq> []" "r = q @ r'" "\<And>x. items (q @ x) = Some (xs, x)" by blast
    have "open_bracket a z (p @ q @ x) = Some (more, q @ x)" for x
      using True p(4) q(1,2) by (intro p(5)) (auto intro: tight_append_cong dest: not_starts_append_cong)
    with True p q show ?thesis by (intro exI [of _ "p @ q"]) auto
  qed
qed

lemma items_local:
  assumes v: "follows rv" "v = pv @ rv" "pv \<noteq> []"
    "\<And>x. follows x \<Longrightarrow> val (pv @ x) = Some (t, x)"
    and aft: "after_value c rv = Some (more, r)" "c = CHR ''}'' \<or> c = CHR '']''"
    and rest: "more \<Longrightarrow> (\<exists>q. q \<noteq> [] \<and> r = q @ r' \<and> (\<forall>x. items (q @ x) = Some (xs, x)))" "\<not> more \<Longrightarrow> r' = r"
  shows "\<exists>p. p \<noteq> [] \<and> v = pv @ p @ r' \<and>
           (\<forall>x. val (pv @ p @ x) = Some (t, p @ x) \<and>
              (\<exists>u. after_value c (p @ x) = Some (more, u) \<and> (if more then items u = Some (xs, x) else u = x)))"
proof -
  from after_value_local [OF aft(1)] obtain p where
    p: "p \<noteq> []" "rv = p @ r" "more \<longrightarrow> tight r" "\<And>x. (more \<longrightarrow> tight x) \<Longrightarrow> after_value c (p @ x) = Some (more, x)"
    by blast
  have f: "follows (p @ x)" for x using v(1) p(1,2) follows_append by blast
  show ?thesis
  proof (cases more)
    case False
    with p rest(2) v f show ?thesis by (intro exI [of _ p]) auto
  next
    case True
    with rest(1) obtain q where q: "q \<noteq> []" "r = q @ r'" "\<And>x. items (q @ x) = Some (xs, x)" by blast
    have "after_value c (p @ q @ x) = Some (more, q @ x)" for x
      using True p(3) q(1,2) by (intro p(4)) (auto intro: tight_append_cong)
    with True p q v f show ?thesis by (intro exI [of _ "p @ q"]) auto
  qed
qed

lemma jparse_local:
  shows "jvalue s = Some (t, r) \<Longrightarrow>
           jtext t \<noteq> [] \<and> s = jtext t @ r \<and> (\<forall>r'. follows r' \<longrightarrow> jvalue (jtext t @ r') = Some (t, r'))"
    and "jmembers s = Some (ms, r) \<Longrightarrow> \<exists>p. p \<noteq> [] \<and> s = p @ r \<and> (\<forall>r'. jmembers (p @ r') = Some (ms, r'))"
    and "jelements s = Some (ts, r) \<Longrightarrow> \<exists>p. p \<noteq> [] \<and> s = p @ r \<and> (\<forall>r'. jelements (p @ r') = Some (ts, r'))"
proof (induction s and s and s arbitrary: t r and ms r and ts r rule: jvalue_jmembers_jelements.induct)
  case (1 s)
  consider (obj) more u where "starts (CHR ''{'') s" "open_bracket (CHR ''{'') (CHR ''}'') s = Some (more, u)"
      "if more then \<exists>ms. jmembers u = Some (ms, r) \<and> t = JObject (slice_to s r) ms else u = r \<and> t = JObject (slice_to s r) []"
    | (arr) more u where "\<not> starts (CHR ''{'') s" "starts (CHR ''['') s" "open_bracket (CHR ''['') (CHR '']'') s = Some (more, u)"
      "if more then \<exists>ts. jelements u = Some (ts, r) \<and> t = JArray (slice_to s r) ts else u = r \<and> t = JArray (slice_to s r) []"
    | (prim) "\<not> starts (CHR ''{'') s" "\<not> starts (CHR ''['') s" "consume_primitive s = Some r" "t = JPrim (slice_to s r)"
    using "1.prems" by (subst (asm) jvalue.simps) (auto split: if_splits option.splits prod.splits)
  then show ?case
  proof cases
    case obj
    obtain ms where ms: "if more then jmembers u = Some (ms, r) \<and> t = JObject (slice_to s r) ms else u = r \<and> ms = [] \<and> t = JObject (slice_to s r) ms"
      using obj(3) by (cases more) auto
    have "\<exists>p. p \<noteq> [] \<and> hd p = CHR ''{'' \<and> s = p @ r \<and>
            (\<forall>x. \<exists>u. open_bracket (CHR ''{'') (CHR ''}'') (p @ x) = Some (more, u) \<and> (if more then jmembers u = Some (ms, x) else u = x))"
      by (rule bracket_local [OF obj(2)]) (use ms "1.IH"(1) [OF obj(1,2) refl] in auto)
    then obtain p where p: "p \<noteq> []" "hd p = CHR ''{''" "s = p @ r"
      "\<And>x. \<exists>u. open_bracket (CHR ''{'') (CHR ''}'') (p @ x) = Some (more, u) \<and> (if more then jmembers u = Some (ms, x) else u = x)" by blast
    have "jvalue (p @ x) = Some (JObject p ms, x)" for x
      using p(1,2) p(4) [of x] ms by (subst jvalue.simps) (auto simp: starts_def split: if_splits)
    with ms p show ?thesis by (auto split: if_splits)
  next
    case arr
    obtain ts where ts: "if more then jelements u = Some (ts, r) \<and> t = JArray (slice_to s r) ts else u = r \<and> ts = [] \<and> t = JArray (slice_to s r) ts"
      using arr(4) by (cases more) auto
    have "\<exists>p. p \<noteq> [] \<and> hd p = CHR ''['' \<and> s = p @ r \<and>
            (\<forall>x. \<exists>u. open_bracket (CHR ''['') (CHR '']'') (p @ x) = Some (more, u) \<and> (if more then jelements u = Some (ts, x) else u = x))"
      by (rule bracket_local [OF arr(3)]) (use ts "1.IH"(2) [OF arr(1-3) refl] in auto)
    then obtain p where p: "p \<noteq> []" "hd p = CHR ''[''" "s = p @ r"
      "\<And>x. \<exists>u. open_bracket (CHR ''['') (CHR '']'') (p @ x) = Some (more, u) \<and> (if more then jelements u = Some (ts, x) else u = x)" by blast
    have "jvalue (p @ x) = Some (JArray p ts, x)" for x
      using p(1,2) p(4) [of x] ts by (subst jvalue.simps) (auto simp: starts_def split: if_splits)
    with ts p show ?thesis by (auto split: if_splits)
  next
    case prim
    from consume_primitive_local [OF prim(3)] obtain p where
      p: "p \<noteq> []" "s = p @ r" "\<And>x. follows x \<Longrightarrow> consume_primitive (p @ x) = Some x" by blast
    have "jvalue (p @ x) = Some (JPrim p, x)" if "follows x" for x
      using p prim(1,2) that by (subst jvalue.simps) (auto simp: starts_def)
    with prim(4) p show ?thesis by simp
  qed
next
  case (2 s)
  from "2.prems" obtain tok k v t rv more u where
    steps: "member_head s = Some (tok, k, v)" "jvalue v = Some (t, rv)" "after_value (CHR ''}'') rv = Some (more, u)"
    and rest: "if more then \<exists>ms'. jmembers u = Some (ms', r) \<and> ms = (tok, k, t) # ms' else ms = [(tok, k, t)] \<and> r = u"
    by (subst (asm) jmembers.simps) (auto split: if_splits option.splits prod.splits)
  have v: "jtext t \<noteq> []" "v = jtext t @ rv" "\<And>x. follows x \<Longrightarrow> jvalue (jtext t @ x) = Some (t, x)"
    using "2.IH"(1) [OF steps(1) refl refl steps(2)] by auto
  obtain ms' where ms': "if more then jmembers u = Some (ms', r) \<and> ms = (tok, k, t) # ms' else ms = [(tok, k, t)] \<and> r = u"
    using rest by (cases more) auto
  from member_head_local [OF steps(1)] obtain p1 where
    p1: "s = tok @ p1 @ v" "tight v" "parse_json_string_token tok = Some (k, [])"
      "\<And>v'. tight v' \<Longrightarrow> member_head (tok @ p1 @ v') = Some (tok, k, v')" by blast
  have "\<exists>p. p \<noteq> [] \<and> v = jtext t @ p @ r \<and>
          (\<forall>x. jvalue (jtext t @ p @ x) = Some (t, p @ x) \<and>
             (\<exists>u. after_value (CHR ''}'') (p @ x) = Some (more, u) \<and> (if more then jmembers u = Some (ms', x) else u = x)))"
    by (rule items_local [OF follows_after [OF steps(3)] v(2,1,3) steps(3)])
      (use ms' "2.IH"(2) [OF steps(1) refl refl steps(2) refl steps(3) refl] in auto)
  then obtain p where p: "p \<noteq> []" "v = jtext t @ p @ r"
    "\<And>x. jvalue (jtext t @ p @ x) = Some (t, p @ x) \<and>
       (\<exists>u. after_value (CHR ''}'') (p @ x) = Some (more, u) \<and> (if more then jmembers u = Some (ms', x) else u = x))" by blast
  have "jmembers (tok @ p1 @ jtext t @ p @ x) = Some (ms, x)" for x
    using p(3) [of x] p1(4) [OF tight_append_cong [OF v(1)], of rv "p @ x"] p1(2) v(2) ms'
    by (subst jmembers.simps) (auto split: if_splits)
  with p1(1) p v(1) show ?case by (intro exI [of _ "tok @ p1 @ jtext t @ p"]) auto
next
  case (3 s)
  from "3.prems" obtain t rv more u where
    steps: "jvalue s = Some (t, rv)" "after_value (CHR '']'') rv = Some (more, u)"
    and rest: "if more then \<exists>ts'. jelements u = Some (ts', r) \<and> ts = t # ts' else ts = [t] \<and> r = u"
    by (subst (asm) jelements.simps) (auto split: if_splits option.splits prod.splits)
  have v: "jtext t \<noteq> []" "s = jtext t @ rv" "\<And>x. follows x \<Longrightarrow> jvalue (jtext t @ x) = Some (t, x)"
    using "3.IH"(1) [OF steps(1)] by auto
  obtain ts' where ts': "if more then jelements u = Some (ts', r) \<and> ts = t # ts' else ts = [t] \<and> r = u"
    using rest by (cases more) auto
  have "\<exists>p. p \<noteq> [] \<and> s = jtext t @ p @ r \<and>
          (\<forall>x. jvalue (jtext t @ p @ x) = Some (t, p @ x) \<and>
             (\<exists>u. after_value (CHR '']'') (p @ x) = Some (more, u) \<and> (if more then jelements u = Some (ts', x) else u = x)))"
    by (rule items_local [OF follows_after [OF steps(2)] v(2,1,3) steps(2)])
      (use ts' "3.IH"(2) [OF steps(1) refl steps(2) refl] in auto)
  then obtain p where p: "p \<noteq> []" "s = jtext t @ p @ r"
    "\<And>x. jvalue (jtext t @ p @ x) = Some (t, p @ x) \<and>
       (\<exists>u. after_value (CHR '']'') (p @ x) = Some (more, u) \<and> (if more then jelements u = Some (ts', x) else u = x))" by blast
  have "jelements (jtext t @ p @ x) = Some (ts, x)" for x
    using p(3) [of x] ts' by (subst jelements.simps) (auto split: if_splits)
  with p v(1) show ?case by (intro exI [of _ "jtext t @ p"]) auto
qed

end
