(* ===== verification/Json_Filter.thy ===== *)
theory Json_Filter
  imports Field_Selection Json_Text
begin

text \<open>
  The streaming JSON filters of \<^verbatim>\<open>src/json_transform/filter_flat_json.cpp\<close>: the bounded writer and the
  filter that applies a route's field policy to nested bodies. A filter reads the body once and writes as it goes,
  with roll-backs; \<open>None\<close> is the status \<open>SkipUnsupported\<close>, on which the caller uses neither the buffer
  nor the counts.

  The reference is a filter on parse trees. The streaming filter writes exactly the text of the filtered tree,
  truncated to the buffer; that text parses back to the filtered tree, and every member in it has a permitted path.
\<close>

section \<open>The bounded writer\<close>

record BoundedWriter =
  bw_output :: string
  bw_capacity :: nat
  bw_length :: nat

definition writer_init :: "nat \<Rightarrow> BoundedWriter" where
  "writer_init cap = \<lparr>bw_output = [], bw_capacity = cap, bw_length = 0\<rparr>"

definition append_char :: "BoundedWriter \<Rightarrow> char \<Rightarrow> BoundedWriter" where
  "append_char w ch =
     w\<lparr>bw_output := (if bw_capacity w > 0 \<and> bw_length w + 1 < bw_capacity w then take (bw_length w) (bw_output w) @ [ch]
                     else take (bw_capacity w - 1) (bw_output w)),
       bw_length := bw_length w + 1\<rparr>"

definition append_slice :: "BoundedWriter \<Rightarrow> string \<Rightarrow> BoundedWriter" where
  "append_slice w text = foldl append_char w text"

definition fits_capacity :: "BoundedWriter \<Rightarrow> bool" where
  "fits_capacity w \<longleftrightarrow> bw_capacity w > 0 \<and> bw_length w + 1 \<le> bw_capacity w"

definition checkpoint :: "BoundedWriter \<Rightarrow> nat" where
  "checkpoint w = bw_length w"

definition rollback :: "BoundedWriter \<Rightarrow> nat \<Rightarrow> BoundedWriter" where
  "rollback w n =
     w\<lparr>bw_length := n, bw_output := (if bw_capacity w > 0 then take (if n < bw_capacity w then n else bw_capacity w - 1) (bw_output w)
                                    else bw_output w)\<rparr>"

text \<open>The writer after a text.\<close>

definition writer_of :: "nat \<Rightarrow> string \<Rightarrow> BoundedWriter" where
  "writer_of cap t = \<lparr>bw_output = take (cap - 1) t, bw_capacity = cap, bw_length = length t\<rparr>"

lemma writer_init_of: "writer_init cap = writer_of cap []"
  by (simp add: writer_init_def writer_of_def)

lemma append_char_of [simp]: "append_char (writer_of cap t) c = writer_of cap (t @ [c])"
  by (auto simp: append_char_def writer_of_def min_def)

lemma append_slice_of [simp]: "append_slice (writer_of cap t) u = writer_of cap (t @ u)"
  by (induction u arbitrary: t) (simp_all add: append_slice_def)

lemma rollback_of [simp]: "rollback (writer_of cap (t @ u)) (length t) = writer_of cap t"
  by (auto simp: rollback_def writer_of_def min_def)

lemma checkpoint_of [simp]: "checkpoint (writer_of cap t) = length t"
  by (simp add: checkpoint_def writer_of_def)

lemma fits_of: "fits_capacity (writer_of cap t) \<longleftrightarrow> length t < cap"
  by (auto simp: fits_capacity_def writer_of_def)

section \<open>Paths\<close>

record FieldCountMetrics =
  fc_encountered :: nat
  fc_emitted :: nat

definition kMaxSelectionPathLen :: nat where "kMaxSelectionPathLen = 512"

definition build_full_path :: "string \<Rightarrow> string \<Rightarrow> nat \<Rightarrow> string option" where
  "build_full_path prefix key capacity =
     (if capacity = 0 \<or> key = [] then None
      else if prefix \<noteq> [] \<and> length prefix + 1 \<ge> capacity then None
      else let base = (if prefix \<noteq> [] then prefix @ ''.'' else [])
           in if length base + length key + 1 > capacity then None else Some (base @ key))"

definition build_array_element_path :: "string \<Rightarrow> nat \<Rightarrow> string option" where
  "build_array_element_path array_path capacity =
     (if length array_path + 3 > capacity then None else Some (array_path @ ''[]''))"

definition consume_json_value_object_only :: "string \<Rightarrow> nat \<Rightarrow> (string \<times> nat) option" where
  "consume_json_value_object_only s m = (if starts (CHR ''['') s then None else consume_json_value_any s m)"

text \<open>The key of a member as the filters see it: decoded into a buffer of \<open>kMaxFieldNameLen\<close> bytes.\<close>

definition member_key :: "string \<Rightarrow> string" where
  "member_key decoded = take (kMaxFieldNameLen - 1) decoded"

definition open_member :: "bool \<Rightarrow> string \<Rightarrow> BoundedWriter \<Rightarrow> BoundedWriter" where
  "open_member first tok w = append_char (append_slice (if \<not> first then append_char w (CHR '','') else w) tok) (CHR '':'')"

section \<open>The policy filter\<close>

type_synonym filter_state = "string \<times> BoundedWriter \<times> bool \<times> nat \<times> FieldCountMetrics"

text \<open>A value that is read and not written.\<close>

definition skip_value :: "(string \<times> nat) option \<Rightarrow> BoundedWriter \<Rightarrow> bool \<Rightarrow> nat \<Rightarrow> FieldCountMetrics \<Rightarrow> filter_state option" where
  "skip_value consumed w first n m = map_option (\<lambda>(r, e). (r, w, first, n, m\<lparr>fc_encountered := e\<rparr>)) consumed"

text \<open>A nested value that was written: the member stays, or the writer rolls back to before it.\<close>

definition keep_or_rollback ::
  "bool \<Rightarrow> nat \<Rightarrow> bool \<Rightarrow> nat \<Rightarrow> string \<Rightarrow> BoundedWriter \<Rightarrow> FieldCountMetrics \<Rightarrow> filter_state" where
  "keep_or_rollback kept mark first n r w m =
     (if kept then (r, w, False, n + 1, m\<lparr>fc_emitted := fc_emitted m + 1\<rparr>)
      else (r, rollback w mark, first, n, m))"

function write_filtered_object_denylist ::
    "FieldFilterPolicy \<Rightarrow> string \<Rightarrow> string \<Rightarrow> BoundedWriter \<Rightarrow> FieldCountMetrics \<Rightarrow> (string \<times> BoundedWriter \<times> nat \<times> FieldCountMetrics) option"
  and denylist_object_loop ::
    "FieldFilterPolicy \<Rightarrow> string \<Rightarrow> string \<Rightarrow> BoundedWriter \<Rightarrow> bool \<Rightarrow> nat \<Rightarrow> FieldCountMetrics \<Rightarrow> (string \<times> BoundedWriter \<times> nat \<times> FieldCountMetrics) option"
  and denylist_member ::
    "FieldFilterPolicy \<Rightarrow> string \<Rightarrow> string \<Rightarrow> string \<Rightarrow> string \<Rightarrow> BoundedWriter \<Rightarrow> bool \<Rightarrow> nat \<Rightarrow> FieldCountMetrics \<Rightarrow> filter_state option"
  and filter_nested_array_value_denylist ::
    "FieldFilterPolicy \<Rightarrow> string \<Rightarrow> string \<Rightarrow> BoundedWriter \<Rightarrow> FieldCountMetrics \<Rightarrow> (string \<times> BoundedWriter \<times> nat \<times> FieldCountMetrics) option"
  and denylist_array_loop ::
    "FieldFilterPolicy \<Rightarrow> string \<Rightarrow> string \<Rightarrow> BoundedWriter \<Rightarrow> bool \<Rightarrow> nat \<Rightarrow> FieldCountMetrics \<Rightarrow> (string \<times> BoundedWriter \<times> nat \<times> FieldCountMetrics) option"
  and denylist_element ::
    "FieldFilterPolicy \<Rightarrow> string \<Rightarrow> string \<Rightarrow> BoundedWriter \<Rightarrow> bool \<Rightarrow> nat \<Rightarrow> FieldCountMetrics \<Rightarrow> filter_state option" where
  "write_filtered_object_denylist pol prefix s w m =
     (case open_bracket (CHR ''{'') (CHR ''}'') s of
        None \<Rightarrow> None
      | Some (again, r) \<Rightarrow>
          if again then denylist_object_loop pol prefix r (append_char w (CHR ''{'')) True 0 m
          else Some (r, append_char (append_char w (CHR ''{'')) (CHR ''}''), 0, m))"
| "denylist_object_loop pol prefix s w first n m =
     (case member_head s of
        None \<Rightarrow> None
      | Some (tok, key, v) \<Rightarrow>
         (case denylist_member pol prefix tok key v w first n (m\<lparr>fc_encountered := fc_encountered m + 1\<rparr>) of
            None \<Rightarrow> None
          | Some (r, w', first', n', m') \<Rightarrow>
             (case after_value (CHR ''}'') r of
                None \<Rightarrow> None
              | Some (again, r') \<Rightarrow>
                  if again then denylist_object_loop pol prefix r' w' first' n' m'
                  else Some (r', append_char w' (CHR ''}''), n', m'))))"
| "denylist_member pol prefix tok key v w first n m =
     (case build_full_path prefix (member_key key) kMaxSelectionPathLen of
        None \<Rightarrow> skip_value (consume_json_value_object_only v (fc_encountered m)) w first n m
      | Some full_path \<Rightarrow>
          if \<not> apply_field_filter pol (Some full_path) then skip_value (consume_json_value_any v (fc_encountered m)) w first n m
          else if starts (CHR ''{'') v then
            map_option (\<lambda>(r, w', k, m'). keep_or_rollback (k \<noteq> 0) (checkpoint w) first n r w' m')
              (write_filtered_object_denylist pol full_path v (open_member first tok w) m)
          else if starts (CHR ''['') v then
            (case build_array_element_path full_path kMaxSelectionPathLen of
               None \<Rightarrow> skip_value (consume_array_any v (fc_encountered m)) w first n m
             | Some _ \<Rightarrow>
                 map_option (\<lambda>(r, w', k, m'). keep_or_rollback (k > 0) (checkpoint w) first n r w' m')
                   (filter_nested_array_value_denylist pol full_path v (open_member first tok w) m))
          else
            map_option (\<lambda>(r, e). (r, append_slice (open_member first tok w) (slice_to v r), False, n + 1,
                                   m\<lparr>fc_encountered := e, fc_emitted := fc_emitted m + 1\<rparr>))
              (consume_json_value_object_only v (fc_encountered m)))"
| "filter_nested_array_value_denylist pol array_path s w m =
     (case open_bracket (CHR ''['') (CHR '']'') s of
        None \<Rightarrow> None
      | Some (again, r) \<Rightarrow>
          if \<not> again then Some (r, append_char (append_char w (CHR ''['')) (CHR '']''), 0, m)
          else (case build_array_element_path array_path kMaxSelectionPathLen of
                  None \<Rightarrow> None
                | Some element_path \<Rightarrow> denylist_array_loop pol element_path r (append_char w (CHR ''['')) True 0 m))"
| "denylist_array_loop pol element_path s w first n m =
     (case denylist_element pol element_path s w first n m of
        None \<Rightarrow> None
      | Some (r, w', first', n', m') \<Rightarrow>
         (case after_value (CHR '']'') r of
            None \<Rightarrow> None
          | Some (again, r') \<Rightarrow>
              if again then denylist_array_loop pol element_path r' w' first' n' m'
              else Some (r', append_char w' (CHR '']''), n', m')))"
| "denylist_element pol element_path s w first n m =
     (if starts (CHR ''{'') s then
        let mark = checkpoint w; w1 = (if \<not> first then append_char w (CHR '','') else w)
        in if \<not> apply_field_filter pol (Some element_path) then
             skip_value (consume_object_any s (fc_encountered m)) (rollback w1 mark) first n m
           else map_option (\<lambda>(r, w', k, m'). if k = 0 then (r, rollback w' mark, first, n, m') else (r, w', False, n + 1, m'))
                  (write_filtered_object_denylist pol element_path s w1 m)
      else map_option (\<lambda>(r, e).
               if apply_field_filter pol (Some element_path) then
                 (r, append_slice (if \<not> first then append_char w (CHR '','') else w) (slice_to s r), False, n + 1, m\<lparr>fc_encountered := e\<rparr>)
               else (r, w, first, n, m\<lparr>fc_encountered := e\<rparr>))
             (consume_json_value_any s (fc_encountered m)))"
  by pat_completeness auto

abbreviation denylist_dom where
  "denylist_dom \<equiv> write_filtered_object_denylist_denylist_object_loop_denylist_member_filter_nested_array_value_denylist_denylist_array_loop_denylist_element_dom"

lemmas denylist_pinduct =
  write_filtered_object_denylist_denylist_object_loop_denylist_member_filter_nested_array_value_denylist_denylist_array_loop_denylist_element.pinduct

lemma jvalue_length: "jvalue s = Some (t, r) \<Longrightarrow> length r < length s"
  by (drule jparse_local(1)) (metis length_append length_greater_0_conv less_add_same_cancel2)

lemma consume_value_length: "consume_json_value_any s m = Some (r, e) \<Longrightarrow> length r < length s"
  by (auto simp: consume_jparse dest: jvalue_length)

lemma consume_starts:
  "consume_object_any s m = Some x \<Longrightarrow> starts (CHR ''{'') s"
  "consume_array_any s m = Some x \<Longrightarrow> starts (CHR ''['') s"
  by (auto simp: consume_object_any.simps consume_array_any.simps open_bracket_def split: if_splits)

lemma consume_object_length: "consume_object_any s m = Some (r, e) \<Longrightarrow> length r < length s"
  by (frule consume_starts) (auto simp: consume_object_jvalue dest: jvalue_length)

lemma consume_array_length: "consume_array_any s m = Some (r, e) \<Longrightarrow> length r < length s"
  by (frule consume_starts) (auto simp: consume_array_jvalue dest: jvalue_length)

lemma consume_object_only_length: "consume_json_value_object_only s m = Some (r, e) \<Longrightarrow> length r < length s"
  by (auto simp: consume_json_value_object_only_def dest: consume_value_length split: if_splits)

lemmas consume_lengths = consume_value_length consume_object_length consume_array_length consume_object_only_length

lemma skip_value_Some: "skip_value c w first n m = Some (r, w', first', n', m') \<Longrightarrow> \<exists>e. c = Some (r, e)"
  by (auto simp: skip_value_def)

lemma keep_or_rollback_rest: "keep_or_rollback kept mark first n r w m = (r', w', first', n', m') \<Longrightarrow> r' = r"
  by (simp add: keep_or_rollback_def split: if_splits)

lemma denylist_shorter_dom:
  shows "denylist_dom (Inl (Inl (pol, prefix, s, w, m))) \<Longrightarrow>
           write_filtered_object_denylist pol prefix s w m = Some (r, w', n', m') \<Longrightarrow> length r < length s"
    and "denylist_dom (Inl (Inr (Inl (pol, prefix, s, w, first, n, m)))) \<Longrightarrow>
           denylist_object_loop pol prefix s w first n m = Some (r, w', n', m') \<Longrightarrow> length r < length s"
    and "denylist_dom (Inl (Inr (Inr (pol, prefix, tok, key, s, w, first, n, m)))) \<Longrightarrow>
           denylist_member pol prefix tok key s w first n m = Some (r, w', first', n', m') \<Longrightarrow> length r < length s"
    and "denylist_dom (Inr (Inl (pol, prefix, s, w, m))) \<Longrightarrow>
           filter_nested_array_value_denylist pol prefix s w m = Some (r, w', n', m') \<Longrightarrow> length r < length s"
    and "denylist_dom (Inr (Inr (Inl (pol, prefix, s, w, first, n, m)))) \<Longrightarrow>
           denylist_array_loop pol prefix s w first n m = Some (r, w', n', m') \<Longrightarrow> length r < length s"
    and "denylist_dom (Inr (Inr (Inr (pol, prefix, s, w, first, n, m)))) \<Longrightarrow>
           denylist_element pol prefix s w first n m = Some (r, w', first', n', m') \<Longrightarrow> length r < length s"
proof (induction pol prefix s w m and pol prefix s w first n m and pol prefix tok key s w first n m and pol prefix s w m
    and pol prefix s w first n m and pol prefix s w first n m
    arbitrary: r w' n' m' and r w' n' m' and r w' first' n' m' and r w' n' m' and r w' n' m' and r w' first' n' m'
    rule: denylist_pinduct)
  case (1 pol prefix s w m)
  then show ?case
    by (fastforce simp: write_filtered_object_denylist.psimps split: option.splits prod.splits if_splits dest: scan_lengths)
next
  case (2 pol prefix s w first n m)
  then show ?case
    by (fastforce simp: denylist_object_loop.psimps split: option.splits prod.splits if_splits dest: scan_lengths)
next
  case (3 pol prefix tok key v w first n m)
  from "3.prems" "3.IH" show ?case
    by (fastforce simp: denylist_member.psimps [OF "3.hyps"] split: option.splits if_splits
        dest!: skip_value_Some keep_or_rollback_rest dest: consume_lengths)
next
  case (4 pol prefix s w m)
  then show ?case
    by (fastforce simp: filter_nested_array_value_denylist.psimps split: option.splits prod.splits if_splits dest: scan_lengths)
next
  case (5 pol prefix s w first n m)
  then show ?case
    by (fastforce simp: denylist_array_loop.psimps split: option.splits prod.splits if_splits dest: scan_lengths)
next
  case (6 pol prefix s w first n m)
  from "6.prems" "6.IH" show ?case
    by (fastforce simp: denylist_element.psimps [OF "6.hyps"] Let_def split: option.splits if_splits
        dest!: skip_value_Some dest: consume_lengths)
qed

termination write_filtered_object_denylist
proof (relation "measure (case_sum
    (case_sum (\<lambda>(pol, prefix, s, w, m). 3 * length s)
      (case_sum (\<lambda>(pol, prefix, s, w, first, n, m). 3 * length s + 2) (\<lambda>(pol, prefix, tok, key, s, w, first, n, m). 3 * length s + 1)))
    (case_sum (\<lambda>(pol, prefix, s, w, m). 3 * length s)
      (case_sum (\<lambda>(pol, prefix, s, w, first, n, m). 3 * length s + 2) (\<lambda>(pol, prefix, s, w, first, n, m). 3 * length s + 1))))")
qed (auto dest!: scan_lengths denylist_shorter_dom(3,6))

declare write_filtered_object_denylist.simps [simp del] denylist_object_loop.simps [simp del] denylist_member.simps [simp del]
  filter_nested_array_value_denylist.simps [simp del] denylist_array_loop.simps [simp del] denylist_element.simps [simp del]

section \<open>The policy filter on trees\<close>

fun comma_join :: "string list \<Rightarrow> string" where
  "comma_join [] = []"
| "comma_join [x] = x"
| "comma_join (x # xs) = x @ '','' @ comma_join xs"

definition member_text :: "string \<times> string \<times> jtree \<Rightarrow> string" where
  "member_text = (\<lambda>(tok, k, v). tok @ '':'' @ jtext v)"

definition mk_object :: "(string \<times> string \<times> jtree) list \<Rightarrow> jtree" where
  "mk_object ms = JObject (''{'' @ comma_join (map member_text ms) @ ''}'') ms"

definition mk_array :: "jtree list \<Rightarrow> jtree" where
  "mk_array vs = JArray (''['' @ comma_join (map jtext vs) @ '']'') vs"

fun is_jobject :: "jtree \<Rightarrow> bool" where
  "is_jobject (JObject _ _) \<longleftrightarrow> True"
| "is_jobject _ \<longleftrightarrow> False"

fun is_jarray :: "jtree \<Rightarrow> bool" where
  "is_jarray (JArray _ _) \<longleftrightarrow> True"
| "is_jarray _ \<longleftrightarrow> False"

fun jemitted :: "jtree \<Rightarrow> nat" where
  "jemitted (JPrim _) = 0"
| "jemitted (JObject _ ms) = sum_list (map (\<lambda>(_, _, v). jemitted v + 1) ms)"
| "jemitted (JArray _ vs) = sum_list (map (\<lambda>v. if is_jobject v then jemitted v else 0) vs)"

text \<open>\<open>None\<close>: the body has an array under a member without a path, which the filter does not support.\<close>

fun deny_members :: "FieldFilterPolicy \<Rightarrow> string \<Rightarrow> (string \<times> string \<times> jtree) list \<Rightarrow> (string \<times> string \<times> jtree) list option"
  and deny_member :: "FieldFilterPolicy \<Rightarrow> string \<Rightarrow> string \<Rightarrow> string \<Rightarrow> jtree \<Rightarrow> (string \<times> string \<times> jtree) list option"
  and deny_elements :: "FieldFilterPolicy \<Rightarrow> string \<Rightarrow> jtree list \<Rightarrow> jtree list option"
  and deny_element :: "FieldFilterPolicy \<Rightarrow> string \<Rightarrow> jtree \<Rightarrow> jtree list option" where
  "deny_members pol prefix [] = Some []"
| "deny_members pol prefix ((tok, k, v) # ms) =
     (case deny_member pol prefix tok k v of
        None \<Rightarrow> None
      | Some xs \<Rightarrow> map_option ((@) xs) (deny_members pol prefix ms))"
| "deny_member pol prefix tok k v =
     (case build_full_path prefix (member_key k) kMaxSelectionPathLen of
        None \<Rightarrow> if is_jarray v then None else Some []
      | Some path \<Rightarrow>
          if \<not> apply_field_filter pol (Some path) then Some []
          else (case v of
             JPrim s \<Rightarrow> Some [(tok, k, v)]
           | JObject s ms \<Rightarrow> map_option (\<lambda>ms'. if ms' = [] then [] else [(tok, k, mk_object ms')]) (deny_members pol path ms)
           | JArray s vs \<Rightarrow>
               (case build_array_element_path path kMaxSelectionPathLen of
                  None \<Rightarrow> Some []
                | Some ep \<Rightarrow> map_option (\<lambda>vs'. if vs' = [] then [] else [(tok, k, mk_array vs')]) (deny_elements pol ep vs))))"
| "deny_elements pol ep [] = Some []"
| "deny_elements pol ep (v # vs) =
     (case deny_element pol ep v of
        None \<Rightarrow> None
      | Some xs \<Rightarrow> map_option ((@) xs) (deny_elements pol ep vs))"
| "deny_element pol ep v =
     (if \<not> apply_field_filter pol (Some ep) then Some []
      else case v of
        JObject s ms \<Rightarrow> map_option (\<lambda>ms'. if ms' = [] then [] else [mk_object ms']) (deny_members pol ep ms)
      | _ \<Rightarrow> Some [v])"

declare deny_member.simps [simp del] deny_element.simps [simp del]

section \<open>Streaming refines the tree filter\<close>

definition add_counts :: "nat \<Rightarrow> nat \<Rightarrow> FieldCountMetrics \<Rightarrow> FieldCountMetrics" where
  "add_counts e k m = m\<lparr>fc_encountered := fc_encountered m + e, fc_emitted := fc_emitted m + k\<rparr>"

lemma add_counts_simps [simp]:
  "add_counts e k (add_counts e' k' m) = add_counts (e' + e) (k' + k) m"
  "add_counts 0 0 m = m"
  "m\<lparr>fc_encountered := fc_encountered m + e\<rparr> = add_counts e 0 m"
  "m\<lparr>fc_encountered := Suc (fc_encountered m)\<rparr> = add_counts 1 0 m"
  "fc_encountered (add_counts e k m) = fc_encountered m + e"
  "fc_emitted (add_counts e k m) = fc_emitted m + k"
  "(add_counts e k m)\<lparr>fc_emitted := Suc (fc_emitted m + k)\<rparr> = add_counts e (Suc k) m"
  "m\<lparr>fc_encountered := fc_encountered m + e, fc_emitted := Suc (fc_emitted m)\<rparr> = add_counts e 1 m"
  by (simp_all add: add_counts_def add.assoc)

abbreviation member_fields :: "(string \<times> string \<times> jtree) list \<Rightarrow> nat" where
  "member_fields ms \<equiv> sum_list (map (\<lambda>(_, _, v). jfields v + 1) ms)"

abbreviation member_emitted :: "(string \<times> string \<times> jtree) list \<Rightarrow> nat" where
  "member_emitted ms \<equiv> sum_list (map (\<lambda>(_, _, v). jemitted v + 1) ms)"

abbreviation element_emitted :: "jtree list \<Rightarrow> nat" where
  "element_emitted vs \<equiv> sum_list (map (\<lambda>v. if is_jobject v then jemitted v else 0) vs)"

lemma comma_join_snoc: "comma_join (xs @ [x]) = (if xs = [] then x else comma_join xs @ '','' @ x)"
  by (induction xs rule: comma_join.induct) auto

text \<open>The claim for one value, which the loops assume of the values they read.\<close>

definition deny_streams :: "FieldFilterPolicy \<Rightarrow> nat \<Rightarrow> string \<Rightarrow> bool" where
  "deny_streams pol cap s \<longleftrightarrow>
     (starts (CHR ''{'') s \<longrightarrow> (\<forall>prefix base m.
        write_filtered_object_denylist pol prefix s (writer_of cap base) m =
          (case jvalue s of
             Some (JObject raw ms, r) \<Rightarrow>
               map_option (\<lambda>ms'. (r, writer_of cap (base @ jtext (mk_object ms')), length ms', add_counts (member_fields ms) (member_emitted ms') m))
                 (deny_members pol prefix ms)
           | _ \<Rightarrow> None))) \<and>
     (starts (CHR ''['') s \<longrightarrow> (\<forall>path ep base m. build_array_element_path path kMaxSelectionPathLen = Some ep \<longrightarrow>
        filter_nested_array_value_denylist pol path s (writer_of cap base) m =
          (case jvalue s of
             Some (JArray raw vs, r) \<Rightarrow>
               map_option (\<lambda>vs'. (r, writer_of cap (base @ jtext (mk_array vs')), length vs', add_counts (sum_list (map jfields vs)) (element_emitted vs') m))
                 (deny_elements pol ep vs)
           | _ \<Rightarrow> None)))"

lemma jvalue_kind:
  assumes "jvalue s = Some (t, r)"
  shows "starts (CHR ''{'') s \<longleftrightarrow> is_jobject t" "starts (CHR ''['') s \<longleftrightarrow> is_jarray t"
  using assms by (subst (asm) jvalue.simps; auto split: if_splits option.splits prod.splits simp: starts_def)+

lemma jobject_iff: "is_jobject t \<longleftrightarrow> (\<exists>raw ms. t = JObject raw ms)" and jarray_iff: "is_jarray t \<longleftrightarrow> (\<exists>raw vs. t = JArray raw vs)"
  by (cases t; simp)+

lemma member_text_simp: "member_text (tok, k, v) = tok @ '':'' @ jtext v"
  by (simp add: member_text_def)

lemma writer_member:
  "open_member (acc = []) tok (writer_of cap (base @ comma_join (map member_text acc))) =
     writer_of cap (base @ comma_join (map member_text acc) @ (if acc = [] then [] else '','') @ tok @ '':'')"
  by (simp add: open_member_def)

lemma join_member:
  "comma_join (map member_text (acc @ [(tok, k, v)])) =
     comma_join (map member_text acc) @ (if acc = [] then [] else '','') @ tok @ '':'' @ jtext v"
  by (simp add: comma_join_snoc member_text_def)

lemma rollback_self [simp]: "rollback (writer_of cap t) (length t) = writer_of cap t"
  using rollback_of [of cap t "[]"] by simp

lemma rollback_of2 [simp]:
  "rollback (writer_of cap (a @ b @ u)) (length a + length b) = writer_of cap (a @ b)"
  using rollback_of [of cap "a @ b" u] by simp

lemma skip_value_jvalue:
  "skip_value (map_option (\<lambda>(t, r). (r, fc_encountered m + jfields t)) j) w first n m =
     map_option (\<lambda>(t, r). (r, w, first, n, add_counts (jfields t) 0 m)) j"
  by (cases j) (auto simp: skip_value_def)

lemma denylist_member_streams:
  assumes "deny_streams pol cap v"
  shows "denylist_member pol prefix tok key v (writer_of cap (base @ comma_join (map member_text acc))) (acc = []) (length acc) m =
           (case jvalue v of
              None \<Rightarrow> None
            | Some (t, r) \<Rightarrow>
                map_option (\<lambda>xs. (r, writer_of cap (base @ comma_join (map member_text (acc @ xs))), acc @ xs = [], length (acc @ xs),
                                   add_counts (jfields t) (member_emitted xs) m))
                  (deny_member pol prefix tok key t))"
proof (cases "build_full_path prefix (member_key key) kMaxSelectionPathLen")
  case None
  then show ?thesis
    by (simp add: denylist_member.simps deny_member.simps consume_json_value_object_only_def consume_jparse skip_value_jvalue
        split: option.splits) (auto simp: skip_value_def jvalue_kind(2) consume_jparse split: option.splits)
next
  case (Some path)
  show ?thesis
  proof (cases "apply_field_filter pol (Some path)")
    case False
    with Some show ?thesis
      by (auto simp: denylist_member.simps deny_member.simps consume_jparse skip_value_jvalue split: option.splits)
  next
    case True
    consider "starts (CHR ''{'') v" | "starts (CHR ''['') v" "\<not> starts (CHR ''{'') v" | "\<not> starts (CHR ''{'') v" "\<not> starts (CHR ''['') v" by blast
    then show ?thesis
    proof cases
      case 1
      show ?thesis
      proof (cases "jvalue v")
        case None
        with 1 Some True assms show ?thesis by (simp add: denylist_member.simps deny_streams_def writer_member)
      next
        case v: (Some tr)
        with 1 obtain raw ms r where "tr = (JObject raw ms, r)" by (cases tr) (auto simp: jvalue_kind jobject_iff)
        with 1 v Some True assms show ?thesis
          by (cases "deny_members pol path ms")
            (auto simp: denylist_member.simps deny_streams_def writer_member deny_member.simps keep_or_rollback_def comma_join_snoc member_text_simp mk_object_def)
      qed
    next
      case 2
      show ?thesis
      proof (cases "jvalue v")
        case None
        with 2 Some True assms show ?thesis
          by (auto simp: denylist_member.simps deny_streams_def writer_member consume_array_jvalue skip_value_def split: option.splits)
      next
        case v: (Some tr)
        with 2 obtain raw vs r where t: "tr = (JArray raw vs, r)" by (cases tr) (auto simp: jvalue_kind jarray_iff)
        show ?thesis
        proof (cases "build_array_element_path path kMaxSelectionPathLen")
          case None
          with 2 v t Some True show ?thesis
            by (simp add: denylist_member.simps deny_member.simps consume_array_jvalue skip_value_def)
        next
          case (Some ep)
          with 2 v t True \<open>build_full_path prefix (member_key key) kMaxSelectionPathLen = Some path\<close> assms show ?thesis
            by (cases "deny_elements pol ep vs")
              (auto simp: denylist_member.simps deny_streams_def writer_member deny_member.simps keep_or_rollback_def comma_join_snoc member_text_simp mk_array_def)
        qed
      qed
    next
      case 3
      show ?thesis
      proof (cases "jvalue v")
        case None
        with 3 Some True show ?thesis
          by (simp add: denylist_member.simps consume_json_value_object_only_def consume_jparse)
      next
        case v: (Some tr)
        with 3 obtain raw r where t: "tr = (JPrim raw, r)" by (cases tr; cases "fst tr") (auto simp: jvalue_kind)
        with jparse_local(1) [of v "JPrim raw" r] v have "slice_to v r = raw" by (auto simp del: slice_to_def)
        with 3 v t Some True show ?thesis
          by (simp add: denylist_member.simps deny_member.simps consume_json_value_object_only_def consume_jparse writer_member comma_join_snoc member_text_simp)
      qed
    qed
  qed
qed

lemma denylist_element_streams:
  assumes "deny_streams pol cap s"
  shows "denylist_element pol ep s (writer_of cap (base @ comma_join (map jtext acc))) (acc = []) (length acc) m =
           (case jvalue s of
              None \<Rightarrow> None
            | Some (t, r) \<Rightarrow>
                map_option (\<lambda>xs. (r, writer_of cap (base @ comma_join (map jtext (acc @ xs))), acc @ xs = [], length (acc @ xs),
                                   add_counts (jfields t) (element_emitted xs) m))
                  (deny_element pol ep t))"
proof (cases "starts (CHR ''{'') s")
  case True
  show ?thesis
  proof (cases "jvalue s")
    case None
    with True assms show ?thesis
      by (simp add: denylist_element.simps deny_streams_def consume_object_jvalue skip_value_def Let_def)
  next
    case (Some tr)
    with True obtain raw ms r where "tr = (JObject raw ms, r)" by (cases tr) (auto simp: jvalue_kind jobject_iff)
    with Some True assms show ?thesis
      by (cases "deny_members pol ep ms")
        (auto simp: denylist_element.simps deny_streams_def deny_element.simps consume_object_jvalue skip_value_def
          comma_join_snoc mk_object_def Let_def)
  qed
next
  case False
  show ?thesis
  proof (cases "jvalue s")
    case None
    with False show ?thesis by (simp add: denylist_element.simps consume_jparse)
  next
    case (Some tr)
    then obtain t r where tr: "tr = (t, r)" "\<not> is_jobject t" using False by (cases tr) (auto simp: jvalue_kind)
    with jparse_local(1) [of s t r] Some have "slice_to s r = jtext t" by (metis slice_to_append)
    moreover have "deny_element pol ep t = (if apply_field_filter pol (Some ep) then Some [t] else Some [])"
      using tr(2) by (cases t) (simp_all add: deny_element.simps)
    ultimately show ?thesis using False Some tr
      by (simp add: denylist_element.simps consume_jparse comma_join_snoc)
  qed
qed

lemma denylist_streams:
  shows "deny_streams pol cap s"
    and "denylist_object_loop pol prefix s (writer_of cap (base @ comma_join (map member_text acc))) (acc = []) (length acc) m =
           (case jmembers s of
              None \<Rightarrow> None
            | Some (ms, r) \<Rightarrow>
                map_option (\<lambda>ms'. (r, writer_of cap (base @ comma_join (map member_text (acc @ ms')) @ ''}''), length (acc @ ms'),
                                    add_counts (member_fields ms) (member_emitted ms') m))
                  (deny_members pol prefix ms))"
    and "denylist_array_loop pol ep s (writer_of cap (base @ comma_join (map jtext eacc))) (eacc = []) (length eacc) m =
           (case jelements s of
              None \<Rightarrow> None
            | Some (vs, r) \<Rightarrow>
                map_option (\<lambda>vs'. (r, writer_of cap (base @ comma_join (map jtext (eacc @ vs')) @ '']''), length (eacc @ vs'),
                                    add_counts (sum_list (map jfields vs)) (element_emitted vs') m))
                  (deny_elements pol ep vs))"
proof (induction s and s and s arbitrary: and prefix base acc m and ep base eacc m rule: jvalue_jmembers_jelements.induct)
  case (1 s)
  show ?case
    unfolding deny_streams_def
  proof (intro conjI impI allI, goal_cases)
    case (1 prefix base m)
    show ?case
    proof (cases "open_bracket (CHR ''{'') (CHR ''}'') s")
      case None
      with 1 show ?thesis by (simp add: write_filtered_object_denylist.simps jvalue.simps [of s])
    next
      case (Some o1)
      obtain again r where o1: "o1 = (again, r)" by (cases o1)
      show ?thesis
        using 1 Some o1 "1.IH"(1) [OF 1 Some [unfolded o1] refl, of prefix "base @ ''{''" "[]" m]
        by (auto simp: write_filtered_object_denylist.simps jvalue.simps [of s] mk_object_def option.map_comp comp_def
            split: option.splits)
    qed
  next
    case (2 path ep base m)
    then have ns: "\<not> starts (CHR ''{'') s" by (simp add: starts_def)
    show ?case
    proof (cases "open_bracket (CHR ''['') (CHR '']'') s")
      case None
      with 2 ns show ?thesis by (simp add: filter_nested_array_value_denylist.simps jvalue.simps [of s])
    next
      case (Some o1)
      obtain again r where o1: "o1 = (again, r)" by (cases o1)
      show ?thesis
        using 2 ns Some o1 "1.IH"(2) [OF ns 2(1) Some [unfolded o1] refl, of ep "base @ ''[''" "[]" m]
        by (auto simp: filter_nested_array_value_denylist.simps jvalue.simps [of s] mk_array_def option.map_comp comp_def
            split: option.splits)
    qed
  qed
next
  case (2 s)
  show ?case
  proof (cases "member_head s")
    case None
    then show ?thesis by (simp add: denylist_object_loop.simps jmembers.simps)
  next
    case (Some h)
    obtain tok k v where h: "h = (tok, k, v)" by (cases h)
    note member = denylist_member_streams [OF "2.IH"(1) [OF Some [unfolded h] refl refl]]
    note rest = "2.IH"(2) [OF Some [unfolded h] refl refl _ refl _ refl]
    from Some h show ?thesis
      by (subst denylist_object_loop.simps, subst jmembers.simps)
        (auto simp: member rest option.map_comp comp_def add.assoc simp del: map_append append_is_Nil_conv length_append
          split: option.splits; simp)
  qed
next
  case (3 s)
  note element = denylist_element_streams [OF "3.IH"(1)]
  note rest = "3.IH"(2) [OF _ refl _ refl]
  show ?case
    by (subst denylist_array_loop.simps, subst jelements.simps)
      (auto simp: element rest option.map_comp comp_def add.assoc simp del: map_append append_is_Nil_conv length_append
        split: option.splits; simp)
qed

end
