(* ===== verification/Json_Policy.thy ===== *)
theory Json_Policy
  imports Json_Filter
begin

text \<open>
  The policy filter on a whole body (\<^verbatim>\<open>filter_nested_json_by_policy_denylist\<close>). Its result is the status
  and, where a body was written, the buffer, its length and the counts. The output is well-formed JSON again, and
  every member it keeps has a path the policy permits.
\<close>

section \<open>The entry point\<close>

datatype FlatJsonFilterStatus =
    FfOk | FfSkipUnsupported | FfInvalidInput | FfOutputTooSmall | FfInvalidJsonSafeError | FfTimeout

type_synonym filter_result = "FlatJsonFilterStatus \<times> (string \<times> nat \<times> FieldCountMetrics) option"

definition no_counts :: FieldCountMetrics where
  "no_counts = \<lparr>fc_encountered = 0, fc_emitted = 0\<rparr>"

definition writer_result :: "BoundedWriter \<Rightarrow> FieldCountMetrics \<Rightarrow> filter_result" where
  "writer_result w m = (if fits_capacity w then FfOk else FfOutputTooSmall, Some (bw_output w, bw_length w, m))"

definition filter_nested_json_by_policy_denylist :: "string option \<Rightarrow> FieldFilterPolicy \<Rightarrow> nat \<Rightarrow> filter_result" where
  "filter_nested_json_by_policy_denylist input_body pol output_capacity =
     (case input_body of
        None \<Rightarrow> (FfInvalidInput, None)
      | Some body \<Rightarrow>
          let s = skip_whitespace body
          in if \<not> starts (CHR ''{'') s then (FfSkipUnsupported, None)
             else (case write_filtered_object_denylist pol [] s (writer_init output_capacity) no_counts of
                     None \<Rightarrow> (FfSkipUnsupported, None)
                   | Some (r, w, _, m) \<Rightarrow> if skip_whitespace r \<noteq> [] then (FfSkipUnsupported, None) else writer_result w m))"

section \<open>Refinement\<close>

definition parse_body :: "string \<Rightarrow> (string \<times> string \<times> jtree) list option" where
  "parse_body body =
     (case jvalue (skip_whitespace body) of
        Some (JObject raw ms, r) \<Rightarrow> if skip_whitespace r = [] then Some ms else None
      | _ \<Rightarrow> None)"

definition text_result :: "nat \<Rightarrow> string \<Rightarrow> nat \<Rightarrow> nat \<Rightarrow> filter_result" where
  "text_result cap out e k =
     (if length out < cap then FfOk else FfOutputTooSmall,
      Some (take (cap - 1) out, length out, \<lparr>fc_encountered = e, fc_emitted = k\<rparr>))"

lemma writer_result_of: "writer_result (writer_of cap t) (add_counts e k no_counts) = text_result cap t e k"
  by (simp add: writer_result_def fits_of text_result_def) (simp add: writer_of_def add_counts_def no_counts_def)

lemma policy_filter_equation:
  "filter_nested_json_by_policy_denylist (Some body) pol cap =
     (case parse_body body of
        None \<Rightarrow> (FfSkipUnsupported, None)
      | Some ms \<Rightarrow>
         (case deny_members pol [] ms of
            None \<Rightarrow> (FfSkipUnsupported, None)
          | Some ms' \<Rightarrow> text_result cap (jtext (mk_object ms')) (member_fields ms) (member_emitted ms')))"
proof (cases "starts (CHR ''{'') (skip_whitespace body)")
  case True
  note streams = denylist_streams(1) [of pol cap "skip_whitespace body", unfolded deny_streams_def, THEN conjunct1, THEN mp, OF True]
  show ?thesis
  proof (cases "jvalue (skip_whitespace body)")
    case None
    with True show ?thesis
      by (simp add: filter_nested_json_by_policy_denylist_def Let_def parse_body_def writer_init_of streams)
  next
    case (Some tr)
    with True obtain raw ms r where tr: "tr = (JObject raw ms, r)" by (cases tr) (auto simp: jvalue_kind jobject_iff)
    with Some True show ?thesis
      by (cases "deny_members pol [] ms")
        (auto simp: filter_nested_json_by_policy_denylist_def Let_def parse_body_def writer_init_of streams writer_result_of)
  qed
next
  case False
  then have "parse_body body = None"
    by (auto simp: parse_body_def jvalue_kind split: option.splits jtree.splits)
  with False show ?thesis by (simp add: filter_nested_json_by_policy_denylist_def Let_def)
qed

text \<open>
  (C19) The nested policy filter, run on any body and any output capacity, is parse, filter, print: it refuses
  exactly the bodies that do not parse as one JSON object or have an array below a member whose path cannot be
  built, and otherwise writes the text of the filtered tree cut to the buffer, reports its full length, and counts
  the members read and the members written.
\<close>

theorem policy_filter_refines:
  "filter_nested_json_by_policy_denylist (Some body) pol cap =
     (case parse_body body of
        None \<Rightarrow> (FfSkipUnsupported, None)
      | Some ms \<Rightarrow>
         (case deny_members pol [] ms of
            None \<Rightarrow> (FfSkipUnsupported, None)
          | Some ms' \<Rightarrow> text_result cap (jtext (mk_object ms')) (member_fields ms) (member_emitted ms')))"
  by (rule policy_filter_equation)

section \<open>The output parses\<close>

definition reparses :: "jtree \<Rightarrow> bool" where
  "reparses t \<longleftrightarrow> jtext t \<noteq> [] \<and> tight (jtext t) \<and> (\<forall>r. follows r \<longrightarrow> jvalue (jtext t @ r) = Some (t, r))"

fun jwf :: "jtree \<Rightarrow> bool" where
  "jwf (JPrim s) \<longleftrightarrow> reparses (JPrim s)"
| "jwf (JObject s ms) \<longleftrightarrow>
     reparses (JObject s ms) \<and> list_all (\<lambda>(tok, k, v). parse_json_string_token tok = Some (k, []) \<and> jwf v) ms"
| "jwf (JArray s vs) \<longleftrightarrow> reparses (JArray s vs) \<and> list_all jwf vs"

abbreviation members_wf :: "(string \<times> string \<times> jtree) list \<Rightarrow> bool" where
  "members_wf \<equiv> list_all (\<lambda>(tok, k, v). parse_json_string_token tok = Some (k, []) \<and> jwf v)"

lemma jwf_reparses: "jwf t \<Longrightarrow> reparses t"
  by (cases t) auto

lemma jvalue_reparses: "jvalue s = Some (t, r) \<Longrightarrow> tight s \<Longrightarrow> reparses t"
  using jparse_local(1) [of s t r] by (auto simp: reparses_def tight_def)

lemma jparse_wf:
  shows "jvalue s = Some (t, r) \<Longrightarrow> tight s \<Longrightarrow> jwf t"
    and "jmembers s = Some (ms, r) \<Longrightarrow> members_wf ms"
    and "jelements s = Some (ts, r) \<Longrightarrow> tight s \<Longrightarrow> list_all jwf ts"
proof (induction s and s and s arbitrary: t r and ms r and ts r rule: jvalue_jmembers_jelements.induct)
  case (1 s)
  from jvalue_reparses [OF "1.prems"] have "reparses t" .
  with 1 show ?case
    by (subst (asm) jvalue.simps) (auto split: if_splits option.splits prod.splits dest!: open_bracket_local)
next
  case (2 s)
  from "2.prems" obtain tok k v t rv again u where
    steps: "member_head s = Some (tok, k, v)" "jvalue v = Some (t, rv)" "after_value (CHR ''}'') rv = Some (again, u)"
    and rest: "if again then \<exists>ms'. jmembers u = Some (ms', r) \<and> ms = (tok, k, t) # ms' else ms = [(tok, k, t)] \<and> r = u"
    by (subst (asm) jmembers.simps) (auto split: if_splits option.splits prod.splits)
  from member_head_local [OF steps(1)] have "tight v" "parse_json_string_token tok = Some (k, [])" by auto
  with "2.IH"(1) [OF steps(1) refl refl steps(2)] have t: "members_wf [(tok, k, t)]" by simp
  have "again \<Longrightarrow> jmembers u = Some (ms', r) \<Longrightarrow> members_wf ms'" for ms'
    by (rule "2.IH"(2) [OF steps(1) refl refl steps(2) refl steps(3) refl])
  with t rest show ?case by (cases again) auto
next
  case (3 s)
  from "3.prems"(1) obtain t rv again u where
    steps: "jvalue s = Some (t, rv)" "after_value (CHR '']'') rv = Some (again, u)"
    and rest: "if again then \<exists>ts'. jelements u = Some (ts', r) \<and> ts = t # ts' else ts = [t] \<and> r = u"
    by (subst (asm) jelements.simps) (auto split: if_splits option.splits prod.splits)
  have t: "jwf t" by (rule "3.IH"(1) [OF steps(1) "3.prems"(2)])
  from after_value_local [OF steps(2)] have "again \<longrightarrow> tight u" by auto
  then have "again \<Longrightarrow> jelements u = Some (ts', r) \<Longrightarrow> list_all jwf ts'" for ts'
    using "3.IH"(2) [OF steps(1) refl steps(2) refl] by blast
  with t rest show ?case by (cases again) auto
qed

text \<open>Printed members and elements parse back.\<close>

lemma string_token_append: "parse_json_string_token tok = Some (k, []) \<Longrightarrow> parse_json_string_token (tok @ r) = Some (k, r)"
  by (drule string_token_local) auto

lemma token_tight: "parse_json_string_token tok = Some (k, []) \<Longrightarrow> tok \<noteq> [] \<and> hd tok = CHR 0x22"
  by (auto simp: parse_json_string_token_def starts_def split: if_splits)

lemma follows_brackets [simp]: "follows (CHR ''}'' # r)" "follows (CHR '']'' # r)" "follows (CHR '','' # r)"
  by (simp_all add: follows_def is_digit_def char_code_def)

lemma after_value_simps [simp]:
  "after_value (CHR ''}'') (CHR ''}'' # r) = Some (False, r)"
  "after_value (CHR '']'') (CHR '']'' # r) = Some (False, r)"
  "after_value c (CHR '','' # r) = Some (True, skip_whitespace r)"
  by (simp_all add: after_value_def skip_whitespace_def is_whitespace_def)

lemma member_head_printed:
  assumes "parse_json_string_token tok = Some (k, [])" "reparses v"
  shows "member_head (member_text (tok, k, v) @ r) = Some (tok, k, jtext v @ r)"
proof -
  have "skip_whitespace (CHR '':'' # x) = CHR '':'' # x" for x by (simp add: skip_whitespace_def is_whitespace_def)
  moreover have "skip_whitespace (jtext v @ r) = jtext v @ r"
    using assms(2) by (intro skip_whitespace_tight) (auto simp: reparses_def tight_def)
  ultimately show ?thesis
    using string_token_append [OF assms(1)] by (simp add: member_head_def member_text_simp slice_to_def)
qed

lemma jmembers_printed:
  "members_wf ms \<Longrightarrow> ms \<noteq> [] \<Longrightarrow> jmembers (comma_join (map member_text ms) @ CHR ''}'' # r) = Some (ms, r)"
proof (induction ms rule: induct_list012)
  case (2 m)
  then show ?case
    by (subst jmembers.simps) (auto simp: member_head_printed jwf_reparses jwf_reparses [unfolded reparses_def] split: prod.splits)
next
  case (3 m m' ms)
  obtain tok k v where m: "m = (tok, k, v)" by (cases m)
  let ?rest = "comma_join (map member_text (m' # ms)) @ CHR ''}'' # r"
  obtain tok' k' v' where m': "m' = (tok', k', v')" by (cases m')
  have "hd ?rest = CHR 0x22" "?rest \<noteq> []"
    using 3(3) m' token_tight [of tok' k'] by (cases ms; auto simp: member_text_simp)+
  then have skip: "skip_whitespace ?rest = ?rest" by (intro skip_whitespace_tight) (simp add: tight_def is_whitespace_def)
  have wf: "parse_json_string_token tok = Some (k, [])" "reparses v" "members_wf (m' # ms)" using 3(3) m by (auto simp: jwf_reparses)
  have "jmembers ?rest = Some (m' # ms, r)" using 3(2) wf(3) by simp
  with skip wf m show ?case
    by (subst jmembers.simps) (simp add: member_head_printed reparses_def)
qed simp

lemma jelements_printed:
  "list_all reparses vs \<Longrightarrow> vs \<noteq> [] \<Longrightarrow> jelements (comma_join (map jtext vs) @ CHR '']'' # r) = Some (vs, r)"
proof (induction vs rule: induct_list012)
  case (2 v)
  then show ?case by (subst jelements.simps) (simp add: reparses_def)
next
  case (3 v v' vs)
  let ?rest = "comma_join (map jtext (v' # vs)) @ CHR '']'' # r"
  have "tight ?rest" using 3(3) by (cases vs) (auto simp: reparses_def tight_def)
  then have skip: "skip_whitespace ?rest = ?rest" by (rule skip_whitespace_tight)
  have "jelements ?rest = Some (v' # vs, r)" using 3(2,3) by simp
  with skip 3(3) show ?case by (subst jelements.simps) (simp add: reparses_def)
qed simp

lemma open_printed [simp]:
  "open_bracket (CHR ''{'') (CHR ''}'') (CHR ''{'' # CHR ''}'' # r) = Some (False, r)"
  "open_bracket (CHR ''['') (CHR '']'') (CHR ''['' # CHR '']'' # r) = Some (False, r)"
  by (simp_all add: open_bracket_def skip_whitespace_def)

lemma open_printed_items: "tight x \<Longrightarrow> \<not> starts z x \<Longrightarrow> open_bracket a z (a # x) = Some (True, x)"
  by (simp add: open_bracket_def skip_whitespace_tight)

lemma mk_object_wf:
  assumes "members_wf ms"
  shows "jwf (mk_object ms)"
proof -
  let ?j = "comma_join (map member_text ms)"
  have "jvalue (jtext (mk_object ms) @ r) = Some (mk_object ms, r)" for r
  proof (cases "ms = []")
    case True
    then show ?thesis by (simp add: mk_object_def jvalue.simps slice_to_def)
  next
    case False
    then obtain tok k v rest where ms: "ms = (tok, k, v) # rest" by (cases ms) auto
    then have "?j \<noteq> []" "hd ?j = CHR 0x22"
      using assms token_tight [of tok k] by (cases rest; auto simp: member_text_simp)+
    then have "open_bracket (CHR ''{'') (CHR ''}'') (CHR ''{'' # ?j @ CHR ''}'' # r) = Some (True, ?j @ CHR ''}'' # r)"
      by (intro open_printed_items) (simp_all add: tight_def starts_def is_whitespace_def)
    with jmembers_printed [OF assms False, of r] show ?thesis
      by (simp add: mk_object_def jvalue.simps slice_to_def)
  qed
  then have "reparses (mk_object ms)"
    by (simp add: reparses_def) (simp add: mk_object_def tight_def is_whitespace_def)
  with assms show ?thesis by (simp add: mk_object_def)
qed

lemma jvalue_not_closing: "jvalue (CHR '']'' # x) = None"
  by (simp add: jvalue.simps consume_primitive_def is_digit_def char_code_def)

lemma mk_array_wf:
  assumes "list_all jwf vs"
  shows "jwf (mk_array vs)"
proof -
  let ?j = "comma_join (map jtext vs)"
  from assms have re: "list_all reparses vs" by (auto simp: list_all_iff jwf_reparses)
  have "jvalue (jtext (mk_array vs) @ r) = Some (mk_array vs, r)" for r
  proof (cases "vs = []")
    case True
    then show ?thesis by (simp add: mk_array_def jvalue.simps slice_to_def)
  next
    case False
    then have j: "?j \<noteq> []" "tight ?j" using re by (cases vs; cases "tl vs"; auto simp: reparses_def tight_def)+
    have "jelements (?j @ CHR '']'' # r) = Some (vs, r)" by (rule jelements_printed [OF re False])
    moreover have "open_bracket (CHR ''['') (CHR '']'') (CHR ''['' # ?j @ CHR '']'' # r) = Some (True, ?j @ CHR '']'' # r)"
    proof (rule open_printed_items)
      show "tight (?j @ CHR '']'' # r)" using j by (simp add: tight_append tight_def)
      show "\<not> starts (CHR '']'') (?j @ CHR '']'' # r)"
      proof
        assume "starts (CHR '']'') (?j @ CHR '']'' # r)"
        then obtain x where "?j @ CHR '']'' # r = CHR '']'' # x" by (cases "?j @ CHR '']'' # r") auto
        with calculation show False by (simp add: jelements.simps jvalue_not_closing)
      qed
    qed
    ultimately show ?thesis by (simp add: mk_array_def jvalue.simps slice_to_def)
  qed
  then have "reparses (mk_array vs)"
    by (simp add: reparses_def) (simp add: mk_array_def tight_def is_whitespace_def)
  with assms show ?thesis by (simp add: mk_array_def)
qed

section \<open>The output is permitted\<close>

fun permitted_members :: "FieldFilterPolicy \<Rightarrow> string \<Rightarrow> (string \<times> string \<times> jtree) list \<Rightarrow> bool"
  and permitted_value :: "FieldFilterPolicy \<Rightarrow> string \<Rightarrow> jtree \<Rightarrow> bool"
  and permitted_elements :: "FieldFilterPolicy \<Rightarrow> string \<Rightarrow> jtree list \<Rightarrow> bool" where
  "permitted_members pol prefix [] \<longleftrightarrow> True"
| "permitted_members pol prefix ((tok, k, v) # ms) \<longleftrightarrow>
     (case build_full_path prefix (member_key k) kMaxSelectionPathLen of
        None \<Rightarrow> False
      | Some path \<Rightarrow> apply_field_filter pol (Some path) \<and> permitted_value pol path v) \<and>
     permitted_members pol prefix ms"
| "permitted_value pol path (JPrim s) \<longleftrightarrow> True"
| "permitted_value pol path (JObject s ms) \<longleftrightarrow> permitted_members pol path ms"
| "permitted_value pol path (JArray s vs) \<longleftrightarrow>
     (case build_array_element_path path kMaxSelectionPathLen of
        None \<Rightarrow> False
      | Some ep \<Rightarrow> apply_field_filter pol (Some ep) \<and> permitted_elements pol ep vs)"
| "permitted_elements pol ep [] \<longleftrightarrow> True"
| "permitted_elements pol ep (v # vs) \<longleftrightarrow> (is_jobject v \<longrightarrow> permitted_value pol ep v) \<and> permitted_elements pol ep vs"

lemma permitted_append [simp]:
  "permitted_members pol prefix (ms @ ms') \<longleftrightarrow> permitted_members pol prefix ms \<and> permitted_members pol prefix ms'"
  "permitted_elements pol ep (vs @ vs') \<longleftrightarrow> permitted_elements pol ep vs \<and> permitted_elements pol ep vs'"
  by (induction ms; auto) (induction vs; auto)

lemma permitted_mk [simp]:
  "permitted_value pol path (mk_object ms) \<longleftrightarrow> permitted_members pol path ms"
  "permitted_value pol path (mk_array vs) \<longleftrightarrow>
     (case build_array_element_path path kMaxSelectionPathLen of
        None \<Rightarrow> False
      | Some ep \<Rightarrow> apply_field_filter pol (Some ep) \<and> permitted_elements pol ep vs)"
  by (simp_all add: mk_object_def mk_array_def)

lemma deny_sound:
  shows "deny_members pol prefix ms = Some ms' \<Longrightarrow> members_wf ms \<Longrightarrow> members_wf ms' \<and> permitted_members pol prefix ms'"
    and "deny_member pol prefix tok k v = Some ms' \<Longrightarrow> members_wf [(tok, k, v)] \<Longrightarrow> members_wf ms' \<and> permitted_members pol prefix ms'"
    and "deny_elements pol ep vs = Some vs' \<Longrightarrow> list_all jwf vs \<Longrightarrow>
           list_all jwf vs' \<and> permitted_elements pol ep vs' \<and> (vs' \<noteq> [] \<longrightarrow> apply_field_filter pol (Some ep))"
    and "deny_element pol ep v = Some vs' \<Longrightarrow> jwf v \<Longrightarrow>
           list_all jwf vs' \<and> permitted_elements pol ep vs' \<and> (vs' \<noteq> [] \<longrightarrow> apply_field_filter pol (Some ep))"
proof (induction pol prefix ms and pol prefix tok k v and pol ep vs and pol ep v arbitrary: ms' and ms' and vs' and vs'
    rule: deny_members_deny_member_deny_elements_deny_element.induct)
  case (3 pol prefix tok k v)
  then show ?case
    by (cases v) (auto simp: deny_member.simps mk_object_wf mk_array_wf split: option.splits if_splits)
next
  case (6 pol ep v)
  then show ?case
    by (cases v) (auto simp: deny_element.simps mk_object_wf split: option.splits if_splits)
qed (auto split: option.splits)

lemma parse_body_wf: "parse_body body = Some ms \<Longrightarrow> members_wf ms"
  using jparse_wf(1) [of "skip_whitespace body"]
  by (auto simp: parse_body_def split: option.splits jtree.splits if_splits)

lemma parse_body_mk_object:
  assumes "members_wf ms"
  shows "parse_body (jtext (mk_object ms)) = Some ms"
proof -
  have "reparses (mk_object ms)" by (rule jwf_reparses [OF mk_object_wf [OF assms]])
  then have "jvalue (jtext (mk_object ms) @ []) = Some (mk_object ms, [])" "tight (jtext (mk_object ms))"
    unfolding reparses_def follows_def by blast+
  then show ?thesis by (simp add: parse_body_def skip_whitespace_tight) (simp add: mk_object_def skip_whitespace_def)
qed

lemma policy_output_permitted:
  assumes "filter_nested_json_by_policy_denylist (Some body) pol cap = (FfOk, Some (out, len, m))"
  shows "\<exists>ms ms'. parse_body body = Some ms \<and> deny_members pol [] ms = Some ms' \<and>
           parse_body out = Some ms' \<and> len = length out \<and> permitted_members pol [] ms'"
proof -
  from assms obtain ms ms' where ms: "parse_body body = Some ms" "deny_members pol [] ms = Some ms'"
    and out: "length (jtext (mk_object ms')) < cap" "out = take (cap - 1) (jtext (mk_object ms'))" "len = length (jtext (mk_object ms'))"
    by (auto simp: policy_filter_equation text_result_def split: option.splits if_splits)
  from deny_sound(1) [OF ms(2) parse_body_wf [OF ms(1)]] have wf: "members_wf ms'" "permitted_members pol [] ms'" by auto
  from out have o: "out = jtext (mk_object ms')" by simp
  show ?thesis using ms wf(2) parse_body_mk_object [OF wf(1)] out(3) unfolding o by blast
qed

text \<open>
  (C18) What the nested policy filter releases is well-formed and permitted: whenever it reports success, the output
  is the whole text, it parses as one JSON object whose members are the filtered members of the input, and the path
  of every member in it, through nested objects and the objects of arrays, is one the policy permits. Values inside
  arrays of arrays have no path, so the policy says nothing of them. JSON and member names are those of the code's own
  scanner: a name is at most the first 63 characters of the key, and \<open>u\<close> escapes in it are not decoded.
\<close>

theorem policy_filter_output_permitted:
  assumes "filter_nested_json_by_policy_denylist (Some body) pol cap = (FfOk, Some (out, len, m))"
  shows "\<exists>ms ms'. parse_body body = Some ms \<and> deny_members pol [] ms = Some ms' \<and>
           parse_body out = Some ms' \<and> len = length out \<and> permitted_members pol [] ms'"
  using assms by (rule policy_output_permitted)

text \<open>\<^verbatim>\<open>{"i":1, "s":[{"k":2}]}\<close> under a denylist of \<open>s[].k\<close>.\<close>

definition example_body :: string where
  "example_body =
     [CHR ''{'', CHR 0x22, CHR ''i'', CHR 0x22, CHR '':'', CHR ''1'', CHR '','', CHR '' '', CHR 0x22, CHR ''s'', CHR 0x22, CHR '':'',
      CHR ''['', CHR ''{'', CHR 0x22, CHR ''k'', CHR 0x22, CHR '':'', CHR ''2'', CHR ''}'', CHR '']'', CHR ''}'']"

definition example_output :: string where
  "example_output = [CHR ''{'', CHR 0x22, CHR ''i'', CHR 0x22, CHR '':'', CHR ''1'', CHR ''}'']"

definition example_denylist :: FieldFilterPolicy where
  "example_denylist = \<lparr>ff_mode = FilterDenylist, ff_fields = [''s[].k'']\<rparr>"

lemmas json_token_eval =
  skip_whitespace_def is_whitespace_def open_bracket_def member_head_def after_value_def slice_to_def
  parse_json_string_token_def consume_primitive_def parse_number_token_def number_int_def number_frac_def number_exp_def
  number_digits_def parse_literal_token_def is_digit_def char_code_def

lemmas json_path_eval =
  build_full_path_def build_array_element_path_def member_key_def kMaxSelectionPathLen_def kMaxFieldNameLen_def
  apply_field_filter_def

lemma example_parse:
  "parse_body example_body =
     Some [([CHR 0x22, CHR ''i'', CHR 0x22], ''i'', JPrim ''1''),
           ([CHR 0x22, CHR ''s'', CHR 0x22], ''s'',
            JArray [CHR ''['', CHR ''{'', CHR 0x22, CHR ''k'', CHR 0x22, CHR '':'', CHR ''2'', CHR ''}'', CHR '']'']
             [JObject [CHR ''{'', CHR 0x22, CHR ''k'', CHR 0x22, CHR '':'', CHR ''2'', CHR ''}'']
               [([CHR 0x22, CHR ''k'', CHR 0x22], ''k'', JPrim ''2'')]])]"
  by (simp add: parse_body_def example_body_def jvalue.simps jmembers.simps jelements.simps json_token_eval Let_def)

lemma example_run:
  "filter_nested_json_by_policy_denylist (Some example_body) example_denylist 64 =
     (FfOk, Some (example_output, 7, \<lparr>fc_encountered = 3, fc_emitted = 1\<rparr>))"
  by (simp add: policy_filter_equation example_parse example_denylist_def example_output_def deny_member.simps deny_element.simps
      json_path_eval text_result_def mk_object_def member_text_def)

theorem policy_filter_output_permitted_witness:
  "filter_nested_json_by_policy_denylist (Some example_body) example_denylist 64 =
     (FfOk, Some (example_output, 7, \<lparr>fc_encountered = 3, fc_emitted = 1\<rparr>)) \<and>
   (\<exists>ms ms'. parse_body example_body = Some ms \<and> deny_members example_denylist [] ms = Some ms' \<and>
      parse_body example_output = Some ms' \<and> 7 = length example_output \<and> permitted_members example_denylist [] ms')"
  using policy_filter_output_permitted [OF example_run] example_run by blast

end
