(* ===== verification/Json_Selection.thy ===== *)
theory Json_Selection
  imports Json_Policy
begin

text \<open>
  The filter of nested bodies by the client's selection (\<^verbatim>\<open>write_filtered_object\<close>,
  \<^verbatim>\<open>filter_nested_array_value\<close> and \<^verbatim>\<open>filter_nested_json_by_selected_fields\<close> in
  \<^verbatim>\<open>src/json_transform/filter_flat_json.cpp\<close>), refined to a selection on trees as the policy filter is.
\<close>

section \<open>The streaming filter\<close>

abbreviation exact_at :: "CompiledFieldSelection \<Rightarrow> string \<Rightarrow> bool" where
  "exact_at sel path \<equiv> sm_exact_selected (match_selection_compiled sel path)"

abbreviation below_at :: "CompiledFieldSelection \<Rightarrow> string \<Rightarrow> bool" where
  "below_at sel path \<equiv> sm_has_selected_descendant (match_selection_compiled sel path)"

text \<open>A value copied as a whole: its fields count as emitted, and \<open>extra\<close> for the member that holds it.\<close>

definition copy_value ::
  "(string \<times> nat) option \<Rightarrow> string \<Rightarrow> BoundedWriter \<Rightarrow> nat \<Rightarrow> nat \<Rightarrow> FieldCountMetrics \<Rightarrow> filter_state option" where
  "copy_value consumed s w n extra m =
     map_option (\<lambda>(r, e). (r, append_slice w (slice_to s r), False, n + 1,
                            m\<lparr>fc_encountered := e, fc_emitted := fc_emitted m + extra + (e - fc_encountered m)\<rparr>)) consumed"

function write_filtered_object ::
    "CompiledFieldSelection \<Rightarrow> string \<Rightarrow> string \<Rightarrow> BoundedWriter \<Rightarrow> FieldCountMetrics \<Rightarrow> (string \<times> BoundedWriter \<times> nat \<times> FieldCountMetrics) option"
  and selection_object_loop ::
    "CompiledFieldSelection \<Rightarrow> string \<Rightarrow> string \<Rightarrow> BoundedWriter \<Rightarrow> bool \<Rightarrow> nat \<Rightarrow> FieldCountMetrics \<Rightarrow> (string \<times> BoundedWriter \<times> nat \<times> FieldCountMetrics) option"
  and selection_member ::
    "CompiledFieldSelection \<Rightarrow> string \<Rightarrow> string \<Rightarrow> string \<Rightarrow> string \<Rightarrow> BoundedWriter \<Rightarrow> bool \<Rightarrow> nat \<Rightarrow> FieldCountMetrics \<Rightarrow> filter_state option"
  and filter_nested_array_value ::
    "CompiledFieldSelection \<Rightarrow> string \<Rightarrow> string \<Rightarrow> BoundedWriter \<Rightarrow> FieldCountMetrics \<Rightarrow> (string \<times> BoundedWriter \<times> nat \<times> FieldCountMetrics) option"
  and selection_array_loop ::
    "CompiledFieldSelection \<Rightarrow> string \<Rightarrow> string \<Rightarrow> BoundedWriter \<Rightarrow> bool \<Rightarrow> nat \<Rightarrow> FieldCountMetrics \<Rightarrow> (string \<times> BoundedWriter \<times> nat \<times> FieldCountMetrics) option"
  and selection_element ::
    "CompiledFieldSelection \<Rightarrow> string \<Rightarrow> string \<Rightarrow> BoundedWriter \<Rightarrow> bool \<Rightarrow> nat \<Rightarrow> FieldCountMetrics \<Rightarrow> filter_state option" where
  "write_filtered_object sel prefix s w m =
     (case open_bracket (CHR ''{'') (CHR ''}'') s of
        None \<Rightarrow> None
      | Some (again, r) \<Rightarrow>
          if again then selection_object_loop sel prefix r (append_char w (CHR ''{'')) True 0 m
          else Some (r, append_char (append_char w (CHR ''{'')) (CHR ''}''), 0, m))"
| "selection_object_loop sel prefix s w first n m =
     (case member_head s of
        None \<Rightarrow> None
      | Some (tok, key, v) \<Rightarrow>
         (case selection_member sel prefix tok key v w first n (m\<lparr>fc_encountered := fc_encountered m + 1\<rparr>) of
            None \<Rightarrow> None
          | Some (r, w', first', n', m') \<Rightarrow>
             (case after_value (CHR ''}'') r of
                None \<Rightarrow> None
              | Some (again, r') \<Rightarrow>
                  if again then selection_object_loop sel prefix r' w' first' n' m'
                  else Some (r', append_char w' (CHR ''}''), n', m'))))"
| "selection_member sel prefix tok key v w first n m =
     (case build_full_path prefix (member_key key) kMaxSelectionPathLen of
        None \<Rightarrow> skip_value (consume_json_value_object_only v (fc_encountered m)) w first n m
      | Some full_path \<Rightarrow>
          if starts (CHR ''{'') v then
            if exact_at sel full_path then
              copy_value (consume_object_any v (fc_encountered m)) v (open_member first tok w) n 1 m
            else if below_at sel full_path then
              map_option (\<lambda>(r, w', k, m'). keep_or_rollback (k \<noteq> 0) (checkpoint w) first n r w' m')
                (write_filtered_object sel full_path v (open_member first tok w) m)
            else skip_value (consume_object_any v (fc_encountered m)) w first n m
          else if starts (CHR ''['') v then
            (case build_array_element_path full_path kMaxSelectionPathLen of
               None \<Rightarrow> skip_value (consume_array_any v (fc_encountered m)) w first n m
             | Some element_path \<Rightarrow>
                 if exact_at sel full_path \<or> exact_at sel element_path \<or> below_at sel element_path then
                   map_option (\<lambda>(r, w', k, m'). keep_or_rollback (exact_at sel full_path \<or> k > 0) (checkpoint w) first n r w' m')
                     (filter_nested_array_value sel full_path v (open_member first tok w) m)
                 else skip_value (consume_array_any v (fc_encountered m)) w first n m)
          else if exact_at sel full_path then
            map_option (\<lambda>(r, e). (r, append_slice (open_member first tok w) (slice_to v r), False, n + 1,
                                   m\<lparr>fc_encountered := e, fc_emitted := fc_emitted m + 1\<rparr>))
              (consume_json_value_object_only v (fc_encountered m))
          else skip_value (consume_json_value_object_only v (fc_encountered m)) w first n m)"
| "filter_nested_array_value sel array_path s w m =
     (case open_bracket (CHR ''['') (CHR '']'') s of
        None \<Rightarrow> None
      | Some (again, r) \<Rightarrow>
          if \<not> again then Some (r, append_char (append_char w (CHR ''['')) (CHR '']''), 0, m)
          else (case build_array_element_path array_path kMaxSelectionPathLen of
                  None \<Rightarrow> None
                | Some element_path \<Rightarrow> selection_array_loop sel element_path r (append_char w (CHR ''['')) True 0 m))"
| "selection_array_loop sel element_path s w first n m =
     (case selection_element sel element_path s w first n m of
        None \<Rightarrow> None
      | Some (r, w', first', n', m') \<Rightarrow>
         (case after_value (CHR '']'') r of
            None \<Rightarrow> None
          | Some (again, r') \<Rightarrow>
              if again then selection_array_loop sel element_path r' w' first' n' m'
              else Some (r', append_char w' (CHR '']''), n', m')))"
| "selection_element sel element_path s w first n m =
     (if starts (CHR ''{'') s then
        let mark = checkpoint w; w1 = (if \<not> first then append_char w (CHR '','') else w)
        in if exact_at sel element_path \<and> \<not> below_at sel element_path then
             copy_value (consume_object_any s (fc_encountered m)) s w1 n 0 m
           else if below_at sel element_path then
             map_option (\<lambda>(r, w', k, m'). if k = 0 then (r, rollback w' mark, first, n, m') else (r, w', False, n + 1, m'))
               (write_filtered_object sel element_path s w1 m)
           else skip_value (consume_object_any s (fc_encountered m)) (rollback w1 mark) first n m
      else skip_value (consume_json_value_any s (fc_encountered m)) w first n m)"
  by pat_completeness auto

abbreviation selection_dom where
  "selection_dom \<equiv> write_filtered_object_selection_object_loop_selection_member_filter_nested_array_value_selection_array_loop_selection_element_dom"

lemmas selection_pinduct =
  write_filtered_object_selection_object_loop_selection_member_filter_nested_array_value_selection_array_loop_selection_element.pinduct

lemma copy_value_Some: "copy_value c s w n x m = Some (r, w', first', n', m') \<Longrightarrow> \<exists>e. c = Some (r, e)"
  by (auto simp: copy_value_def)

lemma selection_shorter_dom:
  shows "selection_dom (Inl (Inl (sel, prefix, s, w, m))) \<Longrightarrow>
           write_filtered_object sel prefix s w m = Some (r, w', n', m') \<Longrightarrow> length r < length s"
    and "selection_dom (Inl (Inr (Inl (sel, prefix, s, w, first, n, m)))) \<Longrightarrow>
           selection_object_loop sel prefix s w first n m = Some (r, w', n', m') \<Longrightarrow> length r < length s"
    and "selection_dom (Inl (Inr (Inr (sel, prefix, tok, key, s, w, first, n, m)))) \<Longrightarrow>
           selection_member sel prefix tok key s w first n m = Some (r, w', first', n', m') \<Longrightarrow> length r < length s"
    and "selection_dom (Inr (Inl (sel, prefix, s, w, m))) \<Longrightarrow>
           filter_nested_array_value sel prefix s w m = Some (r, w', n', m') \<Longrightarrow> length r < length s"
    and "selection_dom (Inr (Inr (Inl (sel, prefix, s, w, first, n, m)))) \<Longrightarrow>
           selection_array_loop sel prefix s w first n m = Some (r, w', n', m') \<Longrightarrow> length r < length s"
    and "selection_dom (Inr (Inr (Inr (sel, prefix, s, w, first, n, m)))) \<Longrightarrow>
           selection_element sel prefix s w first n m = Some (r, w', first', n', m') \<Longrightarrow> length r < length s"
proof (induction sel prefix s w m and sel prefix s w first n m and sel prefix tok key s w first n m and sel prefix s w m
    and sel prefix s w first n m and sel prefix s w first n m
    arbitrary: r w' n' m' and r w' n' m' and r w' first' n' m' and r w' n' m' and r w' n' m' and r w' first' n' m'
    rule: selection_pinduct)
  case (3 sel prefix tok key v w first n m)
  from "3.prems" "3.IH" show ?case
    by (fastforce simp: selection_member.psimps [OF "3.hyps"] split: option.splits if_splits
        dest!: skip_value_Some copy_value_Some keep_or_rollback_rest dest: consume_lengths)
next
  case (6 sel prefix s w first n m)
  from "6.prems" "6.IH" show ?case
    by (fastforce simp: selection_element.psimps [OF "6.hyps"] Let_def split: option.splits if_splits
        dest!: skip_value_Some copy_value_Some dest: consume_lengths)
qed (fastforce simp: write_filtered_object.psimps selection_object_loop.psimps filter_nested_array_value.psimps
      selection_array_loop.psimps split: option.splits prod.splits if_splits dest: scan_lengths)+

termination write_filtered_object
proof (relation "measure (case_sum
    (case_sum (\<lambda>(sel, prefix, s, w, m). 3 * length s)
      (case_sum (\<lambda>(sel, prefix, s, w, first, n, m). 3 * length s + 2) (\<lambda>(sel, prefix, tok, key, s, w, first, n, m). 3 * length s + 1)))
    (case_sum (\<lambda>(sel, prefix, s, w, m). 3 * length s)
      (case_sum (\<lambda>(sel, prefix, s, w, first, n, m). 3 * length s + 2) (\<lambda>(sel, prefix, s, w, first, n, m). 3 * length s + 1))))")
qed (auto dest!: scan_lengths selection_shorter_dom(3,6))

declare write_filtered_object.simps [simp del] selection_object_loop.simps [simp del] selection_member.simps [simp del]
  filter_nested_array_value.simps [simp del] selection_array_loop.simps [simp del] selection_element.simps [simp del]

section \<open>Selection on trees\<close>

text \<open>The kept members and the number of fields they count for.\<close>

fun select_members :: "CompiledFieldSelection \<Rightarrow> string \<Rightarrow> (string \<times> string \<times> jtree) list \<Rightarrow> ((string \<times> string \<times> jtree) list \<times> nat) option"
  and select_member :: "CompiledFieldSelection \<Rightarrow> string \<Rightarrow> string \<Rightarrow> string \<Rightarrow> jtree \<Rightarrow> ((string \<times> string \<times> jtree) list \<times> nat) option"
  and select_elements :: "CompiledFieldSelection \<Rightarrow> string \<Rightarrow> jtree list \<Rightarrow> (jtree list \<times> nat) option"
  and select_element :: "CompiledFieldSelection \<Rightarrow> string \<Rightarrow> jtree \<Rightarrow> (jtree list \<times> nat) option" where
  "select_members sel prefix [] = Some ([], 0)"
| "select_members sel prefix ((tok, k, v) # ms) =
     (case select_member sel prefix tok k v of
        None \<Rightarrow> None
      | Some (xs, c) \<Rightarrow> map_option (\<lambda>(ys, d). (xs @ ys, c + d)) (select_members sel prefix ms))"
| "select_member sel prefix tok k v =
     (case build_full_path prefix (member_key k) kMaxSelectionPathLen of
        None \<Rightarrow> if is_jarray v then None else Some ([], 0)
      | Some path \<Rightarrow>
         (case v of
            JPrim s \<Rightarrow> Some (if exact_at sel path then ([(tok, k, v)], 1) else ([], 0))
          | JObject s ms \<Rightarrow>
              if exact_at sel path then Some ([(tok, k, v)], 1 + jfields v)
              else if below_at sel path then
                map_option (\<lambda>(ms', c). if ms' = [] then ([], c) else ([(tok, k, mk_object ms')], c + 1)) (select_members sel path ms)
              else Some ([], 0)
          | JArray s vs \<Rightarrow>
              (case build_array_element_path path kMaxSelectionPathLen of
                 None \<Rightarrow> Some ([], 0)
               | Some ep \<Rightarrow>
                   if exact_at sel path \<or> exact_at sel ep \<or> below_at sel ep then
                     map_option (\<lambda>(vs', c). if exact_at sel path \<or> vs' \<noteq> [] then ([(tok, k, mk_array vs')], c + 1) else ([], c))
                       (select_elements sel ep vs)
                   else Some ([], 0))))"
| "select_elements sel ep [] = Some ([], 0)"
| "select_elements sel ep (v # vs) =
     (case select_element sel ep v of
        None \<Rightarrow> None
      | Some (xs, c) \<Rightarrow> map_option (\<lambda>(ys, d). (xs @ ys, c + d)) (select_elements sel ep vs))"
| "select_element sel ep v =
     (case v of
        JObject s ms \<Rightarrow>
          if exact_at sel ep \<and> \<not> below_at sel ep then Some ([v], jfields v)
          else if below_at sel ep then map_option (\<lambda>(ms', c). if ms' = [] then ([], c) else ([mk_object ms'], c)) (select_members sel ep ms)
          else Some ([], 0)
      | _ \<Rightarrow> Some ([], 0))"

declare select_member.simps [simp del] select_element.simps [simp del]

definition select_streams :: "CompiledFieldSelection \<Rightarrow> nat \<Rightarrow> string \<Rightarrow> bool" where
  "select_streams sel cap s \<longleftrightarrow>
     (starts (CHR ''{'') s \<longrightarrow> (\<forall>prefix base m.
        write_filtered_object sel prefix s (writer_of cap base) m =
          (case jvalue s of
             Some (JObject raw ms, r) \<Rightarrow>
               map_option (\<lambda>(ms', c). (r, writer_of cap (base @ jtext (mk_object ms')), length ms', add_counts (member_fields ms) c m))
                 (select_members sel prefix ms)
           | _ \<Rightarrow> None))) \<and>
     (starts (CHR ''['') s \<longrightarrow> (\<forall>path ep base m. build_array_element_path path kMaxSelectionPathLen = Some ep \<longrightarrow>
        filter_nested_array_value sel path s (writer_of cap base) m =
          (case jvalue s of
             Some (JArray raw vs, r) \<Rightarrow>
               map_option (\<lambda>(vs', c). (r, writer_of cap (base @ jtext (mk_array vs')), length vs', add_counts (sum_list (map jfields vs)) c m))
                 (select_elements sel ep vs)
           | _ \<Rightarrow> None)))"

lemma copy_value_jvalue:
  assumes "jvalue s = Some (t, r)"
  shows "copy_value (Some (r, fc_encountered m + jfields t)) s w n x m =
           Some (r, append_slice w (jtext t), False, n + 1, add_counts (jfields t) (x + jfields t) m)"
proof -
  have "s = jtext t @ r" using jparse_local(1) [OF assms] by simp
  then show ?thesis by (simp add: copy_value_def add_counts_def add.assoc del: add_counts_simps)
qed

lemma selection_member_streams:
  assumes "select_streams sel cap v"
  shows "selection_member sel prefix tok key v (writer_of cap (base @ comma_join (map member_text acc))) (acc = []) (length acc) m =
           (case jvalue v of
              None \<Rightarrow> None
            | Some (t, r) \<Rightarrow>
                map_option (\<lambda>(xs, c). (r, writer_of cap (base @ comma_join (map member_text (acc @ xs))), acc @ xs = [], length (acc @ xs),
                                   add_counts (jfields t) c m))
                  (select_member sel prefix tok key t))"
proof (cases "build_full_path prefix (member_key key) kMaxSelectionPathLen")
  case None
  then show ?thesis
    by (simp add: selection_member.simps select_member.simps consume_json_value_object_only_def consume_jparse skip_value_jvalue
        split: option.splits) (auto simp: skip_value_def jvalue_kind(2) consume_jparse split: option.splits)
next
  case (Some path)
  note path = Some
  show ?thesis
  proof (cases "jvalue v")
    case None
    with path assms show ?thesis
      by (auto simp: selection_member.simps select_streams_def writer_member consume_object_jvalue consume_array_jvalue
          consume_json_value_object_only_def consume_jparse copy_value_def skip_value_def split: option.splits)
  next
    case (Some tr)
    obtain t r where tr: "tr = (t, r)" by (cases tr)
    show ?thesis
    proof (cases t)
      case (JPrim raw)
      with Some tr have k: "\<not> starts (CHR ''{'') v" "\<not> starts (CHR ''['') v" "slice_to v r = raw"
        using jparse_local(1) [of v t r] by (auto simp: jvalue_kind)
      with path Some tr JPrim show ?thesis
        by (simp add: selection_member.simps select_member.simps consume_json_value_object_only_def consume_jparse
            writer_member comma_join_snoc member_text_simp skip_value_def)
    next
      case (JObject raw ms)
      with Some tr have k: "starts (CHR ''{'') v" "\<not> starts (CHR ''['') v" by (auto simp: jvalue_kind)
      note copy = copy_value_jvalue [OF Some [unfolded tr JObject]]
      from k path Some tr JObject assms copy show ?thesis
        by (cases "select_members sel path ms")
          (auto simp: selection_member.simps select_streams_def writer_member select_member.simps keep_or_rollback_def
            comma_join_snoc member_text_simp consume_object_jvalue skip_value_def mk_object_def
            simp del: map_option_eq_Some)
    next
      case (JArray raw vs)
      with Some tr have k: "\<not> starts (CHR ''{'') v" "starts (CHR ''['') v" by (auto simp: jvalue_kind)
      show ?thesis
      proof (cases "build_array_element_path path kMaxSelectionPathLen")
        case None
        with k path Some tr JArray show ?thesis
          by (simp add: selection_member.simps select_member.simps consume_array_jvalue skip_value_def)
      next
        case ep: (Some ep)
        with k path Some tr JArray assms show ?thesis
          by (cases "select_elements sel ep vs")
            (auto simp: selection_member.simps select_streams_def writer_member select_member.simps keep_or_rollback_def
              comma_join_snoc member_text_simp consume_array_jvalue skip_value_def mk_array_def
              simp del: map_option_eq_Some)
      qed
    qed
  qed
qed

lemma selection_element_streams:
  assumes "select_streams sel cap s"
  shows "selection_element sel ep s (writer_of cap (base @ comma_join (map jtext acc))) (acc = []) (length acc) m =
           (case jvalue s of
              None \<Rightarrow> None
            | Some (t, r) \<Rightarrow>
                map_option (\<lambda>(xs, c). (r, writer_of cap (base @ comma_join (map jtext (acc @ xs))), acc @ xs = [], length (acc @ xs),
                                   add_counts (jfields t) c m))
                  (select_element sel ep t))"
proof (cases "jvalue s")
  case None
  with assms show ?thesis
    by (auto simp: selection_element.simps select_streams_def consume_object_jvalue consume_jparse copy_value_def skip_value_def Let_def)
next
  case (Some tr)
  obtain t r where tr: "tr = (t, r)" by (cases tr)
  show ?thesis
  proof (cases t)
    case (JObject raw ms)
    with Some tr have k: "starts (CHR ''{'') s" by (auto simp: jvalue_kind)
    note copy = copy_value_jvalue [OF Some [unfolded tr JObject]]
    from k Some tr JObject assms copy show ?thesis
      by (cases "select_members sel ep ms")
        (auto simp: selection_element.simps select_streams_def select_element.simps
          comma_join_snoc consume_object_jvalue skip_value_def mk_object_def Let_def simp del: map_option_eq_Some)
  qed (use Some tr in \<open>auto simp: jvalue_kind selection_element.simps select_element.simps consume_jparse skip_value_def\<close>)
qed

lemma selection_streams:
  shows "select_streams sel cap s"
    and "selection_object_loop sel prefix s (writer_of cap (base @ comma_join (map member_text acc))) (acc = []) (length acc) m =
           (case jmembers s of
              None \<Rightarrow> None
            | Some (ms, r) \<Rightarrow>
                map_option (\<lambda>(ms', c). (r, writer_of cap (base @ comma_join (map member_text (acc @ ms')) @ ''}''), length (acc @ ms'),
                                    add_counts (member_fields ms) c m))
                  (select_members sel prefix ms))"
    and "selection_array_loop sel ep s (writer_of cap (base @ comma_join (map jtext eacc))) (eacc = []) (length eacc) m =
           (case jelements s of
              None \<Rightarrow> None
            | Some (vs, r) \<Rightarrow>
                map_option (\<lambda>(vs', c). (r, writer_of cap (base @ comma_join (map jtext (eacc @ vs')) @ '']''), length (eacc @ vs'),
                                    add_counts (sum_list (map jfields vs)) c m))
                  (select_elements sel ep vs))"
proof (induction s and s and s arbitrary: and prefix base acc m and ep base eacc m rule: jvalue_jmembers_jelements.induct)
  case (1 s)
  show ?case
    unfolding select_streams_def
  proof (intro conjI impI allI, goal_cases)
    case (1 prefix base m)
    show ?case
    proof (cases "open_bracket (CHR ''{'') (CHR ''}'') s")
      case None
      with 1 show ?thesis by (simp add: write_filtered_object.simps jvalue.simps [of s])
    next
      case (Some o1)
      obtain again r where o1: "o1 = (again, r)" by (cases o1)
      show ?thesis
        using 1 Some o1 "1.IH"(1) [OF 1 Some [unfolded o1] refl, of prefix "base @ ''{''" "[]" m]
        by (auto simp: write_filtered_object.simps jvalue.simps [of s] mk_object_def option.map_comp comp_def split_def
            split: option.splits)
    qed
  next
    case (2 path ep base m)
    then have ns: "\<not> starts (CHR ''{'') s" by (simp add: starts_def)
    show ?case
    proof (cases "open_bracket (CHR ''['') (CHR '']'') s")
      case None
      with 2 ns show ?thesis by (simp add: filter_nested_array_value.simps jvalue.simps [of s])
    next
      case (Some o1)
      obtain again r where o1: "o1 = (again, r)" by (cases o1)
      show ?thesis
        using 2 ns Some o1 "1.IH"(2) [OF ns 2(1) Some [unfolded o1] refl, of ep "base @ ''[''" "[]" m]
        by (auto simp: filter_nested_array_value.simps jvalue.simps [of s] mk_array_def option.map_comp comp_def split_def
            split: option.splits)
    qed
  qed
next
  case (2 s)
  show ?case
  proof (cases "member_head s")
    case None
    then show ?thesis by (simp add: selection_object_loop.simps jmembers.simps)
  next
    case (Some h)
    obtain tok k v where h: "h = (tok, k, v)" by (cases h)
    note member = selection_member_streams [OF "2.IH"(1) [OF Some [unfolded h] refl refl]]
    note rest = "2.IH"(2) [OF Some [unfolded h] refl refl _ refl _ refl]
    from Some h show ?thesis
      by (subst selection_object_loop.simps, subst jmembers.simps)
        (auto simp: member rest option.map_comp comp_def add.assoc split_def simp del: map_append append_is_Nil_conv length_append
          split: option.splits; simp)
  qed
next
  case (3 s)
  note element = selection_element_streams [OF "3.IH"(1)]
  note rest = "3.IH"(2) [OF _ refl _ refl]
  show ?case
    by (subst selection_array_loop.simps, subst jelements.simps)
      (auto simp: element rest option.map_comp comp_def add.assoc split_def simp del: map_append append_is_Nil_conv length_append
        split: option.splits; simp)
qed

section \<open>The entry point\<close>

fun unsupported_notation :: "string \<Rightarrow> bool" where
  "unsupported_notation [] \<longleftrightarrow> False"
| "unsupported_notation (c # cs) \<longleftrightarrow>
     (if c \<noteq> CHR ''['' then (if c = CHR '']'' then True else unsupported_notation cs)
      else case cs of [] \<Rightarrow> True | d # ds \<Rightarrow> if d \<noteq> CHR '']'' then True else unsupported_notation ds)"

definition selection_contains_unsupported_array_notation :: "'db ApgTransformContext \<Rightarrow> bool" where
  "selection_contains_unsupported_array_notation ctx \<longleftrightarrow> list_ex unsupported_notation (take kMaxFields (ctx_selected_fields ctx))"

definition filter_nested_json_by_selected_fields :: "string option \<Rightarrow> 'db ApgTransformContext \<Rightarrow> nat \<Rightarrow> filter_result" where
  "filter_nested_json_by_selected_fields input_body ctx output_capacity =
     (case input_body of
        None \<Rightarrow> (FfInvalidInput, None)
      | Some body \<Rightarrow>
          if selection_contains_unsupported_array_notation ctx then (FfSkipUnsupported, None)
          else let s = skip_whitespace body
               in if \<not> starts (CHR ''{'') s then (FfSkipUnsupported, None)
                  else (case write_filtered_object (compile_field_selection ctx) [] s (writer_init output_capacity) no_counts of
                          None \<Rightarrow> (FfSkipUnsupported, None)
                        | Some (r, w, _, m) \<Rightarrow>
                            if skip_whitespace r \<noteq> [] then (FfSkipUnsupported, None) else writer_result w m))"

lemma selection_filter_equation:
  "filter_nested_json_by_selected_fields (Some body) ctx cap =
     (if selection_contains_unsupported_array_notation ctx then (FfSkipUnsupported, None)
      else case parse_body body of
        None \<Rightarrow> (FfSkipUnsupported, None)
      | Some ms \<Rightarrow>
         (case select_members (compile_field_selection ctx) [] ms of
            None \<Rightarrow> (FfSkipUnsupported, None)
          | Some (ms', c) \<Rightarrow> text_result cap (jtext (mk_object ms')) (member_fields ms) c))"
proof (cases "starts (CHR ''{'') (skip_whitespace body)")
  case True
  note streams = selection_streams(1) [of "compile_field_selection ctx" cap "skip_whitespace body",
      unfolded select_streams_def, THEN conjunct1, THEN mp, OF True]
  show ?thesis
  proof (cases "jvalue (skip_whitespace body)")
    case None
    with True show ?thesis
      by (simp add: filter_nested_json_by_selected_fields_def Let_def parse_body_def writer_init_of streams)
  next
    case (Some tr)
    with True obtain raw ms r where tr: "tr = (JObject raw ms, r)" by (cases tr) (auto simp: jvalue_kind jobject_iff)
    with Some True show ?thesis
      by (cases "select_members (compile_field_selection ctx) [] ms")
        (auto simp: filter_nested_json_by_selected_fields_def Let_def parse_body_def writer_init_of streams writer_result_of)
  qed
next
  case False
  then have "parse_body body = None"
    by (auto simp: parse_body_def jvalue_kind split: option.splits jtree.splits)
  with False show ?thesis by (simp add: filter_nested_json_by_selected_fields_def Let_def)
qed

section \<open>The output is what was selected\<close>

fun chosen_members :: "(string \<Rightarrow> bool) \<Rightarrow> string \<Rightarrow> (string \<times> string \<times> jtree) list \<Rightarrow> bool"
  and chosen_value :: "(string \<Rightarrow> bool) \<Rightarrow> string \<Rightarrow> jtree \<Rightarrow> bool"
  and chosen_elements :: "(string \<Rightarrow> bool) \<Rightarrow> string \<Rightarrow> jtree list \<Rightarrow> bool" where
  "chosen_members listed prefix [] \<longleftrightarrow> True"
| "chosen_members listed prefix ((tok, k, v) # ms) \<longleftrightarrow>
     (case build_full_path prefix (member_key k) kMaxSelectionPathLen of
        None \<Rightarrow> False
      | Some path \<Rightarrow> chosen_value listed path v) \<and>
     chosen_members listed prefix ms"
| "chosen_value listed path (JPrim s) \<longleftrightarrow> listed path"
| "chosen_value listed path (JObject s ms) \<longleftrightarrow> listed path \<or> ms \<noteq> [] \<and> chosen_members listed path ms"
| "chosen_value listed path (JArray s vs) \<longleftrightarrow>
     (case build_array_element_path path kMaxSelectionPathLen of
        None \<Rightarrow> False
      | Some ep \<Rightarrow> (listed path \<or> vs \<noteq> []) \<and> chosen_elements listed ep vs)"
| "chosen_elements listed ep [] \<longleftrightarrow> True"
| "chosen_elements listed ep (v # vs) \<longleftrightarrow> is_jobject v \<and> chosen_value listed ep v \<and> chosen_elements listed ep vs"

lemma chosen_append [simp]:
  "chosen_members listed prefix (ms @ ms') \<longleftrightarrow> chosen_members listed prefix ms \<and> chosen_members listed prefix ms'"
  "chosen_elements listed ep (vs @ vs') \<longleftrightarrow> chosen_elements listed ep vs \<and> chosen_elements listed ep vs'"
  by (induction ms; auto) (induction vs; auto)

lemma chosen_mk [simp]:
  "chosen_value listed path (mk_object ms) \<longleftrightarrow> listed path \<or> ms \<noteq> [] \<and> chosen_members listed path ms"
  "chosen_value listed path (mk_array vs) \<longleftrightarrow>
     (case build_array_element_path path kMaxSelectionPathLen of
        None \<Rightarrow> False
      | Some ep \<Rightarrow> (listed path \<or> vs \<noteq> []) \<and> chosen_elements listed ep vs)"
  "is_jobject (mk_object ms)"
  by (simp_all add: mk_object_def mk_array_def)

lemma select_sound:
  shows "select_members sel prefix ms = Some (ms', c) \<Longrightarrow> members_wf ms \<Longrightarrow> members_wf ms' \<and> chosen_members (exact_at sel) prefix ms'"
    and "select_member sel prefix tok k v = Some (ms', c) \<Longrightarrow> members_wf [(tok, k, v)] \<Longrightarrow>
           members_wf ms' \<and> chosen_members (exact_at sel) prefix ms'"
    and "select_elements sel ep vs = Some (vs', c) \<Longrightarrow> list_all jwf vs \<Longrightarrow> list_all jwf vs' \<and> chosen_elements (exact_at sel) ep vs'"
    and "select_element sel ep v = Some (vs', c) \<Longrightarrow> jwf v \<Longrightarrow> list_all jwf vs' \<and> chosen_elements (exact_at sel) ep vs'"
proof (induction sel prefix ms and sel prefix tok k v and sel ep vs and sel ep v arbitrary: ms' c and ms' c and vs' c and vs' c
    rule: select_members_select_member_select_elements_select_element.induct)
  case (3 sel prefix tok k v)
  then show ?case
    by (cases v) (fastforce simp: select_member.simps mk_object_wf mk_array_wf split: option.splits if_splits)+
next
  case (6 sel ep v)
  then show ?case
    by (cases v) (fastforce simp: select_element.simps mk_object_wf split: option.splits if_splits)+
qed (fastforce split: option.splits)+

text \<open>
  (C20) What the client's selection releases was selected: whenever the nested selection filter succeeds, its output
  is one well-formed JSON object, and every member in it is listed among the selected fields by its full path, is
  part of a listed object, or is an object or array that holds such members; an array holds only objects. JSON and
  member names are those of the code's own scanner, which truncates a key and does not decode its \<open>u\<close> escapes.
\<close>

theorem selection_filter_output_selected:
  assumes "filter_nested_json_by_selected_fields (Some body) ctx cap = (FfOk, Some (out, len, m))"
  shows "\<exists>ms. parse_body out = Some ms \<and> len = length out \<and>
           chosen_members (\<lambda>path. path \<noteq> [] \<and> path \<in> set (take kMaxFields (ctx_selected_fields ctx))) [] ms"
proof -
  from assms obtain ms ms' c where ms: "parse_body body = Some ms" "select_members (compile_field_selection ctx) [] ms = Some (ms', c)"
    and out: "length (jtext (mk_object ms')) < cap" "out = take (cap - 1) (jtext (mk_object ms'))" "len = length (jtext (mk_object ms'))"
    by (auto simp: selection_filter_equation text_result_def split: option.splits if_splits)
  from select_sound(1) [OF ms(2) parse_body_wf [OF ms(1)]]
  have wf: "members_wf ms'" "chosen_members (exact_at (compile_field_selection ctx)) [] ms'" by auto
  have "exact_at (compile_field_selection ctx) path = (path \<noteq> [] \<and> path \<in> set (take kMaxFields (ctx_selected_fields ctx)))" for path
    by (cases "path = []") (simp_all add: match_selection_spec(1), simp add: match_selection_compiled_def)
  then have "exact_at (compile_field_selection ctx) = (\<lambda>path. path \<noteq> [] \<and> path \<in> set (take kMaxFields (ctx_selected_fields ctx)))"
    by (rule ext)
  with wf(2) have "chosen_members (\<lambda>path. path \<noteq> [] \<and> path \<in> set (take kMaxFields (ctx_selected_fields ctx))) [] ms'" by simp
  moreover from out have o: "out = jtext (mk_object ms')" by simp
  ultimately show ?thesis using parse_body_mk_object [OF wf(1)] out(3) unfolding o by blast
qed

definition example_context :: "string list \<Rightarrow> nat ApgTransformContext" where
  "example_context selected = ApgTransformContext_default\<lparr>ctx_selected_fields := selected\<rparr>"

lemma example_context_fields [simp]: "ctx_selected_fields (example_context selected) = selected"
  by (simp add: example_context_def)

lemma example_selection:
  "filter_nested_json_by_selected_fields (Some example_body) (example_context [''i'', ''s[].x'']) 64 =
     (FfOk, Some (example_output, 7, \<lparr>fc_encountered = 3, fc_emitted = 1\<rparr>))"
  by (simp add: selection_filter_equation selection_contains_unsupported_array_notation_def example_parse example_output_def
      select_member.simps select_element.simps match_selection_spec kMaxFields_def starts_with_path_prefix_def
      json_path_eval text_result_def mk_object_def member_text_def)

theorem selection_filter_output_selected_witness:
  "filter_nested_json_by_selected_fields (Some example_body) (example_context [''i'', ''s[].x'']) 64 =
     (FfOk, Some (example_output, 7, \<lparr>fc_encountered = 3, fc_emitted = 1\<rparr>)) \<and>
   (\<exists>ms. parse_body example_output = Some ms \<and>
      chosen_members (\<lambda>path. path \<noteq> [] \<and> path \<in> {''i'', ''s[].x''}) [] ms)"
proof (intro conjI)
  show "filter_nested_json_by_selected_fields (Some example_body) (example_context [''i'', ''s[].x'']) 64 =
     (FfOk, Some (example_output, 7, \<lparr>fc_encountered = 3, fc_emitted = 1\<rparr>))" by (rule example_selection)
  have listed: "set (take kMaxFields (ctx_selected_fields (example_context [''i'', ''s[].x'']))) = {''i'', ''s[].x''}"
    by (simp add: kMaxFields_def)
  show "\<exists>ms. parse_body example_output = Some ms \<and>
      chosen_members (\<lambda>path. path \<noteq> [] \<and> path \<in> {''i'', ''s[].x''}) [] ms"
    using selection_filter_output_selected [OF example_selection] unfolding listed by blast
qed

end
