(* ===== verification/Json_Transform.thy ===== *)
theory Json_Transform
  imports Json_Selection
begin

text \<open>
  Content types (\<^verbatim>\<open>src/json_transform/content_type.cpp\<close>), the parser of flat objects
  (\<^verbatim>\<open>src/json_transform/flat_json.cpp\<close>), the filters of flat objects and the entry points that choose a
  filter (the rest of \<^verbatim>\<open>src/json_transform/filter_flat_json.cpp\<close>). The removed-field count, which the
  source stores in the context, is part of the result; an output buffer is its capacity, \<open>None\<close> if null.
\<close>

section \<open>Content types\<close>

datatype JsonResponseKind = EligibleJson | KindSkipUnsupported | KindInvalidInput

definition is_ascii_space_or_tab :: "char \<Rightarrow> bool" where
  "is_ascii_space_or_tab ch \<longleftrightarrow> ch = CHR '' '' \<or> ch = CHR 0x09"

definition equals_ignore_ascii_case :: "string \<Rightarrow> string \<Rightarrow> bool" where
  "equals_ignore_ascii_case s expected \<longleftrightarrow> map tolower s = expected"

definition has_json_structured_suffix :: "string \<Rightarrow> bool" where
  "has_json_structured_suffix s \<longleftrightarrow>
     length s > 12 \<and> equals_ignore_ascii_case (take 12 s) ''application/'' \<and>
     length s - 12 \<ge> 5 \<and> equals_ignore_ascii_case (drop (length s - 5) s) ''+json'' \<and> length s - 5 > 12"

definition media_type :: "string \<Rightarrow> string" where
  "media_type s =
     rev (dropWhile is_ascii_space_or_tab (rev (dropWhile is_ascii_space_or_tab (takeWhile (\<lambda>c. c \<noteq> CHR '';'') s))))"

definition detect_application_json_response :: "string option \<Rightarrow> JsonResponseKind" where
  "detect_application_json_response content_type =
     (case content_type of
        None \<Rightarrow> KindSkipUnsupported
      | Some s \<Rightarrow>
          let t = media_type s
          in if t = [] then KindSkipUnsupported
             else if equals_ignore_ascii_case t ''application/json'' \<or> has_json_structured_suffix t then EligibleJson
             else KindSkipUnsupported)"

section \<open>Flat objects\<close>

datatype FlatJsonParseStatus = FpOk | FpSkipUnsupported | FpInvalidInput | FpInvalidJson

record FlatJsonFieldView =
  fj_key :: string
  fj_value_begin :: nat
  fj_value_end :: nat

record ParsedFlatJsonObject =
  pj_source :: "string option"
  pj_fields :: "FlatJsonFieldView list"

definition ParsedFlatJsonObject_default :: ParsedFlatJsonObject where
  "ParsedFlatJsonObject_default = \<lparr>pj_source = None, pj_fields = []\<rparr>"

text \<open>The token functions of the two files are the same code.\<close>

definition parse_value_token :: "string \<Rightarrow> FlatJsonParseStatus \<times> string" where
  "parse_value_token s =
     (if s = [] then (FpInvalidJson, s)
      else if hd s = CHR ''{'' \<or> hd s = CHR ''['' then (FpSkipUnsupported, s)
      else case consume_primitive s of None \<Rightarrow> (FpInvalidJson, s) | Some r \<Rightarrow> (FpOk, r))"

function flat_loop :: "nat \<Rightarrow> string \<Rightarrow> FlatJsonFieldView list \<Rightarrow> FlatJsonParseStatus \<times> FlatJsonFieldView list" where
  "flat_loop len s fs =
     (case member_head s of
        None \<Rightarrow> (FpInvalidJson, fs)
      | Some (tok, key, v) \<Rightarrow>
         (case parse_value_token v of
            (FpOk, r) \<Rightarrow>
              let field = \<lparr>fj_key = member_key key, fj_value_begin = len - length v, fj_value_end = len - length r\<rparr>;
                  fs' = (if length fs < kMaxFields then fs @ [field] else fs)
              in (case after_value (CHR ''}'') r of
                    None \<Rightarrow> (FpInvalidJson, fs')
                  | Some (again, r') \<Rightarrow>
                      if again then flat_loop len r' fs'
                      else (if skip_whitespace r' = [] then FpOk else FpInvalidJson, fs'))
          | (status, _) \<Rightarrow> (status, fs)))"
  by pat_completeness auto
termination flat_loop
proof (relation "measure (\<lambda>(len, s, fs). length s)")
qed (auto simp: parse_value_token_def split: if_splits option.splits dest!: scan_lengths)

declare flat_loop.simps [simp del]

definition parse_flat_json_object ::
  "string option \<Rightarrow> JsonResponseKind \<Rightarrow> FlatJsonParseStatus \<times> ParsedFlatJsonObject" where
  "parse_flat_json_object body response_kind =
     (if response_kind \<noteq> EligibleJson then (FpSkipUnsupported, ParsedFlatJsonObject_default)
      else case body of
        None \<Rightarrow> (FpInvalidInput, ParsedFlatJsonObject_default)
      | Some b \<Rightarrow>
          let s = skip_whitespace b; parsed = \<lparr>pj_source = Some b, pj_fields = []\<rparr>
          in if s = [] then (FpInvalidJson, parsed)
             else if hd s = CHR ''['' then (FpSkipUnsupported, parsed)
             else case open_bracket (CHR ''{'') (CHR ''}'') s of
               None \<Rightarrow> (FpInvalidJson, parsed)
             | Some (again, r) \<Rightarrow>
                 if \<not> again then (if skip_whitespace r = [] then FpOk else FpInvalidJson, parsed)
                 else let (status, fs) = flat_loop (length b) r [] in (status, parsed\<lparr>pj_fields := fs\<rparr>))"

section \<open>Filters of flat objects\<close>

type_synonym transform_result = "FlatJsonFilterStatus \<times> (string \<times> nat) option \<times> nat"

definition removed_field_count :: "FieldCountMetrics \<Rightarrow> nat" where
  "removed_field_count m = (if fc_encountered m \<ge> fc_emitted m then fc_encountered m - fc_emitted m else 0)"

definition write_result :: "BoundedWriter \<Rightarrow> nat \<Rightarrow> transform_result" where
  "write_result w removed = (if fits_capacity w then FfOk else FfOutputTooSmall, Some (bw_output w, bw_length w), removed)"

fun flat_fields ::
  "(string \<Rightarrow> bool) \<Rightarrow> string \<Rightarrow> FlatJsonFieldView list \<Rightarrow> BoundedWriter \<Rightarrow> bool \<Rightarrow> FieldCountMetrics \<Rightarrow> (BoundedWriter \<times> FieldCountMetrics) option" where
  "flat_fields keep src [] w first m = Some (w, m)"
| "flat_fields keep src (f # fs) w first m =
     (let m = m\<lparr>fc_encountered := fc_encountered m + 1\<rparr>
      in if \<not> keep (fj_key f) then flat_fields keep src fs w first m
         else if fj_value_begin f > fj_value_end f \<or> fj_value_end f > length src then None
         else let w = (if \<not> first then append_char w (CHR '','') else w);
                  w = append_slice (append_slice (append_char w (CHR 0x22)) (fj_key f)) [CHR 0x22, CHR '':''];
                  w = append_slice w (take (fj_value_end f - fj_value_begin f) (drop (fj_value_begin f) src))
              in flat_fields keep src fs w False (m\<lparr>fc_emitted := fc_emitted m + 1\<rparr>))"

definition filter_flat_json :: "(string \<Rightarrow> bool) \<Rightarrow> ParsedFlatJsonObject \<Rightarrow> nat option \<Rightarrow> transform_result" where
  "filter_flat_json keep parsed output =
     (case output of
        None \<Rightarrow> (FfInvalidInput, None, 0)
      | Some cap \<Rightarrow>
         (case pj_source parsed of
            None \<Rightarrow> (FfSkipUnsupported, None, 0)
          | Some src \<Rightarrow>
             (case flat_fields keep src (take kMaxFields (pj_fields parsed)) (append_char (writer_init cap) (CHR ''{'')) True no_counts of
                None \<Rightarrow> (FfSkipUnsupported, None, 0)
              | Some (w, m) \<Rightarrow> write_result (append_char w (CHR ''}'')) (removed_field_count m))))"

definition is_field_selected :: "'db ApgTransformContext \<Rightarrow> string \<Rightarrow> bool" where
  "is_field_selected ctx key \<longleftrightarrow> list_ex (\<lambda>f. f = key) (take kMaxFields (ctx_selected_fields ctx))"

definition filter_flat_json_by_selected_fields ::
  "ParsedFlatJsonObject \<Rightarrow> 'db ApgTransformContext \<Rightarrow> nat option \<Rightarrow> transform_result" where
  "filter_flat_json_by_selected_fields parsed ctx output = filter_flat_json (is_field_selected ctx) parsed output"

definition filter_flat_json_by_policy_denylist ::
  "ParsedFlatJsonObject \<Rightarrow> FieldFilterPolicy \<Rightarrow> nat option \<Rightarrow> transform_result" where
  "filter_flat_json_by_policy_denylist parsed pol output =
     filter_flat_json (\<lambda>key. apply_field_filter pol (Some key)) parsed output"

section \<open>Choosing the filter\<close>

definition copy_original_body :: "string option \<Rightarrow> nat option \<Rightarrow> transform_result" where
  "copy_original_body input_body output =
     (case (input_body, output) of
        (Some body, Some cap) \<Rightarrow> write_result (append_slice (writer_init cap) body) 0
      | _ \<Rightarrow> (FfInvalidInput, None, 0))"

definition kInvalidJsonSafeErrorBody :: string where
  "kInvalidJsonSafeErrorBody =
     [CHR ''{'', CHR 0x22] @ ''error'' @ [CHR 0x22, CHR '':'', CHR 0x22] @ ''invalid_json'' @ [CHR 0x22, CHR ''}'']"

definition write_invalid_json_safe_error :: "nat option \<Rightarrow> transform_result" where
  "write_invalid_json_safe_error output =
     (case output of
        None \<Rightarrow> (FfInvalidInput, None, 0)
      | Some cap \<Rightarrow>
          let w = append_slice (writer_init cap) kInvalidJsonSafeErrorBody
          in (if \<not> fits_capacity w then FfOutputTooSmall else FfInvalidJsonSafeError, Some (bw_output w, bw_length w), 0))"

definition policy_mode :: "'db ApgTransformContext \<Rightarrow> FieldFilterPolicy option" where
  "policy_mode ctx =
     (case ctx_matched_policy ctx of
        None \<Rightarrow> None
      | Some p \<Rightarrow>
          if \<not> ctx_client_query_present ctx \<and> (ff_mode (field_filter p) = FilterAllowlist \<or> ff_mode (field_filter p) = FilterDenylist)
          then Some (field_filter p) else None)"

definition nested_result :: "filter_result \<Rightarrow> transform_result" where
  "nested_result res =
     (case res of
        (status, None) \<Rightarrow> (status, None, 0)
      | (status, Some (out, len, m)) \<Rightarrow> (status, Some (out, len), removed_field_count m))"

definition transform_with_status ::
  "string option \<Rightarrow> FlatJsonParseStatus \<Rightarrow> ParsedFlatJsonObject option \<Rightarrow> 'db ApgTransformContext \<Rightarrow> bool \<Rightarrow> nat option \<Rightarrow> transform_result" where
  "transform_with_status input_body parse_status parsed ctx filtering_enabled output =
     (if \<not> filtering_enabled then copy_original_body input_body output
      else if parse_status = FpInvalidJson then write_invalid_json_safe_error output
      else if parse_status = FpSkipUnsupported \<and> (case parsed of None \<Rightarrow> True | Some p \<Rightarrow> pj_source p = None) then
        (FfSkipUnsupported, None, 0)
      else if parse_status = FpInvalidInput then (FfInvalidInput, None, 0)
      else case (policy_mode ctx, parsed) of
        (Some pol, Some p) \<Rightarrow>
          if parse_status = FpOk then filter_flat_json_by_policy_denylist p pol output
          else (case output of
                  None \<Rightarrow> (FfInvalidInput, None, 0)
                | Some cap \<Rightarrow> nested_result (filter_nested_json_by_policy_denylist input_body pol cap))
      | (Some pol, None) \<Rightarrow>
          (case output of
             None \<Rightarrow> (FfInvalidInput, None, 0)
           | Some cap \<Rightarrow> nested_result (filter_nested_json_by_policy_denylist input_body pol cap))
      | (None, _) \<Rightarrow>
          (case output of
             None \<Rightarrow> (FfInvalidInput, None, 0)
           | Some cap \<Rightarrow> nested_result (filter_nested_json_by_selected_fields input_body ctx cap)))"

definition transform_flat_json_with_filter_toggle ::
  "string option \<Rightarrow> ParsedFlatJsonObject option \<Rightarrow> 'db ApgTransformContext \<Rightarrow> bool \<Rightarrow> nat option \<Rightarrow> transform_result" where
  "transform_flat_json_with_filter_toggle input_body parsed ctx filtering_enabled output =
     (case parsed of
        None \<Rightarrow> transform_with_status input_body FpInvalidInput parsed ctx filtering_enabled output
      | Some p \<Rightarrow>
          transform_with_status input_body (if pj_source p = None then FpSkipUnsupported else FpOk) parsed ctx filtering_enabled output)"

section \<open>The two policy filters agree\<close>

text \<open>A view of a member in the body.\<close>

definition views :: "string \<Rightarrow> FlatJsonFieldView \<Rightarrow> string \<times> string \<times> jtree \<Rightarrow> bool" where
  "views body f = (\<lambda>(tok, k, v).
     fj_key f = member_key k \<and> fj_value_begin f \<le> fj_value_end f \<and> fj_value_end f \<le> length body \<and>
     take (fj_value_end f - fj_value_begin f) (drop (fj_value_begin f) body) = jtext v)"

fun is_jprim :: "jtree \<Rightarrow> bool" where
  "is_jprim (JPrim _) \<longleftrightarrow> True"
| "is_jprim _ \<longleftrightarrow> False"

lemma parse_value_token_Ok:
  "parse_value_token v = (FpOk, r) \<longleftrightarrow> consume_primitive v = Some r \<and> \<not> starts (CHR ''{'') v \<and> \<not> starts (CHR ''['') v"
  by (cases v) (auto simp: parse_value_token_def consume_primitive_def [of "[]"] split: option.splits if_splits)

lemma primitive_jvalue:
  assumes "consume_primitive v = Some r" "\<not> starts (CHR ''{'') v" "\<not> starts (CHR ''['') v"
  shows "jvalue v = Some (JPrim (slice_to v r), r)"
  using assms by (simp add: jvalue.simps)

lemma views_value:
  assumes "body = pre @ v" "consume_primitive v = Some r"
  shows "views body \<lparr>fj_key = member_key k, fj_value_begin = length body - length v, fj_value_end = length body - length r\<rparr>
           (tok, k, JPrim (slice_to v r))"
proof -
  from consume_primitive_local [OF assms(2)] obtain p where "v = p @ r" by blast
  with assms(1) show ?thesis by (simp add: views_def)
qed

lemma flat_loop_views:
  assumes "flat_loop (length body) s fs = (FpOk, fs')" "\<exists>pre. body = pre @ s"
    and "list_all2 (views body) fs (take kMaxFields acc)"
  shows "\<exists>ms r. jmembers s = Some (ms, r) \<and> skip_whitespace r = [] \<and> list_all (\<lambda>(tok, k, v). is_jprim v) ms \<and>
           list_all2 (views body) fs' (take kMaxFields (acc @ ms))"
  using assms
proof (induction "length body" s fs arbitrary: fs' acc rule: flat_loop.induct)
  case (1 s fs)
  from "1.prems"(1) obtain tok k v r again r' where
    steps: "member_head s = Some (tok, k, v)" "parse_value_token v = (FpOk, r)" "after_value (CHR ''}'') r = Some (again, r')"
    by (subst (asm) flat_loop.simps)
      (auto simp: Let_def split: option.splits prod.splits FlatJsonParseStatus.splits if_splits)
  let ?f = "\<lparr>fj_key = member_key k, fj_value_begin = length body - length v, fj_value_end = length body - length r\<rparr>"
  let ?m = "(tok, k, JPrim (slice_to v r))" and ?fs = "if length fs < kMaxFields then fs @ [?f] else fs"
  from steps(2) have prim: "consume_primitive v = Some r" "\<not> starts (CHR ''{'') v" "\<not> starts (CHR ''['') v"
    by (simp_all add: parse_value_token_Ok)
  from member_head_local [OF steps(1)] "1.prems"(2) obtain pre where pre: "body = pre @ v" by (metis append.assoc)
  from consume_primitive_local [OF prim(1)] pre obtain pre' where "body = pre' @ r" by (metis append.assoc)
  with after_value_local [OF steps(3)] have suf: "\<exists>pre. body = pre @ r'" by (metis append.assoc)
  have len: "length fs = min kMaxFields (length acc)" using list_all2_lengthD [OF "1.prems"(3)] by simp
  have fs: "list_all2 (views body) ?fs (take kMaxFields (acc @ [?m]))"
    using "1.prems"(3) len views_value [OF pre prim(1), of k tok]
    by (auto simp: list_all2_appendI min_def not_less split: if_splits)
  note jv = primitive_jvalue [OF prim]
  show ?case
  proof (cases again)
    case False
    with "1.prems"(1) steps have "skip_whitespace r' = []" "fs' = ?fs"
      by (auto simp: flat_loop.simps [of _ s] Let_def split: if_splits)
    with False steps(1,3) jv fs show ?thesis by (simp add: jmembers.simps [of s])
  next
    case True
    with "1.prems"(1) steps have loop: "flat_loop (length body) r' ?fs = (FpOk, fs')"
      by (subst (asm) flat_loop.simps) (simp add: Let_def)
    from "1.hyps" [OF steps(1) refl refl steps(2) [symmetric] refl refl refl steps(3) refl True loop suf fs] obtain ms q where
      "jmembers r' = Some (ms, q)" "skip_whitespace q = []" "list_all (\<lambda>(tok, k, v). is_jprim v) ms"
      "list_all2 (views body) fs' (take kMaxFields ((acc @ [?m]) @ ms))" by blast
    with True steps(1,3) jv show ?thesis by (simp add: jmembers.simps [of s])
  qed
qed

text \<open>A flat filter writes the decoded key between quotes, without escaping it.\<close>

definition flat_text :: "string \<times> string \<times> jtree \<Rightarrow> string" where
  "flat_text = (\<lambda>(tok, k, v). CHR 0x22 # member_key k @ CHR 0x22 # CHR '':'' # jtext v)"

lemma flat_fields_text:
  "list_all2 (views src) fs ms \<Longrightarrow>
   flat_fields keep src fs (writer_of cap (base @ comma_join (map flat_text acc))) (acc = []) m =
     (let kept = filter (\<lambda>(tok, k, v). keep (member_key k)) ms
      in Some (writer_of cap (base @ comma_join (map flat_text (acc @ kept))), add_counts (length ms) (length kept) m))"
proof (induction fs ms arbitrary: acc m rule: list_all2_induct)
  case (Cons f fs x ms)
  obtain tok k v where x: "x = (tok, k, v)" by (cases x)
  from Cons(1) x have f: "fj_key f = member_key k" "fj_value_begin f \<le> fj_value_end f" "fj_value_end f \<le> length src"
    "take (fj_value_end f - fj_value_begin f) (drop (fj_value_begin f) src) = jtext v" by (simp_all add: views_def)
  show ?case
  proof (cases "keep (member_key k)")
    case False
    with f(1) x Cons(3) [of acc "add_counts 1 0 m"] show ?thesis by (simp add: Let_def)
  next
    case True
    with f x Cons(3) [of "acc @ [x]" "add_counts 1 1 m"] show ?thesis
      by (cases "acc = []") (simp_all add: Let_def comma_join_snoc flat_text_def add_counts_def del: add_counts_simps)
  qed
qed simp

definition plain_member :: "string \<times> string \<times> jtree \<Rightarrow> bool" where
  "plain_member = (\<lambda>(tok, k, v). k \<noteq> [] \<and> length k < kMaxFieldNameLen \<and> tok = CHR 0x22 # k @ [CHR 0x22])"

lemma plain_flat_text: "plain_member x \<Longrightarrow> flat_text x = member_text x"
  by (cases x) (auto simp: plain_member_def flat_text_def member_text_def member_key_def)

lemma deny_members_flat:
  "list_all (\<lambda>(tok, k, v). is_jprim v) ms \<Longrightarrow> list_all plain_member ms \<Longrightarrow>
   deny_members pol [] ms = Some (filter (\<lambda>(tok, k, v). apply_field_filter pol (Some (member_key k))) ms)"
proof (induction ms)
  case (Cons x ms)
  obtain tok k v where x: "x = (tok, k, v)" by (cases x)
  with Cons(2,3) have "is_jprim v" "build_full_path [] (member_key k) kMaxSelectionPathLen = Some (member_key k)"
    by (auto simp: plain_member_def build_full_path_def member_key_def kMaxSelectionPathLen_def kMaxFieldNameLen_def)
  with x Cons show ?case by (cases v) (auto simp: deny_member.simps)
qed simp

lemma flat_counts: "list_all (\<lambda>(tok, k, v). is_jprim v) ms \<Longrightarrow> member_fields ms = length ms \<and> member_emitted ms = length ms"
proof (induction ms)
  case (Cons x ms)
  then show ?case by (cases x; cases "snd (snd x)") auto
qed simp

lemma parse_flat_views:
  assumes "parse_flat_json_object (Some body) EligibleJson = (FpOk, parsed)"
  shows "\<exists>ms. parse_body body = Some ms \<and> list_all (\<lambda>(tok, k, v). is_jprim v) ms \<and> pj_source parsed = Some body \<and>
           list_all2 (views body) (pj_fields parsed) (take kMaxFields ms)"
proof -
  let ?s = "skip_whitespace body"
  obtain pre where pre: "body = pre @ ?s" using skip_whitespace_split [of body] by metis
  from assms obtain again r where open_b: "open_bracket (CHR ''{'') (CHR ''}'') ?s = Some (again, r)"
    by (auto simp: parse_flat_json_object_def Let_def split: if_splits option.splits)
  then have obj: "starts (CHR ''{'') ?s" by (auto simp: open_bracket_def split: if_splits)
  show ?thesis
  proof (cases again)
    case False
    with assms open_b obj have "skip_whitespace r = []" "parsed = \<lparr>pj_source = Some body, pj_fields = []\<rparr>"
      by (auto simp: parse_flat_json_object_def Let_def starts_def split: if_splits)
    with False open_b obj show ?thesis by (simp add: parse_body_def jvalue.simps)
  next
    case True
    with assms open_b obj obtain fs where fs: "flat_loop (length body) r [] = (FpOk, fs)" "parsed = \<lparr>pj_source = Some body, pj_fields = fs\<rparr>"
      by (auto simp: parse_flat_json_object_def Let_def starts_def split: if_splits prod.splits)
    from open_bracket_local [OF open_b] pre have "\<exists>pre. body = pre @ r" by (metis append.assoc)
    from flat_loop_views [OF fs(1) this, of "[]"] obtain ms q where
      "jmembers r = Some (ms, q)" "skip_whitespace q = []" "list_all (\<lambda>(tok, k, v). is_jprim v) ms"
      "list_all2 (views body) fs (take kMaxFields ms)" by auto
    with True open_b obj fs(2) show ?thesis by (simp add: parse_body_def jvalue.simps)
  qed
qed

lemma flat_agrees_nested:
  assumes "parse_flat_json_object (Some body) EligibleJson = (FpOk, parsed)"
    and "parse_body body = Some ms" "length ms \<le> kMaxFields" "list_all plain_member ms"
  shows "filter_flat_json_by_policy_denylist parsed pol (Some cap) =
           nested_result (filter_nested_json_by_policy_denylist (Some body) pol cap)"
proof -
  from parse_flat_views [OF assms(1)] assms(2,3) have
    flat: "list_all (\<lambda>(tok, k, v). is_jprim v) ms" "pj_source parsed = Some body" "list_all2 (views body) (pj_fields parsed) ms" by auto
  let ?kept = "filter (\<lambda>(tok, k, v). apply_field_filter pol (Some (member_key k))) ms"
  have kept: "list_all (\<lambda>(tok, k, v). is_jprim v) ?kept" using flat(1) by (auto simp: list_all_iff)
  have texts: "map flat_text ?kept = map member_text ?kept" using assms(4) by (auto simp: list_all_iff plain_flat_text)
  have fs: "take kMaxFields (pj_fields parsed) = pj_fields parsed"
    using list_all2_lengthD [OF flat(3)] assms(3) by simp
  have "filter_flat_json_by_policy_denylist parsed pol (Some cap) =
          write_result (writer_of cap (jtext (mk_object ?kept))) (length ms - length ?kept)"
    using flat_fields_text [OF flat(3), of "\<lambda>k. apply_field_filter pol (Some k)" cap "''{''" "[]" no_counts] flat(2) fs texts
    by (simp add: filter_flat_json_by_policy_denylist_def filter_flat_json_def writer_init_of Let_def mk_object_def
        removed_field_count_def no_counts_def)
  then show ?thesis
    using deny_members_flat [OF flat(1) assms(4), of pol] flat_counts [OF flat(1)] flat_counts [OF kept] assms(2)
    by (simp add: policy_filter_equation nested_result_def text_result_def removed_field_count_def write_result_def fits_of)
      (simp add: writer_of_def)
qed

text \<open>
  (C21) The two policy filters agree: on a body that parses as a flat object with at most sixteen members, whose keys
  are non-empty, shorter than 64 characters and free of escapes, the filter of flat objects and the streaming filter
  of nested ones give the same status, the same output and the same removed-field count for every buffer size.
\<close>

theorem flat_policy_filter_agrees:
  assumes "parse_flat_json_object (Some body) EligibleJson = (FpOk, parsed)"
    and "parse_body body = Some ms" "length ms \<le> kMaxFields" "list_all plain_member ms"
  shows "filter_flat_json_by_policy_denylist parsed pol (Some cap) =
           nested_result (filter_nested_json_by_policy_denylist (Some body) pol cap)"
  using assms by (rule flat_agrees_nested)

text \<open>\<^verbatim>\<open>{"a":1,"b":2}\<close> under a denylist of \<open>b\<close>.\<close>

definition flat_body :: string where
  "flat_body = [CHR ''{'', CHR 0x22, CHR ''a'', CHR 0x22, CHR '':'', CHR ''1'', CHR '','', CHR 0x22, CHR ''b'', CHR 0x22, CHR '':'', CHR ''2'', CHR ''}'']"

definition flat_denylist :: FieldFilterPolicy where
  "flat_denylist = \<lparr>ff_mode = FilterDenylist, ff_fields = [''b'']\<rparr>"

definition flat_parsed :: ParsedFlatJsonObject where
  "flat_parsed = \<lparr>pj_source = Some flat_body,
     pj_fields = [\<lparr>fj_key = ''a'', fj_value_begin = 5, fj_value_end = 6\<rparr>, \<lparr>fj_key = ''b'', fj_value_begin = 11, fj_value_end = 12\<rparr>]\<rparr>"

lemma flat_parse: "parse_flat_json_object (Some flat_body) EligibleJson = (FpOk, flat_parsed)"
  by (simp add: parse_flat_json_object_def flat_parsed_def flat_body_def flat_loop.simps parse_value_token_def json_token_eval
      member_key_def kMaxFields_def kMaxFieldNameLen_def Let_def)

lemma flat_parse_body:
  "parse_body flat_body =
     Some [([CHR 0x22, CHR ''a'', CHR 0x22], ''a'', JPrim ''1''), ([CHR 0x22, CHR ''b'', CHR 0x22], ''b'', JPrim ''2'')]"
  by (simp add: parse_body_def flat_body_def jvalue.simps jmembers.simps json_token_eval Let_def)

theorem flat_policy_filter_agrees_witness:
  "filter_flat_json_by_policy_denylist flat_parsed flat_denylist (Some 32) =
     nested_result (filter_nested_json_by_policy_denylist (Some flat_body) flat_denylist 32)"
  by (rule flat_policy_filter_agrees [OF flat_parse flat_parse_body])
    (simp_all add: kMaxFields_def plain_member_def kMaxFieldNameLen_def)

section \<open>What the transformation releases\<close>

lemma transform_permitted:
  assumes "policy_mode ctx = Some pol"
    and "parse_flat_json_object (Some body) EligibleJson = (status, parsed)"
    and "transform_with_status (Some body) status (Some parsed) ctx True (Some cap) = (FfOk, Some (out, len), removed)"
    and "status = FpOk \<Longrightarrow> case parse_body body of None \<Rightarrow> False | Some ms \<Rightarrow> length ms \<le> kMaxFields \<and> list_all plain_member ms"
  shows "\<exists>ms. parse_body out = Some ms \<and> len = length out \<and> permitted_members pol [] ms"
proof -
  have "\<exists>m. filter_nested_json_by_policy_denylist (Some body) pol cap = (FfOk, Some (out, len, m))"
  proof (cases "status = FpOk")
    case True
    with assms(4) obtain ms where ms: "parse_body body = Some ms" "length ms \<le> kMaxFields" "list_all plain_member ms"
      by (auto split: option.splits)
    from assms(1,3) True have "filter_flat_json_by_policy_denylist parsed pol (Some cap) = (FfOk, Some (out, len), removed)"
      by (simp add: transform_with_status_def)
    with flat_agrees_nested [OF assms(2) [unfolded True] ms] show ?thesis
      by (auto simp: nested_result_def split: prod.splits option.splits)
  next
    case False
    with assms(1,3) show ?thesis
      by (auto simp: transform_with_status_def nested_result_def write_invalid_json_safe_error_def Let_def
          split: if_splits prod.splits option.splits)
  qed
  then obtain m where "filter_nested_json_by_policy_denylist (Some body) pol cap = (FfOk, Some (out, len, m))" by blast
  from policy_output_permitted [OF this] show ?thesis by blast
qed

text \<open>
  End to end: with a field policy on the route and no selection by the client, whatever the flat parser makes
  of the body, a successful transformation is one well-formed JSON object all of whose members have a permitted
  path. On the flat path this needs keys without escapes that fit the key buffer and at most sixteen members.
\<close>

theorem transform_releases_permitted:
  assumes "policy_mode ctx = Some pol"
    and "parse_flat_json_object (Some body) EligibleJson = (status, parsed)"
    and "transform_with_status (Some body) status (Some parsed) ctx True (Some cap) = (FfOk, Some (out, len), removed)"
    and "status = FpOk \<Longrightarrow> case parse_body body of None \<Rightarrow> False | Some ms \<Rightarrow> length ms \<le> kMaxFields \<and> list_all plain_member ms"
  shows "\<exists>ms. parse_body out = Some ms \<and> len = length out \<and> permitted_members pol [] ms"
  using assms by (rule transform_permitted)

definition denylist_context :: "FieldFilterPolicy \<Rightarrow> nat ApgTransformContext" where
  "denylist_context pol = ApgTransformContext_default\<lparr>ctx_matched_policy := Some (RoutePolicy_default\<lparr>field_filter := pol\<rparr>)\<rparr>"

lemma policy_mode_denylist: "ff_mode pol = FilterDenylist \<Longrightarrow> policy_mode (denylist_context pol) = Some pol"
  by (simp add: policy_mode_def denylist_context_def ApgTransformContext_default_def)

lemma nested_example_status: "fst (parse_flat_json_object (Some example_body) EligibleJson) = FpSkipUnsupported"
  by (simp add: parse_flat_json_object_def example_body_def flat_loop.simps parse_value_token_def json_token_eval
      member_key_def kMaxFields_def kMaxFieldNameLen_def Let_def)

theorem transform_releases_permitted_witness:
  "\<exists>ms. parse_body example_output = Some ms \<and> permitted_members example_denylist [] ms"
proof -
  obtain parsed where parsed: "parse_flat_json_object (Some example_body) EligibleJson = (FpSkipUnsupported, parsed)"
    using nested_example_status by (cases "parse_flat_json_object (Some example_body) EligibleJson") simp
  then have src: "pj_source parsed = Some example_body"
    by (auto simp: parse_flat_json_object_def Let_def split: if_splits option.splits prod.splits)
  have mode: "policy_mode (denylist_context example_denylist) = Some example_denylist"
    by (rule policy_mode_denylist) (simp add: example_denylist_def)
  have run: "transform_with_status (Some example_body) FpSkipUnsupported (Some parsed) (denylist_context example_denylist) True (Some 64) =
               (FfOk, Some (example_output, 7), 2)"
    using src mode example_run by (simp add: transform_with_status_def nested_result_def removed_field_count_def)
  from transform_releases_permitted [OF mode parsed run] show ?thesis by blast
qed

section \<open>Limits of the filters\<close>

text \<open>
  (C38) What the filter of flat objects writes, exactly, for every flat body, policy and buffer: of the first sixteen members, those
  whose decoded key the policy permits, each as the decoded key between quotes, a colon and the value's text as it was.
  So a key that was escaped in the body is written unescaped, and members after the sixteenth are dropped without being
  counted as removed.
\<close>

theorem flat_filter_output:
  assumes "parse_flat_json_object (Some body) EligibleJson = (FpOk, parsed)" and "parse_body body = Some ms"
    and "kept = filter (\<lambda>(tok, k, v). apply_field_filter pol (Some (member_key k))) (take 16 ms)"
    and "out = ''{'' @ comma_join (map (\<lambda>(tok, k, v). [CHR 0x22] @ member_key k @ [CHR 0x22, CHR '':''] @ jtext v) kept) @ ''}''"
  shows "filter_flat_json_by_policy_denylist parsed pol (Some cap) =
    (if length out < cap then FfOk else FfOutputTooSmall, Some (take (cap - 1) out, length out), length (take 16 ms) - length kept)"
proof -
  have k16: "kMaxFields = 16" by (simp add: kMaxFields_def)
  from parse_flat_views [OF assms(1)] assms(2) have
    flat: "pj_source parsed = Some body" "list_all2 (views body) (pj_fields parsed) (take 16 ms)" by (auto simp: k16)
  have fs: "take kMaxFields (pj_fields parsed) = pj_fields parsed"
    using list_all2_lengthD [OF flat(2)] by (simp add: k16)
  have "flat_text = (\<lambda>(tok, k, v). [CHR 0x22] @ member_key k @ [CHR 0x22, CHR '':''] @ jtext v)"
    by (simp add: flat_text_def fun_eq_iff)
  then have out: "out = ''{'' @ comma_join (map flat_text kept) @ ''}''" by (simp add: assms(4))
  have le: "length kept \<le> length (take 16 ms)" unfolding assms(3) by (rule length_filter_le)
  have "filter_flat_json_by_policy_denylist parsed pol (Some cap) = write_result (writer_of cap out) (length (take 16 ms) - length kept)"
    using flat_fields_text [OF flat(2), of "\<lambda>k. apply_field_filter pol (Some k)" cap "''{''" "[]" no_counts] flat(1) fs le
    by (simp add: filter_flat_json_by_policy_denylist_def filter_flat_json_def writer_init_of Let_def out assms(3) [symmetric]
        removed_field_count_def no_counts_def del: length_take)
  then show ?thesis by (simp add: write_result_def fits_of) (simp add: writer_of_def)
qed

text \<open>From the body \<open>{"a\"b":1}\<close> it writes \<open>{"a"b":1}\<close>, which is not JSON, and reports success.\<close>

theorem flat_filter_output_witness:
  "let body = [CHR ''{'', CHR 0x22, CHR ''a'', CHR 0x5C, CHR 0x22, CHR ''b'', CHR 0x22, CHR '':'', CHR ''1'', CHR ''}''];
       out = [CHR ''{'', CHR 0x22, CHR ''a'', CHR 0x22, CHR ''b'', CHR 0x22, CHR '':'', CHR ''1'', CHR ''}'']
   in filter_flat_json_by_policy_denylist (snd (parse_flat_json_object (Some body) EligibleJson)) flat_denylist (Some 32) =
        (FfOk, Some (out, 9), 0) \<and> parse_body out = None"
proof -
  let ?body = "[CHR ''{'', CHR 0x22, CHR ''a'', CHR 0x5C, CHR 0x22, CHR ''b'', CHR 0x22, CHR '':'', CHR ''1'', CHR ''}'']"
  let ?out = "[CHR ''{'', CHR 0x22, CHR ''a'', CHR 0x22, CHR ''b'', CHR 0x22, CHR '':'', CHR ''1'', CHR ''}'']"
  let ?k = "[CHR ''a'', CHR 0x22, CHR ''b'']"
  obtain parsed where p: "parse_flat_json_object (Some ?body) EligibleJson = (FpOk, parsed)"
    by (simp add: parse_flat_json_object_def flat_loop.simps parse_value_token_def json_token_eval member_key_def kMaxFields_def
        kMaxFieldNameLen_def Let_def)
  have b: "parse_body ?body = Some [([CHR 0x22, CHR ''a'', CHR 0x5C, CHR 0x22, CHR ''b'', CHR 0x22], ?k, JPrim ''1'')]"
    by (simp add: parse_body_def jvalue.simps jmembers.simps json_token_eval Let_def)
  have n: "parse_body ?out = None" by (simp add: parse_body_def jvalue.simps jmembers.simps json_token_eval Let_def)
  from flat_filter_output [OF p b refl refl, of flat_denylist 32] n show ?thesis
    by (simp add: p flat_denylist_def apply_field_filter_def member_key_def kMaxFieldNameLen_def)
qed


lemma top_level_path:
  "k \<noteq> [] \<Longrightarrow> build_full_path [] (member_key k) kMaxSelectionPathLen = Some (member_key k)"
  by (simp add: build_full_path_def member_key_def kMaxSelectionPathLen_def kMaxFieldNameLen_def)

text \<open>
  (C39) An allowlist must name the parents: for every body the scanner accepts as an object without empty top-level
  keys, an allowlist that names none of its top-level members releases the empty object, whatever paths below them it
  lists. Listing \<open>u.i\<close> alone does not release \<open>u.i\<close>.
\<close>

theorem allowlist_needs_parents:
  assumes "ff_mode pol = FilterAllowlist" and "parse_body body = Some ms"
    and "list_all (\<lambda>(tok, k, v). k \<noteq> [] \<and> member_key k \<notin> set (ff_fields pol)) ms"
  shows "filter_nested_json_by_policy_denylist (Some body) pol cap = text_result cap ''{}'' (member_fields ms) 0"
proof -
  have "deny_members pol [] ms = Some []"
    using assms(3)
  proof (induction ms)
    case (Cons x ms)
    then show ?case
      using assms(1) by (cases x) (auto simp: deny_member.simps top_level_path apply_field_filter_def filter_scan_iff)
  qed simp
  with assms(2) show ?thesis by (simp add: policy_filter_equation mk_object_def)
qed

theorem allowlist_needs_parents_witness:
  "filter_nested_json_by_policy_denylist (Some example_body) \<lparr>ff_mode = FilterAllowlist, ff_fields = [''s[].k'']\<rparr> 64 =
     (FfOk, Some (''{}'', 2, \<lparr>fc_encountered = 3, fc_emitted = 0\<rparr>))"
proof -
  let ?pol = "\<lparr>ff_mode = FilterAllowlist, ff_fields = [''s[].k'']\<rparr>"
  have m: "ff_mode ?pol = FilterAllowlist" by simp
  from allowlist_needs_parents [OF m example_parse, of 64] show ?thesis
    by (simp add: member_key_def kMaxFieldNameLen_def text_result_def)
qed


text \<open>What one selected top-level name releases: its members as they stand in the body.\<close>

lemma select_top_level:
  assumes "ctx_selected_fields ctx = [d]" and "CHR ''.'' \<notin> set d" and "CHR ''['' \<notin> set d"
    and "list_all (\<lambda>(tok, k, v). k \<noteq> [] \<and> \<not> is_jarray v) ms"
  shows "\<exists>c. select_members (compile_field_selection ctx) [] ms = Some (filter (\<lambda>(tok, k, v). member_key k = d) ms, c)"
  using assms(4)
proof (induction ms)
  case (Cons x ms)
  obtain tok k v where x: "x = (tok, k, v)" by (cases x)
  with Cons.prems have k: "k \<noteq> []" "\<not> is_jarray v" by simp_all
  then have ne: "member_key k \<noteq> []" by (simp add: member_key_def kMaxFieldNameLen_def)
  have ex: "exact_at (compile_field_selection ctx) (member_key k) \<longleftrightarrow> member_key k = d"
    using match_selection_spec(1) [OF ne, of ctx] assms(1) by (simp add: kMaxFields_def)
  have "\<not> starts_with_path_prefix (member_key k) d"
    using assms(2,3) by (metis nth_mem starts_with_path_prefix_def)
  then have below: "\<not> below_at (compile_field_selection ctx) (member_key k)"
    using match_selection_spec(2) [OF ne, of ctx] assms(1) by (simp add: kMaxFields_def)
  have "\<exists>c. select_member (compile_field_selection ctx) [] tok k v = Some (if member_key k = d then [x] else [], c)"
    using k ex below by (cases v) (simp_all add: select_member.simps top_level_path x)
  with Cons x show ?case by auto
qed simp

lemma plain_name_supported: "CHR ''['' \<notin> set d \<Longrightarrow> CHR '']'' \<notin> set d \<Longrightarrow> \<not> unsupported_notation d"
  by (induction d rule: unsupported_notation.induct) auto

lemma permitted_memberD:
  "permitted_members pol prefix ms \<Longrightarrow> (tok, k, v) \<in> set ms \<Longrightarrow>
   \<exists>path. build_full_path prefix (member_key k) kMaxSelectionPathLen = Some path \<and> apply_field_filter pol (Some path) \<and>
     permitted_value pol path v"
  by (induction ms) (auto split: option.splits)

text \<open>
  (C14) A client can ask for what the denylist removes: when the denylist names a path \<open>d.x\<close> but not \<open>d\<close> itself, the
  selection of \<open>d\<close> passes the check against the policy, and every object under \<open>d\<close> is released as it stands, the
  denied member included. So the released object is not one the policy permits. It holds for every body the
  scanner accepts that has no array and no empty key at the top level, and for every context and buffer size.
\<close>

theorem denylist_evaded_by_selection:
  assumes "ff_mode pol = FilterDenylist" and "d @ ''.'' @ x \<in> set (ff_fields pol)" and "d \<notin> set (ff_fields pol)"
    and "set d \<inter> set ''.[]'' = {}" and "length d < kMaxFieldNameLen"
    and "ctx_selected_fields ctx = [d]"
    and "parse_body body = Some ms" and "list_all (\<lambda>(tok, k, v). k \<noteq> [] \<and> \<not> is_jarray v) ms"
    and "(tok, k, JObject raw kms) \<in> set ms" and "member_key k = d" and "(tok', k', v') \<in> set kms" and "member_key k' = x"
  shows "\<exists>ms' c. filter_nested_json_by_selected_fields (Some body) (enforce_selected_fields_policy ctx pol) cap =
      text_result cap (jtext (mk_object ms')) (member_fields ms) c \<and>
    (tok, k, JObject raw kms) \<in> set ms' \<and> \<not> permitted_members pol [] ms'"
proof -
  let ?ctx = "enforce_selected_fields_policy ctx pol" and ?ms = "filter (\<lambda>(tok, k, v). member_key k = d) ms"
  have plain: "CHR ''.'' \<notin> set d" "CHR ''['' \<notin> set d" "CHR '']'' \<notin> set d" using assms(4) by auto
  have ne: "d \<noteq> []" using assms(8-10) by (auto simp: list_all_iff member_key_def kMaxFieldNameLen_def)
  then have "selection_wf ctx" using assms(5,6) by (simp add: selection_wf_def kMaxFields_def)
  then have sel: "ctx_selected_fields ?ctx = [d]"
    using assms(1,3,6) by (simp add: enforce_filter apply_field_filter_def filter_scan_iff)
  obtain c where c: "select_members (compile_field_selection ?ctx) [] ms = Some (?ms, c)"
    using select_top_level [OF sel plain(1,2) assms(8)] by blast
  have "\<not> selection_contains_unsupported_array_notation ?ctx"
    using plain_name_supported [OF plain(2,3)] by (simp add: selection_contains_unsupported_array_notation_def sel kMaxFields_def)
  then have run: "filter_nested_json_by_selected_fields (Some body) ?ctx cap = text_result cap (jtext (mk_object ?ms)) (member_fields ms) c"
    using c assms(7) by (simp add: selection_filter_equation)
  have mem: "(tok, k, JObject raw kms) \<in> set ?ms" using assms(9,10) by simp
  have "\<not> permitted_members pol [] ?ms"
  proof
    assume "permitted_members pol [] ?ms"
    from permitted_memberD [OF this mem] assms(10) have "permitted_members pol d kms"
      by (auto simp: build_full_path_def split: if_splits)
    from permitted_memberD [OF this assms(11)] obtain path where
      "build_full_path d x kMaxSelectionPathLen = Some path" "apply_field_filter pol (Some path)" by (auto simp: assms(12))
    with ne have "apply_field_filter pol (Some (d @ ''.'' @ x))" by (auto simp: build_full_path_def split: if_splits)
    with assms(1,2) show False by (simp add: apply_field_filter_def filter_scan_iff)
  qed
  with run mem show ?thesis by blast
qed

text \<open>\<^verbatim>\<open>{"u":{"p":1}}\<close> under a denylist of \<open>u.p\<close>.\<close>

definition secret_body :: string where
  "secret_body = [CHR ''{'', CHR 0x22, CHR ''u'', CHR 0x22, CHR '':'', CHR ''{'', CHR 0x22, CHR ''p'', CHR 0x22, CHR '':'', CHR ''1'', CHR ''}'', CHR ''}'']"

lemma secret_parse: "parse_body secret_body = Some [([CHR 0x22, CHR ''u'', CHR 0x22], ''u'',
    JObject [CHR ''{'', CHR 0x22, CHR ''p'', CHR 0x22, CHR '':'', CHR ''1'', CHR ''}''] [([CHR 0x22, CHR ''p'', CHR 0x22], ''p'', JPrim ''1'')])]"
  by (simp add: parse_body_def secret_body_def jvalue.simps jmembers.simps json_token_eval Let_def)

theorem denylist_evaded_by_selection_witness:
  "let pol = \<lparr>ff_mode = FilterDenylist, ff_fields = [''u.p'']\<rparr>
   in \<exists>ms' c. filter_nested_json_by_selected_fields (Some secret_body) (enforce_selected_fields_policy (example_context [''u'']) pol) 64 =
        text_result 64 (jtext (mk_object ms')) 2 c \<and> \<not> permitted_members pol [] ms'"
proof -
  let ?pol = "\<lparr>ff_mode = FilterDenylist, ff_fields = [''u.p'']\<rparr>"
  have "\<exists>ms' c. filter_nested_json_by_selected_fields (Some secret_body) (enforce_selected_fields_policy (example_context [''u'']) ?pol) 64 =
        text_result 64 (jtext (mk_object ms')) (member_fields [([CHR 0x22, CHR ''u'', CHR 0x22], ''u'',
    JObject [CHR ''{'', CHR 0x22, CHR ''p'', CHR 0x22, CHR '':'', CHR ''1'', CHR ''}''] [([CHR 0x22, CHR ''p'', CHR 0x22], ''p'', JPrim ''1'')])]) c \<and>
      ([CHR 0x22, CHR ''u'', CHR 0x22], ''u'', JObject [CHR ''{'', CHR 0x22, CHR ''p'', CHR 0x22, CHR '':'', CHR ''1'', CHR ''}'']
        [([CHR 0x22, CHR ''p'', CHR 0x22], ''p'', JPrim ''1'')]) \<in> set ms' \<and> \<not> permitted_members ?pol [] ms'"
    by (rule denylist_evaded_by_selection [where d = "''u''" and x = "''p''" and tok' = "[CHR 0x22, CHR ''p'', CHR 0x22]" and
          k' = "''p''" and v' = "JPrim ''1''", OF _ _ _ _ _ _ secret_parse])
      (simp_all add: member_key_def kMaxFieldNameLen_def)
  then show ?thesis unfolding Let_def by (auto simp: numeral_2_eq_2)
qed

end
