(* ===== verification/Invalidation.thy ===== *)
theory Invalidation
  imports Apg_Context
begin

text \<open>
  Invalidation of cached routes by mutations: the target resolver
  (\<^verbatim>\<open>src/cache/cache_invalidation_target_resolver.cpp\<close>) and the two stages that use it, one on the request
  headers that prepares a plan and one on the response that carries it out by bumping route epochs
  (\<^verbatim>\<open>src/stages/mutation_invalidation_{prepare,apply}_stage.cpp\<close>). The lemmas say exactly when a plan is
  prepared, which epochs it bumps, and that it is carried out at most once.
\<close>

section \<open>Resolving the targets\<close>

definition kMaxResolvedInvalidationTargets :: nat where "kMaxResolvedInvalidationTargets = 8"

datatype InvalidationTargetResolveStatus =
    ResResolved | ResNoPolicy | ResDisabled | ResNonMutationMethod | ResMethodNotEnabled | ResNoTargets
  | ResTooManyTargets | ResUnknownTargetRoute | ResTargetNotGet | ResTargetCacheDisabled
  | ResTargetCacheNotStore | ResUnsupportedStrategy | ResSelfTarget | ResInvalidArgument

record InvalidationTargetResolveResult =
  ir_ok :: bool
  ir_status :: InvalidationTargetResolveStatus
  ir_reason :: string
  ir_targets :: "string list"
  ir_success_status_min :: u16
  ir_success_status_max :: u16

definition find_route_by_id :: "RoutePolicy list option \<Rightarrow> string option \<Rightarrow> RoutePolicy option" where
  "find_route_by_id routes rid =
     (case (routes, rid) of
        (Some rs, Some r) \<Rightarrow>
          find (\<lambda>p. \<not> (route_id p = None \<or> route_id p = Some []) \<and> route_id p = Some r) rs
      | _ \<Rightarrow> None)"

definition invalidation_policy_allows_method :: "CacheInvalidationPolicy \<Rightarrow> HttpMethod \<Rightarrow> bool" where
  "invalidation_policy_allows_method pol method =
     (if method = MethodPatch then inv_on_patch pol
      else if method = MethodPut then inv_on_put pol
      else if method = MethodDelete then inv_on_delete pol
      else False)"

text \<open>What is wrong with one target; \<open>None\<close> if it is accepted.\<close>

definition check_target ::
  "RoutePolicy list option \<Rightarrow> RoutePolicy \<Rightarrow> CacheInvalidationTargetPolicy \<Rightarrow>
   (InvalidationTargetResolveStatus \<times> string) option" where
  "check_target routes mutation_route t =
     (if tgt_route_id t = [] then Some (ResInvalidArgument, ''empty-target-route-id'')
      else case find_route_by_id routes (Some (tgt_route_id t)) of
        None \<Rightarrow> Some (ResUnknownTargetRoute, ''unknown-target-route'')
      | Some target_route \<Rightarrow>
          if route_id target_route = route_id mutation_route then Some (ResSelfTarget, ''self-target'')
          else if allowed_method target_route \<noteq> MethodGet then Some (ResTargetNotGet, ''target-not-get'')
          else if \<not> cache_enabled (cache target_route) then Some (ResTargetCacheDisabled, ''target-cache-disabled'')
          else if cache_behavior (cache target_route) \<noteq> CacheStore then Some (ResTargetCacheNotStore, ''target-cache-not-store'')
          else if tgt_strategy t \<noteq> InvalidateRouteEpoch then Some (ResUnsupportedStrategy, ''unsupported-strategy'')
          else None)"

text \<open>The loop stops at the first target that fails and keeps the ones resolved before it.\<close>

fun resolve_targets ::
  "RoutePolicy list option \<Rightarrow> RoutePolicy \<Rightarrow> CacheInvalidationTargetPolicy list \<Rightarrow> string list \<Rightarrow>
   (InvalidationTargetResolveStatus \<times> string) option \<times> string list" where
  "resolve_targets routes mutation_route [] acc = (None, acc)"
| "resolve_targets routes mutation_route (t # ts) acc =
     (case check_target routes mutation_route t of
        Some err \<Rightarrow> (Some err, acc)
      | None \<Rightarrow> resolve_targets routes mutation_route ts (acc @ [strncpy_z (kInvalidationRouteIdMaxLen - 1) (tgt_route_id t)]))"

definition unresolved :: "InvalidationTargetResolveStatus \<Rightarrow> string \<Rightarrow> string list \<Rightarrow> InvalidationTargetResolveResult" where
  "unresolved status reason targets =
     \<lparr>ir_ok = False, ir_status = status, ir_reason = reason, ir_targets = targets,
      ir_success_status_min = 200, ir_success_status_max = 299\<rparr>"

definition resolve_invalidation_targets ::
  "RoutePolicy list option \<Rightarrow> RoutePolicy option \<Rightarrow> HttpMethod \<Rightarrow> InvalidationTargetResolveResult" where
  "resolve_invalidation_targets routes mutation_route request_method =
     (case (routes, mutation_route) of
        (Some rs, Some mr) \<Rightarrow>
          (let pol = cache_invalidation (cache mr)
           in if \<not> inv_enabled pol then unresolved ResDisabled ''no-invalidation-policy'' []
              else if request_method \<noteq> MethodPatch \<and> request_method \<noteq> MethodPut \<and> request_method \<noteq> MethodDelete then
                unresolved ResNonMutationMethod ''non-mutation-method'' []
              else if \<not> invalidation_policy_allows_method pol request_method then
                unresolved ResMethodNotEnabled ''method-not-enabled'' []
              else if inv_targets pol = [] then unresolved ResNoTargets ''no-targets'' []
              else if length (inv_targets pol) > kMaxResolvedInvalidationTargets then
                unresolved ResTooManyTargets ''too-many-targets'' []
              else case resolve_targets routes mr (inv_targets pol) [] of
                (Some (status, reason), acc) \<Rightarrow> unresolved status reason acc
              | (None, acc) \<Rightarrow>
                  \<lparr>ir_ok = True, ir_status = ResResolved, ir_reason = ''resolved'', ir_targets = acc,
                   ir_success_status_min = inv_success_status_min pol,
                   ir_success_status_max = inv_success_status_max pol\<rparr>)
      | _ \<Rightarrow> unresolved ResInvalidArgument ''invalid-argument'' [])"

section \<open>The prepare stage\<close>

definition tally :: "CacheMetricEvent \<Rightarrow> 'db ApgTransformContext \<Rightarrow> 'db ApgTransformContext" where
  "tally e ctx = ctx\<lparr>ctx_cache_metrics := record_cache_event (ctx_cache_metrics ctx) e\<rparr>"

definition set_plan :: "PendingMutationInvalidationPlan \<Rightarrow> 'db ApgTransformContext \<Rightarrow> 'db ApgTransformContext" where
  "set_plan plan ctx = ctx\<lparr>ctx_mutation_invalidation := plan\<rparr>"

definition skipped_plan :: "MutationInvalidationDecision \<Rightarrow> string \<Rightarrow> PendingMutationInvalidationPlan" where
  "skipped_plan decision reason =
     PendingMutationInvalidationPlan_default\<lparr>pl_decision := decision, pl_reason := Some reason\<rparr>"

definition mutation_invalidation_prepare_stage :: "'db ApgStage" where
  "mutation_invalidation_prepare_stage ctx =
     (case ctx_matched_policy ctx of
        None \<Rightarrow>
          (cont ''no-policy'',
           set_plan (skipped_plan MidSkippedNoPolicy ''no-policy'')
             (tally CM_InvalidationNoPolicy (tally CM_InvalidationPrepareSkipped ctx)))
      | Some policy \<Rightarrow>
          (let ctx = (if inv_enabled (cache_invalidation (cache policy)) then tally CM_InvalidationPrepareAttempt ctx
                      else ctx);
               resolved = resolve_invalidation_targets (ctx_active_routes ctx) (Some policy) (ctx_request_method ctx);
               reason = ir_reason resolved
           in if \<not> ir_ok resolved then
                (let ctx = tally CM_InvalidationPrepareSkipped ctx
                 in (cont reason,
                     if ir_status resolved = ResNonMutationMethod then
                       set_plan (skipped_plan MidSkippedNonMutationMethod reason) ctx
                     else if ir_status resolved = ResMethodNotEnabled then
                       set_plan (skipped_plan MidSkippedMethodNotEnabled reason) (tally CM_InvalidationMethodNotEnabled ctx)
                     else if ir_status resolved = ResNoPolicy \<or> ir_status resolved = ResDisabled then
                       set_plan (skipped_plan MidSkippedNoPolicy reason) (tally CM_InvalidationNoPolicy ctx)
                     else
                       set_plan (skipped_plan MidSkippedNoPolicy reason) (tally CM_InvalidationTargetResolveFailed ctx)))
              else
                (cont ''prepared'',
                 set_plan (PendingMutationInvalidationPlan_default
                   \<lparr>pl_prepared := True, pl_decision := MidPrepared,
                    pl_success_status_min := ir_success_status_min resolved,
                    pl_success_status_max := ir_success_status_max resolved,
                    pl_targets := map (strncpy_z (kInvalidationRouteIdMaxLen - 1)) (ir_targets resolved),
                    pl_reason := Some ''prepared''\<rparr>)
                   (tally CM_InvalidationPrepared ctx))))"

section \<open>The apply stage\<close>

text \<open>The loop over the active routes: the first route with the target's id is looked at.\<close>

definition record_variant_invalidation :: "string \<Rightarrow> 'db ApgTransformContext \<Rightarrow> 'db ApgTransformContext" where
  "record_variant_invalidation rid ctx =
     (case ctx_active_routes ctx of
        None \<Rightarrow> ctx
      | Some rs \<Rightarrow>
          (case find (\<lambda>p. route_id p = Some rid) rs of
             None \<Rightarrow> ctx
           | Some p \<Rightarrow>
               if fv_enabled (cache_field_variant (cache p)) then tally CM_VariantInvalidatedByRouteEpoch ctx
               else ctx))"

text \<open>The bumps in order, up to the first that fails; the result says whether all succeeded.\<close>

fun apply_bumps :: "string list \<Rightarrow> 'db ApgTransformContext \<Rightarrow> bool \<times> 'db ApgTransformContext" where
  "apply_bumps [] ctx = (True, ctx)"
| "apply_bumps (rid # rids) ctx =
     (let ctx = tally CM_RouteEpochBumpAttempt ctx
      in case route_cache_epoch_bump (ctx_route_cache_epoch_store ctx) (Some rid) of
           (res, store, new_epoch) \<Rightarrow>
             if res \<noteq> EpochOk then (False, ctx)
             else apply_bumps rids
               (record_variant_invalidation rid
                 (tally CM_RouteEpochBumpSuccess (ctx\<lparr>ctx_route_cache_epoch_store := store\<rparr>))))"

definition mutation_invalidation_apply_stage :: "'db ApgStage" where
  "mutation_invalidation_apply_stage ctx =
     (let plan = ctx_mutation_invalidation ctx
      in if \<not> pl_prepared plan then (cont ''no-plan'', ctx)
         else if pl_applied plan \<or> pl_skipped plan \<or> pl_failed plan then (cont ''already-final'', ctx)
         else
           (let ctx = tally CM_InvalidationApplyAttempt ctx
            in if ctx_response_status_code ctx < pl_success_status_min plan \<or>
                  ctx_response_status_code ctx > pl_success_status_max plan then
                 (cont ''status-not-successful'',
                  tally CM_InvalidationStatusNotSuccessful (tally CM_InvalidationSkipped
                    (set_plan (plan\<lparr>pl_skipped := True, pl_decision := MidSkippedStatusNotSuccessful,
                       pl_reason := Some ''status-not-successful''\<rparr>) ctx)))
               else if ctx_route_cache_epoch_store ctx = None then
                 (cont ''epoch-store-missing'',
                  tally CM_InvalidationFailed
                    (set_plan (plan\<lparr>pl_failed := True, pl_decision := MidFailedEpochStoreMissing,
                       pl_reason := Some ''epoch-store-missing''\<rparr>) ctx))
               else case apply_bumps (pl_targets plan) ctx of
                 (False, ctx) \<Rightarrow>
                   (cont ''epoch-bump-failed'',
                    tally CM_RouteEpochBumpFailed (tally CM_InvalidationFailed
                      (set_plan (plan\<lparr>pl_failed := True, pl_decision := MidFailedEpochBump,
                         pl_reason := Some ''epoch-bump-failed''\<rparr>) ctx)))
               | (True, ctx) \<Rightarrow>
                   (cont ''epoch-bumped'',
                    tally CM_InvalidationApplied
                      (set_plan (plan\<lparr>pl_applied := True, pl_decision := MidApplied,
                         pl_reason := Some ''epoch-bumped''\<rparr>) ctx))))"

section \<open>What the resolver accepts\<close>

definition valid_target :: "RoutePolicy list \<Rightarrow> RoutePolicy \<Rightarrow> CacheInvalidationTargetPolicy \<Rightarrow> bool" where
  "valid_target rs mr t \<longleftrightarrow> tgt_route_id t \<noteq> [] \<and> tgt_strategy t = InvalidateRouteEpoch \<and> route_id mr \<noteq> Some (tgt_route_id t) \<and>
     (\<exists>p. find (\<lambda>p. route_id p = Some (tgt_route_id t)) rs = Some p \<and> allowed_method p = MethodGet \<and>
          cache_enabled (cache p) \<and> cache_behavior (cache p) = CacheStore)"

lemma find_route_by_id_eq:
  "r \<noteq> [] \<Longrightarrow> find_route_by_id (Some rs) (Some r) = find (\<lambda>p. route_id p = Some r) rs"
  by (auto simp: find_route_by_id_def intro!: arg_cong2 [where f = find])

lemma find_route_id: "find (\<lambda>p. route_id p = Some r) rs = Some p \<Longrightarrow> route_id p = Some r"
  by (simp add: find_Some_iff) blast

lemma check_target_None_iff: "check_target (Some rs) mr t = None \<longleftrightarrow> valid_target rs mr t"
  by (auto simp: check_target_def valid_target_def find_route_by_id_eq dest: find_route_id split: option.splits)

definition target_name :: "CacheInvalidationTargetPolicy \<Rightarrow> string" where
  "target_name t = strncpy_z (kInvalidationRouteIdMaxLen - 1) (tgt_route_id t)"

lemma resolve_targets_None_iff:
  "fst (resolve_targets (Some rs) mr ts acc) = None \<longleftrightarrow> list_all (valid_target rs mr) ts"
  by (induction ts arbitrary: acc) (auto split: option.splits simp flip: check_target_None_iff)

lemma resolve_targets_names:
  "list_all (valid_target rs mr) ts \<Longrightarrow> snd (resolve_targets (Some rs) mr ts acc) = acc @ map target_name ts"
  by (induction ts arbitrary: acc) (auto simp: check_target_None_iff [THEN iffD2] target_name_def)

definition invalidates :: "RoutePolicy list \<Rightarrow> RoutePolicy \<Rightarrow> HttpMethod \<Rightarrow> bool" where
  "invalidates rs mr m \<longleftrightarrow>
     (let pol = cache_invalidation (cache mr)
      in inv_enabled pol \<and> invalidation_policy_allows_method pol m \<and>
         inv_targets pol \<noteq> [] \<and> length (inv_targets pol) \<le> 8 \<and> list_all (valid_target rs mr) (inv_targets pol))"

lemma resolve_ok:
  "ir_ok (resolve_invalidation_targets (Some rs) (Some mr) m) \<longleftrightarrow> invalidates rs mr m"
  by (auto simp: resolve_invalidation_targets_def invalidates_def Let_def unresolved_def
      invalidation_policy_allows_method_def kMaxResolvedInvalidationTargets_def
      simp flip: resolve_targets_None_iff [where acc = "[]"] split: prod.splits option.splits)

lemma resolve_result:
  assumes "invalidates rs mr m"
  shows "ir_targets (resolve_invalidation_targets (Some rs) (Some mr) m) =
      map target_name (inv_targets (cache_invalidation (cache mr)))"
    and "ir_success_status_min (resolve_invalidation_targets (Some rs) (Some mr) m) =
      inv_success_status_min (cache_invalidation (cache mr))"
    and "ir_success_status_max (resolve_invalidation_targets (Some rs) (Some mr) m) =
      inv_success_status_max (cache_invalidation (cache mr))"
proof -
  let ?ts = "inv_targets (cache_invalidation (cache mr))"
  have l: "list_all (valid_target rs mr) ?ts" using assms by (simp add: invalidates_def Let_def)
  then obtain acc where r: "resolve_targets (Some rs) mr ?ts [] = (None, acc)"
    by (metis resolve_targets_None_iff prod.collapse)
  have "acc = map target_name ?ts" using resolve_targets_names [OF l, of "[]"] r by simp
  with r assms show "ir_targets (resolve_invalidation_targets (Some rs) (Some mr) m) = map target_name ?ts"
    "ir_success_status_min (resolve_invalidation_targets (Some rs) (Some mr) m) = inv_success_status_min (cache_invalidation (cache mr))"
    "ir_success_status_max (resolve_invalidation_targets (Some rs) (Some mr) m) = inv_success_status_max (cache_invalidation (cache mr))"
    by (auto simp: resolve_invalidation_targets_def invalidates_def Let_def
        invalidation_policy_allows_method_def kMaxResolvedInvalidationTargets_def split: if_splits)
qed

section \<open>The plan\<close>

lemma tally_simps [simp]:
  "ctx_route_cache_epoch_store (tally e ctx) = ctx_route_cache_epoch_store ctx"
  "ctx_mutation_invalidation (tally e ctx) = ctx_mutation_invalidation ctx"
  "ctx_active_routes (tally e ctx) = ctx_active_routes ctx"
  "ctx_request_method (tally e ctx) = ctx_request_method ctx"
  "ctx_response_status_code (tally e ctx) = ctx_response_status_code ctx"
  by (simp_all add: tally_def)

lemma set_plan_simps [simp]:
  "ctx_route_cache_epoch_store (set_plan p ctx) = ctx_route_cache_epoch_store ctx"
  "ctx_mutation_invalidation (set_plan p ctx) = p"
  by (simp_all add: set_plan_def)

definition plan_of :: "RoutePolicy \<Rightarrow> PendingMutationInvalidationPlan" where
  "plan_of mr =
     (let pol = cache_invalidation (cache mr)
      in PendingMutationInvalidationPlan_default
           \<lparr>pl_prepared := True, pl_decision := MidPrepared, pl_success_status_min := inv_success_status_min pol,
            pl_success_status_max := inv_success_status_max pol, pl_targets := map target_name (inv_targets pol),
            pl_reason := Some ''prepared''\<rparr>)"

lemma target_name_copy [simp]: "strncpy_z (kInvalidationRouteIdMaxLen - Suc 0) (target_name t) = target_name t"
  by (simp add: target_name_def)

lemma prepare_stage_plan:
  assumes "ctx_matched_policy ctx = Some mr" and "ctx_active_routes ctx = Some rs"
    and "invalidates rs mr (ctx_request_method ctx)"
  shows "ctx_mutation_invalidation (snd (mutation_invalidation_prepare_stage ctx)) = plan_of mr"
proof -
  have e: "inv_enabled (cache_invalidation (cache mr))" using assms(3) by (simp add: invalidates_def Let_def)
  show ?thesis
    using assms e
    by (simp add: mutation_invalidation_prepare_stage_def Let_def resolve_ok resolve_result [OF assms(3)] plan_of_def o_def)
qed

lemma prepare_stage_no_plan:
  assumes "ctx_matched_policy ctx = Some mr" and "ctx_active_routes ctx = Some rs"
    and "\<not> invalidates rs mr (ctx_request_method ctx)"
  shows "\<not> pl_prepared (ctx_mutation_invalidation (snd (mutation_invalidation_prepare_stage ctx)))"
  using assms
  by (simp add: mutation_invalidation_prepare_stage_def Let_def resolve_ok skipped_plan_def
      PendingMutationInvalidationPlan_default_def)

section \<open>Carrying it out\<close>

lemma record_variant_store [simp]:
  "ctx_route_cache_epoch_store (record_variant_invalidation r ctx) = ctx_route_cache_epoch_store ctx"
  "ctx_mutation_invalidation (record_variant_invalidation r ctx) = ctx_mutation_invalidation ctx"
  by (simp_all add: record_variant_invalidation_def split: option.splits)

lemma epoch_bump_result:
  "fst (route_cache_epoch_bump (Some s) (Some r)) = EpochOk \<longleftrightarrow> epoch_of s r \<noteq> None"
  "fst (snd (route_cache_epoch_bump (Some s) (Some r))) = Some (epoch_bump r s)"
  by (auto simp: route_cache_epoch_bump_def epoch_of_index epoch_bump_def Let_def split: option.splits)

lemma epoch_known_bump: "epoch_of (epoch_bump r' s) r = None \<longleftrightarrow> epoch_of s r = None"
  by (simp add: epoch_of_bump)

lemma apply_bumps_exact:
  assumes "ctx_route_cache_epoch_store ctx = Some s"
  shows "(fst (apply_bumps rids ctx) \<longleftrightarrow> list_all (\<lambda>r. epoch_of s r \<noteq> None) rids) \<and>
    ctx_mutation_invalidation (snd (apply_bumps rids ctx)) = ctx_mutation_invalidation ctx \<and>
    ctx_route_cache_epoch_store (snd (apply_bumps rids ctx)) =
      Some (fold epoch_bump (takeWhile (\<lambda>r. epoch_of s r \<noteq> None) rids) s)"
  using assms
proof (induction rids arbitrary: ctx s)
  case (Cons r rids)
  obtain res e where b: "route_cache_epoch_bump (Some s) (Some r) = (res, Some (epoch_bump r s), e)"
    and res: "res = EpochOk \<longleftrightarrow> epoch_of s r \<noteq> None"
    using epoch_bump_result [of s r] by (cases "route_cache_epoch_bump (Some s) (Some r)") auto
  let ?ctx = "record_variant_invalidation r (tally CM_RouteEpochBumpSuccess
    ((tally CM_RouteEpochBumpAttempt ctx)\<lparr>ctx_route_cache_epoch_store := Some (epoch_bump r s)\<rparr>))"
  have "ctx_route_cache_epoch_store ?ctx = Some (epoch_bump r s)" by simp
  from Cons.IH [OF this] Cons.prems res show ?case
    by (cases "epoch_of s r") (simp_all add: b Let_def epoch_known_bump)
qed simp

lemma epoch_of_fold_bump:
  "epoch_of (fold epoch_bump rids s) r = map_option (\<lambda>e. e + of_nat (count_list rids r)) (epoch_of s r)"
proof (induction rids arbitrary: s)
  case Nil
  then show ?case by (simp add: option.map_ident)
next
  case (Cons a rids)
  show ?case using Cons.IH [of "epoch_bump a s"] by (cases "epoch_of s r") (auto simp: epoch_of_bump add.assoc)
qed

text \<open>A plan that is waiting to be carried out.\<close>

definition pending :: "PendingMutationInvalidationPlan \<Rightarrow> bool" where
  "pending p \<longleftrightarrow> pl_prepared p \<and> \<not> pl_applied p \<and> \<not> pl_skipped p \<and> \<not> pl_failed p"

definition succeeded :: "PendingMutationInvalidationPlan \<Rightarrow> u16 \<Rightarrow> bool" where
  "succeeded p status \<longleftrightarrow> pl_success_status_min p \<le> status \<and> status \<le> pl_success_status_max p"

lemma plan_of_pending [simp]: "pending (plan_of mr)"
  by (simp add: pending_def plan_of_def Let_def PendingMutationInvalidationPlan_default_def)

lemma apply_stage_not_pending:
  "\<not> pending (ctx_mutation_invalidation ctx) \<Longrightarrow> snd (mutation_invalidation_apply_stage ctx) = ctx"
  by (auto simp: mutation_invalidation_apply_stage_def pending_def Let_def)

lemma apply_stage_final: "\<not> pending (ctx_mutation_invalidation (snd (mutation_invalidation_apply_stage ctx)))"
  by (auto simp: mutation_invalidation_apply_stage_def pending_def Let_def split: prod.splits bool.splits)

lemma apply_stage_store:
  assumes "ctx_route_cache_epoch_store ctx = Some s" and "pending (ctx_mutation_invalidation ctx)"
  shows "ctx_route_cache_epoch_store (snd (mutation_invalidation_apply_stage ctx)) =
    Some (if succeeded (ctx_mutation_invalidation ctx) (ctx_response_status_code ctx)
          then fold epoch_bump (takeWhile (\<lambda>r. epoch_of s r \<noteq> None) (pl_targets (ctx_mutation_invalidation ctx))) s
          else s)"
proof -
  let ?ctx = "tally CM_InvalidationApplyAttempt ctx" and ?rids = "pl_targets (ctx_mutation_invalidation ctx)"
  have b: "ctx_route_cache_epoch_store (snd (apply_bumps ?rids ?ctx)) =
      Some (fold epoch_bump (takeWhile (\<lambda>r. epoch_of s r \<noteq> None) ?rids) s)"
    using apply_bumps_exact [of ?ctx s ?rids] assms(1) by simp
  show ?thesis
    using assms b
    by (auto simp: mutation_invalidation_apply_stage_def pending_def succeeded_def Let_def not_less
        split: prod.splits bool.splits)
qed

section \<open>Properties\<close>

text \<open>
  (C9) A mutation invalidates exactly its targets, exactly once. Let a mutation request be prepared, and let its
  response reach the apply stage with the same plan, the epoch store \<open>s\<close> and every configured target registered
  there. If the route's invalidation policy resolves for the method and the response status lies in the policy's
  success range, every route's epoch advances by the number of times the route is listed as a target, so routes that
  are no target keep theirs; otherwise no epoch changes. A later run of the stage on the same plan, such as the one
  the server makes on the response body, changes nothing.
\<close>

theorem mutation_invalidates_targets_once:
  assumes "ctx_matched_policy ctx = Some mr" and "ctx_active_routes ctx = Some rs"
    and "ctx_mutation_invalidation resp = ctx_mutation_invalidation (snd (mutation_invalidation_prepare_stage ctx))"
    and "ctx_route_cache_epoch_store resp = Some s"
    and "\<forall>t\<in>set (inv_targets (cache_invalidation (cache mr))). epoch_of s (target_name t) \<noteq> None"
  shows "(\<exists>s'. ctx_route_cache_epoch_store (snd (mutation_invalidation_apply_stage resp)) = Some s' \<and>
      (let pol = cache_invalidation (cache mr); status = ctx_response_status_code resp
       in \<forall>r. epoch_of s' r =
         (if invalidates rs mr (ctx_request_method ctx) \<and> inv_success_status_min pol \<le> status \<and> status \<le> inv_success_status_max pol
          then map_option (\<lambda>e. e + of_nat (count_list (map target_name (inv_targets pol)) r)) (epoch_of s r)
          else epoch_of s r))) \<and>
    (\<forall>again. ctx_mutation_invalidation again = ctx_mutation_invalidation (snd (mutation_invalidation_apply_stage resp)) \<longrightarrow>
       snd (mutation_invalidation_apply_stage again) = again)"
proof -
  let ?pol = "cache_invalidation (cache mr)"
  have once: "\<forall>again. ctx_mutation_invalidation again = ctx_mutation_invalidation (snd (mutation_invalidation_apply_stage resp)) \<longrightarrow>
      snd (mutation_invalidation_apply_stage again) = again"
    using apply_stage_final [of resp] by (metis apply_stage_not_pending)
  show ?thesis
  proof (cases "invalidates rs mr (ctx_request_method ctx)")
    case True
    have p: "ctx_mutation_invalidation resp = plan_of mr" using assms(3) prepare_stage_plan [OF assms(1,2) True] by simp
    have t: "pl_targets (plan_of mr) = map target_name (inv_targets ?pol)"
      "pl_success_status_min (plan_of mr) = inv_success_status_min ?pol"
      "pl_success_status_max (plan_of mr) = inv_success_status_max ?pol" by (simp_all add: plan_of_def Let_def)
    have w: "takeWhile (\<lambda>r. epoch_of s r \<noteq> None) (map target_name (inv_targets ?pol)) = map target_name (inv_targets ?pol)"
      using assms(5) by (subst takeWhile_eq_all_conv) simp
    show ?thesis
      using once True apply_stage_store [OF assms(4), unfolded p t w, OF plan_of_pending]
      by (auto simp: succeeded_def t epoch_of_fold_bump Let_def)
  next
    case False
    have "\<not> pending (ctx_mutation_invalidation resp)"
      using assms(3) prepare_stage_no_plan [OF assms(1,2) False] by (simp add: pending_def)
    with once False assms(4) show ?thesis by (simp add: apply_stage_not_pending)
  qed
qed

definition orders_get :: RoutePolicy where
  "orders_get = RoutePolicy_default\<lparr>route_id := Some ''orders'', match_prefix := Some ''/orders'', allowed_method := MethodGet,
     cache := CachePolicy_default\<lparr>cache_enabled := True, cache_behavior := CacheStore, cache_ttl_seconds := 60\<rparr>\<rparr>"

definition orders_patch :: RoutePolicy where
  "orders_patch = RoutePolicy_default\<lparr>route_id := Some ''orders-edit'', match_prefix := Some ''/edit'', allowed_method := MethodPatch,
     cache := CachePolicy_default\<lparr>cache_invalidation := CacheInvalidationPolicy_default
       \<lparr>inv_enabled := True, inv_on_patch := True,
        inv_targets := [\<lparr>tgt_route_id = ''orders'', tgt_strategy = InvalidateRouteEpoch\<rparr>]\<rparr>\<rparr>\<rparr>"

definition patch_ctx :: "'db ApgTransformContext" where
  "patch_ctx = ApgTransformContext_default\<lparr>ctx_matched_policy := Some orders_patch, ctx_request_method := MethodPatch,
     ctx_active_routes := Some [orders_get, orders_patch], ctx_route_cache_epoch_store := Some orders_store\<rparr>"

lemmas orders_defs = orders_get_def orders_patch_def RoutePolicy_default_def CachePolicy_default_def
  CacheInvalidationPolicy_default_def

lemma orders_patch_invalidates: "invalidates [orders_get, orders_patch] orders_patch MethodPatch"
  by (simp add: invalidates_def Let_def invalidation_policy_allows_method_def valid_target_def orders_defs)

lemma orders_patch_policy:
  "inv_targets (cache_invalidation (cache orders_patch)) = [\<lparr>tgt_route_id = ''orders'', tgt_strategy = InvalidateRouteEpoch\<rparr>]"
  "inv_success_status_min (cache_invalidation (cache orders_patch)) = 200"
  "inv_success_status_max (cache_invalidation (cache orders_patch)) = 299"
  by (simp_all add: orders_defs)

theorem mutation_invalidates_targets_once_witness:
  "\<exists>s'. ctx_route_cache_epoch_store (snd (mutation_invalidation_apply_stage
      ((snd (mutation_invalidation_prepare_stage (patch_ctx :: unit ApgTransformContext)))\<lparr>ctx_response_status_code := 204\<rparr>))) = Some s' \<and>
    epoch_of s' ''orders'' = Some 2"
proof -
  let ?c = "patch_ctx :: unit ApgTransformContext"
  let ?r = "(snd (mutation_invalidation_prepare_stage ?c))\<lparr>ctx_response_status_code := 204\<rparr>"
  have st: "ctx_route_cache_epoch_store ?r = Some orders_store"
    by (simp add: mutation_invalidation_prepare_stage_def patch_ctx_def Let_def)
  have e: "epoch_of orders_store ''orders'' = Some 1"
    by (simp add: epoch_of_index epoch_index_def orders_store_def)
  have n: "target_name \<lparr>tgt_route_id = ''orders'', tgt_strategy = InvalidateRouteEpoch\<rparr> = ''orders''"
    by (simp add: target_name_def kInvalidationRouteIdMaxLen_def)
  have k: "\<forall>t\<in>set (inv_targets (cache_invalidation (cache orders_patch))). epoch_of orders_store (target_name t) \<noteq> None"
    by (simp add: orders_patch_policy n e)
  have m: "ctx_matched_policy ?c = Some orders_patch" "ctx_active_routes ?c = Some [orders_get, orders_patch]"
    "ctx_mutation_invalidation ?r = ctx_mutation_invalidation (snd (mutation_invalidation_prepare_stage ?c))"
    "ctx_request_method ?c = MethodPatch" "ctx_response_status_code ?r = 204"
    by (simp_all add: patch_ctx_def)
  from mutation_invalidates_targets_once [OF m(1,2,3) st k] obtain s' where
    "ctx_route_cache_epoch_store (snd (mutation_invalidation_apply_stage ?r)) = Some s'" and
    "epoch_of s' ''orders'' = map_option (\<lambda>e. e + of_nat (count_list [''orders''] ''orders'')) (epoch_of orders_store ''orders'')"
    unfolding m(4,5) by (auto simp: orders_patch_invalidates Let_def orders_patch_policy n)
  with e show ?thesis by simp
qed

end
