(* ===== verification/Cache_Stages.thy ===== *)
theory Cache_Stages
  imports Apg_Context Cache_Key
begin

text \<open>
  The cache stages of the request and response pipelines (\<^verbatim>\<open>src/stages/\<close>): preparing the keys, admitting field
  variants, and looking up and storing in the first and second cache level, directly and through the worker queue.
  Every stage is a function from the context to its output and the context it leaves. \<open>seed\<close> is the process's hash
  seed, \<open>rocks\<close> the database behind the second level, and \<open>now_ms\<close> what the system clock returns.
\<close>

section \<open>Preparing the keys\<close>

definition base_key_input :: "'db ApgTransformContext \<Rightarrow> RoutePolicy \<Rightarrow> CacheKeyInput" where
  "base_key_input ctx policy =
     \<lparr>ck_method = ctx_request_method ctx, ck_route_id = route_id policy, ck_path = Some (ctx_raw_path ctx),
      ck_query = None, ck_selected_fields = None, ck_selected_field_count = 0,
      ck_policy_version = (if policy_identity policy \<noteq> [] then Some (policy_identity policy) else route_id policy),
      ck_route_cache_epoch = ctx_route_cache_epoch ctx, ck_route_cache_epoch_ready = ctx_route_cache_epoch_ready ctx,
      ck_vary_headers = (if ctx_cache_vary_ready ctx
        then map (\<lambda>(n, h). \<lparr>vk_name = Some n, vk_value_hash = Some h\<rparr>) (ctx_cache_vary ctx) else []),
      ck_private_cache = cache_private (cache policy),
      ck_auth_scope = (if cache_private (cache policy) then Some (ctx_private_cache_scope_hash ctx) else None),
      ck_variant = False\<rparr>"

definition raw_key_input :: "'db ApgTransformContext \<Rightarrow> RoutePolicy \<Rightarrow> CacheKeyInput" where
  "raw_key_input ctx policy =
     (if fv_enabled (cache_field_variant (cache policy)) then
        (base_key_input ctx policy)
          \<lparr>ck_query := Some (if ctx_sanitized_query_ready ctx then ctx_sanitized_query ctx else ctx_raw_query ctx)\<rparr>
      else
        (base_key_input ctx policy)
          \<lparr>ck_query := Some (ctx_raw_query ctx), ck_selected_fields := Some (ctx_selected_fields ctx),
           ck_selected_field_count := length (ctx_selected_fields ctx)\<rparr>)"

definition variant_key_input :: "'db ApgTransformContext \<Rightarrow> RoutePolicy \<Rightarrow> CacheKeyInput" where
  "variant_key_input ctx policy =
     (base_key_input ctx policy)
       \<lparr>ck_query := Some (if ctx_sanitized_query_ready ctx then ctx_sanitized_query ctx else ctx_raw_query ctx),
        ck_selected_fields := Some (ctx_selected_fields ctx),
        ck_selected_field_count := length (ctx_selected_fields ctx), ck_variant := True\<rparr>"

definition prepared_query :: "string \<Rightarrow> string" where
  "prepared_query q = (if q \<noteq> [] then sanitize_query_strip_fields_param (Some q) kRawQueryBufferSize else [])"

text \<open>A key that cannot be built is not marked ready, and no stage reads it then.\<close>

definition cache_key_prepare_stage :: "'db ApgStage" where
  "cache_key_prepare_stage ctx =
     (let ctx = ctx\<lparr>ctx_cache_eligible := False, ctx_cache_key_ready := False, ctx_variant_cache_key_ready := False,
                    ctx_sanitized_query_ready := False, ctx_route_cache_epoch_ready := False\<rparr>
      in case ctx_matched_policy ctx of
           None \<Rightarrow> (cont ''no-policy'', ctx)
         | Some policy \<Rightarrow>
             if cache_behavior (cache policy) \<noteq> CacheStore then (cont ''cache-disabled'', ctx)
             else if ctx_request_method ctx \<noteq> MethodGet then (cont ''non-get'', ctx)
             else if ctx_cache_auth_bypass ctx then (cont ''auth-cache-bypass'', ctx)
             else if ctx_route_cache_epoch_store ctx = None then (cont ''route-epoch-not-ready'', ctx)
             else case route_cache_epoch_get (ctx_route_cache_epoch_store ctx) (route_id policy) of
               (EpochOk, Some epoch) \<Rightarrow>
                 (let ctx = ctx\<lparr>ctx_route_cache_epoch := epoch, ctx_route_cache_epoch_ready := True,
                                ctx_cache_eligible := True,
                                ctx_sanitized_query := prepared_query (ctx_raw_query ctx),
                                ctx_sanitized_query_ready := True\<rparr>
                  in if cache_private (cache policy) \<and> \<not> ctx_private_cache_scope_ready ctx then
                       (cont ''private-scope-not-ready'', ctx)
                     else case build_cache_key (raw_key_input ctx policy) kCacheKeyMaxLen of
                       None \<Rightarrow> (cont ''raw-key-build-failed'', ctx)
                     | Some key \<Rightarrow>
                         (let ctx = ctx\<lparr>ctx_cache_key := key, ctx_cache_key_ready := True\<rparr>
                          in (cont ''ready'',
                              if fv_enabled (cache_field_variant (cache policy)) then
                                (case build_cache_key (variant_key_input ctx policy) kCacheKeyMaxLen of
                                   None \<Rightarrow> ctx
                                 | Some vkey \<Rightarrow> ctx\<lparr>ctx_variant_cache_key := vkey, ctx_variant_cache_key_ready := True\<rparr>)
                              else ctx)))
             | _ \<Rightarrow> (cont ''route-epoch-not-ready'', ctx))"

section \<open>Admission of field variants\<close>

definition admitted_count :: "string \<Rightarrow> VariantAdmissionEntry list \<Rightarrow> u32" where
  "admitted_count rid es = of_nat (length (filter (\<lambda>e. va_route_id e = rid \<and> va_admitted e) es))"

text \<open>The registry under its mutex: whether the variant is admitted, and the registry after the call.\<close>

definition record_and_check ::
  "string \<Rightarrow> string \<Rightarrow> u32 \<Rightarrow> u32 \<Rightarrow> VariantAdmissionEntry list \<Rightarrow> bool \<times> VariantAdmissionEntry list" where
  "record_and_check rid variant_key max_variants threshold es =
     (case find_index (\<lambda>e. va_key e = variant_key) es of
        Some i \<Rightarrow>
          (let e = (es ! i)\<lparr>va_count := va_count (es ! i) + 1\<rparr>;
               e = (if \<not> va_admitted e \<and> va_count e \<ge> threshold \<and> admitted_count rid es < max_variants
                    then e\<lparr>va_admitted := True\<rparr> else e)
           in (va_admitted e, es[i := e]))
      | None \<Rightarrow>
          (let e = \<lparr>va_key = strncpy_z (kCacheKeyMaxLen - 1) variant_key, va_route_id = strncpy_z 63 rid, va_count = 1,
                    va_admitted = (threshold \<le> 1 \<and> admitted_count rid es < max_variants)\<rparr>
           in (va_admitted e, es @ [e])))"

text \<open>A prepared variant key has a route id (\<open>build_cache_key\<close> fails without one), so \<open>opt_text\<close> only unwraps it.\<close>

definition field_variant_admission_stage :: "'db ApgStage" where
  "field_variant_admission_stage ctx =
     (let ctx = ctx\<lparr>ctx_variant_admission_passed := False\<rparr>
      in if \<not> ctx_variant_cache_key_ready ctx then (cont ''not-ready'', ctx)
         else case ctx_matched_policy ctx of
           None \<Rightarrow> (cont ''no-policy'', ctx)
         | Some policy \<Rightarrow>
             (let fv = cache_field_variant (cache policy); n = length (ctx_selected_fields ctx)
              in if \<not> fv_enabled fv then (cont ''variant-policy-disabled'', ctx)
                 else if n < unat (fv_min_field_count fv) then (cont ''below-min-fields'', ctx)
                 else if n > unat (fv_max_field_count fv) then (cont ''above-max-fields'', ctx)
                 else
                   (let (admitted, es) = record_and_check (opt_text (route_id policy)) (ctx_variant_cache_key ctx)
                          (fv_max_variants_per_route fv) (fv_admission_threshold fv) (ctx_variant_registry ctx);
                        ctx = ctx\<lparr>ctx_variant_registry := es\<rparr>
                    in if admitted then (cont ''admitted'', ctx\<lparr>ctx_variant_admission_passed := True\<rparr>)
                       else (cont ''throttled'', ctx))))"

section \<open>First-level lookups\<close>

definition skip_remaining :: "string \<Rightarrow> StageOutput" where
  "skip_remaining note = \<lparr>so_result = StageSkipRemaining, so_note = Some note\<rparr>"

definition serve :: "string \<Rightarrow> CacheEntry \<Rightarrow> 'db ApgTransformContext \<Rightarrow> 'db ApgTransformContext" where
  "serve layer hit ctx =
     ctx\<lparr>ctx_cache_hit := True, ctx_cache_layer := Some layer, ctx_should_return_immediate_response := True,
         ctx_cached_response := hit\<rparr>"

definition l1_cache_lookup_stage :: "HashSeed \<Rightarrow> 'db ApgStage" where
  "l1_cache_lookup_stage seed ctx =
     (case ctx_matched_policy ctx of
        None \<Rightarrow> (cont ''no-policy'', ctx)
      | Some policy \<Rightarrow>
          if cache_behavior (cache policy) \<noteq> CacheStore then (cont ''cache-disabled'', ctx)
          else if \<not> ctx_cache_key_ready ctx then (cont ''key-not-ready'', ctx)
          else if ctx_l1_cache ctx = None then (cont ''no-l1-cache'', ctx)
          else
            (let (hit, m) = l1_get seed (ctx_l1_cache ctx) (Some (ctx_cache_key ctx)) (ctx_request_epoch_ms ctx)
                   (Some kL2BodyBufSize) (ctx_cache_metrics ctx);
                 ctx = ctx\<lparr>ctx_cache_metrics := m\<rparr>
             in case hit of
                  None \<Rightarrow> (cont ''l1-miss'', ctx)
                | Some e \<Rightarrow> (skip_remaining ''l1-hit'', serve ''L1'' e ctx)))"

definition l1_variant_lookup_stage :: "HashSeed \<Rightarrow> 'db ApgStage" where
  "l1_variant_lookup_stage seed ctx =
     (case ctx_matched_policy ctx of
        None \<Rightarrow> (cont ''no-policy'', ctx)
      | Some policy \<Rightarrow>
          if cache_behavior (cache policy) \<noteq> CacheStore then (cont ''cache-disabled'', ctx)
          else if \<not> fv_enabled (cache_field_variant (cache policy)) then (cont ''variant-policy-disabled'', ctx)
          else if \<not> ctx_variant_cache_key_ready ctx then (cont ''key-not-ready'', ctx)
          else if ctx_l1_cache ctx = None then (cont ''no-l1-cache'', ctx)
          else
            (let (hit, m) = l1_get seed (ctx_l1_cache ctx) (Some (ctx_variant_cache_key ctx)) (ctx_request_epoch_ms ctx)
                   (Some kL2BodyBufSize) (ctx_cache_metrics ctx);
                 ctx = ctx\<lparr>ctx_cache_metrics := m\<rparr>
             in case hit of
                  None \<Rightarrow> (cont ''l1-miss'', ctx)
                | Some e \<Rightarrow> (skip_remaining ''l1-variant-hit'', serve ''L1_VAR'' e ctx)))"

section \<open>First-level stores\<close>

text \<open>The entry built from the response; both branches on the body size build the same one.\<close>

definition response_entry :: "'db ApgTransformContext \<Rightarrow> string \<Rightarrow> int \<Rightarrow> CacheEntry" where
  "response_entry ctx key ttl_ms =
     CacheEntry_default
       \<lparr>ent_key := strncpy_z (kCacheKeyMaxLen - 1) key, ent_status_code := ctx_response_status_code ctx,
        ent_content_type := strncpy_z (kCacheContentTypeMaxLen - 1) (ctx_response_content_type ctx),
        ent_body := ctx_response_body ctx, ent_body_len := ctx_response_body_len ctx,
        ent_created_at_epoch_ms := ctx_request_epoch_ms ctx,
        ent_expires_at_epoch_ms := (if ctx_request_epoch_ms ctx > 0 then ctx_request_epoch_ms ctx + ttl_ms else 0)\<rparr>"

definition with_statistics :: "'db ApgTransformContext \<Rightarrow> CacheEntry \<Rightarrow> CacheEntry" where
  "with_statistics ctx e =
     e\<lparr>ent_original_body_len := ctx_input_payload_bytes ctx, ent_removed_fields := of_nat (ctx_removed_field_count ctx)\<rparr>"

definition ttl_ms_of :: "RoutePolicy \<Rightarrow> int" where
  "ttl_ms_of policy = uint (cache_ttl_seconds (cache policy)) * 1000"

definition variant_ttl_ms :: "RoutePolicy \<Rightarrow> int" where
  "variant_ttl_ms policy =
     (let ttl = ttl_ms_of policy; cap = uint (fv_ttl_max_ms (cache_field_variant (cache policy)))
      in if cap > 0 \<and> ttl > cap then cap else ttl)"

definition put_l1 :: "HashSeed \<Rightarrow> CacheEntry \<Rightarrow> 'db ApgTransformContext \<Rightarrow> 'db ApgTransformContext" where
  "put_l1 seed e ctx =
     (let (c, m) = l1_put seed (ctx_l1_cache ctx) e (ctx_cache_metrics ctx)
      in ctx\<lparr>ctx_l1_cache := c, ctx_cache_metrics := m\<rparr>)"

definition stage_event :: "CacheMetricEvent \<Rightarrow> 'db ApgTransformContext \<Rightarrow> 'db ApgTransformContext" where
  "stage_event e ctx = ctx\<lparr>ctx_cache_metrics := record_cache_event (ctx_cache_metrics ctx) e\<rparr>"

definition l1_cache_store_stage :: "HashSeed \<Rightarrow> 'db ApgStage" where
  "l1_cache_store_stage seed ctx =
     (let ctx = stage_event CM_L1StoreAttempt ctx;
          skip = (\<lambda>note. (cont note, stage_event CM_L1StoreSkipped ctx))
      in case ctx_matched_policy ctx of
           None \<Rightarrow> skip ''no-policy''
         | Some policy \<Rightarrow>
             if ctx_selected_fields ctx \<noteq> [] \<and> fv_enabled (cache_field_variant (cache policy)) then skip ''has-query-selection''
             else if cache_behavior (cache policy) \<noteq> CacheStore then skip ''cache-disabled''
             else if ctx_request_method ctx \<noteq> MethodGet then skip ''non-get''
             else if ctx_response_status_code ctx < 200 \<or> ctx_response_status_code ctx \<ge> 300 then skip ''non-2xx''
             else if ctx_response_body ctx = None \<or> ctx_response_body_len ctx = 0 then skip ''no-body''
             else if cache_ttl_seconds (cache policy) = 0 then skip ''no-ttl''
             else if ctx_l1_cache ctx = None then skip ''no-l1-cache''
             else if \<not> ctx_cache_key_ready ctx then skip ''key-not-ready''
             else
               (let e = with_statistics ctx (response_entry ctx (ctx_cache_key ctx) (ttl_ms_of policy));
                    ctx' = put_l1 seed e ctx
                in if ctx_response_body_len ctx > kL1MaxBodySize then (cont ''body-too-large-for-l1'', ctx')
                   else (cont ''stored'', stage_event CM_L1StoreSuccess ctx')))"

definition l1_variant_store_stage :: "HashSeed \<Rightarrow> 'db ApgStage" where
  "l1_variant_store_stage seed ctx =
     (case ctx_matched_policy ctx of
        None \<Rightarrow> (cont ''no-policy'', ctx)
      | Some policy \<Rightarrow>
          if \<not> fv_enabled (cache_field_variant (cache policy)) then (cont ''variant-policy-disabled'', ctx)
          else if ctx_request_method ctx \<noteq> MethodGet then (cont ''non-get'', ctx)
          else if ctx_response_status_code ctx < 200 \<or> ctx_response_status_code ctx \<ge> 300 then (cont ''non-2xx'', ctx)
          else if ctx_response_body ctx = None \<or> ctx_response_body_len ctx = 0 then (cont ''no-body'', ctx)
          else if \<not> ctx_variant_admission_passed ctx then (cont ''not-admitted'', ctx)
          else if ctx_l1_cache ctx = None then (cont ''no-l1-cache'', ctx)
          else if \<not> ctx_variant_cache_key_ready ctx then (cont ''key-not-ready'', ctx)
          else if variant_ttl_ms policy \<le> 0 then (cont ''no-ttl'', ctx)
          else
            (let ctx' = put_l1 seed (response_entry ctx (ctx_variant_cache_key ctx) (variant_ttl_ms policy)) ctx
             in if ctx_response_body_len ctx > kL1MaxBodySize then (cont ''body-too-large-for-l1'', ctx')
                else (cont ''stored'', ctx')))"

section \<open>The second level\<close>

text \<open>
  Which key the second-level stages use: with a client selection on a route with variants the variant key, and only
  if it was admitted; the raw key otherwise.
\<close>

datatype L2Key = UseKey string bool | KeyError string

definition l2_key :: "'db ApgTransformContext \<Rightarrow> RoutePolicy \<Rightarrow> L2Key" where
  "l2_key ctx policy =
     (if ctx_selected_fields ctx \<noteq> [] \<and> fv_enabled (cache_field_variant (cache policy)) then
        (if ctx_variant_cache_key_ready ctx \<and> ctx_variant_admission_passed ctx then UseKey (ctx_variant_cache_key ctx) True
         else KeyError ''has-query-selection-not-admitted-skip'')
      else if \<not> ctx_cache_key_ready ctx then KeyError ''key-not-ready''
      else UseKey (ctx_cache_key ctx) False)"

definition runtime_event :: "RuntimeMetricEvent \<Rightarrow> 'db ApgTransformContext \<Rightarrow> 'db ApgTransformContext" where
  "runtime_event e ctx = ctx\<lparr>ctx_runtime_metrics := record_runtime_event (ctx_runtime_metrics ctx) e\<rparr>"

text \<open>\<open>L2Overread\<close> stands for the read beyond the stored bytes; the code has no outcome for it.\<close>

definition l2_cache_lookup_stage :: "HashSeed \<Rightarrow> 'db RocksDb \<Rightarrow> 'db ApgStage" where
  "l2_cache_lookup_stage seed rocks ctx =
     (case ctx_matched_policy ctx of
        None \<Rightarrow> (cont ''no-policy'', ctx)
      | Some policy \<Rightarrow>
          if cache_behavior (cache policy) \<noteq> CacheStore then (cont ''cache-disabled'', ctx)
          else if ctx_l2_cache ctx = None then (cont ''no-l2-cache'', ctx)
          else case l2_key ctx policy of
            KeyError note \<Rightarrow> (cont note, ctx)
          | UseKey key is_variant \<Rightarrow>
              (case l2_get_result rocks (ctx_l2_cache ctx) (Some key) (ctx_request_epoch_ms ctx) (Some kL2BodyBufSize) kL2BodyBufSize of
                 L2Miss \<Rightarrow> (cont ''l2-miss'', ctx)
               | L2Expired \<Rightarrow> (cont ''l2-expired'', runtime_event RM_L2LookupExpired ctx)
               | L2DecodeError \<Rightarrow> (cont ''l2-decode-error'', runtime_event RM_L2LookupDecodeError ctx)
               | L2BodyTooLargeForBuffer \<Rightarrow>
                   (cont ''l2-body-too-large-for-buffer'', runtime_event RM_L2LookupBodyTooLargeForBuffer ctx)
               | L2RocksDbError \<Rightarrow> (cont ''l2-error'', runtime_event RM_L2LookupRocksDbError ctx)
               | L2Overread \<Rightarrow> (\<lparr>so_result = StageError, so_note = None\<rparr>, ctx)
               | L2Hit hit \<Rightarrow>
                   (skip_remaining (if is_variant then ''l2-variant-hit'' else ''l2-hit''),
                    serve (if is_variant then ''L2_VAR'' else ''L2'') hit
                      (if ctx_l1_cache ctx \<noteq> None then put_l1 seed hit ctx else ctx))))"

definition l2_cache_store_stage :: "'db RocksDb \<Rightarrow> 'db ApgStage" where
  "l2_cache_store_stage rocks ctx =
     (case ctx_matched_policy ctx of
        None \<Rightarrow> (cont ''no-policy'', ctx)
      | Some policy \<Rightarrow>
          if cache_behavior (cache policy) \<noteq> CacheStore then (cont ''cache-disabled'', ctx)
          else if ctx_request_method ctx \<noteq> MethodGet then (cont ''non-get'', ctx)
          else if ctx_response_status_code ctx < 200 \<or> ctx_response_status_code ctx \<ge> 300 then (cont ''non-2xx'', ctx)
          else if ctx_response_body ctx = None \<or> ctx_response_body_len ctx = 0 then (cont ''no-body'', ctx)
          else if cache_ttl_seconds (cache policy) = 0 then (cont ''no-ttl'', ctx)
          else if ctx_l2_cache ctx = None then (cont ''no-l2-cache'', ctx)
          else
            (let put = (\<lambda>key ttl_ms.
                   let (ok, db) = l2_put rocks (ctx_l2_cache ctx) (response_entry ctx key ttl_ms)
                   in (cont (if ok then ''stored'' else ''store-failed''), ctx\<lparr>ctx_l2_cache := db\<rparr>))
             in if \<not> ctx_cache_key_ready ctx then
                  (case build_cache_key
                     \<lparr>ck_method = ctx_request_method ctx, ck_route_id = route_id policy, ck_path = Some (ctx_raw_path ctx),
                      ck_query = Some (ctx_raw_query ctx), ck_selected_fields = Some (ctx_selected_fields ctx),
                      ck_selected_field_count = length (ctx_selected_fields ctx), ck_policy_version = route_id policy,
                      ck_route_cache_epoch = 0, ck_route_cache_epoch_ready = False, ck_vary_headers = [],
                      ck_private_cache = False, ck_auth_scope = None, ck_variant = False\<rparr> kCacheKeyMaxLen of
                     None \<Rightarrow> (cont ''key-build-failed'', ctx)
                   | Some key \<Rightarrow> put key (ttl_ms_of policy))
                else case l2_key ctx policy of
                  KeyError note \<Rightarrow> (cont note, ctx)
                | UseKey key is_variant \<Rightarrow> put key (if is_variant then variant_ttl_ms policy else ttl_ms_of policy)))"

section \<open>The second level through the worker queue\<close>

definition l2_cache_async_lookup_enqueue_stage :: "HashSeed \<Rightarrow> u64 \<Rightarrow> 'db ApgStage" where
  "l2_cache_async_lookup_enqueue_stage seed now_ms ctx =
     (if ctx_cache_hit ctx then (cont ''l1-hit-skip'', ctx)
      else case ctx_matched_policy ctx of
        None \<Rightarrow> (cont ''no-policy'', ctx)
      | Some policy \<Rightarrow>
          if cache_behavior (cache policy) \<noteq> CacheStore then (cont ''cache-disabled'', ctx)
          else if ctx_l2_cache ctx = None then (cont ''no-l2-cache'', ctx)
          else if ctx_worker_queue ctx = None then (cont ''no-worker-queue'', ctx)
          else case l2_key ctx policy of
            KeyError note \<Rightarrow> (cont note, ctx)
          | UseKey key is_variant \<Rightarrow>
              (let job = \<lparr>lj_key = strncpy_z (kCacheKeyMaxLen - 1) key, lj_key_hash = 0, lj_enqueued_at_ms = 0\<rparr>;
                   (ok, q, m) = worker_queue_try_enqueue_lookup seed now_ms (ctx_worker_queue ctx) job (ctx_runtime_metrics ctx);
                   ctx = ctx\<lparr>ctx_worker_queue := q, ctx_runtime_metrics := m\<rparr>
               in if \<not> ok then (cont ''enqueue-failed'', ctx)
                  else (cont ''enqueued'', runtime_event RM_L2LookupEnqueued ctx)))"

text \<open>The job handed to the worker; a leader's large body carries the hand-over to its followers.\<close>

definition hands_off :: "'db ApgTransformContext \<Rightarrow> bool" where
  "hands_off ctx \<longleftrightarrow> dec_action (ctx_coalescing_decision ctx) = ActLeader \<and> ctx_coalescing_registry ctx \<noteq> None \<and>
     ctx_response_body_len ctx > kL1MaxBodySize \<and> ctx_response_body_len ctx \<le> kL2BodyBufSize"

definition store_job :: "'db ApgTransformContext \<Rightarrow> string \<Rightarrow> int \<Rightarrow> L2StoreJob" where
  "store_job ctx key ttl_ms =
     \<lparr>sj_key = strncpy_z (kCacheKeyMaxLen - 1) key,
      sj_entry = (with_statistics ctx (response_entry ctx key ttl_ms))\<lparr>ent_content_type := ctx_response_content_type ctx\<rparr>,
      sj_body_slot = 0, sj_body_len = ctx_response_body_len ctx,
      sj_coalescing_handoff_enabled = hands_off ctx, sj_has_registry = hands_off ctx,
      sj_coalescing_key = (if hands_off ctx then strncpy_z 255 (dec_key (ctx_coalescing_decision ctx)) else []),
      sj_lifecycle_generation = (if hands_off ctx then dec_lifecycle_generation (ctx_coalescing_decision ctx) else 0),
      sj_enqueued_at_ms = 0\<rparr>"

definition complete_flight :: "HashSeed \<Rightarrow> InFlightCompletionState \<Rightarrow> u64 \<Rightarrow> 'db ApgTransformContext \<Rightarrow> 'db ApgTransformContext" where
  "complete_flight seed state now_ms ctx =
     ctx\<lparr>ctx_coalescing_registry := snd (registry_complete_state_if_generation seed (ctx_coalescing_registry ctx)
       (Some (dec_key (ctx_coalescing_decision ctx))) (dec_lifecycle_generation (ctx_coalescing_decision ctx)) state now_ms)\<rparr>"

definition enqueue_store :: "HashSeed \<Rightarrow> u64 \<Rightarrow> string \<Rightarrow> int \<Rightarrow> 'db ApgStage" where
  "enqueue_store seed now_ms key ttl_ms ctx =
     (let job = store_job ctx key ttl_ms;
          (ok, q, m) = worker_queue_try_enqueue_store seed now_ms (ctx_worker_queue ctx) job (ctx_runtime_metrics ctx);
          ctx = ctx\<lparr>ctx_worker_queue := q, ctx_runtime_metrics := m\<rparr>
      in if \<not> ok then
           (cont ''queue-full'',
            runtime_event RM_L2StoreDropped
              (if sj_coalescing_handoff_enabled job then complete_flight seed Failed now_ms ctx else ctx))
         else (cont ''enqueued'', runtime_event RM_L2StoreEnqueued ctx))"

definition l2_cache_async_store_enqueue_stage :: "HashSeed \<Rightarrow> u64 \<Rightarrow> 'db ApgStage" where
  "l2_cache_async_store_enqueue_stage seed now_ms ctx =
     (case ctx_matched_policy ctx of
        None \<Rightarrow> (cont ''no-policy'', ctx)
      | Some policy \<Rightarrow>
          if cache_behavior (cache policy) \<noteq> CacheStore then (cont ''cache-disabled'', ctx)
          else if ctx_request_method ctx \<noteq> MethodGet then (cont ''non-get'', ctx)
          else if ctx_response_status_code ctx < 200 \<or> ctx_response_status_code ctx \<ge> 300 then (cont ''non-2xx'', ctx)
          else if ctx_response_body ctx = None \<or> ctx_response_body_len ctx = 0 then (cont ''no-body'', ctx)
          else if cache_ttl_seconds (cache policy) = 0 then (cont ''no-ttl'', ctx)
          else if ctx_l2_cache ctx = None then (cont ''no-l2-cache'', ctx)
          else case ctx_worker_queue ctx of
            None \<Rightarrow> (cont ''no-worker-queue'', ctx)
          | Some q \<Rightarrow>
              if ctx_response_body_len ctx > wq_async_store_max_body_size q then
                (cont ''body-too-large'', runtime_event RM_L2StoreOversizedSkipped ctx)
              else case l2_key ctx policy of
                KeyError note \<Rightarrow> (cont note, ctx)
              | UseKey key is_variant \<Rightarrow>
                  enqueue_store seed now_ms key (if is_variant then variant_ttl_ms policy else ttl_ms_of policy) ctx)"

section \<open>What a prepared key is\<close>

text \<open>A key of the route under the epoch the store holds for it.\<close>

definition epoch_key :: "RouteCacheEpochStore \<Rightarrow> string option \<Rightarrow> string \<Rightarrow> bool" where
  "epoch_key s rid k \<longleftrightarrow>
     (\<exists>inp r. build_cache_key inp kCacheKeyMaxLen = Some k \<and> rid = Some r \<and> ck_route_id inp = rid \<and>
        ck_route_cache_epoch_ready inp \<and> epoch_of s r = Some (ck_route_cache_epoch inp))"

definition cacheable :: "'db ApgTransformContext \<Rightarrow> RoutePolicy \<Rightarrow> bool" where
  "cacheable ctx policy \<longleftrightarrow> ctx_matched_policy ctx = Some policy \<and> cache_behavior (cache policy) = CacheStore \<and>
     ctx_request_method ctx = MethodGet \<and> \<not> ctx_cache_auth_bypass ctx"

lemma epoch_get_cases:
  "route_cache_epoch_get st rid = (EpochOk, x) \<Longrightarrow> \<exists>s r e. st = Some s \<and> rid = Some r \<and> x = Some e \<and> epoch_of s r = Some e"
  by (auto simp: route_cache_epoch_get_def epoch_of_index split: option.splits)

lemma key_inputs [simp]:
  "ck_route_id (raw_key_input ctx policy) = route_id policy" "ck_route_id (variant_key_input ctx policy) = route_id policy"
  "ck_route_cache_epoch (raw_key_input ctx policy) = ctx_route_cache_epoch ctx"
  "ck_route_cache_epoch (variant_key_input ctx policy) = ctx_route_cache_epoch ctx"
  "ck_route_cache_epoch_ready (raw_key_input ctx policy) = ctx_route_cache_epoch_ready ctx"
  "ck_route_cache_epoch_ready (variant_key_input ctx policy) = ctx_route_cache_epoch_ready ctx"
  by (simp_all add: raw_key_input_def variant_key_input_def base_key_input_def)

text \<open>The context in which the keys are built.\<close>

definition epoch_ctx :: "'db ApgTransformContext \<Rightarrow> u64 \<Rightarrow> 'db ApgTransformContext" where
  "epoch_ctx ctx e =
     (let ctx = ctx\<lparr>ctx_cache_eligible := False, ctx_cache_key_ready := False, ctx_variant_cache_key_ready := False,
                    ctx_sanitized_query_ready := False, ctx_route_cache_epoch_ready := False\<rparr>
      in ctx\<lparr>ctx_route_cache_epoch := e, ctx_route_cache_epoch_ready := True, ctx_cache_eligible := True,
             ctx_sanitized_query := prepared_query (ctx_raw_query ctx), ctx_sanitized_query_ready := True\<rparr>)"

definition keyed_ctx :: "'db ApgTransformContext \<Rightarrow> RoutePolicy \<Rightarrow> string \<Rightarrow> 'db ApgTransformContext" where
  "keyed_ctx ctx policy key =
     (let ctx = ctx\<lparr>ctx_cache_key := key, ctx_cache_key_ready := True\<rparr>
      in if fv_enabled (cache_field_variant (cache policy)) then
           (case build_cache_key (variant_key_input ctx policy) kCacheKeyMaxLen of
              None \<Rightarrow> ctx
            | Some vkey \<Rightarrow> ctx\<lparr>ctx_variant_cache_key := vkey, ctx_variant_cache_key_ready := True\<rparr>)
         else ctx)"

lemma prepare_stage_eq:
  assumes "cacheable ctx policy" and "ctx_route_cache_epoch_store ctx = Some s" and "route_id policy = Some r"
    and "epoch_of s r = Some e" and "cache_private (cache policy) \<longrightarrow> ctx_private_cache_scope_ready ctx"
  shows "cache_key_prepare_stage ctx =
    (case build_cache_key (raw_key_input (epoch_ctx ctx e) policy) kCacheKeyMaxLen of
       None \<Rightarrow> (cont ''raw-key-build-failed'', epoch_ctx ctx e)
     | Some key \<Rightarrow> (cont ''ready'', keyed_ctx (epoch_ctx ctx e) policy key))"
proof -
  have "route_cache_epoch_get (Some s) (Some r) = (EpochOk, Some e)"
    using assms(4) by (auto simp: epoch_of_def route_cache_epoch_get_def split: option.splits)
  moreover have "ctx_matched_policy ctx = Some policy" "cache_behavior (cache policy) = CacheStore"
    "ctx_request_method ctx = MethodGet" "\<not> ctx_cache_auth_bypass ctx" using assms(1) by (simp_all add: cacheable_def)
  moreover have np: "(cache_private (cache policy) \<and> \<not> ctx_private_cache_scope_ready ctx) = False" using assms(5) by blast
  ultimately show ?thesis
    unfolding cache_key_prepare_stage_def keyed_ctx_def epoch_ctx_def Let_def by (simp add: assms(2,3) np)
qed

text \<open>Otherwise no key is ready.\<close>

definition keys_possible :: "'db ApgTransformContext \<Rightarrow> RoutePolicy \<Rightarrow> RouteCacheEpochStore \<Rightarrow> string \<Rightarrow> u64 \<Rightarrow> bool" where
  "keys_possible ctx policy s r e \<longleftrightarrow> cacheable ctx policy \<and> ctx_route_cache_epoch_store ctx = Some s \<and>
     route_id policy = Some r \<and> epoch_of s r = Some e \<and>
     (cache_private (cache policy) \<longrightarrow> ctx_private_cache_scope_ready ctx)"

lemma prepare_stage_not_cacheable:
  assumes "\<not> (\<exists>policy. cacheable ctx policy)"
  shows "\<not> ctx_cache_key_ready (snd (cache_key_prepare_stage ctx)) \<and>
    \<not> ctx_variant_cache_key_ready (snd (cache_key_prepare_stage ctx))"
  using assms by (cases "ctx_matched_policy ctx") (auto simp: cache_key_prepare_stage_def Let_def cacheable_def)

lemma prepare_stage_not_possible:
  assumes "\<not> (\<exists>policy s r e. keys_possible ctx policy s r e)"
  shows "\<not> ctx_cache_key_ready (snd (cache_key_prepare_stage ctx)) \<and>
    \<not> ctx_variant_cache_key_ready (snd (cache_key_prepare_stage ctx))"
proof (cases "\<exists>policy. cacheable ctx policy")
  case False
  then show ?thesis by (rule prepare_stage_not_cacheable)
next
  case True
  then obtain policy where c: "cacheable ctx policy" by blast
  obtain res x where g: "route_cache_epoch_get (ctx_route_cache_epoch_store ctx) (route_id policy) = (res, x)" by force
  show ?thesis
  proof (cases "ctx_route_cache_epoch_store ctx = None \<or> res \<noteq> EpochOk")
    case True
    with c g show ?thesis
      by (cases res; cases x) (auto simp: cache_key_prepare_stage_def Let_def cacheable_def)
  next
    case False
    with epoch_get_cases [of "ctx_route_cache_epoch_store ctx" "route_id policy" x] g obtain s r e where
      f: "ctx_route_cache_epoch_store ctx = Some s" "route_id policy = Some r" "x = Some e" "epoch_of s r = Some e" by auto
    with c assms have "cache_private (cache policy) \<and> \<not> ctx_private_cache_scope_ready ctx"
      by (auto simp: keys_possible_def)
    with c f g False show ?thesis by (simp add: cache_key_prepare_stage_def Let_def cacheable_def)
  qed
qed

lemma prepared_key:
  assumes "ctx_cache_key_ready (snd (cache_key_prepare_stage ctx))"
  shows "\<exists>policy s r e key. keys_possible ctx policy s r e \<and>
    build_cache_key (raw_key_input (epoch_ctx ctx e) policy) kCacheKeyMaxLen = Some key \<and>
    cache_key_prepare_stage ctx = (cont ''ready'', keyed_ctx (epoch_ctx ctx e) policy key)"
proof -
  obtain policy s r e where k: "keys_possible ctx policy s r e" using assms prepare_stage_not_possible by blast
  have "ctx_cache_key_ready (epoch_ctx ctx e) = False" by (simp add: epoch_ctx_def)
  with assms k prepare_stage_eq [of ctx policy s r e] show ?thesis
    by (cases "build_cache_key (raw_key_input (epoch_ctx ctx e) policy) kCacheKeyMaxLen") (fastforce simp: keys_possible_def)+
qed

lemma keyed_ctx_simps [simp]:
  "ctx_cache_key (keyed_ctx ctx policy key) = key" "ctx_cache_key_ready (keyed_ctx ctx policy key)"
  by (simp_all add: keyed_ctx_def Let_def split: option.split)

lemma epoch_ctx_simps [simp]:
  "ctx_route_cache_epoch (epoch_ctx ctx e) = e" "ctx_route_cache_epoch_ready (epoch_ctx ctx e)"
  "\<not> ctx_cache_key_ready (epoch_ctx ctx e)" "\<not> ctx_variant_cache_key_ready (epoch_ctx ctx e)"
  by (simp_all add: epoch_ctx_def Let_def)

lemma prepared_epoch_key:
  assumes "ctx_cache_key_ready (snd (cache_key_prepare_stage ctx))"
  shows "\<exists>policy s. cacheable ctx policy \<and> ctx_route_cache_epoch_store ctx = Some s \<and>
    epoch_key s (route_id policy) (ctx_cache_key (snd (cache_key_prepare_stage ctx)))"
proof -
  from prepared_key [OF assms] obtain policy s r e key where k: "keys_possible ctx policy s r e"
    and b: "build_cache_key (raw_key_input (epoch_ctx ctx e) policy) kCacheKeyMaxLen = Some key"
    and st: "cache_key_prepare_stage ctx = (cont ''ready'', keyed_ctx (epoch_ctx ctx e) policy key)" by blast
  have "epoch_key s (route_id policy) key"
    unfolding epoch_key_def using k b by (intro exI [of _ "raw_key_input (epoch_ctx ctx e) policy"]) (simp add: keys_possible_def)
  with k st show ?thesis by (auto simp: keys_possible_def)
qed

lemma prepared_variant_key:
  assumes "ctx_variant_cache_key_ready (snd (cache_key_prepare_stage ctx))"
  shows "\<exists>policy s. cacheable ctx policy \<and> ctx_route_cache_epoch_store ctx = Some s \<and>
    epoch_key s (route_id policy) (ctx_variant_cache_key (snd (cache_key_prepare_stage ctx)))"
proof -
  obtain policy s r e where k: "keys_possible ctx policy s r e" using assms prepare_stage_not_possible by blast
  then have st: "cache_key_prepare_stage ctx =
      (case build_cache_key (raw_key_input (epoch_ctx ctx e) policy) kCacheKeyMaxLen of
         None \<Rightarrow> (cont ''raw-key-build-failed'', epoch_ctx ctx e)
       | Some key \<Rightarrow> (cont ''ready'', keyed_ctx (epoch_ctx ctx e) policy key))"
    using prepare_stage_eq [of ctx policy s r e] by (simp add: keys_possible_def)
  with assms obtain key where s: "snd (cache_key_prepare_stage ctx) = keyed_ctx (epoch_ctx ctx e) policy key"
    by (auto split: option.splits)
  let ?c = "(epoch_ctx ctx e)\<lparr>ctx_cache_key := key, ctx_cache_key_ready := True\<rparr>"
  from assms s obtain vkey where v: "build_cache_key (variant_key_input ?c policy) kCacheKeyMaxLen = Some vkey"
      "ctx_variant_cache_key (snd (cache_key_prepare_stage ctx)) = vkey"
    by (auto simp: keyed_ctx_def Let_def split: option.splits if_splits)
  have "epoch_key s (route_id policy) vkey"
    unfolding epoch_key_def using k v(1) by (intro exI [of _ "variant_key_input ?c policy"]) (simp add: keys_possible_def)
  with k v(2) show ?thesis by (auto simp: keys_possible_def)
qed

text \<open>Keys of one route under different epochs differ, whatever else goes into them.\<close>

lemma epoch_keys_differ:
  assumes "epoch_key s rid k" and "epoch_key s' rid k'" and "\<And>r. rid = Some r \<Longrightarrow> epoch_of s r \<noteq> epoch_of s' r"
  shows "k \<noteq> k'"
proof -
  from assms(1) obtain a r where a: "build_cache_key a kCacheKeyMaxLen = Some k" "rid = Some r" "ck_route_id a = rid"
    "ck_route_cache_epoch_ready a" "epoch_of s r = Some (ck_route_cache_epoch a)" by (auto simp: epoch_key_def)
  from assms(2) a(2) obtain b where b: "build_cache_key b kCacheKeyMaxLen = Some k'" "ck_route_id b = rid"
    "ck_route_cache_epoch_ready b" "epoch_of s' r = Some (ck_route_cache_epoch b)" by (auto simp: epoch_key_def)
  show ?thesis
    by (rule cache_key_epoch_separates [OF a(1) b(1)]) (use a b assms(3) in auto)
qed

section \<open>Lookups and stores\<close>

lemma l1_lookup_key: "l1_inv seed c \<Longrightarrow> l1_lookup seed c k = Some e \<Longrightarrow> ent_key e = k"
  by (auto simp: l1_lookup_def shard_lookup_iff [OF l1_inv_shard] holds_def slot_key_def)

lemma l1_lookup_stage_eq:
  assumes "ctx_matched_policy ctx = Some policy" and "cache_behavior (cache policy) = CacheStore"
    and "ctx_cache_key_ready ctx" and "ctx_l1_cache ctx = Some c" and "l1_inv seed c"
  shows "\<exists>m. l1_cache_lookup_stage seed ctx =
    (case l1_lookup seed c (ctx_cache_key ctx) of
       Some e \<Rightarrow> if fresh (ctx_request_epoch_ms ctx) e
         then (skip_remaining ''l1-hit'', serve ''L1'' (delivered (Some kL2BodyBufSize) e) (ctx\<lparr>ctx_cache_metrics := m\<rparr>))
         else (cont ''l1-miss'', ctx\<lparr>ctx_cache_metrics := m\<rparr>)
     | None \<Rightarrow> (cont ''l1-miss'', ctx\<lparr>ctx_cache_metrics := m\<rparr>))"
proof -
  obtain hit m where g: "l1_get seed (Some c) (Some (ctx_cache_key ctx)) (ctx_request_epoch_ms ctx) (Some kL2BodyBufSize)
      (ctx_cache_metrics ctx) = (hit, m)" by force
  have "hit = (case l1_lookup seed c (ctx_cache_key ctx) of
       None \<Rightarrow> None
     | Some e \<Rightarrow> if fresh (ctx_request_epoch_ms ctx) e then Some (delivered (Some kL2BodyBufSize) e) else None)"
    using l1_get_lookup [OF assms(5), of "ctx_cache_key ctx" "ctx_request_epoch_ms ctx" "Some kL2BodyBufSize" "ctx_cache_metrics ctx"] g
    by simp
  then show ?thesis
    using assms g by (intro exI [of _ m]) (simp add: l1_cache_lookup_stage_def split: option.split)
qed

text \<open>A hit is an entry stored under the request's own key that has not expired.\<close>

lemma l1_lookup_stage_hit:
  assumes "so_result (fst (l1_cache_lookup_stage seed ctx)) \<noteq> StageContinue" and "ctx_l1_cache ctx = Some c" and "l1_inv seed c"
  shows "\<exists>e. ctx_cache_key_ready ctx \<and> l1_lookup seed c (ctx_cache_key ctx) = Some e \<and> fresh (ctx_request_epoch_ms ctx) e \<and>
    ctx_cached_response (snd (l1_cache_lookup_stage seed ctx)) = delivered (Some kL2BodyBufSize) e"
proof -
  from assms(1) obtain policy where p: "ctx_matched_policy ctx = Some policy" "cache_behavior (cache policy) = CacheStore"
    "ctx_cache_key_ready ctx"
    by (auto simp: l1_cache_lookup_stage_def cont_def split: option.splits if_splits)
  from l1_lookup_stage_eq [OF p assms(2,3)] assms(1) p(3) show ?thesis
    by (auto simp: cont_def serve_def split: option.splits if_splits)
qed

text \<open>What the store stage requires before it writes.\<close>

definition storable :: "'db ApgTransformContext \<Rightarrow> RoutePolicy \<Rightarrow> bool" where
  "storable ctx policy \<longleftrightarrow> ctx_matched_policy ctx = Some policy \<and> ctx_request_method ctx = MethodGet \<and>
     200 \<le> ctx_response_status_code ctx \<and> ctx_response_status_code ctx < 300 \<and>
     ctx_response_body ctx \<noteq> None \<and> ctx_response_body_len ctx > 0"

lemma stage_event_simps [simp]:
  "ctx_l1_cache (stage_event e ctx) = ctx_l1_cache ctx" "ctx_matched_policy (stage_event e ctx) = ctx_matched_policy ctx"
  "ctx_selected_fields (stage_event e ctx) = ctx_selected_fields ctx" "ctx_request_method (stage_event e ctx) = ctx_request_method ctx"
  "ctx_response_status_code (stage_event e ctx) = ctx_response_status_code ctx"
  "ctx_response_body (stage_event e ctx) = ctx_response_body ctx"
  "ctx_response_body_len (stage_event e ctx) = ctx_response_body_len ctx"
  "ctx_cache_key_ready (stage_event e ctx) = ctx_cache_key_ready ctx" "ctx_cache_key (stage_event e ctx) = ctx_cache_key ctx"
  by (simp_all add: stage_event_def)

lemma response_entry_event [simp]:
  "response_entry (stage_event e ctx) key ttl = response_entry ctx key ttl"
  "with_statistics (stage_event e ctx) = with_statistics ctx"
  by (simp_all add: response_entry_def with_statistics_def stage_event_def fun_eq_iff)

lemma put_l1_cache [simp]: "ctx_l1_cache (put_l1 seed e ctx) = fst (l1_put seed (ctx_l1_cache ctx) e (ctx_cache_metrics ctx))"
  by (simp add: put_l1_def case_prod_beta Let_def)

lemma l1_put_cache: "fst (l1_put seed c e m) = map_option (\<lambda>c. if l1_can_store_entry e then admitted seed c e else c) c"
  by (cases c) (simp_all add: l1_put_state, simp add: l1_put_def)

definition raw_store_allowed :: "'db ApgTransformContext \<Rightarrow> RoutePolicy \<Rightarrow> bool" where
  "raw_store_allowed ctx policy \<longleftrightarrow> storable ctx policy \<and> cache_behavior (cache policy) = CacheStore \<and>
     ctx_cache_key_ready ctx \<and> cache_ttl_seconds (cache policy) \<noteq> 0 \<and> ctx_l1_cache ctx \<noteq> None \<and>
     \<not> (ctx_selected_fields ctx \<noteq> [] \<and> fv_enabled (cache_field_variant (cache policy)))"

lemma store_stage_allowed:
  assumes "raw_store_allowed ctx policy"
  shows "fst (l1_cache_store_stage seed ctx) =
      cont (if ctx_response_body_len ctx > kL1MaxBodySize then ''body-too-large-for-l1'' else ''stored'')"
    and "ctx_l1_cache (snd (l1_cache_store_stage seed ctx)) =
      map_option (\<lambda>c. if ctx_response_body_len ctx > kL1MaxBodySize then c
        else admitted seed c (with_statistics ctx (response_entry ctx (ctx_cache_key ctx) (ttl_ms_of policy)))) (ctx_l1_cache ctx)"
proof -
  have p: "ctx_matched_policy ctx = Some policy" using assms by (simp add: raw_store_allowed_def storable_def)
  have g: "(ctx_selected_fields ctx \<noteq> [] \<and> fv_enabled (cache_field_variant (cache policy))) = False"
    "cache_behavior (cache policy) = CacheStore" "ctx_request_method ctx = MethodGet"
    "(ctx_response_status_code ctx < 200 \<or> ctx_response_status_code ctx \<ge> 300) = False"
    "(ctx_response_body ctx = None \<or> ctx_response_body_len ctx = 0) = False"
    "cache_ttl_seconds (cache policy) \<noteq> 0" "(ctx_l1_cache ctx = None) = False" "ctx_cache_key_ready ctx"
    using assms by (auto simp: raw_store_allowed_def storable_def)
  let ?e = "with_statistics ctx (response_entry ctx (ctx_cache_key ctx) (ttl_ms_of policy))"
  have c: "l1_can_store_entry ?e \<longleftrightarrow> \<not> ctx_response_body_len ctx > kL1MaxBodySize"
    using g(5) by (auto simp: l1_can_store_entry_def with_statistics_def response_entry_def)
  have eq: "l1_cache_store_stage seed ctx =
      (if ctx_response_body_len ctx > kL1MaxBodySize then (cont ''body-too-large-for-l1'', put_l1 seed ?e (stage_event CM_L1StoreAttempt ctx))
       else (cont ''stored'', stage_event CM_L1StoreSuccess (put_l1 seed ?e (stage_event CM_L1StoreAttempt ctx))))"
    by (simp add: l1_cache_store_stage_def Let_def p g)
  show "fst (l1_cache_store_stage seed ctx) =
      cont (if ctx_response_body_len ctx > kL1MaxBodySize then ''body-too-large-for-l1'' else ''stored'')" by (simp add: eq)
  show "ctx_l1_cache (snd (l1_cache_store_stage seed ctx)) =
      map_option (\<lambda>c. if ctx_response_body_len ctx > kL1MaxBodySize then c else admitted seed c ?e) (ctx_l1_cache ctx)"
    by (simp add: eq l1_put_cache c)
qed

lemma store_stage_refused:
  assumes "\<not> (\<exists>policy. raw_store_allowed ctx policy)"
  shows "fst (l1_cache_store_stage seed ctx) \<noteq> cont ''stored'' \<and>
    ctx_l1_cache (snd (l1_cache_store_stage seed ctx)) = ctx_l1_cache ctx"
proof (cases "ctx_matched_policy ctx")
  case None
  then show ?thesis by (simp add: l1_cache_store_stage_def Let_def cont_def)
next
  case (Some policy)
  with assms have "\<not> raw_store_allowed ctx policy" by blast
  with Some show ?thesis
    unfolding l1_cache_store_stage_def Let_def raw_store_allowed_def storable_def
    by (auto simp: cont_def not_less simp del: One_nat_def)
qed

text \<open>
  (C10) A stored response is what the next request under the same key gets, until it expires. When the store stage
  reports \<open>stored\<close>, a lookup stage that runs on the cache it leaves, with that key prepared, ends the pipeline with
  the response's status, content type and body, as long as the request's clock is before the store request's clock
  plus the route's time to live; from that moment on it is a miss. (Slot generations must not be about to wrap.)
\<close>

theorem response_store_then_hit:
  assumes "fst (l1_cache_store_stage seed ctx) = cont ''stored''"
    and "ctx_matched_policy ctx = Some policy" and "ctx_l1_cache ctx = Some c" and "l1_inv seed c"
    and "unwrapped seed c (ctx_cache_key ctx)" and "length (ctx_cache_key ctx) < kCacheKeyMaxLen"
    and "ctx_response_body ctx = Some b" and "ctx_response_body_len ctx \<le> length b" and "ctx_request_epoch_ms ctx > 0"
    and "ctx_l1_cache req = ctx_l1_cache (snd (l1_cache_store_stage seed ctx))"
    and "ctx_cache_key_ready req" and "ctx_cache_key req = ctx_cache_key ctx"
    and "ctx_matched_policy req = Some policy'" and "cache_behavior (cache policy') = CacheStore"
    and "ctx_request_epoch_ms req > 0"
  shows "let expiry = ctx_request_epoch_ms ctx + 1000 * uint (cache_ttl_seconds (cache policy))
    in if ctx_request_epoch_ms req < expiry
       then fst (l1_cache_lookup_stage seed req) = skip_remaining ''l1-hit'' \<and>
         (let r = snd (l1_cache_lookup_stage seed req); e = ctx_cached_response r
          in ctx_should_return_immediate_response r \<and> ent_status_code e = ctx_response_status_code ctx \<and>
             ent_content_type e = take (kCacheContentTypeMaxLen - 1) (ctx_response_content_type ctx) \<and>
             ent_body e = Some (take (ctx_response_body_len ctx) b) \<and> ent_body_len e = ctx_response_body_len ctx)
       else fst (l1_cache_lookup_stage seed req) = cont ''l1-miss''"
proof -
  from assms(1) store_stage_refused obtain p where "raw_store_allowed ctx p" by metis
  then have a: "raw_store_allowed ctx policy" using assms(2) by (simp add: raw_store_allowed_def storable_def)
  then have n: "ctx_response_body_len ctx > 0" by (simp add: raw_store_allowed_def storable_def)
  have le: "ctx_response_body_len ctx \<le> kL1MaxBodySize"
    using store_stage_allowed(1) [OF a, of seed] assms(1) by (simp add: cont_def split: if_splits)
  let ?e = "with_statistics ctx (response_entry ctx (ctx_cache_key ctx) (ttl_ms_of policy))"
  have k: "ent_key ?e = ctx_cache_key ctx" using assms(6) by (simp add: with_statistics_def response_entry_def)
  have v: "l1_can_store_entry ?e" "entry_valid ?e"
    using le assms(6-8) by (auto simp: l1_can_store_entry_def entry_valid_def with_statistics_def response_entry_def)
  let ?c = "admitted seed c ?e"
  have c: "ctx_l1_cache req = Some ?c" using store_stage_allowed(2) [OF a] assms(3,10) le by simp
  have l: "l1_lookup seed ?c (ctx_cache_key req) = Some (stored ?e)"
    using admitted_lookup_same [OF assms(4) v] assms(5,12) k by simp
  have d: "delivered (Some kL2BodyBufSize) (stored ?e) = ?e\<lparr>ent_body := Some (take (ctx_response_body_len ctx) b)\<rparr>"
    using assms(7,8) n le
    by (simp add: delivered_def stored_def with_statistics_def response_entry_def kL2BodyBufSize_def kL1MaxBodySize_def)
  have f: "fresh (ctx_request_epoch_ms req) (stored ?e) \<longleftrightarrow>
      ctx_request_epoch_ms req < ctx_request_epoch_ms ctx + 1000 * uint (cache_ttl_seconds (cache policy))"
  proof -
    have "ent_expires_at_epoch_ms ?e = ctx_request_epoch_ms ctx + 1000 * uint (cache_ttl_seconds (cache policy))"
      using assms(9) by (simp add: with_statistics_def response_entry_def ttl_ms_of_def)
    moreover have "ctx_request_epoch_ms ctx + 1000 * uint (cache_ttl_seconds (cache policy)) \<noteq> 0"
      using assms(9) uint_ge_0 [of "cache_ttl_seconds (cache policy)"] by linarith
    ultimately show ?thesis unfolding fresh_stored using assms(9,15) by (simp add: fresh_def is_expired_def not_le)
  qed
  obtain m where "l1_cache_lookup_stage seed req =
      (if fresh (ctx_request_epoch_ms req) (stored ?e)
       then (skip_remaining ''l1-hit'', serve ''L1'' (delivered (Some kL2BodyBufSize) (stored ?e)) (req\<lparr>ctx_cache_metrics := m\<rparr>))
       else (cont ''l1-miss'', req\<lparr>ctx_cache_metrics := m\<rparr>))"
    using l1_lookup_stage_eq [OF assms(13,14,11) c admitted_inv [OF assms(4) v]] l by auto
  note eq = this [unfolded f d]
  show ?thesis unfolding Let_def eq by (simp add: serve_def with_statistics_def response_entry_def strncpy_z_def)
qed

definition store_ctx :: "'db ApgTransformContext" where
  "store_ctx = ApgTransformContext_default\<lparr>ctx_matched_policy := Some (RoutePolicy_default\<lparr>route_id := Some ''orders'',
       cache := CachePolicy_default\<lparr>cache_behavior := CacheStore, cache_ttl_seconds := 60\<rparr>\<rparr>),
     ctx_request_epoch_ms := 1000, ctx_cache_key := ''GET|orders|epoch:1|/o|||orders'', ctx_cache_key_ready := True,
     ctx_l1_cache := Some fresh_cache, ctx_response_status_code := 200, ctx_response_body := Some ''[1]'',
     ctx_response_body_len := 3, ctx_response_content_type := ''application/json''\<rparr>"

lemmas store_ctx_defs = store_ctx_def ApgTransformContext_default_def RoutePolicy_default_def CachePolicy_default_def
  FieldVariantCachePolicy_default_def

theorem response_store_then_hit_witness:
  "\<exists>c. ctx_l1_cache (snd (l1_cache_store_stage \<lparr>k0 = 1, k1 = 2\<rparr> (store_ctx :: unit ApgTransformContext))) = Some c \<and>
     (let req = store_ctx\<lparr>ctx_l1_cache := Some c, ctx_request_epoch_ms := 60999\<rparr>
      in fst (l1_cache_lookup_stage \<lparr>k0 = 1, k1 = 2\<rparr> (req :: unit ApgTransformContext)) = skip_remaining ''l1-hit'')"
proof -
  let ?seed = "\<lparr>k0 = 1, k1 = 2\<rparr> :: HashSeed" and ?ctx = "store_ctx :: unit ApgTransformContext"
  obtain policy where p: "ctx_matched_policy ?ctx = Some policy" "cache_behavior (cache policy) = CacheStore"
    "cache_ttl_seconds (cache policy) = 60" "\<not> fv_enabled (cache_field_variant (cache policy))"
    by (simp add: store_ctx_defs)
  have f: "ctx_l1_cache ?ctx = Some fresh_cache" "ctx_response_body ?ctx = Some ''[1]''" "ctx_response_body_len ?ctx = 3"
    "ctx_request_epoch_ms ?ctx = 1000" "length (ctx_cache_key ?ctx) < kCacheKeyMaxLen" "ctx_cache_key_ready ?ctx"
    "ctx_request_method ?ctx = MethodGet" "ctx_response_status_code ?ctx = 200"
    by (simp_all add: store_ctx_defs kCacheKeyMaxLen_def)
  have a: "raw_store_allowed ?ctx policy" using p f by (simp add: raw_store_allowed_def storable_def)
  have st: "fst (l1_cache_store_stage ?seed ?ctx) = cont ''stored''"
    using store_stage_allowed(1) [OF a] f(3) by (simp add: kL1MaxBodySize_def)
  obtain c where c: "ctx_l1_cache (snd (l1_cache_store_stage ?seed ?ctx)) = Some c"
    using store_stage_allowed(2) [OF a] f(1) by simp
  let ?req = "?ctx\<lparr>ctx_l1_cache := Some c, ctx_request_epoch_ms := 60999\<rparr>"
  have "fst (l1_cache_lookup_stage ?seed ?req) = skip_remaining ''l1-hit''"
    using response_store_then_hit [OF st p(1) f(1) fresh_cache_inv fresh_cache_unwrapped f(5,2), where req = ?req and policy' = policy]
      f p c by (simp add: Let_def)
  with c show ?thesis by (simp add: Let_def)
qed

section \<open>Admission\<close>

definition admitted_of :: "string \<Rightarrow> VariantAdmissionEntry list \<Rightarrow> VariantAdmissionEntry list" where
  "admitted_of rid es = filter (\<lambda>e. va_route_id e = rid \<and> va_admitted e) es"

text \<open>A run of the registry: each call has a variant key and a threshold; the key determines its route and that the limit.\<close>

definition admission_run ::
  "(string \<Rightarrow> string) \<Rightarrow> (string \<Rightarrow> u32) \<Rightarrow> (string \<times> u32) list \<Rightarrow> VariantAdmissionEntry list \<Rightarrow> VariantAdmissionEntry list" where
  "admission_run route_of max_of calls es =
     fold (\<lambda>(key, thr) es. snd (record_and_check (route_of key) key (max_of (route_of key)) thr es)) calls es"

definition admission_inv :: "(string \<Rightarrow> string) \<Rightarrow> (string \<Rightarrow> u32) \<Rightarrow> VariantAdmissionEntry list \<Rightarrow> bool" where
  "admission_inv route_of max_of es \<longleftrightarrow> distinct (map va_key es) \<and> (\<forall>e\<in>set es. va_route_id e = route_of (va_key e)) \<and>
     (\<forall>rid. length (admitted_of rid es) \<le> unat (max_of rid))"

lemma admitted_count_less:
  assumes "length (admitted_of rid es) \<le> unat m"
  shows "admitted_count rid es < m \<longleftrightarrow> length (admitted_of rid es) < unat m"
proof -
  have "length (admitted_of rid es) < 2 ^ 32" using assms unat_u32_less [of m] by linarith
  then have "unat (admitted_count rid es) = length (admitted_of rid es)"
    by (simp add: admitted_count_def admitted_of_def unat_of_nat take_bit_nat_eq_self)
  then show ?thesis by (simp add: word_less_nat_alt)
qed

lemma admitted_of_update:
  assumes "i < length es" and "va_route_id e = va_route_id (es ! i)" and "va_admitted (es ! i) \<longrightarrow> va_admitted e"
  shows "length (admitted_of rid (es[i := e])) =
    length (admitted_of rid es) + (if va_route_id e = rid \<and> va_admitted e \<and> \<not> va_admitted (es ! i) then 1 else 0)"
proof -
  have "admitted_of rid es = admitted_of rid (take i es) @ admitted_of rid [es ! i] @ admitted_of rid (drop (Suc i) es)"
    using assms(1) by (metis id_take_nth_drop append_Cons append_Nil filter_append admitted_of_def)
  moreover have "admitted_of rid (es[i := e]) = admitted_of rid (take i es) @ admitted_of rid [e] @ admitted_of rid (drop (Suc i) es)"
    using assms(1) by (simp add: upd_conv_take_nth_drop admitted_of_def)
  ultimately show ?thesis using assms(2,3) by (auto simp: admitted_of_def)
qed

lemma admission_inv_step:
  assumes inv: "admission_inv route_of max_of es" and len: "length key < kCacheKeyMaxLen" "length (route_of key) < 64"
  shows "admission_inv route_of max_of (snd (record_and_check (route_of key) key (max_of (route_of key)) thr es))"
    and "va_key ` set (snd (record_and_check (route_of key) key (max_of (route_of key)) thr es)) = insert key (va_key ` set es)"
proof -
  let ?r = "route_of key" and ?m = "max_of (route_of key)"
  have less: "admitted_count ?r es < ?m \<longleftrightarrow> length (admitted_of ?r es) < unat ?m"
    using inv by (intro admitted_count_less) (simp add: admission_inv_def)
  have "admission_inv route_of max_of (snd (record_and_check ?r key ?m thr es)) \<and>
      va_key ` set (snd (record_and_check ?r key ?m thr es)) = insert key (va_key ` set es)"
  proof (cases "find_index (\<lambda>e. va_key e = key) es")
    case None
    then have n: "key \<notin> va_key ` set es" by (auto simp: find_index_None_iff)
    define e where "e = \<lparr>va_key = key, va_route_id = ?r, va_count = 1, va_admitted = (thr \<le> 1 \<and> admitted_count ?r es < ?m)\<rparr>"
    have eq: "snd (record_and_check ?r key ?m thr es) = es @ [e]"
      using None len by (simp add: record_and_check_def Let_def e_def)
    have "length (admitted_of rid (es @ [e])) \<le> unat (max_of rid)" for rid
      using inv less by (auto simp: admission_inv_def admitted_of_def e_def)
    then show ?thesis using inv n unfolding eq by (auto simp: admission_inv_def e_def)
  next
    case (Some i)
    then have i: "i < length es" "va_key (es ! i) = key" by (auto simp: find_index_Some_iff)
    define e1 where "e1 = (es ! i)\<lparr>va_count := va_count (es ! i) + 1\<rparr>"
    define e where "e = (if \<not> va_admitted e1 \<and> va_count e1 \<ge> thr \<and> admitted_count ?r es < ?m then e1\<lparr>va_admitted := True\<rparr> else e1)"
    have eq: "snd (record_and_check ?r key ?m thr es) = es[i := e]"
      using Some by (simp add: record_and_check_def Let_def e_def e1_def)
    have r: "va_route_id (es ! i) = ?r" using inv i by (auto simp: admission_inv_def)
    have e: "va_key e = key" "va_route_id e = ?r" "va_admitted (es ! i) \<longrightarrow> va_admitted e"
      "va_admitted e \<and> \<not> va_admitted (es ! i) \<longrightarrow> length (admitted_of ?r es) < unat ?m"
      using i r less by (auto simp: e_def e1_def)
    have "length (admitted_of rid (es[i := e])) \<le> unat (max_of rid)" for rid
      using inv e r by (auto simp: admitted_of_update [OF i(1)] admission_inv_def Suc_le_eq)
    moreover have m: "map va_key (es[i := e]) = map va_key es"
      using i e(1) by (simp add: map_update list_update_same_conv)
    moreover have "\<forall>x\<in>set (es[i := e]). va_route_id x = route_of (va_key x)"
      using inv e by (auto simp: admission_inv_def dest!: set_update_subset_insert [THEN subsetD])
    moreover have "va_key ` set (es[i := e]) = insert key (va_key ` set es)"
      using m i by (metis image_set insert_absorb nth_mem image_eqI)
    ultimately show ?thesis using inv unfolding eq by (simp add: admission_inv_def)
  qed
  then show "admission_inv route_of max_of (snd (record_and_check ?r key ?m thr es))"
    "va_key ` set (snd (record_and_check ?r key ?m thr es)) = insert key (va_key ` set es)" by blast+
qed

lemma admission_run_inv:
  assumes "admission_inv route_of max_of es" and "list_all (\<lambda>(key, thr). length key < kCacheKeyMaxLen \<and> length (route_of key) < 64) calls"
  shows "admission_inv route_of max_of (admission_run route_of max_of calls es) \<and>
    va_key ` set (admission_run route_of max_of calls es) = va_key ` set es \<union> fst ` set calls"
  using assms
proof (induction calls arbitrary: es)
  case (Cons call calls)
  obtain key thr where c: "call = (key, thr)" by force
  let ?es = "snd (record_and_check (route_of key) key (max_of (route_of key)) thr es)"
  have "admission_inv route_of max_of ?es" "va_key ` set ?es = insert key (va_key ` set es)"
    using admission_inv_step [OF Cons.prems(1), of key thr] Cons.prems(2) c by auto
  with Cons.IH [of ?es] Cons.prems(2) c show ?case by (simp add: admission_run_def)
qed (simp add: admission_run_def)

text \<open>
  (C33) The cap on admitted variants holds, the size of the registry is not capped: along any run of the admission
  registry (keys shorter than the key buffer, route ids shorter than 64 characters) a route never has more admitted
  variants than its limit, however the thresholds vary; and the registry holds exactly one entry for every distinct
  variant key it was ever asked about, admitted or not.
\<close>

theorem variant_admission_bounded:
  assumes "list_all (\<lambda>(key, thr). length key < kCacheKeyMaxLen \<and> length (route_of key) < 64) calls"
  shows "length (admitted_of rid (admission_run route_of max_of calls [])) \<le> unat (max_of rid) \<and>
    length (admission_run route_of max_of calls []) = card (fst ` set calls)"
proof -
  have "admission_inv route_of max_of []" by (simp add: admission_inv_def admitted_of_def)
  from admission_run_inv [OF this assms] have "admission_inv route_of max_of (admission_run route_of max_of calls [])"
    "va_key ` set (admission_run route_of max_of calls []) = fst ` set calls" by simp_all
  then show ?thesis by (metis admission_inv_def distinct_card length_map image_set)
qed

theorem variant_admission_bounded_witness:
  "length (admitted_of ''r'' (admission_run (\<lambda>_. ''r'') (\<lambda>_. 1) [(''a'', 1), (''b'', 1)] [])) \<le> 1 \<and>
   length (admission_run (\<lambda>_. ''r'') (\<lambda>_. 1) [(''a'', 1), (''b'', 1)] []) = 2"
  using variant_admission_bounded [of "\<lambda>_. ''r''" "[(''a'', 1), (''b'', 1)]" "''r''" "\<lambda>_. 1"]
  by (simp add: kCacheKeyMaxLen_def)

end
