(* ===== verification/Coalescing_Stages.thy ===== *)
theory Coalescing_Stages
  imports Cache_Stages
begin

text \<open>
  The coalescing stages (\<^verbatim>\<open>src/stages/coalescing_{decision,follower_wait,leader_completion}_stage.cpp\<close>). The
  follower stage blocks; \<open>WaitEnv\<close> is what the other threads do meanwhile: the registry states in which the wait
  predicate is evaluated, and the shared components as they are when the wait returns. Everything else in a stage runs
  between two such points.
\<close>

section \<open>The decision\<close>

definition flight_event :: "CoalescingMetricEvent \<Rightarrow> 'db ApgTransformContext \<Rightarrow> 'db ApgTransformContext" where
  "flight_event e ctx = ctx\<lparr>ctx_coalescing_metrics := record_coalescing_event (ctx_coalescing_metrics ctx) e\<rparr>"

definition continue_silently :: StageOutput where
  "continue_silently = \<lparr>so_result = StageContinue, so_note = None\<rparr>"

definition coalescing_decision_stage :: "HashSeed \<Rightarrow> 'db ApgStage" where
  "coalescing_decision_stage seed ctx =
     (case ctx_matched_policy ctx of
        None \<Rightarrow> (continue_silently, ctx)
      | Some pol \<Rightarrow>
          if \<not> co_enabled (coalescing pol) then (continue_silently, ctx)
          else
            (let dctx = \<lparr>dc_policy = Some (coalescing pol), dc_method = ctx_request_method ctx,
                         dc_safety_input = \<lparr>cs_has_authorization_header = False, cs_has_cookie_header = False,
                           cs_allow_authenticated = co_allow_authenticated (coalescing pol)\<rparr>,
                         dc_key_input = CoalescingKeyInput_default\<lparr>cki_route_name := route_id pol,
                           cki_normalized_path := Some (ctx_raw_path ctx), cki_normalized_query := Some (ctx_raw_query ctx)\<rparr>,
                         dc_now_ms = word_of_int (ctx_request_epoch_ms ctx), dc_metrics = ctx_coalescing_metrics ctx\<rparr>;
                 (decision, registry, m) = evaluate_coalescing_decision seed (ctx_coalescing_registry ctx) dctx;
                 ctx = ctx\<lparr>ctx_coalescing_decision := decision, ctx_coalescing_registry := registry, ctx_coalescing_metrics := m\<rparr>
             in if dec_action decision = ActReject then (\<lparr>so_result = StageError, so_note = Some ''too-many-waiters''\<rparr>, ctx)
                else (continue_silently, ctx)))"

section \<open>The follower\<close>

record 'db WaitEnv =
  we_wakes :: "InFlightRegistry list"
  we_registry :: "InFlightRegistry option"
  we_l1_cache :: "L1Cache option"
  we_l2_cache :: "'db option"
  we_probe_elapsed_ms :: u64

datatype SyncL2ProbePath = ProbeL2Ready | ProbeTimeoutFinal

definition flight_key :: "'db ApgTransformContext \<Rightarrow> string option" where
  "flight_key ctx = Some (dec_key (ctx_coalescing_decision ctx))"

definition drop_waiter :: "HashSeed \<Rightarrow> 'db ApgTransformContext \<Rightarrow> 'db ApgTransformContext" where
  "drop_waiter seed ctx = ctx\<lparr>ctx_coalescing_registry := registry_remove_waiter seed (ctx_coalescing_registry ctx) (flight_key ctx)\<rparr>"

definition set_bypass :: "'db ApgTransformContext \<Rightarrow> 'db ApgTransformContext" where
  "set_bypass ctx = ctx\<lparr>ctx_coalescing_decision := (ctx_coalescing_decision ctx)\<lparr>dec_action := ActBypass\<rparr>\<rparr>"

definition fall_back :: "HashSeed \<Rightarrow> 'db ApgTransformContext \<Rightarrow> 'db ApgTransformContext" where
  "fall_back seed ctx =
     (let (registry, decision) = handle_timeout_fallback seed (ctx_coalescing_registry ctx) (ctx_coalescing_decision ctx)
      in ctx\<lparr>ctx_coalescing_registry := registry, ctx_coalescing_decision := decision\<rparr>)"

definition count_probe :: "SyncL2ProbePath \<Rightarrow> u64 \<Rightarrow> StageOutput \<Rightarrow> FollowerProbeMetrics \<Rightarrow> FollowerProbeMetrics" where
  "count_probe path elapsed out m =
     (let m = m\<lparr>fp_total := fp_total m + 1, fp_latency_ms_total := fp_latency_ms_total m + elapsed,
                fp_latency_ms_count := fp_latency_ms_count m + 1,
                fp_latency_ms_max := (if elapsed > fp_latency_ms_max m then elapsed else fp_latency_ms_max m)\<rparr>;
          m = (case path of
                 ProbeL2Ready \<Rightarrow> m\<lparr>fp_l2ready_total := fp_l2ready_total m + 1\<rparr>
               | ProbeTimeoutFinal \<Rightarrow> m\<lparr>fp_timeout_final_total := fp_timeout_final_total m + 1\<rparr>)
      in if so_result out = StageSkipRemaining then m\<lparr>fp_hit_total := fp_hit_total m + 1\<rparr>
         else if so_note out = Some ''l2-body-too-large-for-buffer'' then m\<lparr>fp_body_too_large_total := fp_body_too_large_total m + 1\<rparr>
         else m\<lparr>fp_miss_total := fp_miss_total m + 1\<rparr>)"

definition try_coalescing_follower_sync_l2_probe ::
  "HashSeed \<Rightarrow> 'db RocksDb \<Rightarrow> u64 \<Rightarrow> SyncL2ProbePath \<Rightarrow> 'db ApgStage" where
  "try_coalescing_follower_sync_l2_probe seed rocks elapsed path ctx =
     (if dec_action (ctx_coalescing_decision ctx) \<noteq> ActFollower \<or> ctx_l2_cache ctx = None \<or> \<not> ctx_cache_key_ready ctx then
        (cont ''preconditions-failed-no-probe'', ctx)
      else
        (let (out, ctx) = l2_cache_lookup_stage seed rocks ctx
         in (out, ctx\<lparr>ctx_probe_metrics := map_option (count_probe path elapsed out) (ctx_probe_metrics ctx)\<rparr>)))"

text \<open>A hit ends the wait: the waiter leaves the registry and the hit is counted.\<close>

definition follower_hit :: "HashSeed \<Rightarrow> CoalescingMetricEvent list \<Rightarrow> 'db ApgTransformContext \<Rightarrow> 'db ApgTransformContext" where
  "follower_hit seed events ctx = fold flight_event (events @ [CO_FollowerCacheHit]) (drop_waiter seed ctx)"

definition follower_fallback :: "HashSeed \<Rightarrow> string \<Rightarrow> CoalescingMetricEvent list \<Rightarrow> 'db ApgStage" where
  "follower_fallback seed note events ctx = (cont note, fall_back seed (fold flight_event (events @ [CO_Fallback]) ctx))"

definition try_final_cache_probe :: "HashSeed \<Rightarrow> 'db RocksDb \<Rightarrow> u64 \<Rightarrow> 'db ApgStage" where
  "try_final_cache_probe seed rocks elapsed ctx =
     (let (out, ctx) = l1_cache_lookup_stage seed ctx
      in if so_result out = StageSkipRemaining then (out, follower_hit seed [CO_FollowerL1Hit] ctx)
         else
           (let (out, ctx) = try_coalescing_follower_sync_l2_probe seed rocks elapsed ProbeTimeoutFinal ctx
            in if so_result out = StageSkipRemaining then (out, follower_hit seed [CO_FollowerL2Hit] ctx)
               else if so_note out = Some ''l2-body-too-large-for-buffer'' then (out, ctx)
               else (cont ''final-cache-probe-miss'', ctx)))"

text \<open>An L1 check that falls back with its own note and events when it misses.\<close>

definition l1_or_fallback :: "HashSeed \<Rightarrow> string \<Rightarrow> CoalescingMetricEvent list \<Rightarrow> 'db ApgStage" where
  "l1_or_fallback seed note events ctx =
     (let (out, ctx) = l1_cache_lookup_stage seed ctx
      in if so_result out = StageSkipRemaining then (out, follower_hit seed [CO_FollowerL1Hit] ctx)
         else follower_fallback seed note events ctx)"

definition follower_timeout :: "HashSeed \<Rightarrow> 'db RocksDb \<Rightarrow> u64 \<Rightarrow> 'db ApgStage" where
  "follower_timeout seed rocks elapsed ctx =
     (let (out, ctx) = try_final_cache_probe seed rocks elapsed ctx
      in if so_result out = StageSkipRemaining then (out, flight_event CO_FollowerTimeoutAfterPublish ctx)
         else follower_fallback seed ''timeout-fallback''
           ((if so_note out = Some ''l2-body-too-large-for-buffer'' then [CO_FollowerTimeoutL2BodyTooLarge] else []) @
            [CO_FollowerTimeoutBeforePublish, CO_FollowerTimeout]) ctx)"

text \<open>What the follower does with the outcome of its wait when the L1 check after it missed.\<close>

fun after_miss :: "HashSeed \<Rightarrow> 'db RocksDb \<Rightarrow> u64 \<Rightarrow> RegistryWaitResult \<Rightarrow> 'db ApgStage" where
  "after_miss seed rocks elapsed WaitTimeout ctx = follower_timeout seed rocks elapsed ctx"
| "after_miss seed rocks elapsed WaitTooLargeForHandoff ctx =
     follower_fallback seed ''too-large-for-handoff-fallback'' [CO_FollowerTooLargeForHandoff] (drop_waiter seed ctx)"
| "after_miss seed rocks elapsed WaitMissing ctx = l1_or_fallback seed ''missing-fallback'' [CO_FollowerMissing] ctx"
| "after_miss seed rocks elapsed WaitExpired ctx =
     l1_or_fallback seed ''expired-fallback'' [CO_FollowerExpired, CO_FollowerTimeout] ctx"
| "after_miss seed rocks elapsed WaitNotCacheable ctx =
     follower_fallback seed ''not-cacheable-fallback'' [CO_FollowerNotCacheable] ctx"
| "after_miss seed rocks elapsed WaitFailed ctx = follower_fallback seed ''leader-failed-fallback'' [CO_FollowerFailed] ctx"
| "after_miss seed rocks elapsed WaitStoredButNoSnapshot ctx =
     l1_or_fallback seed ''stored-no-snapshot-fallback'' [CO_FollowerStoredButNoSnapshot] ctx"
| "after_miss seed rocks elapsed _ ctx = follower_fallback seed ''unaccounted-fallback'' [CO_FollowerUnaccounted] ctx"

definition serve_shared :: "RegistrySharedResponseOutput \<Rightarrow> 'db ApgTransformContext \<Rightarrow> 'db ApgTransformContext" where
  "serve_shared shared ctx =
     serve ''COALESCED'' ((ctx_cached_response ctx)
       \<lparr>ent_status_code := so_status_code shared,
        ent_content_type := strncpy_z (kCacheContentTypeMaxLen - 1) (so_content_type shared),
        ent_body := Some (take (so_body_len shared) (so_body shared)), ent_body_len := so_body_len shared\<rparr>) ctx"

text \<open>The three fast paths of the outcome, then the common L1 check.\<close>

definition after_wake ::
  "HashSeed \<Rightarrow> 'db RocksDb \<Rightarrow> u64 \<Rightarrow> RegistryWaitResult \<times> RegistrySharedResponseOutput option \<Rightarrow> 'db ApgStage" where
  "after_wake seed rocks elapsed outcome ctx =
     (case outcome of
        (WaitSharedResponseReady, Some shared) \<Rightarrow>
          (skip_remaining ''coalesced-shared-response'',
           follower_hit seed [CO_FollowerSharedResponse] (serve_shared shared ctx))
      | (WaitL1Ready, _) \<Rightarrow>
          (let (out, ctx) = l1_cache_lookup_stage seed ctx
           in if so_result out = StageSkipRemaining then (out, follower_hit seed [CO_FollowerL1Ready, CO_FollowerL1Hit] ctx)
              else follower_fallback seed ''l1-ready-but-miss-fallback'' [CO_FollowerL1Ready, CO_FollowerL1ReadyButMiss] ctx)
      | (WaitL2Ready, _) \<Rightarrow>
          (let (out, ctx) = try_coalescing_follower_sync_l2_probe seed rocks elapsed ProbeL2Ready ctx
           in if so_result out = StageSkipRemaining then (out, follower_hit seed [CO_FollowerL2Ready, CO_FollowerL2Hit] ctx)
              else follower_fallback seed ''l2-ready-but-miss-fallback'' [CO_FollowerL2Ready, CO_FollowerL2ReadyButMiss] ctx)
      | (result, _) \<Rightarrow>
          (let (out, ctx) = l1_cache_lookup_stage seed ctx
           in if so_result out = StageSkipRemaining then (out, follower_hit seed [CO_FollowerL1Hit] ctx)
              else after_miss seed rocks elapsed result ctx))"

definition add_active_follower :: "u32 \<Rightarrow> 'db ApgTransformContext \<Rightarrow> 'db ApgTransformContext" where
  "add_active_follower d ctx =
     ctx\<lparr>ctx_probe_metrics := map_option (\<lambda>m. m\<lparr>fp_active_follower_waiters := fp_active_follower_waiters m + d\<rparr>) (ctx_probe_metrics ctx)\<rparr>"

text \<open>The blocking wait: the outcome, and the context with the components as the other threads left them.\<close>

definition follower_block ::
  "HashSeed \<Rightarrow> 'db WaitEnv \<Rightarrow> 'db ApgTransformContext \<Rightarrow>
   (RegistryWaitResult \<times> RegistrySharedResponseOutput option) \<times> 'db ApgTransformContext" where
  "follower_block seed env ctx =
     (let ctx = add_active_follower 1 ctx;
          ctx = ctx\<lparr>ctx_coalescing_registry := registry_enter_wait seed (ctx_coalescing_registry ctx) (flight_key ctx)\<rparr>;
          outcome = registry_wait_for_completion seed (ctx_coalescing_registry ctx) (flight_key ctx)
            (dec_lifecycle_generation (ctx_coalescing_decision ctx)) (we_wakes env);
          ctx = ctx\<lparr>ctx_coalescing_registry := registry_exit_wait seed (we_registry env) (flight_key ctx),
                    ctx_l1_cache := we_l1_cache env, ctx_l2_cache := we_l2_cache env\<rparr>
      in (outcome, add_active_follower (- 1) ctx))"

definition follower_bypass :: "HashSeed \<Rightarrow> string \<Rightarrow> CoalescingMetricEvent list \<Rightarrow> 'db ApgStage" where
  "follower_bypass seed note events ctx = (cont note, fold flight_event events (set_bypass (drop_waiter seed ctx)))"

definition coalescing_follower_wait_stage :: "HashSeed \<Rightarrow> 'db RocksDb \<Rightarrow> 'db WaitEnv \<Rightarrow> 'db ApgStage" where
  "coalescing_follower_wait_stage seed rocks env ctx =
     (if dec_action (ctx_coalescing_decision ctx) \<noteq> ActFollower then (continue_silently, ctx)
      else case ctx_matched_policy ctx of
        None \<Rightarrow> (continue_silently, ctx)
      | Some pol \<Rightarrow>
          (let policy = coalescing pol;
               budget = co_backend_timeout_ms policy + co_handoff_buffer_ms policy
           in if co_require_cache_enabled policy \<and> cache_behavior (cache pol) \<noteq> CacheStore then
                follower_bypass seed ''cache-disabled-bypassed'' [CO_Bypass] ctx
              else if ctx_coalescing_registry ctx = None then
                (cont ''no-registry'', flight_event CO_Bypass (set_bypass ctx))
              else if co_max_follower_wait_budget_ms policy > 0 \<and> budget > co_max_follower_wait_budget_ms policy then
                follower_bypass seed ''guardrail-budget-exceeded'' [CO_FollowerGuardrailBudgetExceeded, CO_Fallback] ctx
              else if co_max_active_follower_waiters policy > 0 \<and>
                      registry_active_waiters (ctx_coalescing_registry ctx) \<ge> co_max_active_follower_waiters policy then
                follower_bypass seed ''guardrail-global-limit'' [CO_FollowerGuardrailGlobalLimit, CO_Fallback] ctx
              else if co_max_active_follower_waiters_per_shard policy > 0 \<and>
                      registry_shard_active_waiters seed (ctx_coalescing_registry ctx) (flight_key ctx) \<ge>
                        co_max_active_follower_waiters_per_shard policy then
                follower_bypass seed ''guardrail-shard-limit'' [CO_FollowerGuardrailShardLimit, CO_Fallback] ctx
              else
                (let (out, ctx) = l1_cache_lookup_stage seed ctx
                 in if so_result out = StageSkipRemaining then (out, follower_hit seed [CO_FollowerL1Hit] ctx)
                    else
                      (let (outcome, ctx) = follower_block seed env ctx
                       in after_wake seed rocks (we_probe_elapsed_ms env) outcome ctx))))"

section \<open>The leader\<close>

definition coalescing_leader_completion_stage :: "HashSeed \<Rightarrow> u64 \<Rightarrow> 'db ApgStage" where
  "coalescing_leader_completion_stage seed now_ms ctx =
     (if dec_action (ctx_coalescing_decision ctx) \<noteq> ActLeader then (cont ''not-leader'', ctx)
      else if ctx_coalescing_registry ctx = None then (cont ''no-registry'', ctx)
      else if \<not> (ctx_cache_key_ready ctx \<and> ctx_response_status_code ctx \<ge> 200 \<and> ctx_response_status_code ctx < 300 \<and>
                 ctx_response_body ctx \<noteq> None \<and> ctx_response_body_len ctx > 0) then
        (cont ''completed-cleared'',
         complete_flight seed
           (if ctx_response_status_code ctx \<ge> 200 \<and> ctx_response_status_code ctx < 300 then NotCacheable else Failed) now_ms ctx)
      else case decide_coalescing_completion_handoff (ctx_response_body_len ctx) of
        HandL1Inline \<Rightarrow>
          (cont ''completed-l1-ready'', flight_event CO_LeaderL1StoreSuccess (complete_flight seed L1Ready now_ms ctx))
      | HandL2Completion \<Rightarrow> (cont ''awaiting-l2-completion'', flight_event CO_LeaderL2HandoffPending ctx)
      | HandStoreToL2NoFollowerHandoff \<Rightarrow>
          (cont ''awaiting-l2-completion-no-handoff'',
           flight_event CO_LeaderTooLargeForHandoff (complete_flight seed TooLargeForHandoff now_ms ctx))
      | _ \<Rightarrow>
          (cont ''completed-not-cacheable'', flight_event CO_LeaderL1StoreFailed (complete_flight seed NotCacheable now_ms ctx)))"

section \<open>How a follower ends\<close>

lemma flight_events [simp]:
  "ctx_coalescing_registry (fold flight_event es ctx) = ctx_coalescing_registry ctx"
  "ctx_coalescing_decision (fold flight_event es ctx) = ctx_coalescing_decision ctx"
  "ctx_should_return_immediate_response (fold flight_event es ctx) = ctx_should_return_immediate_response ctx"
  "ctx_cached_response (fold flight_event es ctx) = ctx_cached_response ctx"
  by (induction es arbitrary: ctx) (simp_all add: flight_event_def)

lemma flight_event_simps [simp]:
  "ctx_coalescing_registry (flight_event e ctx) = ctx_coalescing_registry ctx"
  "ctx_coalescing_decision (flight_event e ctx) = ctx_coalescing_decision ctx"
  "ctx_should_return_immediate_response (flight_event e ctx) = ctx_should_return_immediate_response ctx"
  "ctx_cached_response (flight_event e ctx) = ctx_cached_response ctx"
  using flight_events [of "[e]"] by simp_all

lemma drop_waiter_simps [simp]:
  "ctx_coalescing_registry (drop_waiter seed ctx) = registry_remove_waiter seed (ctx_coalescing_registry ctx) (flight_key ctx)"
  "ctx_coalescing_decision (drop_waiter seed ctx) = ctx_coalescing_decision ctx"
  "ctx_should_return_immediate_response (drop_waiter seed ctx) = ctx_should_return_immediate_response ctx"
  "ctx_cached_response (drop_waiter seed ctx) = ctx_cached_response ctx"
  by (simp_all add: drop_waiter_def)

lemma registry_remove_waiter_None [simp]: "registry_remove_waiter seed reg k = None \<longleftrightarrow> reg = None"
  by (simp add: registry_remove_waiter_def split: option.splits)

text \<open>A lookup leaves the coalescing state alone; a hit asks for an immediate response.\<close>

lemma l1_lookup_frame [simp]:
  "ctx_coalescing_registry (snd (l1_cache_lookup_stage seed ctx)) = ctx_coalescing_registry ctx"
  "ctx_coalescing_decision (snd (l1_cache_lookup_stage seed ctx)) = ctx_coalescing_decision ctx"
  by (simp_all add: l1_cache_lookup_stage_def serve_def case_prod_beta Let_def split: option.split)

lemma l1_lookup_out:
  "so_result (fst (l1_cache_lookup_stage seed ctx)) = StageSkipRemaining \<Longrightarrow>
     ctx_should_return_immediate_response (snd (l1_cache_lookup_stage seed ctx))"
  by (auto simp: l1_cache_lookup_stage_def serve_def cont_def case_prod_beta Let_def split: option.splits if_splits)

lemma put_l1_simps [simp]:
  "ctx_coalescing_registry (put_l1 seed e ctx) = ctx_coalescing_registry ctx"
  "ctx_coalescing_decision (put_l1 seed e ctx) = ctx_coalescing_decision ctx"
  by (simp_all add: put_l1_def case_prod_beta Let_def)

lemma l2_lookup_frame:
  "ctx_coalescing_registry (snd (l2_cache_lookup_stage seed rocks ctx)) = ctx_coalescing_registry ctx \<and>
   ctx_coalescing_decision (snd (l2_cache_lookup_stage seed rocks ctx)) = ctx_coalescing_decision ctx \<and>
   (so_result (fst (l2_cache_lookup_stage seed rocks ctx)) = StageSkipRemaining \<longrightarrow>
      ctx_should_return_immediate_response (snd (l2_cache_lookup_stage seed rocks ctx)))"
  by (simp add: l2_cache_lookup_stage_def serve_def runtime_event_def cont_def skip_remaining_def
      split: option.split L2Key.split L2GetResult.split)

lemma sync_probe_frame:
  "ctx_coalescing_registry (snd (try_coalescing_follower_sync_l2_probe seed rocks el path ctx)) = ctx_coalescing_registry ctx \<and>
   ctx_coalescing_decision (snd (try_coalescing_follower_sync_l2_probe seed rocks el path ctx)) = ctx_coalescing_decision ctx \<and>
   (so_result (fst (try_coalescing_follower_sync_l2_probe seed rocks el path ctx)) = StageSkipRemaining \<longrightarrow>
      ctx_should_return_immediate_response (snd (try_coalescing_follower_sync_l2_probe seed rocks el path ctx)))"
  using l2_lookup_frame [of seed rocks ctx]
  by (simp add: try_coalescing_follower_sync_l2_probe_def case_prod_beta Let_def cont_def)

text \<open>
  The end of a follower: it is answered, or it goes to the backend itself as a bypass; either way its waiter has left
  the registry \<open>reg\<close> it found, once or (\<open>n = 2\<close>) twice.
\<close>

definition resolved :: "HashSeed \<Rightarrow> InFlightRegistry option \<Rightarrow> string option \<Rightarrow> nat \<Rightarrow> StageOutput \<times> 'db ApgTransformContext \<Rightarrow> bool" where
  "resolved seed reg key n r \<longleftrightarrow>
     (if so_result (fst r) = StageSkipRemaining then ctx_should_return_immediate_response (snd r)
      else so_result (fst r) = StageContinue \<and> dec_action (ctx_coalescing_decision (snd r)) = ActBypass) \<and>
     ctx_coalescing_registry (snd r) = ((\<lambda>g. registry_remove_waiter seed g key) ^^ n) reg"

lemma resolved_hit:
  assumes "so_result out = StageSkipRemaining" and "ctx_should_return_immediate_response ctx"
  shows "resolved seed (ctx_coalescing_registry ctx) (flight_key ctx) (Suc 0) (out, follower_hit seed es ctx)"
  using assms by (simp add: resolved_def follower_hit_def)

lemma resolved_fallback:
  assumes "ctx_coalescing_registry ctx \<noteq> None"
  shows "resolved seed (ctx_coalescing_registry ctx) (flight_key ctx) (Suc 0) (follower_fallback seed nt es ctx)"
  using assms by (auto simp: resolved_def follower_fallback_def fall_back_def handle_timeout_fallback_def cont_def flight_key_def)

lemma resolved_l1:
  assumes "ctx_coalescing_registry ctx \<noteq> None"
  shows "resolved seed (ctx_coalescing_registry ctx) (flight_key ctx) (Suc 0)
    (let (out, ctx) = l1_cache_lookup_stage seed ctx
     in if so_result out = StageSkipRemaining then (out, follower_hit seed hits ctx) else follower_fallback seed nt es ctx)"
proof -
  obtain out ctx' where l: "l1_cache_lookup_stage seed ctx = (out, ctx')" by force
  have f: "ctx_coalescing_registry ctx' = ctx_coalescing_registry ctx" "flight_key ctx' = flight_key ctx"
    using l1_lookup_frame [of seed ctx] l by (simp_all add: flight_key_def)
  show ?thesis
    using resolved_hit [of out ctx' seed hits] resolved_fallback [of ctx' seed nt es] l1_lookup_out [of seed ctx] assms l f by simp
qed

lemma resolved_l2:
  assumes "ctx_coalescing_registry ctx \<noteq> None"
  shows "resolved seed (ctx_coalescing_registry ctx) (flight_key ctx) (Suc 0)
    (let (out, ctx) = try_coalescing_follower_sync_l2_probe seed rocks el path ctx
     in if so_result out = StageSkipRemaining then (out, follower_hit seed hits ctx) else follower_fallback seed nt es ctx)"
proof -
  obtain out ctx' where l: "try_coalescing_follower_sync_l2_probe seed rocks el path ctx = (out, ctx')" by force
  have f: "ctx_coalescing_registry ctx' = ctx_coalescing_registry ctx" "flight_key ctx' = flight_key ctx"
    "so_result out = StageSkipRemaining \<Longrightarrow> ctx_should_return_immediate_response ctx'"
    using sync_probe_frame [of seed rocks el path ctx] l by (simp_all add: flight_key_def)
  show ?thesis
    using resolved_hit [of out ctx' seed hits] resolved_fallback [of ctx' seed nt es] assms l f by simp
qed

lemma resolved_timeout:
  assumes "ctx_coalescing_registry ctx \<noteq> None"
  shows "resolved seed (ctx_coalescing_registry ctx) (flight_key ctx) (Suc 0) (follower_timeout seed rocks el ctx)"
proof -
  obtain o1 c1 where l1: "l1_cache_lookup_stage seed ctx = (o1, c1)" by force
  obtain o2 c2 where l2: "try_coalescing_follower_sync_l2_probe seed rocks el ProbeTimeoutFinal c1 = (o2, c2)" by force
  have f: "ctx_coalescing_registry c1 = ctx_coalescing_registry ctx" "ctx_coalescing_registry c2 = ctx_coalescing_registry ctx"
    "flight_key c1 = flight_key ctx" "flight_key c2 = flight_key ctx"
    "so_result o1 = StageSkipRemaining \<Longrightarrow> ctx_should_return_immediate_response c1"
    "so_result o2 = StageSkipRemaining \<Longrightarrow> ctx_should_return_immediate_response c2"
    using l1_lookup_frame [of seed ctx] l1_lookup_out [of seed ctx]
      sync_probe_frame [of seed rocks el ProbeTimeoutFinal c1] l1 l2 by (simp_all add: flight_key_def)
  show ?thesis
  proof (cases "so_result o1 = StageSkipRemaining \<or> so_result o2 = StageSkipRemaining")
    case True
    with f show ?thesis
      by (auto simp: follower_timeout_def try_final_cache_probe_def l1 l2 Let_def resolved_def follower_hit_def)
  next
    case False
    with f resolved_fallback [of c2 seed] assms show ?thesis
      by (auto simp: follower_timeout_def try_final_cache_probe_def l1 l2 Let_def cont_def)
  qed
qed

lemma resolved_after_miss:
  assumes "ctx_coalescing_registry ctx \<noteq> None"
  shows "resolved seed (ctx_coalescing_registry ctx) (flight_key ctx) (if r = WaitTooLargeForHandoff then 2 else Suc 0)
    (after_miss seed rocks el r ctx)"
proof (cases "r = WaitTooLargeForHandoff")
  case True
  have k: "flight_key (drop_waiter seed ctx) = flight_key ctx" by (simp add: flight_key_def)
  have "ctx_coalescing_registry (drop_waiter seed ctx) \<noteq> None" using assms by simp
  from resolved_fallback [OF this, of seed "''too-large-for-handoff-fallback''" "[CO_FollowerTooLargeForHandoff]"] True k
  show ?thesis by (simp add: resolved_def numeral_2_eq_2)
next
  case False
  with assms show ?thesis
    by (cases r) (simp_all add: resolved_fallback resolved_timeout resolved_l1 [unfolded Let_def] l1_or_fallback_def Let_def)
qed

lemma resolved_after_wake:
  assumes "ctx_coalescing_registry ctx \<noteq> None"
  shows "resolved seed (ctx_coalescing_registry ctx) (flight_key ctx)
    (if fst outcome = WaitTooLargeForHandoff \<and> so_result (fst (l1_cache_lookup_stage seed ctx)) \<noteq> StageSkipRemaining then 2 else Suc 0)
    (after_wake seed rocks el outcome ctx)"
proof -
  obtain r x where o: "outcome = (r, x)" by force
  obtain out ctx' where l: "l1_cache_lookup_stage seed ctx = (out, ctx')" by force
  have f: "ctx_coalescing_registry ctx' = ctx_coalescing_registry ctx" "flight_key ctx' = flight_key ctx"
    "so_result out = StageSkipRemaining \<Longrightarrow> ctx_should_return_immediate_response ctx'"
    using l1_lookup_frame [of seed ctx] l1_lookup_out [of seed ctx] l by (simp_all add: flight_key_def)
  let ?n = "if r = WaitTooLargeForHandoff \<and> so_result out \<noteq> StageSkipRemaining then 2 else Suc 0"
  have hit: "resolved seed (ctx_coalescing_registry ctx) (flight_key ctx) ?n (out, follower_hit seed [CO_FollowerL1Hit] ctx')"
    if "so_result out = StageSkipRemaining" using resolved_hit [of out ctx' seed] f that by simp
  have miss: "resolved seed (ctx_coalescing_registry ctx) (flight_key ctx) ?n (after_miss seed rocks el r ctx')"
    if "so_result out \<noteq> StageSkipRemaining" using resolved_after_miss [of ctx' seed r rocks el] f assms that by simp
  show ?thesis
  proof (cases r)
    case WaitSharedResponseReady
    show ?thesis
    proof (cases x)
      case None
      then show ?thesis using hit miss l WaitSharedResponseReady by (simp add: o after_wake_def)
    next
      case (Some shared)
      then show ?thesis using WaitSharedResponseReady
        by (simp add: o after_wake_def resolved_def follower_hit_def serve_shared_def serve_def flight_key_def skip_remaining_def)
    qed
  next
    case WaitL1Ready
    then show ?thesis using resolved_l1 [OF assms] by (simp add: o after_wake_def)
  next
    case WaitL2Ready
    then show ?thesis using resolved_l2 [OF assms] by (simp add: o after_wake_def)
  qed (use hit miss l in \<open>simp_all add: o after_wake_def\<close>)
qed

text \<open>The follower passes the guards and its first L1 check misses, so it blocks.\<close>

definition follower_waits :: "HashSeed \<Rightarrow> 'db ApgTransformContext \<Rightarrow> RoutePolicy \<Rightarrow> bool" where
  "follower_waits seed ctx pol \<longleftrightarrow>
     (let policy = coalescing pol; budget = co_backend_timeout_ms policy + co_handoff_buffer_ms policy
      in \<not> (co_require_cache_enabled policy \<and> cache_behavior (cache pol) \<noteq> CacheStore) \<and>
         \<not> (co_max_follower_wait_budget_ms policy > 0 \<and> budget > co_max_follower_wait_budget_ms policy) \<and>
         \<not> (co_max_active_follower_waiters policy > 0 \<and>
              registry_active_waiters (ctx_coalescing_registry ctx) \<ge> co_max_active_follower_waiters policy) \<and>
         \<not> (co_max_active_follower_waiters_per_shard policy > 0 \<and>
              registry_shard_active_waiters seed (ctx_coalescing_registry ctx) (flight_key ctx) \<ge>
                co_max_active_follower_waiters_per_shard policy) \<and>
         so_result (fst (l1_cache_lookup_stage seed ctx)) \<noteq> StageSkipRemaining)"

lemma follower_block_frame:
  "ctx_coalescing_registry (snd (follower_block seed env ctx)) = registry_exit_wait seed (we_registry env) (flight_key ctx)"
  "flight_key (snd (follower_block seed env ctx)) = flight_key ctx"
  by (simp_all add: follower_block_def Let_def add_active_follower_def flight_key_def)

lemma registry_exit_wait_None [simp]: "registry_exit_wait seed reg k = None \<longleftrightarrow> reg = None"
  by (simp add: registry_exit_wait_def add_waiters_def Let_def split: option.splits)

lemma resolved_bypass:
  "resolved seed (ctx_coalescing_registry ctx) (flight_key ctx) (Suc 0) (follower_bypass seed nt es ctx)"
  by (simp add: resolved_def follower_bypass_def cont_def set_bypass_def)

lemma follower_stage_waits:
  assumes "dec_action (ctx_coalescing_decision ctx) = ActFollower" and "ctx_matched_policy ctx = Some pol"
    and "ctx_coalescing_registry ctx \<noteq> None" and "follower_waits seed ctx pol"
  shows "coalescing_follower_wait_stage seed rocks env ctx =
    (let (outcome, c) = follower_block seed env (snd (l1_cache_lookup_stage seed ctx))
     in after_wake seed rocks (we_probe_elapsed_ms env) outcome c)"
proof -
  obtain out c where l: "l1_cache_lookup_stage seed ctx = (out, c)" by force
  let ?policy = "coalescing pol"
  have g: "(co_require_cache_enabled ?policy \<and> cache_behavior (cache pol) \<noteq> CacheStore) = False"
    "(co_max_follower_wait_budget_ms ?policy > 0 \<and>
      co_backend_timeout_ms ?policy + co_handoff_buffer_ms ?policy > co_max_follower_wait_budget_ms ?policy) = False"
    "(co_max_active_follower_waiters ?policy > 0 \<and>
      registry_active_waiters (ctx_coalescing_registry ctx) \<ge> co_max_active_follower_waiters ?policy) = False"
    "(co_max_active_follower_waiters_per_shard ?policy > 0 \<and>
      registry_shard_active_waiters seed (ctx_coalescing_registry ctx) (flight_key ctx) \<ge>
        co_max_active_follower_waiters_per_shard ?policy) = False"
    "(so_result out = StageSkipRemaining) = False" "(ctx_coalescing_registry ctx = None) = False"
    using assms(3,4) unfolding follower_waits_def Let_def l by auto
  show ?thesis
    unfolding coalescing_follower_wait_stage_def assms(1,2) Let_def l g by (simp only: option.case prod.case g l fst_conv snd_conv if_False simp_thms)
qed

lemma follower_stage_no_wait:
  assumes "dec_action (ctx_coalescing_decision ctx) = ActFollower" and "ctx_matched_policy ctx = Some pol"
    and "ctx_coalescing_registry ctx \<noteq> None" and "\<not> follower_waits seed ctx pol"
  shows "resolved seed (ctx_coalescing_registry ctx) (flight_key ctx) (Suc 0) (coalescing_follower_wait_stage seed rocks env ctx)"
proof -
  obtain out c where l: "l1_cache_lookup_stage seed ctx = (out, c)" by force
  have hit: "resolved seed (ctx_coalescing_registry ctx) (flight_key ctx) (Suc 0) (out, follower_hit seed [CO_FollowerL1Hit] c)"
    if "so_result out = StageSkipRemaining"
    using resolved_hit [of out c seed "[CO_FollowerL1Hit]"] l1_lookup_frame [of seed ctx] l1_lookup_out [of seed ctx] l that
    by (simp add: flight_key_def)
  from assms hit show ?thesis
    unfolding coalescing_follower_wait_stage_def follower_waits_def Let_def l by (auto simp: resolved_bypass)
qed

text \<open>
  (C11) A follower always resolves. Once a request has joined a flight as a follower, its stage either asks for an
  immediate response or hands the request on as a bypass of its own, whatever the guards, the outcome of the wait and
  the caches the other threads leave; it never ends the pipeline with an error and never stays a follower. In every
  case its waiter has left the registry it found after the wait (or before, if it did not wait): once, except when the
  leader reported a response too large to hand over, in which case the registry loses two waiters for one follower.
\<close>

theorem follower_resolves:
  assumes "dec_action (ctx_coalescing_decision ctx) = ActFollower" and "ctx_matched_policy ctx = Some pol"
    and "ctx_coalescing_registry ctx \<noteq> None" and "we_registry env \<noteq> None"
  shows "let (outcome, c) = follower_block seed env (snd (l1_cache_lookup_stage seed ctx));
      r = coalescing_follower_wait_stage seed rocks env ctx;
      waits = follower_waits seed ctx pol;
      twice = (waits \<and> fst outcome = WaitTooLargeForHandoff \<and> so_result (fst (l1_cache_lookup_stage seed c)) \<noteq> StageSkipRemaining)
    in (if so_result (fst r) = StageSkipRemaining then ctx_should_return_immediate_response (snd r)
        else so_result (fst r) = StageContinue \<and> dec_action (ctx_coalescing_decision (snd r)) = ActBypass) \<and>
       ctx_coalescing_registry (snd r) =
         ((\<lambda>g. registry_remove_waiter seed g (flight_key ctx)) ^^ (if twice then 2 else Suc 0))
           (if waits then registry_exit_wait seed (we_registry env) (flight_key ctx) else ctx_coalescing_registry ctx)"
proof -
  let ?c0 = "snd (l1_cache_lookup_stage seed ctx)"
  obtain outcome c where b: "follower_block seed env ?c0 = (outcome, c)" by (cases "follower_block seed env ?c0")
  have k: "flight_key ?c0 = flight_key ctx" by (simp add: flight_key_def)
  have c: "ctx_coalescing_registry c = registry_exit_wait seed (we_registry env) (flight_key ctx)" "flight_key c = flight_key ctx"
    using follower_block_frame [of seed env ?c0] by (simp_all add: b k)
  show ?thesis
  proof (cases "follower_waits seed ctx pol")
    case True
    have "ctx_coalescing_registry c \<noteq> None" using c assms(4) by simp
    from resolved_after_wake [OF this, of seed outcome rocks "we_probe_elapsed_ms env"]
    show ?thesis using True c by (simp add: follower_stage_waits [OF assms(1-3) True] b resolved_def Let_def)
  next
    case False
    then show ?thesis using follower_stage_no_wait [OF assms(1-3) False] by (simp add: b resolved_def Let_def)
  qed
qed

definition follower_ctx :: "'db ApgTransformContext" where
  "follower_ctx = ApgTransformContext_default\<lparr>ctx_matched_policy := Some (RoutePolicy_default\<lparr>route_id := Some ''orders''\<rparr>),
     ctx_coalescing_registry := Some fresh_registry,
     ctx_coalescing_decision := \<lparr>dec_action = ActFollower, dec_reason = RsnFollowerJoined, dec_key = ''k'', dec_lifecycle_generation = 1\<rparr>\<rparr>"

theorem follower_resolves_witness:
  "let r = coalescing_follower_wait_stage \<lparr>k0 = 1, k1 = 2\<rparr> map_rocks
      \<lparr>we_wakes = [], we_registry = Some fresh_registry, we_l1_cache = None, we_l2_cache = None, we_probe_elapsed_ms = 0\<rparr> follower_ctx
   in (so_result (fst r) = StageSkipRemaining \<and> ctx_should_return_immediate_response (snd r)) \<or>
      (so_result (fst r) = StageContinue \<and> dec_action (ctx_coalescing_decision (snd r)) = ActBypass)"
proof -
  let ?env = "\<lparr>we_wakes = [], we_registry = Some fresh_registry, we_l1_cache = None, we_l2_cache = None, we_probe_elapsed_ms = 0\<rparr> :: (string \<rightharpoonup> string) WaitEnv"
  have "dec_action (ctx_coalescing_decision (follower_ctx :: (string \<rightharpoonup> string) ApgTransformContext)) = ActFollower"
    "ctx_matched_policy (follower_ctx :: (string \<rightharpoonup> string) ApgTransformContext) = Some (RoutePolicy_default\<lparr>route_id := Some ''orders''\<rparr>)"
    "ctx_coalescing_registry (follower_ctx :: (string \<rightharpoonup> string) ApgTransformContext) \<noteq> None" "we_registry ?env \<noteq> None"
    by (simp_all add: follower_ctx_def)
  from follower_resolves [OF this, of "\<lparr>k0 = 1, k1 = 2\<rparr>" map_rocks] show ?thesis
    by (auto simp: Let_def split: prod.splits if_splits)
qed

section \<open>A leader whose store is not queued\<close>

lemma enqueue_store_note: "so_note (fst (enqueue_store seed now_ms key ttl ctx)) \<in> {Some ''enqueued'', Some ''queue-full''}"
  by (simp add: enqueue_store_def case_prod_beta Let_def cont_def)

lemma async_store_frame:
  assumes "so_note (fst (l2_cache_async_store_enqueue_stage seed now_ms ctx)) \<notin> {Some ''enqueued'', Some ''queue-full''}"
  shows "snd (l2_cache_async_store_enqueue_stage seed now_ms ctx) \<in> {ctx, runtime_event RM_L2StoreOversizedSkipped ctx}"
proof -
  define P where "P r \<longleftrightarrow> so_note (fst r) \<in> {Some ''enqueued'', Some ''queue-full''} \<or>
    snd r \<in> {ctx, runtime_event RM_L2StoreOversizedSkipped ctx}" for r :: "StageOutput \<times> 'a ApgTransformContext"
  have "P (cont n, ctx)" "P (cont n, runtime_event RM_L2StoreOversizedSkipped ctx)" "P (enqueue_store seed now_ms key ttl ctx)"
    for n key ttl using enqueue_store_note [of seed now_ms key ttl ctx] by (simp_all add: P_def)
  then have "P (l2_cache_async_store_enqueue_stage seed now_ms ctx)"
    by (simp add: l2_cache_async_store_enqueue_stage_def split: option.split L2Key.split)
  with assms show ?thesis by (simp add: P_def)
qed

text \<open>
  (C32) A leader's large response can stay unpublished. When the body of a valid leader response is larger than an L1
  slot but fits the follower buffer, the completion stage leaves the flight to the worker; if the store stage before it
  did not queue a job (no L2 cache or worker queue, a body over the queue's limit, no time to live, a selection that is
  not admitted) no worker has a job to publish it from, and the two stages together leave the registry exactly as it
  was: the flight stays in flight. The case of a full queue is not part of the statement.
\<close>

theorem large_leader_response_unpublished:
  assumes "dec_action (ctx_coalescing_decision ctx) = ActLeader" and "ctx_coalescing_registry ctx \<noteq> None"
    and "ctx_cache_key_ready ctx" and "200 \<le> ctx_response_status_code ctx" and "ctx_response_status_code ctx < 300"
    and "ctx_response_body ctx \<noteq> None" and "kL1MaxBodySize < ctx_response_body_len ctx" and "ctx_response_body_len ctx \<le> kL2BodyBufSize"
    and "so_note (fst (l2_cache_async_store_enqueue_stage seed now_ms ctx)) \<notin> {Some ''enqueued'', Some ''queue-full''}"
  shows "let r = coalescing_leader_completion_stage seed now_ms' (snd (l2_cache_async_store_enqueue_stage seed now_ms ctx))
    in so_note (fst r) = Some ''awaiting-l2-completion'' \<and> ctx_coalescing_registry (snd r) = ctx_coalescing_registry ctx"
proof -
  have "decide_coalescing_completion_handoff (ctx_response_body_len ctx) = HandL2Completion"
    using assms(7,8) by (simp add: decide_coalescing_completion_handoff_def)
  then have "so_note (fst (coalescing_leader_completion_stage seed now_ms' c)) = Some ''awaiting-l2-completion'' \<and>
      ctx_coalescing_registry (snd (coalescing_leader_completion_stage seed now_ms' c)) = ctx_coalescing_registry ctx"
    if "c = ctx \<or> c = runtime_event RM_L2StoreOversizedSkipped ctx" for c
    using that assms(1-8) by (auto simp: coalescing_leader_completion_stage_def cont_def runtime_event_def)
  then show ?thesis using async_store_frame [OF assms(9)] by (simp add: Let_def)
qed

definition leader_ctx :: "'db ApgTransformContext" where
  "leader_ctx = ApgTransformContext_default\<lparr>ctx_matched_policy := Some (RoutePolicy_default\<lparr>route_id := Some ''orders'',
       cache := CachePolicy_default\<lparr>cache_behavior := CacheStore, cache_ttl_seconds := 60\<rparr>\<rparr>),
     ctx_coalescing_registry := Some fresh_registry, ctx_cache_key_ready := True, ctx_response_status_code := 200,
     ctx_response_body := Some ''x'', ctx_response_body_len := 4000\<rparr>"

theorem large_leader_response_unpublished_witness:
  "so_note (fst (coalescing_leader_completion_stage \<lparr>k0 = 1, k1 = 2\<rparr> 7
      (snd (l2_cache_async_store_enqueue_stage \<lparr>k0 = 1, k1 = 2\<rparr> 5 (leader_ctx :: unit ApgTransformContext))))) =
    Some ''awaiting-l2-completion''"
proof -
  let ?c = "leader_ctx :: unit ApgTransformContext"
  have f: "dec_action (ctx_coalescing_decision ?c) = ActLeader" "ctx_coalescing_registry ?c \<noteq> None" "ctx_cache_key_ready ?c"
    "200 \<le> ctx_response_status_code ?c" "ctx_response_status_code ?c < 300" "ctx_response_body ?c \<noteq> None"
    "kL1MaxBodySize < ctx_response_body_len ?c" "ctx_response_body_len ?c \<le> kL2BodyBufSize"
    by (simp_all add: leader_ctx_def ApgTransformContext_default_def kL1MaxBodySize_def kL2BodyBufSize_def)
  have "so_note (fst (l2_cache_async_store_enqueue_stage \<lparr>k0 = 1, k1 = 2\<rparr> 5 ?c)) \<notin> {Some ''enqueued'', Some ''queue-full''}"
    by (simp add: l2_cache_async_store_enqueue_stage_def leader_ctx_def ApgTransformContext_default_def cont_def)
  from large_leader_response_unpublished [OF f this, of 7] show ?thesis by (simp add: Let_def)
qed

end
