(* ===== verification/Extproc_Headers.thy ===== *)
theory Extproc_Headers
  imports Header_Stages Json_Transform
begin

text \<open>
  What the external processor reads of Envoy's messages and what it answers: the views of the header maps
  (\<^verbatim>\<open>src/extproc/header_view.cpp\<close>), the kinds of messages (\<^verbatim>\<open>src/extproc/request_runtime.cpp\<close>), the responses
  (\<^verbatim>\<open>src/extproc/bytetaper_to_envoy.cpp\<close>, with the header names of \<^verbatim>\<open>include/extproc/reporting_headers.h\<close>) and the
  reasons for leaving a body alone (\<^verbatim>\<open>src/safety/fail_open.cpp\<close>). Of a protobuf message the model keeps the fields
  the code sets; every header is set with the action overwrite-or-add.
\<close>

section \<open>Header views\<close>

record HeaderValue =
  hv_key :: string
  hv_value :: string
  hv_raw_value :: string

type_synonym HeaderMap = "HeaderValue list"

definition header_value :: "HeaderValue \<Rightarrow> string" where
  "header_value h = (if hv_raw_value h = [] then hv_value h else hv_raw_value h)"

record RequestHeaderView =
  rv_path :: "string option"
  rv_method :: "string option"
  rv_accept_encoding :: "string option"
  rv_authorization :: "string option"
  rv_cookie :: "string option"

definition RequestHeaderView_default :: RequestHeaderView where
  "RequestHeaderView_default =
     \<lparr>rv_path = None, rv_method = None, rv_accept_encoding = None, rv_authorization = None, rv_cookie = None\<rparr>"

definition scan_request_headers :: "HeaderMap \<Rightarrow> RequestHeaderView" where
  "scan_request_headers headers =
     fold (\<lambda>h view.
         let val = Some (header_value h)
         in if hv_key h = '':path'' then view\<lparr>rv_path := val\<rparr>
            else if hv_key h = '':method'' then view\<lparr>rv_method := val\<rparr>
            else if hv_key h = ''accept-encoding'' then view\<lparr>rv_accept_encoding := val\<rparr>
            else if hv_key h = ''authorization'' then view\<lparr>rv_authorization := val\<rparr>
            else if hv_key h = ''cookie'' then view\<lparr>rv_cookie := val\<rparr>
            else view)
       headers RequestHeaderView_default"

record ResponseHeaderView =
  pv_status :: "string option"
  pv_content_type :: "string option"
  pv_content_encoding :: "string option"
  pv_content_length :: "string option"

definition scan_response_headers :: "HeaderMap \<Rightarrow> ResponseHeaderView" where
  "scan_response_headers headers =
     fold (\<lambda>h view.
         let val = Some (header_value h)
         in if hv_key h = '':status'' then view\<lparr>pv_status := val\<rparr>
            else if hv_key h = ''content-type'' then view\<lparr>pv_content_type := val\<rparr>
            else if hv_key h = ''content-encoding'' then view\<lparr>pv_content_encoding := val\<rparr>
            else if hv_key h = ''content-length'' then view\<lparr>pv_content_length := val\<rparr>
            else view)
       headers \<lparr>pv_status = None, pv_content_type = None, pv_content_encoding = None, pv_content_length = None\<rparr>"

fun ascii_case_insensitive_equal :: "string \<Rightarrow> string \<Rightarrow> bool" where
  "ascii_case_insensitive_equal [] b \<longleftrightarrow> b = []"
| "ascii_case_insensitive_equal (ca # a) [] \<longleftrightarrow> False"
| "ascii_case_insensitive_equal (ca # a) (cb # b) \<longleftrightarrow> tolower ca = tolower cb \<and> ascii_case_insensitive_equal a b"

definition read_header_value_case_insensitive :: "HeaderMap \<Rightarrow> string \<Rightarrow> string option" where
  "read_header_value_case_insensitive headers header_name =
     map_option header_value (find (\<lambda>h. ascii_case_insensitive_equal (hv_key h) header_name) headers)"

section \<open>Kinds of messages\<close>

datatype ProcessingRequestKind = KindRequestHeaders | KindResponseHeaders | KindResponseBody | KindUnsupported

record ProcessingStreamStats =
  ps_total_messages :: u32
  ps_request_headers_count :: u32
  ps_response_headers_count :: u32
  ps_response_body_count :: u32
  ps_unsupported_count :: u32

definition classify_request_kind :: "bool \<Rightarrow> bool \<Rightarrow> bool \<Rightarrow> ProcessingRequestKind" where
  "classify_request_kind has_request_headers has_response_headers has_response_body =
     (if has_request_headers then KindRequestHeaders
      else if has_response_headers then KindResponseHeaders
      else if has_response_body then KindResponseBody
      else KindUnsupported)"

definition record_request_kind :: "ProcessingRequestKind \<Rightarrow> ProcessingStreamStats \<Rightarrow> ProcessingStreamStats" where
  "record_request_kind kind stats =
     (let stats = stats\<lparr>ps_total_messages := ps_total_messages stats + 1\<rparr>
      in case kind of
           KindRequestHeaders \<Rightarrow> stats\<lparr>ps_request_headers_count := ps_request_headers_count stats + 1\<rparr>
         | KindResponseHeaders \<Rightarrow> stats\<lparr>ps_response_headers_count := ps_response_headers_count stats + 1\<rparr>
         | KindResponseBody \<Rightarrow> stats\<lparr>ps_response_body_count := ps_response_body_count stats + 1\<rparr>
         | KindUnsupported \<Rightarrow> stats\<lparr>ps_unsupported_count := ps_unsupported_count stats + 1\<rparr>)"

section \<open>Responses\<close>

record CommonResponse =
  com_set_headers :: "(string \<times> string) list"
  com_body_mutation :: "string option"

record ImmediateResponse =
  imm_status_code :: u16
  imm_body :: string
  imm_set_headers :: "(string \<times> string) list"

datatype ProcessingResponse =
    RespRequestHeaders CommonResponse | RespResponseHeaders CommonResponse | RespResponseBody CommonResponse
  | RespImmediate ImmediateResponse

definition CommonResponse_continue :: CommonResponse where
  "CommonResponse_continue = \<lparr>com_set_headers = [], com_body_mutation = None\<rparr>"

definition add_headers :: "(string \<times> string) list \<Rightarrow> CommonResponse \<Rightarrow> CommonResponse" where
  "add_headers hs common = common\<lparr>com_set_headers := com_set_headers common @ hs\<rparr>"

definition true_false :: "bool \<Rightarrow> string" where
  "true_false b = (if b then ''true'' else ''false'')"

definition map_policy_inactive_reject_immediate_response :: ProcessingResponse where
  "map_policy_inactive_reject_immediate_response =
     RespImmediate \<lparr>imm_status_code = 503, imm_body = [], imm_set_headers = [(''x-bytetaper-policy-inactive'', ''reject'')]\<rparr>"

fun algorithm_name :: "CompressionAlgorithm \<Rightarrow> string option" where
  "algorithm_name AlgBrotli = Some ''br''"
| "algorithm_name AlgZstd = Some ''zstd''"
| "algorithm_name AlgGzip = Some ''gzip''"
| "algorithm_name AlgNone = None"

definition optional_header :: "string \<Rightarrow> string option \<Rightarrow> (string \<times> string) list" where
  "optional_header key val = (case val of None \<Rightarrow> [] | Some v \<Rightarrow> [(key, v)])"

definition compression_headers :: "CompressionDecisionOutput \<Rightarrow> (string \<times> string) list" where
  "compression_headers decision =
     (if \<not> cdo_evaluated decision then []
      else [(''x-bytetaper-compression-candidate'', true_false (cdo_candidate decision))] @
        optional_header ''x-bytetaper-compression-reason'' (compression_skip_reason_to_string (cdo_skip_reason decision)) @
        (if cdo_candidate decision
         then optional_header ''x-bytetaper-compression-algorithm-hint'' (algorithm_name (cdo_algorithm_hint decision)) else []))"

definition apply_compression_decision_headers :: "CompressionDecisionOutput \<Rightarrow> CommonResponse \<Rightarrow> CommonResponse" where
  "apply_compression_decision_headers decision = add_headers (compression_headers decision)"

definition apply_pagination_response_headers :: "'db ApgTransformContext \<Rightarrow> CommonResponse \<Rightarrow> CommonResponse" where
  "apply_pagination_response_headers ctx common =
     (let rm = ctx_request_mutation ctx
      in if \<not> rm_applied rm then common
         else add_headers ([(''x-bytetaper-pagination-applied'', ''true'')] @
                optional_header ''x-bytetaper-pagination-reason'' (rm_reason rm) @
                [(''x-bytetaper-pagination-limit'', show_u32 (rm_limit_to_apply rm))]) common)"

definition apply_pagination_request_headers :: "'db ApgTransformContext \<Rightarrow> CommonResponse \<Rightarrow> CommonResponse" where
  "apply_pagination_request_headers ctx common =
     (if \<not> rm_applied (ctx_request_mutation ctx) then common
      else add_headers [('':path'', rm_path (ctx_request_mutation ctx))] common)"

definition cache_hit_headers :: "'db ApgTransformContext \<Rightarrow> CacheEntry \<Rightarrow> (string \<times> string) list" where
  "cache_hit_headers ctx entry =
     (let original = ent_original_body_len entry; len = ent_body_len entry
      in (if ent_content_type entry \<noteq> [] then [(''content-type'', ent_content_type entry)] else []) @
         [(''x-bytetaper-cached-response'', ''true''), (''x-bytetaper-extproc-response-body'', ''true''),
          (''x-bytetaper-waste-removed-fields'', show_nat (unat (ent_removed_fields entry))),
          (''x-bytetaper-waste-saved-bytes'', show_nat (if original > 0 \<and> original > len then original - len else 0)),
          (''x-bytetaper-original-response-bytes'', show_nat (if original > 0 then original else len)),
          (''x-bytetaper-optimized-response-bytes'', show_nat len),
          (''x-bytetaper-transform-applied'', true_false (ent_removed_fields entry > 0))] @
         optional_header ''x-bytetaper-cache-layer'' (ctx_cache_layer ctx))"

text \<open>An answer from the cache, with the compression decision taken again for the cached response.\<close>

definition map_cache_hit_to_immediate_response ::
  "'db ApgTransformContext \<Rightarrow> ProcessingResponse option \<times> 'db ApgTransformContext" where
  "map_cache_hit_to_immediate_response ctx =
     (if \<not> ctx_should_return_immediate_response ctx then (None, ctx)
      else
        (let entry = ctx_cached_response ctx;
             body = (case ent_body entry of None \<Rightarrow> [] | Some b \<Rightarrow> take (ent_body_len entry) b);
             ctx' = (if (case ctx_matched_policy ctx of None \<Rightarrow> False | Some p \<Rightarrow> cmp_enabled (compression p)) then
                       snd (compression_decision_stage (ctx
                         \<lparr>ctx_response_status_code := ent_status_code entry,
                          ctx_response_content_type := strncpy_z (kCacheContentTypeMaxLen - 1) (ent_content_type entry),
                          ctx_response_content_type_len := length (strncpy_z (kCacheContentTypeMaxLen - 1) (ent_content_type entry)),
                          ctx_response_body_len := ent_body_len entry, ctx_response_body_size_known := True\<rparr>))
                     else ctx);
             extra = (if (case ctx_matched_policy ctx of None \<Rightarrow> False | Some p \<Rightarrow> cmp_enabled (compression p))
                      then compression_headers (ctx_compression_decision ctx') else [])
         in (Some (RespImmediate \<lparr>imm_status_code = ent_status_code entry, imm_body = body,
               imm_set_headers = cache_hit_headers ctx entry @ extra\<rparr>), ctx')))"

section \<open>Reasons for leaving a body alone\<close>

datatype FailOpenReason =
    ReasonNone | ReasonSkipUnsupported | ReasonInvalidInput | ReasonOutputTooSmall | ReasonInvalidJsonSafeError
  | ReasonPayloadTooLarge | ReasonNon2xxResponse | ReasonNonJsonResponse | ReasonPolicyNotFound | ReasonTimeout
  | ReasonInvalidPolicy | ReasonObserveMode | ReasonUnknownError

record FailOpenDecision =
  fo_should_mutate :: bool
  fo_reason :: FailOpenReason

fun evaluate_filter_safety :: "FlatJsonFilterStatus \<Rightarrow> FailOpenDecision" where
  "evaluate_filter_safety FfOk = \<lparr>fo_should_mutate = True, fo_reason = ReasonNone\<rparr>"
| "evaluate_filter_safety FfSkipUnsupported = \<lparr>fo_should_mutate = False, fo_reason = ReasonSkipUnsupported\<rparr>"
| "evaluate_filter_safety FfInvalidInput = \<lparr>fo_should_mutate = False, fo_reason = ReasonInvalidInput\<rparr>"
| "evaluate_filter_safety FfOutputTooSmall = \<lparr>fo_should_mutate = False, fo_reason = ReasonOutputTooSmall\<rparr>"
| "evaluate_filter_safety FfInvalidJsonSafeError = \<lparr>fo_should_mutate = False, fo_reason = ReasonInvalidJsonSafeError\<rparr>"
| "evaluate_filter_safety FfTimeout = \<lparr>fo_should_mutate = False, fo_reason = ReasonTimeout\<rparr>"

fun get_fail_open_reason_string :: "FailOpenReason \<Rightarrow> string" where
  "get_fail_open_reason_string ReasonNone = ''none''"
| "get_fail_open_reason_string ReasonSkipUnsupported = ''skip_unsupported''"
| "get_fail_open_reason_string ReasonInvalidInput = ''invalid_input''"
| "get_fail_open_reason_string ReasonOutputTooSmall = ''output_too_small''"
| "get_fail_open_reason_string ReasonInvalidJsonSafeError = ''invalid_json_safe_error''"
| "get_fail_open_reason_string ReasonPayloadTooLarge = ''payload_too_large''"
| "get_fail_open_reason_string ReasonNon2xxResponse = ''non_2xx_response''"
| "get_fail_open_reason_string ReasonNonJsonResponse = ''non_json_response''"
| "get_fail_open_reason_string ReasonPolicyNotFound = ''policy_not_found''"
| "get_fail_open_reason_string ReasonTimeout = ''timeout''"
| "get_fail_open_reason_string ReasonInvalidPolicy = ''invalid_policy''"
| "get_fail_open_reason_string ReasonObserveMode = ''observe_mode''"
| "get_fail_open_reason_string ReasonUnknownError = ''unknown_error''"

end
