(* ===== verification/Default_Pipelines.thy ===== *)
theory Default_Pipelines
  imports Invalidation Coalescing_Stages Header_Stages
begin

text \<open>
  The stage lists of the external processor and their specialisation to a route
  (\<^verbatim>\<open>src/extproc/default_pipelines.cpp\<close>). A function pointer is the name of a stage; the address of a route is its
  position in the snapshot's route table. \<open>StageEnv\<close> holds what a stage obtains from outside: the process hash seed,
  the database operations, the clock each stage reads, and what a blocking wait observes.
\<close>

section \<open>Stages by name\<close>

datatype PipelineStage =
    MutationInvalidationPrepare | CacheKeyPrepare | FieldVariantAdmission | L1CacheLookup | L1VariantLookup
  | CoalescingDecide | CoalescingFollowerWait | L2AsyncLookupEnqueue | PaginationRequestMutation
  | MutationInvalidationApply | CompressionDecide | L1CacheStore | L1VariantStore | L2AsyncStoreEnqueue
  | CoalescingLeaderCompletion

record 'db StageEnv =
  se_seed :: HashSeed
  se_rocks :: "'db RocksDb"
  se_now_ms :: "PipelineStage \<Rightarrow> u64"
  se_wait :: "'db WaitEnv"

fun stage_of :: "'db StageEnv \<Rightarrow> PipelineStage \<Rightarrow> 'db ApgStage" where
  "stage_of env MutationInvalidationPrepare = mutation_invalidation_prepare_stage"
| "stage_of env CacheKeyPrepare = cache_key_prepare_stage"
| "stage_of env FieldVariantAdmission = field_variant_admission_stage"
| "stage_of env L1CacheLookup = l1_cache_lookup_stage (se_seed env)"
| "stage_of env L1VariantLookup = l1_variant_lookup_stage (se_seed env)"
| "stage_of env CoalescingDecide = coalescing_decision_stage (se_seed env)"
| "stage_of env CoalescingFollowerWait = coalescing_follower_wait_stage (se_seed env) (se_rocks env) (se_wait env)"
| "stage_of env L2AsyncLookupEnqueue = l2_cache_async_lookup_enqueue_stage (se_seed env) (se_now_ms env L2AsyncLookupEnqueue)"
| "stage_of env PaginationRequestMutation = pagination_request_mutation_stage"
| "stage_of env MutationInvalidationApply = mutation_invalidation_apply_stage"
| "stage_of env CompressionDecide = compression_decision_stage"
| "stage_of env L1CacheStore = l1_cache_store_stage (se_seed env)"
| "stage_of env L1VariantStore = l1_variant_store_stage (se_seed env)"
| "stage_of env L2AsyncStoreEnqueue = l2_cache_async_store_enqueue_stage (se_seed env) (se_now_ms env L2AsyncStoreEnqueue)"
| "stage_of env CoalescingLeaderCompletion =
     coalescing_leader_completion_stage (se_seed env) (se_now_ms env CoalescingLeaderCompletion)"

definition run_named :: "'db StageEnv \<Rightarrow> PipelineStage list \<Rightarrow> 'db ApgTransformContext \<Rightarrow> StageOutput \<times> 'db ApgTransformContext" where
  "run_named env stages = run_pipeline (map (stage_of env) stages)"

section \<open>The default lists\<close>

definition kLookupStages :: "PipelineStage list" where
  "kLookupStages =
     [MutationInvalidationPrepare, CacheKeyPrepare, FieldVariantAdmission, L1CacheLookup, L1VariantLookup,
      CoalescingDecide, CoalescingFollowerWait, L2AsyncLookupEnqueue, PaginationRequestMutation]"

definition kResponseStages :: "PipelineStage list" where
  "kResponseStages = [MutationInvalidationApply, CompressionDecide]"

definition kStoreStages :: "PipelineStage list" where
  "kStoreStages = [L1CacheStore, L1VariantStore, L2AsyncStoreEnqueue, CoalescingLeaderCompletion]"

section \<open>The lists of a route\<close>

record CompiledRouteRuntime =
  crr_lookup_stages :: "PipelineStage list"
  crr_store_stages :: "PipelineStage list"
  crr_response_stages :: "PipelineStage list"
  crr_policy :: nat

definition kMaxCompiledRoutesCapacity :: nat where
  "kMaxCompiledRoutesCapacity = 64"

text \<open>The first argument is the address of the route.\<close>

definition compile_route_runtime :: "nat \<Rightarrow> RoutePolicy \<Rightarrow> CompiledRouteRuntime" where
  "compile_route_runtime addr policy =
     (let stores = cache_behavior (cache policy) = CacheStore;
          variants = fv_enabled (cache_field_variant (cache policy));
          invalidates = inv_enabled (cache_invalidation (cache policy));
          coalesces = co_enabled (coalescing policy)
      in \<lparr>crr_lookup_stages =
            (if invalidates then [MutationInvalidationPrepare] else []) @
            (if stores then [CacheKeyPrepare] @ (if variants then [FieldVariantAdmission] else []) @ [L1CacheLookup] @
               (if variants then [L1VariantLookup] else []) else []) @
            (if coalesces then [CoalescingDecide, CoalescingFollowerWait] else []) @
            (if stores then [L2AsyncLookupEnqueue] else []) @
            (if pag_enabled (pagination policy) then [PaginationRequestMutation] else []),
          crr_store_stages =
            (if stores then [L1CacheStore] @ (if variants then [L1VariantStore] else []) @ [L2AsyncStoreEnqueue] else []) @
            (if coalesces then [CoalescingLeaderCompletion] else []),
          crr_response_stages = (if invalidates then [MutationInvalidationApply] else []) @ [CompressionDecide],
          crr_policy = addr\<rparr>)"

definition compile_route_runtime_table :: "RoutePolicy list \<Rightarrow> CompiledRouteRuntime list" where
  "compile_route_runtime_table policies =
     (let limit = (if length policies > kMaxCompiledRoutesCapacity then kMaxCompiledRoutesCapacity else length policies)
      in map (\<lambda>i. compile_route_runtime i (policies ! i)) [0..<limit])"

definition find_compiled_route_runtime :: "CompiledRouteRuntime list \<Rightarrow> nat option \<Rightarrow> CompiledRouteRuntime option" where
  "find_compiled_route_runtime table addr =
     (case addr of None \<Rightarrow> None | Some a \<Rightarrow> find (\<lambda>r. crr_policy r = a) table)"

section \<open>What a run of stages keeps\<close>

text \<open>
  A condition on the context that every stage of a kind keeps, and that does not look at the trace, is kept by a run
  of such stages.
\<close>

locale confined_stages =
  fixes env :: "'db StageEnv" and ok :: "PipelineStage \<Rightarrow> bool" and P :: "'db ApgTransformContext \<Rightarrow> bool"
  assumes trace: "P (ctx\<lparr>ctx_trace_length := n, ctx_trace_buffer := b\<rparr>) = P ctx"
    and stage: "ok st \<Longrightarrow> P ctx \<Longrightarrow> P (snd (stage_of env st ctx))"
begin

lemma traced: "P (append_trace t ctx) = P ctx"
proof (cases "ctx_trace_buffer ctx")
  case None
  then show ?thesis by (simp add: append_trace_def)
next
  case (Some b)
  have "append_trace t ctx = ctx \<or>
      append_trace t ctx = ctx\<lparr>ctx_trace_length := ctx_trace_length ctx + 1,
        ctx_trace_buffer := Some (take (ctx_trace_length ctx) b @ [t])\<rparr>"
    using Some by (auto simp: append_trace_def)
  then show ?thesis using trace by metis
qed

lemma stages_kept: "list_all ok sts \<Longrightarrow> P ctx \<Longrightarrow> P (snd (run_stages (map (stage_of env) sts) out ctx))"
proof (induction sts arbitrary: out ctx)
  case (Cons st sts)
  obtain o' c where r: "stage_of env st ctx = (o', c)" by (cases "stage_of env st ctx")
  have "P c" using stage [of st ctx] Cons.prems r by simp
  then show ?case using Cons r by (simp add: traced Let_def)
qed simp

lemma kept: "list_all ok sts \<Longrightarrow> P ctx \<Longrightarrow> P (snd (run_named env sts ctx))"
  unfolding run_named_def run_pipeline_def by (rule stages_kept) (simp_all add: trace)

end

end
