(* ===== verification/Pipeline_Safety.thy ===== *)
theory Pipeline_Safety
  imports Default_Pipelines Extproc_Headers
begin

text \<open>
  What the pipelines do with a request that bypasses the cache, and with a request that selects fields on a route that
  materialises field variants.
\<close>

section \<open>Requests that have no key\<close>

text \<open>
  A request on which the cache is bypassed has no key, and whatever answers it did not come from a cache: only the
  hand-over between coalesced requests can have set its response.
\<close>

definition unkeyed :: "'db ApgTransformContext \<Rightarrow> bool" where
  "unkeyed ctx \<longleftrightarrow> ctx_cache_auth_bypass ctx \<and> \<not> ctx_cache_key_ready ctx \<and> \<not> ctx_variant_cache_key_ready ctx \<and>
     (ctx_should_return_immediate_response ctx \<longrightarrow> ctx_cache_layer ctx = Some ''COALESCED'')"

lemma unkeyed_updates [simp]:
  "unkeyed (ctx\<lparr>ctx_trace_length := n, ctx_trace_buffer := b\<rparr>) = unkeyed ctx"
  "unkeyed (ctx\<lparr>ctx_cache_metrics := m\<rparr>) = unkeyed ctx"
  "unkeyed (ctx\<lparr>ctx_coalescing_metrics := cm\<rparr>) = unkeyed ctx"
  "unkeyed (ctx\<lparr>ctx_runtime_metrics := rm\<rparr>) = unkeyed ctx"
  "unkeyed (ctx\<lparr>ctx_probe_metrics := pm\<rparr>) = unkeyed ctx"
  "unkeyed (ctx\<lparr>ctx_mutation_invalidation := pl\<rparr>) = unkeyed ctx"
  "unkeyed (ctx\<lparr>ctx_route_cache_epoch_store := es\<rparr>) = unkeyed ctx"
  "unkeyed (ctx\<lparr>ctx_coalescing_decision := d\<rparr>) = unkeyed ctx"
  "unkeyed (ctx\<lparr>ctx_coalescing_registry := r\<rparr>) = unkeyed ctx"
  "unkeyed (ctx\<lparr>ctx_l1_cache := c\<rparr>) = unkeyed ctx"
  "unkeyed (ctx\<lparr>ctx_l2_cache := l\<rparr>) = unkeyed ctx"
  "unkeyed (ctx\<lparr>ctx_worker_queue := q\<rparr>) = unkeyed ctx"
  "unkeyed (ctx\<lparr>ctx_variant_admission_passed := a\<rparr>) = unkeyed ctx"
  "unkeyed (ctx\<lparr>ctx_variant_registry := vr\<rparr>) = unkeyed ctx"
  "unkeyed (ctx\<lparr>ctx_request_mutation := x\<rparr>) = unkeyed ctx"
  "unkeyed (ctx\<lparr>ctx_compression_decision := cd\<rparr>) = unkeyed ctx"
  by (simp_all add: unkeyed_def)

lemmas small_steps = tally_def set_plan_def stage_event_def runtime_event_def flight_event_def drop_waiter_def
  set_bypass_def fall_back_def add_active_follower_def complete_flight_def

lemma unkeyed_small_steps [simp]:
  "unkeyed (tally e ctx) = unkeyed ctx" "unkeyed (set_plan pl ctx) = unkeyed ctx"
  "unkeyed (stage_event e ctx) = unkeyed ctx" "unkeyed (runtime_event re ctx) = unkeyed ctx"
  "unkeyed (flight_event fe ctx) = unkeyed ctx" "unkeyed (drop_waiter seed ctx) = unkeyed ctx"
  "unkeyed (set_bypass ctx) = unkeyed ctx" "unkeyed (fall_back seed ctx) = unkeyed ctx"
  "unkeyed (add_active_follower d ctx) = unkeyed ctx" "unkeyed (complete_flight seed st now_ms ctx) = unkeyed ctx"
  by (simp_all add: small_steps split: prod.splits)

lemma unkeyed_flight_events [simp]: "unkeyed (fold flight_event es ctx) = unkeyed ctx"
  by (induction es arbitrary: ctx) simp_all

lemma unkeyed_lookups:
  assumes "unkeyed ctx"
  shows "so_result (fst (l1_cache_lookup_stage seed ctx)) = StageContinue" "snd (l1_cache_lookup_stage seed ctx) = ctx"
    "snd (l1_variant_lookup_stage seed ctx) = ctx"
    "try_coalescing_follower_sync_l2_probe seed rocks elapsed path ctx = (cont ''preconditions-failed-no-probe'', ctx)"
    "snd (l2_cache_async_lookup_enqueue_stage seed now_ms ctx) = ctx"
  using assms
  by (auto simp: unkeyed_def l1_cache_lookup_stage_def l1_variant_lookup_stage_def try_coalescing_follower_sync_l2_probe_def
      l2_cache_async_lookup_enqueue_stage_def l2_key_def cont_def split: option.splits)

lemma unkeyed_key_prepare: "unkeyed ctx \<Longrightarrow> unkeyed (snd (cache_key_prepare_stage ctx))"
  by (auto simp: unkeyed_def cache_key_prepare_stage_def Let_def split: option.splits)

lemma unkeyed_l1_lookup:
  assumes "unkeyed ctx"
  obtains out where "l1_cache_lookup_stage seed ctx = (out, ctx)" "so_result out = StageContinue"
  using unkeyed_lookups(1,2) [OF assms, of seed] by (cases "l1_cache_lookup_stage seed ctx") simp

lemma unkeyed_serve_shared: "unkeyed ctx \<Longrightarrow> unkeyed (serve_shared shared ctx)"
  by (simp add: unkeyed_def serve_shared_def serve_def)

lemma unkeyed_follower_ends [simp]:
  "unkeyed (follower_hit seed es ctx) = unkeyed ctx" "unkeyed (snd (follower_fallback seed nt es ctx)) = unkeyed ctx"
  "unkeyed (snd (follower_bypass seed nt es ctx)) = unkeyed ctx"
  by (simp_all add: follower_hit_def follower_fallback_def follower_bypass_def)

lemma unkeyed_l1_or_fallback:
  assumes "unkeyed ctx"
  shows "unkeyed (snd (l1_or_fallback seed nt es ctx))"
proof -
  obtain out where "l1_cache_lookup_stage seed ctx = (out, ctx)" "so_result out = StageContinue"
    using unkeyed_l1_lookup [OF assms] .
  then show ?thesis using assms by (simp add: l1_or_fallback_def)
qed

lemma unkeyed_timeout:
  assumes "unkeyed ctx"
  shows "unkeyed (snd (follower_timeout seed rocks elapsed ctx))"
proof -
  obtain out where "l1_cache_lookup_stage seed ctx = (out, ctx)" "so_result out = StageContinue"
    using unkeyed_l1_lookup [OF assms] .
  then show ?thesis
    using assms unkeyed_lookups(4) [OF assms, of seed rocks elapsed ProbeTimeoutFinal]
    by (simp add: follower_timeout_def try_final_cache_probe_def cont_def Let_def)
qed

lemma unkeyed_after_miss: "unkeyed ctx \<Longrightarrow> unkeyed (snd (after_miss seed rocks elapsed result ctx))"
  by (cases result) (simp_all add: unkeyed_timeout unkeyed_l1_or_fallback)

lemma unkeyed_after_wake:
  assumes "unkeyed ctx"
  shows "unkeyed (snd (after_wake seed rocks elapsed outcome ctx))"
proof -
  obtain out where l: "l1_cache_lookup_stage seed ctx = (out, ctx)" "so_result out = StageContinue"
    using unkeyed_l1_lookup [OF assms] .
  note p = unkeyed_lookups(4) [OF assms, of seed rocks elapsed ProbeL2Ready]
  obtain result shared where "outcome = (result, shared)" by (cases outcome)
  with l p assms show ?thesis
    by (cases result; cases shared)
      (simp_all add: after_wake_def cont_def unkeyed_serve_shared unkeyed_after_miss Let_def del: after_miss.simps)
qed

lemma unkeyed_follower_block: "unkeyed ctx \<Longrightarrow> unkeyed (snd (follower_block seed wenv ctx))"
  by (simp add: follower_block_def Let_def)

lemma unkeyed_follower_wait:
  assumes "unkeyed ctx"
  shows "unkeyed (snd (coalescing_follower_wait_stage seed rocks wenv ctx))"
proof -
  obtain out where l: "l1_cache_lookup_stage seed ctx = (out, ctx)" "so_result out = StageContinue"
    using unkeyed_l1_lookup [OF assms] .
  obtain outcome c where b: "follower_block seed wenv ctx = (outcome, c)" by (cases "follower_block seed wenv ctx")
  then have "unkeyed c" using unkeyed_follower_block [OF assms, of seed wenv] by simp
  then have "unkeyed (snd (after_wake seed rocks (we_probe_elapsed_ms wenv) outcome c))" by (rule unkeyed_after_wake)
  then show ?thesis
    using assms
    by (simp add: coalescing_follower_wait_stage_def l b Let_def split: option.split del: unkeyed_updates)
qed

lemma unkeyed_bumps: "unkeyed (snd (apply_bumps rids ctx)) = unkeyed ctx"
proof (induction rids arbitrary: ctx)
  case (Cons rid rids)
  have "unkeyed (record_variant_invalidation rid c) = unkeyed c" for c :: "'a ApgTransformContext"
    by (simp add: record_variant_invalidation_def split: option.split)
  with Cons show ?case by (simp add: Let_def split: prod.split)
qed simp

lemma unkeyed_invalidation:
  "unkeyed ctx \<Longrightarrow> unkeyed (snd (mutation_invalidation_prepare_stage ctx))"
  "unkeyed ctx \<Longrightarrow> unkeyed (snd (mutation_invalidation_apply_stage ctx))"
proof -
  show "unkeyed ctx \<Longrightarrow> unkeyed (snd (mutation_invalidation_prepare_stage ctx))"
    by (simp add: mutation_invalidation_prepare_stage_def Let_def split: option.split)
  obtain b c where "apply_bumps (pl_targets (ctx_mutation_invalidation ctx)) (tally CM_InvalidationApplyAttempt ctx) = (b, c)"
    by fastforce
  moreover from this have "unkeyed c = unkeyed ctx" by (metis snd_conv unkeyed_bumps unkeyed_small_steps(1))
  ultimately show "unkeyed ctx \<Longrightarrow> unkeyed (snd (mutation_invalidation_apply_stage ctx))"
    by (cases b) (simp_all add: mutation_invalidation_apply_stage_def Let_def)
qed

lemma unkeyed_admission: "unkeyed ctx \<Longrightarrow> unkeyed (snd (field_variant_admission_stage ctx))"
  by (simp add: field_variant_admission_stage_def Let_def unkeyed_def)

lemma unkeyed_decision: "unkeyed ctx \<Longrightarrow> unkeyed (snd (coalescing_decision_stage seed ctx))"
  by (simp add: coalescing_decision_stage_def Let_def unkeyed_def split: option.split prod.split)

lemma unkeyed_headers:
  "unkeyed ctx \<Longrightarrow> unkeyed (snd (pagination_request_mutation_stage ctx))"
  "unkeyed ctx \<Longrightarrow> unkeyed (snd (compression_decision_stage ctx))"
  by (simp_all add: pagination_request_mutation_stage_def compression_decision_stage_def Let_def unkeyed_def
      split: option.split prod.split)

text \<open>The stores of such a request change neither cache and queue nothing.\<close>

definition same_caches :: "'db ApgTransformContext \<Rightarrow> 'db ApgTransformContext \<Rightarrow> bool" where
  "same_caches ctx ctx' \<longleftrightarrow> ctx_l1_cache ctx' = ctx_l1_cache ctx \<and> ctx_l2_cache ctx' = ctx_l2_cache ctx \<and>
     ctx_worker_queue ctx' = ctx_worker_queue ctx"

lemma unkeyed_l1_store:
  assumes "unkeyed ctx"
  shows "unkeyed (snd (l1_cache_store_stage seed ctx)) \<and> same_caches ctx (snd (l1_cache_store_stage seed ctx))"
proof -
  have "\<not> ctx_cache_key_ready ctx" using assms by (simp add: unkeyed_def)
  then have "\<exists>e. snd (l1_cache_store_stage seed ctx) = stage_event e (stage_event CM_L1StoreAttempt ctx)"
    by (auto simp: l1_cache_store_stage_def Let_def split: option.split)
  with assms show ?thesis by (auto simp: same_caches_def stage_event_def)
qed

lemma unkeyed_stores:
  assumes "unkeyed ctx"
  shows "snd (l1_variant_store_stage seed ctx) = ctx"
    "unkeyed (snd (l2_cache_async_store_enqueue_stage seed now_ms ctx)) \<and>
     same_caches ctx (snd (l2_cache_async_store_enqueue_stage seed now_ms ctx))"
    "unkeyed (snd (coalescing_leader_completion_stage seed now_ms ctx)) \<and>
     same_caches ctx (snd (coalescing_leader_completion_stage seed now_ms ctx))"
proof -
  have k: "\<not> ctx_cache_key_ready ctx" "\<not> ctx_variant_cache_key_ready ctx" using assms by (simp_all add: unkeyed_def)
  show "snd (l1_variant_store_stage seed ctx) = ctx"
    using k by (simp add: l1_variant_store_stage_def split: option.split)
  have "snd (l2_cache_async_store_enqueue_stage seed now_ms ctx) \<in> {ctx, runtime_event RM_L2StoreOversizedSkipped ctx}"
    using k by (simp add: l2_cache_async_store_enqueue_stage_def l2_key_def split: option.split)
  then show "unkeyed (snd (l2_cache_async_store_enqueue_stage seed now_ms ctx)) \<and>
     same_caches ctx (snd (l2_cache_async_store_enqueue_stage seed now_ms ctx))"
    using assms by (auto simp: same_caches_def runtime_event_def)
  have "snd (coalescing_leader_completion_stage seed now_ms ctx) \<in> {ctx, complete_flight seed NotCacheable now_ms ctx, complete_flight seed Failed now_ms ctx}"
    using k by (simp add: coalescing_leader_completion_stage_def)
  then show "unkeyed (snd (coalescing_leader_completion_stage seed now_ms ctx)) \<and>
     same_caches ctx (snd (coalescing_leader_completion_stage seed now_ms ctx))"
    using assms by (auto simp: same_caches_def complete_flight_def)
qed

lemma unkeyed_stage: "unkeyed ctx \<Longrightarrow> unkeyed (snd (stage_of env st ctx))"
  by (cases st) (simp_all add: unkeyed_invalidation unkeyed_key_prepare unkeyed_admission unkeyed_lookups unkeyed_decision
      unkeyed_follower_wait unkeyed_headers unkeyed_l1_store unkeyed_stores)

interpretation unkeyed_run: confined_stages env "\<lambda>_. True" unkeyed for env :: "'db StageEnv"
  by unfold_locales (simp_all add: unkeyed_stage)

text \<open>The response stages touch neither the caches nor the queue nor the registry of flights.\<close>

definition shared_view :: "'db ApgTransformContext \<Rightarrow> L1Cache option \<times> 'db option \<times> WorkerQueue option \<times> InFlightRegistry option" where
  "shared_view ctx = (ctx_l1_cache ctx, ctx_l2_cache ctx, ctx_worker_queue ctx, ctx_coalescing_registry ctx)"

lemma shared_view_bumps: "shared_view (snd (apply_bumps rids ctx)) = shared_view ctx"
proof (induction rids arbitrary: ctx)
  case (Cons rid rids)
  have "shared_view (record_variant_invalidation rid c) = shared_view c" for c :: "'a ApgTransformContext"
    by (simp add: record_variant_invalidation_def shared_view_def tally_def split: option.split)
  moreover have "shared_view (tally e c) = shared_view c" "shared_view (c\<lparr>ctx_route_cache_epoch_store := es\<rparr>) = shared_view c"
    for e es and c :: "'a ApgTransformContext" by (simp_all add: shared_view_def tally_def)
  ultimately show ?case using Cons by (simp add: Let_def split: prod.split)
qed simp

lemma shared_view_apply: "shared_view (snd (mutation_invalidation_apply_stage ctx)) = shared_view ctx"
proof -
  have t: "shared_view (tally e c) = shared_view c" "shared_view (set_plan pl c) = shared_view c"
    for e pl and c :: "'a ApgTransformContext" by (simp_all add: shared_view_def tally_def set_plan_def)
  obtain b c where a: "apply_bumps (pl_targets (ctx_mutation_invalidation ctx)) (tally CM_InvalidationApplyAttempt ctx) = (b, c)"
    by fastforce
  have "shared_view c = shared_view ctx"
    using shared_view_bumps [of "pl_targets (ctx_mutation_invalidation ctx)" "tally CM_InvalidationApplyAttempt ctx"] a t(1) by simp
  with a show ?thesis by (cases b) (simp_all add: mutation_invalidation_apply_stage_def t Let_def)
qed

lemma shared_view_response:
  assumes "st \<in> set kResponseStages"
  shows "shared_view (snd (stage_of env st ctx)) = shared_view ctx"
  using assms
  by (auto simp: kResponseStages_def shared_view_apply)
    (simp add: compression_decision_stage_def shared_view_def Let_def split: prod.split)

interpretation response_run: confined_stages env "\<lambda>st. st \<in> set kResponseStages" "\<lambda>ctx. shared_view ctx = v"
  for env :: "'db StageEnv" and v
  by unfold_locales (simp add: shared_view_def, simp add: shared_view_response)

lemma same_caches_view: "shared_view ctx' = shared_view ctx \<Longrightarrow> same_caches ctx ctx'"
  by (simp add: shared_view_def same_caches_def)

lemma same_caches_store:
  assumes "st \<in> set kStoreStages \<union> set kResponseStages" and "unkeyed ctx \<and> same_caches ctx0 ctx"
  shows "unkeyed (snd (stage_of env st ctx)) \<and> same_caches ctx0 (snd (stage_of env st ctx))"
proof -
  have "same_caches ctx (snd (stage_of env st ctx))"
  proof (cases "st \<in> set kResponseStages")
    case True
    then show ?thesis by (intro same_caches_view shared_view_response)
  next
    case False
    with assms show ?thesis
      by (auto simp: kStoreStages_def unkeyed_l1_store unkeyed_stores) (simp add: same_caches_def)
  qed
  with assms show ?thesis by (auto simp: unkeyed_stage same_caches_def)
qed

interpretation unkeyed_store: confined_stages env "\<lambda>st. st \<in> set kStoreStages \<union> set kResponseStages"
    "\<lambda>ctx. unkeyed ctx \<and> same_caches ctx0 ctx"
  for env :: "'db StageEnv" and ctx0 :: "'db ApgTransformContext"
  by unfold_locales (simp add: same_caches_def, rule same_caches_store)

section \<open>The lookup of a request with a selection\<close>

text \<open>What the first-level lookup depends on.\<close>

definition l1_view :: "'db ApgTransformContext \<Rightarrow> RoutePolicy option \<times> bool \<times> string \<times> L1Cache option \<times> int" where
  "l1_view ctx = (ctx_matched_policy ctx, ctx_cache_key_ready ctx, ctx_cache_key ctx, ctx_l1_cache ctx, ctx_request_epoch_ms ctx)"

lemma l1_view_frame [simp]:
  "l1_view (append_trace t ctx) = l1_view ctx"
  "l1_view (snd (field_variant_admission_stage ctx)) = l1_view ctx"
  "l1_view (keyed_ctx (epoch_ctx ctx e) policy key) = (ctx_matched_policy ctx, True, key, ctx_l1_cache ctx, ctx_request_epoch_ms ctx)"
  by (simp_all add: l1_view_def append_trace_def field_variant_admission_stage_def keyed_ctx_def epoch_ctx_def Let_def
      split: option.split prod.split)

lemma admission_continues: "so_result (fst (field_variant_admission_stage ctx)) = StageContinue"
  by (simp add: field_variant_admission_stage_def cont_def Let_def split: option.split prod.split)

lemma l1_view_hit:
  assumes "l1_view ctx = (Some policy, True, key, Some c, now)" and "cache_behavior (cache policy) = CacheStore"
    and "l1_inv seed c" and "l1_lookup seed c key = Some ent" and "fresh now ent"
  shows "\<exists>m. l1_cache_lookup_stage seed ctx =
    (skip_remaining ''l1-hit'', serve ''L1'' (delivered (Some kL2BodyBufSize) ent) (ctx\<lparr>ctx_cache_metrics := m\<rparr>))"
proof -
  have "ctx_matched_policy ctx = Some policy" "ctx_cache_key_ready ctx" "ctx_cache_key ctx = key" "ctx_l1_cache ctx = Some c"
    "ctx_request_epoch_ms ctx = now" using assms(1) by (simp_all add: l1_view_def)
  then show ?thesis using l1_lookup_stage_eq [of ctx policy c seed] assms(2-5) by simp
qed

lemma raw_key_without_selection:
  assumes "fv_enabled (cache_field_variant (cache policy))" and "prepared_query q = prepared_query (ctx_raw_query req)"
  shows "raw_key_input (epoch_ctx (req\<lparr>ctx_selected_fields := [], ctx_raw_query := q\<rparr>) e) policy = raw_key_input (epoch_ctx req e) policy"
  using assms by (simp add: raw_key_input_def base_key_input_def epoch_ctx_def Let_def)

lemma keys_possible_plain:
  "keys_possible (req\<lparr>ctx_selected_fields := fs, ctx_raw_query := q\<rparr>) policy s r e = keys_possible req policy s r e"
  by (simp add: keys_possible_def cacheable_def)

lemma keys_possible_trace [simp]:
  "keys_possible (req\<lparr>ctx_trace_length := n, ctx_trace_buffer := b\<rparr>) policy s r e = keys_possible req policy s r e"
  by (simp add: keys_possible_def cacheable_def)

lemma prepare_stage_ready:
  assumes "keys_possible ctx policy s r e" and "build_cache_key (raw_key_input (epoch_ctx ctx e) policy) kCacheKeyMaxLen = Some key"
  shows "cache_key_prepare_stage ctx = (cont ''ready'', keyed_ctx (epoch_ctx ctx e) policy key)"
  using assms prepare_stage_eq [of ctx policy s r e] by (simp add: keys_possible_def)

lemma lookup_prefix_hit:
  assumes "keys_possible req policy s r e" and "build_cache_key (raw_key_input (epoch_ctx req e) policy) kCacheKeyMaxLen = Some key"
    and "ctx_l1_cache req = Some c" and "l1_inv (se_seed env) c" and "l1_lookup (se_seed env) c key = Some ent"
    and "fresh (ctx_request_epoch_ms req) ent"
  shows "\<exists>ctx. run_stages (map (stage_of env) ([CacheKeyPrepare, FieldVariantAdmission, L1CacheLookup] @ sts)) out req =
     (skip_remaining ''l1-hit'', append_trace (CHR ''S'') (serve ''L1'' (delivered (Some kL2BodyBufSize) ent) ctx))"
proof -
  let ?k = "append_trace (CHR ''C'') (keyed_ctx (epoch_ctx req e) policy key)"
  obtain o2 a where a: "field_variant_admission_stage ?k = (o2, a)" by (cases "field_variant_admission_stage ?k")
  have o2: "so_result o2 = StageContinue" using admission_continues [of ?k] a by simp
  have "l1_view a = l1_view ?k" using l1_view_frame(2) [of ?k] a by simp
  moreover have m: "ctx_matched_policy req = Some policy" "cache_behavior (cache policy) = CacheStore"
    using assms(1) by (simp_all add: keys_possible_def cacheable_def)
  ultimately have v: "l1_view (append_trace (CHR ''C'') a) = (Some policy, True, key, Some c, ctx_request_epoch_ms req)"
    using assms(3) by simp
  obtain mx where l: "l1_cache_lookup_stage (se_seed env) (append_trace (CHR ''C'') a) =
      (skip_remaining ''l1-hit'', serve ''L1'' (delivered (Some kL2BodyBufSize) ent) ((append_trace (CHR ''C'') a)\<lparr>ctx_cache_metrics := mx\<rparr>))"
    using l1_view_hit [OF v m(2) assms(4-6)] by blast
  show ?thesis
    using prepare_stage_ready [OF assms(1,2)] a o2 l
    by (auto simp: Let_def cont_def skip_remaining_def trace_token_def)
qed

text \<open>
  (C16) On a route that materialises field variants a client's selection is lost when the whole response is cached. The
  key of the first-level lookup leaves the selection out, and that lookup runs before the lookup of the variant: if an
  unexpired response of the same request without \<open>fields\<close> is stored, the lookup pipeline of the route ends with it for
  every selection, and the answer is its whole body.
\<close>

theorem variant_route_serves_whole_body:
  assumes "ctx_matched_policy req = Some policy" and "fv_enabled (cache_field_variant (cache policy))"
    and "\<not> inv_enabled (cache_invalidation (cache policy))"
    and "plain = req\<lparr>ctx_selected_fields := [], ctx_raw_query := q\<rparr>" and "prepared_query q = prepared_query (ctx_raw_query req)"
    and "ctx_cache_key_ready (snd (cache_key_prepare_stage plain))"
    and "ctx_l1_cache req = Some c" and "l1_inv (se_seed env) c"
    and "l1_lookup (se_seed env) c (ctx_cache_key (snd (cache_key_prepare_stage plain))) = Some ent"
    and "fresh (ctx_request_epoch_ms req) ent" and "ent_body ent = Some b" and "length b \<le> kL1MaxBodySize"
  shows "let (out, ctx) = run_named env (crr_lookup_stages (compile_route_runtime i policy)) req
    in out = skip_remaining ''l1-hit'' \<and>
       (\<exists>imm. fst (map_cache_hit_to_immediate_response ctx) = Some (RespImmediate imm) \<and> imm_body imm = b)"
proof -
  obtain p s r e key where k: "keys_possible plain p s r e"
    and b: "build_cache_key (raw_key_input (epoch_ctx plain e) p) kCacheKeyMaxLen = Some key"
    and st: "cache_key_prepare_stage plain = (cont ''ready'', keyed_ctx (epoch_ctx plain e) p key)"
    using prepared_key [OF assms(6)] by blast
  have p: "p = policy" using k assms(1,4) by (simp add: keys_possible_def cacheable_def)
  let ?req = "req\<lparr>ctx_trace_length := 0, ctx_trace_buffer := (if ctx_trace_capacity req > 0
      then map_option (\<lambda>_. []) (ctx_trace_buffer req) else ctx_trace_buffer req)\<rparr>"
  have k': "keys_possible ?req policy s r e" using k p assms(4) by (simp add: keys_possible_plain)
  have "raw_key_input (epoch_ctx ?req e) policy = raw_key_input (epoch_ctx req e) policy"
    by (simp add: raw_key_input_def base_key_input_def epoch_ctx_def Let_def)
  then have b': "build_cache_key (raw_key_input (epoch_ctx ?req e) policy) kCacheKeyMaxLen = Some key"
    using b p raw_key_without_selection [OF assms(2,5), of e] assms(4) by simp
  have "cache_behavior (cache policy) = CacheStore" using k' by (simp add: keys_possible_def cacheable_def)
  then obtain sts where sts: "crr_lookup_stages (compile_route_runtime i policy) =
      [CacheKeyPrepare, FieldVariantAdmission, L1CacheLookup] @ sts"
    using assms(2,3) by (simp add: compile_route_runtime_def Let_def)
  have "l1_lookup (se_seed env) c key = Some ent" using assms(9) st by simp
  from lookup_prefix_hit [OF k' b' _ assms(8) this, of sts] assms(7,10) obtain ctx where
    run: "run_named env (crr_lookup_stages (compile_route_runtime i policy)) req =
      (skip_remaining ''l1-hit'', append_trace (CHR ''S'') (serve ''L1'' (delivered (Some kL2BodyBufSize) ent) ctx))"
    unfolding run_named_def run_pipeline_def sts by fastforce
  have d: "ent_body (delivered (Some kL2BodyBufSize) ent) = Some b" "ent_body_len (delivered (Some kL2BodyBufSize) ent) = length b"
    using assms(11,12) by (simp_all add: delivered_def kL2BodyBufSize_def kL1MaxBodySize_def)
  have t: "ctx_should_return_immediate_response (append_trace t c') = ctx_should_return_immediate_response c'"
    "ctx_cached_response (append_trace t c') = ctx_cached_response c'" for t and c' :: "'a ApgTransformContext"
    by (simp_all add: append_trace_def split: option.split)
  show ?thesis unfolding run by (simp add: map_cache_hit_to_immediate_response_def t serve_def d Let_def)
qed

text \<open>An environment for the examples: nothing happens while a stage runs.\<close>

definition quiet_env :: "(string \<rightharpoonup> string) StageEnv" where
  "quiet_env = \<lparr>se_seed = \<lparr>k0 = 1, k1 = 2\<rparr>, se_rocks = map_rocks, se_now_ms = (\<lambda>_. 0),
     se_wait = \<lparr>we_wakes = [], we_registry = None, we_l1_cache = None, we_l2_cache = None, we_probe_elapsed_ms = 0\<rparr>\<rparr>"

definition variant_route :: RoutePolicy where
  "variant_route = RoutePolicy_default\<lparr>route_id := Some ''orders'',
     cache := CachePolicy_default\<lparr>cache_behavior := CacheStore, cache_ttl_seconds := 60,
       cache_field_variant := FieldVariantCachePolicy_default\<lparr>fv_enabled := True\<rparr>\<rparr>\<rparr>"

definition selecting_ctx :: "'db ApgTransformContext" where
  "selecting_ctx = ApgTransformContext_default\<lparr>ctx_matched_policy := Some variant_route, ctx_raw_path := ''/orders'',
     ctx_raw_query := ''fields=id'', ctx_selected_fields := [''id''], ctx_route_cache_epoch_store := Some orders_store\<rparr>"

definition plain_entry :: CacheEntry where
  "plain_entry = CacheEntry_default\<lparr>ent_key := ''GET|orders|epoch:1|/orders|||orders'', ent_status_code := 200,
     ent_body := Some ''[1]'', ent_body_len := 3\<rparr>"

lemmas variant_defs = selecting_ctx_def variant_route_def ApgTransformContext_default_def RoutePolicy_default_def
  CachePolicy_default_def FieldVariantCachePolicy_default_def CacheInvalidationPolicy_default_def

lemma plain_query: "prepared_query '''' = prepared_query ''fields=id''"
  using sanitize_query_spec [of "''fields=id''" kRawQueryBufferSize]
  by (simp add: prepared_query_def kRawQueryBufferSize_def kept_params_def split_params.simps is_fields_param_def Let_def)

lemma show_one: "show_nat (Suc 0) = ''1''"
  by code_simp

lemma plain_key:
  fixes ctx :: "'db ApgTransformContext"
  assumes "ctx = selecting_ctx\<lparr>ctx_l1_cache := c, ctx_selected_fields := [], ctx_raw_query := ''''\<rparr>"
  shows "ctx_cache_key_ready (snd (cache_key_prepare_stage ctx))"
    "ctx_cache_key (snd (cache_key_prepare_stage ctx)) = ent_key plain_entry"
proof -
  have k: "keys_possible ctx variant_route orders_store ''orders'' 1"
    using assms by (simp add: keys_possible_def cacheable_def variant_defs epoch_of_def orders_store_def
        route_cache_epoch_get_def epoch_index_def)
  let ?i = "raw_key_input (epoch_ctx ctx 1) variant_route"
  have t: "key_text ?i = ent_key plain_entry"
    using assms by (simp add: key_text_def key_head_def raw_key_input_def base_key_input_def epoch_ctx_def
        variant_defs opt_text_def key_fields_def sort_fields_def vary_text_def scope_text_def prepared_query_def
        show_u64_def plain_entry_def show_one Let_def)
  have "build_cache_key ?i kCacheKeyMaxLen = Some (ent_key plain_entry)"
    unfolding build_cache_key_eq key_fits_def t using assms
    by (simp add: key_input_ok_def raw_key_input_def base_key_input_def epoch_ctx_def variant_defs vary_ok_def
        kCacheKeyMaxLen_def plain_entry_def Let_def)
  with prepare_stage_ready [OF k] show "ctx_cache_key_ready (snd (cache_key_prepare_stage ctx))"
    "ctx_cache_key (snd (cache_key_prepare_stage ctx)) = ent_key plain_entry" by simp_all
qed

theorem variant_route_serves_whole_body_witness:
  "let req = selecting_ctx\<lparr>ctx_l1_cache := Some (admitted \<lparr>k0 = 1, k1 = 2\<rparr> fresh_cache plain_entry)\<rparr>
   in fst (run_named quiet_env (crr_lookup_stages (compile_route_runtime 0 variant_route)) (req :: (string \<rightharpoonup> string) ApgTransformContext)) =
      skip_remaining ''l1-hit''"
proof -
  let ?seed = "\<lparr>k0 = 1, k1 = 2\<rparr> :: HashSeed"
  let ?env = quiet_env
  let ?c = "admitted ?seed fresh_cache plain_entry"
  let ?req = "selecting_ctx\<lparr>ctx_l1_cache := Some ?c\<rparr> :: (string \<rightharpoonup> string) ApgTransformContext"
  let ?plain = "?req\<lparr>ctx_selected_fields := [], ctx_raw_query := ''''\<rparr>"
  have e: "l1_can_store_entry plain_entry" "entry_valid plain_entry"
    by (simp_all add: plain_entry_def CacheEntry_default_def l1_can_store_entry_def entry_valid_def kL1MaxBodySize_def kCacheKeyMaxLen_def)
  note key = plain_key [of ?plain, OF refl]
  have l: "l1_lookup (se_seed ?env) ?c (ctx_cache_key (snd (cache_key_prepare_stage ?plain))) = Some (stored plain_entry)"
    unfolding key using admitted_lookup_same [OF fresh_cache_inv e fresh_cache_unwrapped, of ?seed] by (simp add: quiet_env_def)
  have r: "ctx_matched_policy ?req = Some variant_route" "fv_enabled (cache_field_variant (cache variant_route))"
    "\<not> inv_enabled (cache_invalidation (cache variant_route))" "prepared_query '''' = prepared_query (ctx_raw_query ?req)"
    "ctx_l1_cache ?req = Some ?c" "fresh (ctx_request_epoch_ms ?req) (stored plain_entry)"
    "ent_body (stored plain_entry) = Some ''[1]''" "length ''[1]'' \<le> kL1MaxBodySize"
    using plain_query by (simp_all add: variant_defs fresh_def stored_def plain_entry_def kL1MaxBodySize_def)
  have i: "l1_inv (se_seed ?env) ?c" using admitted_inv [OF fresh_cache_inv e, of ?seed] by (simp add: quiet_env_def)
  from variant_route_serves_whole_body [OF r(1-3) refl r(4) key(1) r(5) i l r(6-8), of 0]
  show ?thesis by (auto simp: Let_def split: prod.splits)
qed

end
