(* ===== verification/Policy_Snapshot.thy ===== *)
theory Policy_Snapshot
  imports Default_Pipelines Route_Matcher
begin

text \<open>
  The compiled policy a request runs under and the store that holds the current one
  (\<^verbatim>\<open>src/runtime/policy_snapshot.cpp\<close>). The conversions between route policies and the policy document, and the
  document's identity, are not modelled: a snapshot is built from converted routes and an identity. Each operation of
  the store is one critical section of its mutex.
\<close>

section \<open>Snapshots\<close>

record RuntimePolicySnapshot =
  sn_policy_identity :: string
  sn_generation :: u64
  sn_routes :: "RoutePolicy list"
  sn_route_matcher :: CompiledRouteMatcher
  sn_route_matcher_ready :: bool
  sn_route_runtimes :: "CompiledRouteRuntime list"
  sn_reject_requests :: bool

text \<open>The result is \<open>None\<close> only if compiling the matcher does not end, which it always does.\<close>

definition build_runtime_policy_snapshot ::
  "HashSeed \<Rightarrow> RoutePolicy list \<Rightarrow> string \<Rightarrow> u64 \<Rightarrow> RuntimePolicySnapshot option" where
  "build_runtime_policy_snapshot seed routes identity generation =
     (if routes = [] then
        Some \<lparr>sn_policy_identity = ''empty'', sn_generation = generation, sn_routes = [], sn_route_matcher = empty_matcher,
              sn_route_matcher_ready = False, sn_route_runtimes = [], sn_reject_requests = False\<rparr>
      else
        map_option (\<lambda>matcher.
            \<lparr>sn_policy_identity = identity, sn_generation = generation, sn_routes = routes, sn_route_matcher = matcher,
             sn_route_matcher_ready = True, sn_route_runtimes = compile_route_runtime_table routes,
             sn_reject_requests = False\<rparr>)
          (compile_route_matcher seed routes empty_matcher))"

section \<open>The store\<close>

record RuntimePolicyStore =
  pst_active :: "RuntimePolicySnapshot option"
  pst_generation :: u64

definition policy_install_initial :: "RuntimePolicySnapshot \<Rightarrow> RuntimePolicyStore \<Rightarrow> string + RuntimePolicyStore" where
  "policy_install_initial snap store =
     (if pst_active store \<noteq> None then Inl ''store already initialized''
      else Inr \<lparr>pst_active = Some snap, pst_generation = sn_generation snap\<rparr>)"

definition policy_swap :: "RuntimePolicySnapshot \<Rightarrow> RuntimePolicyStore \<Rightarrow> string + RuntimePolicyStore" where
  "policy_swap snap store =
     (if pst_active store = None then Inl ''store not initialized''
      else Inr (store\<lparr>pst_active := Some snap\<rparr>))"

definition policy_swap_if_current ::
  "string \<Rightarrow> RuntimePolicySnapshot \<Rightarrow> RuntimePolicyStore \<Rightarrow> string + RuntimePolicyStore" where
  "policy_swap_if_current expected_identity snap store =
     (case pst_active store of
        None \<Rightarrow> Inl ''store not initialized''
      | Some active \<Rightarrow>
          if sn_policy_identity active \<noteq> expected_identity then
            Inl (''CAS mismatch: active policy identity '' @ [CHR 0x27] @ sn_policy_identity active @ [CHR 0x27] @
                 '' does not match expected identity '' @ [CHR 0x27] @ expected_identity @ [CHR 0x27])
          else if sn_generation snap \<noteq> pst_generation store + 1 then
            Inl (''invalid generation sequence: snapshot generation '' @ show_u64 (sn_generation snap) @
                 '' must be exactly '' @ show_u64 (pst_generation store + 1))
          else Inr \<lparr>pst_active = Some snap, pst_generation = sn_generation snap\<rparr>)"

definition policy_next_generation :: "RuntimePolicyStore \<Rightarrow> u64 \<times> RuntimePolicyStore" where
  "policy_next_generation store =
     (pst_generation store + 1, store\<lparr>pst_generation := pst_generation store + 1\<rparr>)"

section \<open>Concurrent appliers\<close>

text \<open>The attempts of all appliers in the order of their critical sections: the snapshots that became active.\<close>

fun swap_attempts :: "(string \<times> RuntimePolicySnapshot) list \<Rightarrow> RuntimePolicyStore \<Rightarrow> RuntimePolicySnapshot list \<times> RuntimePolicyStore" where
  "swap_attempts [] store = ([], store)"
| "swap_attempts ((expected, snap) # as) store =
     (case policy_swap_if_current expected snap store of
        Inl _ \<Rightarrow> swap_attempts as store
      | Inr store' \<Rightarrow> (let (acc, store'') = swap_attempts as store' in (snap # acc, store'')))"

lemma swap_if_current_Inr:
  "policy_swap_if_current expected snap store = Inr store' \<longleftrightarrow>
     (\<exists>active. pst_active store = Some active \<and> sn_policy_identity active = expected) \<and>
     sn_generation snap = pst_generation store + 1 \<and>
     store' = \<lparr>pst_active = Some snap, pst_generation = pst_generation store + 1\<rparr>"
  by (auto simp: policy_swap_if_current_def split: option.splits)

lemma swap_attempts_generations:
  "swap_attempts as store = (installed, store') \<Longrightarrow>
     pst_generation store' = pst_generation store + of_nat (length installed) \<and>
     (\<forall>i<length installed. sn_generation (installed ! i) = pst_generation store + of_nat (Suc i)) \<and>
     pst_active store' = (if installed = [] then pst_active store else Some (last installed))"
proof (induction as arbitrary: store installed)
  case (Cons a as)
  obtain expected snap where a: "a = (expected, snap)" by (cases a)
  show ?case
  proof (cases "policy_swap_if_current expected snap store")
    case (Inl e)
    with Cons a show ?thesis by simp
  next
    case (Inr s1)
    obtain rest where r: "swap_attempts as s1 = (rest, store')" "installed = snap # rest"
      using Cons.prems a Inr by (auto split: prod.splits)
    from Inr have s1: "sn_generation snap = pst_generation store + 1" "pst_generation s1 = pst_generation store + 1"
      "pst_active s1 = Some snap" by (auto simp: swap_if_current_Inr)
    show ?thesis using Cons.IH [OF r(1)] s1 r(2) by (auto simp: nth_Cons algebra_simps split: nat.split)
  qed
qed simp

text \<open>
  (C12) Policies are applied one after the other: however the attempts of concurrent appliers interleave, the snapshots
  that become active have consecutive generations, so no two of them share one and none is lost unnoticed, and the
  last of them is the active one. (Fewer than \<open>2 ^ 64\<close> of them.)
\<close>

theorem policy_generations_unique:
  assumes "swap_attempts as store = (installed, store')" and "length installed < 2 ^ 64"
  shows "distinct (map sn_generation installed) \<and>
    (\<forall>i<length installed. sn_generation (installed ! i) = pst_generation store + of_nat (Suc i)) \<and>
    pst_active store' = (if installed = [] then pst_active store else Some (last installed))"
proof -
  note g = swap_attempts_generations [OF assms(1)]
  have "distinct (map sn_generation installed)"
    unfolding distinct_conv_nth
  proof (intro allI impI)
    fix i j
    assume ij: "i < length (map sn_generation installed)" "j < length (map sn_generation installed)" "i \<noteq> j"
    then have "(of_nat i :: u64) \<noteq> of_nat j" using assms(2) by (simp add: word_of_nat_eq_iff take_bit_eq_mod)
    with g ij show "map sn_generation installed ! i \<noteq> map sn_generation installed ! j" by simp
  qed
  with g show ?thesis by blast
qed

definition empty_snapshot :: "string \<Rightarrow> u64 \<Rightarrow> RuntimePolicySnapshot" where
  "empty_snapshot identity generation =
     \<lparr>sn_policy_identity = identity, sn_generation = generation, sn_routes = [], sn_route_matcher = empty_matcher,
      sn_route_matcher_ready = False, sn_route_runtimes = [], sn_reject_requests = False\<rparr>"

theorem policy_generations_unique_witness:
  "let (installed, store) = swap_attempts [(''a'', empty_snapshot ''b'' 2), (''a'', empty_snapshot ''c'' 2), (''b'', empty_snapshot ''c'' 3)]
         \<lparr>pst_active = Some (empty_snapshot ''a'' 1), pst_generation = 1\<rparr>
   in map sn_policy_identity installed = [''b'', ''c''] \<and> distinct (map sn_generation installed)"
proof -
  let ?store = "\<lparr>pst_active = Some (empty_snapshot ''a'' 1), pst_generation = 1\<rparr>"
  have run: "swap_attempts [(''a'', empty_snapshot ''b'' 2), (''a'', empty_snapshot ''c'' 2), (''b'', empty_snapshot ''c'' 3)] ?store =
      ([empty_snapshot ''b'' 2, empty_snapshot ''c'' 3], \<lparr>pst_active = Some (empty_snapshot ''c'' 3), pst_generation = 3\<rparr>)"
    by (simp add: policy_swap_if_current_def empty_snapshot_def)
  from policy_generations_unique [OF this] show ?thesis unfolding run by (simp add: empty_snapshot_def)
qed

end
