(* ===== verification/Extproc_Stream.thy ===== *)
theory Extproc_Stream
  imports Pipeline_Safety Extproc_Headers Policy_Snapshot Field_Selection Semantic_Validator
begin

text \<open>
  The external processor's stream (\<^verbatim>\<open>src/extproc/grpc_server.cpp\<close>): what it prepares from the request headers, the
  handlers of the three kinds of messages and the loop over a stream. The pointers of a context refer to the service's
  shared objects, so a handler takes the service as it is when the message arrives and returns it as it leaves it.
  Reading from and writing to the gRPC stream, tracing, and the stream and byte counters of the metrics registry are
  left out; the wall clock is an argument.
\<close>

section \<open>State\<close>

record MetricsRegistry =
  mr_pagination_metrics :: PaginationMetrics
  mr_cache_metrics :: CacheMetrics
  mr_compression_metrics :: CompressionMetrics
  mr_coalescing_metrics :: CoalescingMetrics
  mr_probe_metrics :: FollowerProbeMetrics
  mr_runtime_metrics :: RuntimeMetrics

text \<open>The outer option of \<open>sv_policy_store\<close> is the pointer to the store, the inner one its active snapshot.\<close>

record 'db Service =
  sv_policy_store :: "RuntimePolicySnapshot option option"
  sv_l1_cache :: "L1Cache option"
  sv_l2_cache :: "'db option"
  sv_metrics_registry :: "MetricsRegistry option"
  sv_coalescing_registry :: "InFlightRegistry option"
  sv_route_cache_epoch_store :: "RouteCacheEpochStore option"
  sv_worker_queue :: "WorkerQueue option"
  sv_variant_registry :: "VariantAdmissionEntry list"

text \<open>The matched policy is a pointer into the snapshot's route table: the position and the route there.\<close>

record 'db StreamFilterState =
  st_context :: "'db ApgTransformContext"
  st_response_kind :: JsonResponseKind
  st_has_query_selection :: bool
  st_has_effective_field_filter :: bool
  st_active_policy_snapshot :: "RuntimePolicySnapshot option"
  st_matched_policy :: "(nat \<times> RoutePolicy) option"
  st_is_non_2xx_response :: bool
  st_compression_context :: CompressionDecisionContext
  st_compression_decision_final :: bool

definition StreamFilterState_default :: "'db StreamFilterState" where
  "StreamFilterState_default =
     \<lparr>st_context = ApgTransformContext_default, st_response_kind = KindSkipUnsupported, st_has_query_selection = False,
      st_has_effective_field_filter = False, st_active_policy_snapshot = None, st_matched_policy = None,
      st_is_non_2xx_response = False,
      st_compression_context = (compression_context (ApgTransformContext_default :: unit ApgTransformContext))
        \<lparr>fcd_response_content_type := None\<rparr>,
      st_compression_decision_final = False\<rparr>"

abbreviation st_policy :: "'db StreamFilterState \<Rightarrow> RoutePolicy option" where
  "st_policy st \<equiv> map_option snd (st_matched_policy st)"

text \<open>The pointers a context gets, and what the service's objects are after a pipeline worked on them.\<close>

definition attach :: "'db Service \<Rightarrow> 'db ApgTransformContext \<Rightarrow> 'db ApgTransformContext" where
  "attach sv ctx =
     ctx\<lparr>ctx_l1_cache := sv_l1_cache sv, ctx_l2_cache := sv_l2_cache sv,
         ctx_coalescing_registry := sv_coalescing_registry sv, ctx_worker_queue := sv_worker_queue sv,
         ctx_route_cache_epoch_store := sv_route_cache_epoch_store sv, ctx_variant_registry := sv_variant_registry sv,
         ctx_pagination_metrics := map_option mr_pagination_metrics (sv_metrics_registry sv),
         ctx_cache_metrics := map_option mr_cache_metrics (sv_metrics_registry sv),
         ctx_compression_metrics := map_option mr_compression_metrics (sv_metrics_registry sv),
         ctx_coalescing_metrics := map_option mr_coalescing_metrics (sv_metrics_registry sv),
         ctx_probe_metrics := map_option mr_probe_metrics (sv_metrics_registry sv),
         ctx_runtime_metrics := map_option mr_runtime_metrics (sv_metrics_registry sv)\<rparr>"

definition metrics_after :: "'db ApgTransformContext \<Rightarrow> MetricsRegistry \<Rightarrow> MetricsRegistry" where
  "metrics_after ctx mr =
     (case (ctx_pagination_metrics ctx, ctx_cache_metrics ctx, ctx_compression_metrics ctx, ctx_coalescing_metrics ctx,
            ctx_probe_metrics ctx, ctx_runtime_metrics ctx) of
        (Some p, Some c, Some z, Some f, Some b, Some r) \<Rightarrow>
          \<lparr>mr_pagination_metrics = p, mr_cache_metrics = c, mr_compression_metrics = z, mr_coalescing_metrics = f,
           mr_probe_metrics = b, mr_runtime_metrics = r\<rparr>
      | _ \<Rightarrow> mr)"

definition service_after :: "'db ApgTransformContext \<Rightarrow> 'db Service \<Rightarrow> 'db Service" where
  "service_after ctx sv =
     sv\<lparr>sv_l1_cache := ctx_l1_cache ctx, sv_l2_cache := ctx_l2_cache ctx,
        sv_coalescing_registry := ctx_coalescing_registry ctx, sv_worker_queue := ctx_worker_queue ctx,
        sv_route_cache_epoch_store := ctx_route_cache_epoch_store ctx, sv_variant_registry := ctx_variant_registry ctx,
        sv_metrics_registry := map_option (metrics_after ctx) (sv_metrics_registry sv)\<rparr>"

definition run_on_service ::
  "'db StageEnv \<Rightarrow> PipelineStage list \<Rightarrow> 'db Service \<Rightarrow> 'db ApgTransformContext \<Rightarrow> 'db Service \<times> 'db ApgTransformContext" where
  "run_on_service env stages sv ctx =
     (let ctx = snd (run_named env stages (attach sv ctx)) in (service_after ctx sv, ctx))"

definition st_runtime :: "'db StreamFilterState \<Rightarrow> CompiledRouteRuntime option" where
  "st_runtime st =
     (case st_active_policy_snapshot st of
        None \<Rightarrow> None
      | Some snap \<Rightarrow> find_compiled_route_runtime (sn_route_runtimes snap) (map_option fst (st_matched_policy st)))"

section \<open>Request headers\<close>

definition prepare_cache_auth_context ::
  "HeaderMap \<Rightarrow> RequestHeaderView \<Rightarrow> 'db ApgTransformContext \<Rightarrow> 'db ApgTransformContext" where
  "prepare_cache_auth_context headers view ctx =
     (let given = (\<lambda>v. v \<noteq> None \<and> v \<noteq> Some []);
          ctx = ctx\<lparr>ctx_request_has_authorization := given (rv_authorization view),
                    ctx_request_has_cookie := given (rv_cookie view)\<rparr>
      in case ctx_matched_policy ctx of
           None \<Rightarrow> ctx
         | Some pol \<Rightarrow>
             (let ctx = ctx\<lparr>ctx_cache_auth_bypass :=
                    cache_auth_bypass (ctx_request_has_authorization ctx) (ctx_request_has_cookie ctx) (cache_private (cache pol))\<rparr>
              in if ctx_cache_auth_bypass ctx \<or> \<not> cache_private (cache pol) then ctx
                 else if cache_auth_scope_header (cache pol) = [] then ctx\<lparr>ctx_cache_auth_bypass := True\<rparr>
                 else case read_header_value_case_insensitive headers (cache_auth_scope_header (cache pol)) of
                   None \<Rightarrow> ctx\<lparr>ctx_cache_auth_bypass := True\<rparr>
                 | Some scope \<Rightarrow>
                     if scope = [] then ctx\<lparr>ctx_cache_auth_bypass := True\<rparr>
                     else (case build_private_cache_scope_hash (Some scope) 32 of
                             Some h \<Rightarrow> ctx\<lparr>ctx_private_cache_scope_hash := h, ctx_private_cache_scope_ready := True\<rparr>
                           | None \<Rightarrow> ctx\<lparr>ctx_cache_auth_bypass := True\<rparr>)))"

definition vary_hash :: "HeaderMap \<Rightarrow> string \<Rightarrow> string" where
  "vary_hash headers name =
     (let raw = (case read_header_value_case_insensitive headers name of
                   None \<Rightarrow> ''<missing>'' | Some v \<Rightarrow> if v = [] then ''<empty>'' else v)
      in case build_cache_vary_value_hash (Some raw) 17 of None \<Rightarrow> [] | Some h \<Rightarrow> h)"

definition prepare_cache_vary_context ::
  "HeaderMap \<Rightarrow> RoutePolicy option \<Rightarrow> 'db ApgTransformContext \<Rightarrow> 'db ApgTransformContext" where
  "prepare_cache_vary_context headers pol ctx =
     (let names = (case pol of None \<Rightarrow> [] | Some p \<Rightarrow> vary_names (cache_vary_headers (cache p)))
      in ctx\<lparr>ctx_cache_vary := map (\<lambda>n. (strncpy_z 63 n, vary_hash headers n)) names, ctx_cache_vary_ready := True\<rparr>)"

definition apply_request_headers_selection ::
  "HeaderMap \<Rightarrow> 'db StreamFilterState \<Rightarrow> RequestHeaderView \<times> 'db StreamFilterState" where
  "apply_request_headers_selection headers st =
     (let st = st\<lparr>st_context := ApgTransformContext_default, st_response_kind := KindSkipUnsupported,
                  st_has_query_selection := False\<rparr>;
          view = scan_request_headers headers
      in case rv_path view of
           None \<Rightarrow> (view, st)
         | Some path \<Rightarrow>
             (case extract_raw_path_and_query (Some (cstr path)) (Some (st_context st)) of
                (_, None) \<Rightarrow> (view, st)
              | (_, Some ctx) \<Rightarrow>
                  (let ctx = ctx\<lparr>ctx_request_query_view := parse_query_view (Some (take (ctx_raw_query_length ctx) (ctx_raw_query ctx))),
                                 ctx_request_query_view_ready := True\<rparr>;
                       ctx = parse_and_store_selected_fields ctx;
                       ctx = (case rv_method view of None \<Rightarrow> ctx
                              | Some m \<Rightarrow> ctx\<lparr>ctx_request_method := parse_http_method (Some m)\<rparr>);
                       ctx = (case rv_accept_encoding view of None \<Rightarrow> ctx
                              | Some a \<Rightarrow> ctx\<lparr>ctx_client_accept_encoding := parse_accept_encoding (Some a)\<rparr>)
                   in (view, st\<lparr>st_context := ctx, st_has_query_selection := ctx_client_query_present ctx\<rparr>))))"

definition prepare_effective_field_selection_from_policy :: "'db StreamFilterState \<Rightarrow> 'db StreamFilterState" where
  "prepare_effective_field_selection_from_policy st =
     (case st_policy st of
        None \<Rightarrow> st
      | Some pol \<Rightarrow>
          (let ff = field_filter pol
           in case ff_mode ff of
                FilterNone \<Rightarrow> st
              | FilterAllowlist \<Rightarrow>
                  if \<not> st_has_query_selection st then
                    st\<lparr>st_context := (st_context st)\<lparr>ctx_selected_fields :=
                          map (strncpy_z (kMaxFieldNameLen - 1)) (take kMaxFields (ff_fields ff))\<rparr>,
                       st_has_effective_field_filter := True\<rparr>
                  else st\<lparr>st_has_effective_field_filter := (ctx_selected_fields (st_context st) \<noteq> [])\<rparr>
              | FilterDenylist \<Rightarrow> st\<lparr>st_has_effective_field_filter := True\<rparr>))"

definition reject_requests :: "'db StreamFilterState \<Rightarrow> bool" where
  "reject_requests st = (case st_active_policy_snapshot st of None \<Rightarrow> False | Some snap \<Rightarrow> sn_reject_requests snap)"

text \<open>
  The match, with the runtime metrics it counts in. The lookup always ends (\<open>compile_route_matcher_first_match\<close>), so
  the case without a result is never taken.
\<close>

definition match_request ::
  "HashSeed \<Rightarrow> 'db Service \<Rightarrow> 'db StreamFilterState \<Rightarrow> (nat \<times> RoutePolicy) option \<times> 'db Service" where
  "match_request seed sv st =
     (case st_active_policy_snapshot st of
        None \<Rightarrow> (None, sv)
      | Some snap \<Rightarrow>
          if \<not> sn_route_matcher_ready snap \<or> ctx_raw_path_length (st_context st) = 0 then (None, sv)
          else case match_route_compiled seed (sn_route_matcher snap) (Some (ctx_raw_path (st_context st)))
                      (map_option mr_runtime_metrics (sv_metrics_registry sv)) of
                 None \<Rightarrow> (None, sv)
               | Some (r, m) \<Rightarrow>
                   (map_option (\<lambda>i. (i, sn_routes snap ! i)) r,
                    sv\<lparr>sv_metrics_registry := (case (m, sv_metrics_registry sv) of
                         (Some m, Some mr) \<Rightarrow> Some (mr\<lparr>mr_runtime_metrics := m\<rparr>) | (_, mr) \<Rightarrow> mr)\<rparr>))"

text \<open>The state of a matched request just before its lookup pipeline.\<close>

definition prepare_request ::
  "int \<Rightarrow> HeaderMap \<Rightarrow> RequestHeaderView \<Rightarrow> nat \<times> RoutePolicy \<Rightarrow> 'db StreamFilterState \<Rightarrow> 'db StreamFilterState" where
  "prepare_request now headers view matched st =
     (let pol = snd matched;
          st = st\<lparr>st_matched_policy := Some matched,
                  st_context := enforce_selected_fields_policy (st_context st) (field_filter pol)\<rparr>;
          st = st\<lparr>st_has_query_selection := ctx_client_query_present (st_context st)\<rparr>;
          st = prepare_effective_field_selection_from_policy st;
          ctx = (st_context st)\<lparr>ctx_matched_policy := Some pol,
                  ctx_active_routes := (case st_active_policy_snapshot st of
                      None \<Rightarrow> ctx_active_routes (st_context st) | Some snap \<Rightarrow> Some (sn_routes snap))\<rparr>;
          ctx = prepare_cache_auth_context headers view ctx;
          ctx = prepare_cache_vary_context headers (Some pol) ctx
      in st\<lparr>st_context := ctx\<lparr>ctx_request_epoch_ms := now\<rparr>\<rparr>)"

definition lookup_stages :: "'db StreamFilterState \<Rightarrow> PipelineStage list" where
  "lookup_stages st = (case st_runtime st of Some rt \<Rightarrow> crr_lookup_stages rt | None \<Rightarrow> kLookupStages)"

definition request_headers ::
  "'db StageEnv \<Rightarrow> int \<Rightarrow> HeaderMap \<Rightarrow> 'db Service \<Rightarrow> 'db StreamFilterState \<Rightarrow>
   ProcessingResponse \<times> 'db Service \<times> 'db StreamFilterState" where
  "request_headers env now headers sv st =
     (let st = (case sv_policy_store sv of None \<Rightarrow> st | Some active \<Rightarrow> st\<lparr>st_active_policy_snapshot := active\<rparr>)
      in if reject_requests st then (map_policy_inactive_reject_immediate_response, sv, st)
         else
           (let (view, st) = apply_request_headers_selection headers st;
                st = st\<lparr>st_matched_policy := None\<rparr>;
                (matched, sv) = match_request (se_seed env) sv st;
                (sv, st) = (case matched of
                    None \<Rightarrow> (sv, st)
                  | Some m \<Rightarrow>
                      (let st = prepare_request now headers view m st;
                           (sv, ctx) = run_on_service env (lookup_stages st) sv (st_context st)
                       in (sv, st\<lparr>st_context := ctx\<rparr>)));
                (immediate, ctx) = map_cache_hit_to_immediate_response (st_context st)
            in case immediate of
                 Some response \<Rightarrow> (response, (if matched = None then sv else service_after ctx sv), st\<lparr>st_context := ctx\<rparr>)
               | None \<Rightarrow> (RespRequestHeaders (apply_pagination_request_headers ctx CommonResponse_continue), sv, st)))"

section \<open>Response headers\<close>

text \<open>
  \<open>atoi\<close> and \<open>atoll\<close>: blanks, a sign and digits. The library leaves numbers out of range undefined; here the
  conversion to the target type wraps them.
\<close>

definition parse_decimal :: "string \<Rightarrow> int" where
  "parse_decimal s =
     (let t = dropWhile isspace (cstr s);
          (negative, ds) = (case t of [] \<Rightarrow> (False, [])
            | c # cs \<Rightarrow> if c = CHR ''-'' then (True, cs) else if c = CHR ''+'' then (False, cs) else (False, t));
          v = int (digits_val (takeWhile is_digit ds))
      in if negative then - v else v)"

definition apply_response_content_type :: "HeaderMap \<Rightarrow> 'db StreamFilterState \<Rightarrow> 'db StreamFilterState" where
  "apply_response_content_type headers st =
     (let view = scan_response_headers headers;
          st = (case pv_status view of
                  None \<Rightarrow> st
                | Some s \<Rightarrow>
                    (let st = st\<lparr>st_context := (st_context st)\<lparr>ctx_response_status_code := word_of_int (parse_decimal s)\<rparr>\<rparr>
                     in if s \<noteq> [] \<and> hd s \<noteq> CHR ''2'' then
                          st\<lparr>st_is_non_2xx_response := True, st_response_kind := KindSkipUnsupported\<rparr>
                        else st));
          st = (case pv_content_encoding view of
                  None \<Rightarrow> st
                | Some e \<Rightarrow> st\<lparr>st_context := (st_context st)\<lparr>ctx_response_content_encoding := detect_content_encoding (Some e)\<rparr>\<rparr>);
          st = (case pv_content_type view of
                  None \<Rightarrow> st\<lparr>st_response_kind := KindSkipUnsupported\<rparr>
                | Some t \<Rightarrow>
                    (let copied = take (kCacheContentTypeMaxLen - 1) t
                     in st\<lparr>st_context := (st_context st)\<lparr>ctx_response_content_type := cstr copied,
                             ctx_response_content_type_len := length copied\<rparr>,
                           st_response_kind := detect_application_json_response (Some (cstr copied))\<rparr>))
      in case pv_content_length view of
           None \<Rightarrow> st
         | Some n \<Rightarrow>
             st\<lparr>st_context := (st_context st)\<lparr>ctx_response_body_len := unat (word_of_int (parse_decimal n) :: u64),
                  ctx_response_body_size_known := True\<rparr>\<rparr>)"

definition is_compression_only_route :: "'db StreamFilterState \<Rightarrow> bool" where
  "is_compression_only_route st =
     (case st_policy st of
        None \<Rightarrow> False
      | Some pol \<Rightarrow> cmp_enabled (compression pol) \<and> \<not> st_has_query_selection st \<and>
          ff_mode (field_filter pol) = FilterNone \<and> cache_behavior (cache pol) \<noteq> CacheStore \<and>
          \<not> pag_enabled (pagination pol) \<and> \<not> co_enabled (coalescing pol))"

definition report_headers :: "nat \<Rightarrow> nat \<Rightarrow> nat \<Rightarrow> nat \<Rightarrow> bool \<Rightarrow> bool \<Rightarrow> (string \<times> string) list" where
  "report_headers original_bytes optimized_bytes removed_fields saved_bytes applied cache_hit =
     [(''x-bytetaper-extproc-response-body'', ''true''),
      (''x-bytetaper-waste-removed-fields'', show_nat removed_fields),
      (''x-bytetaper-waste-saved-bytes'', show_nat saved_bytes),
      (''x-bytetaper-original-response-bytes'', show_nat original_bytes),
      (''x-bytetaper-optimized-response-bytes'', show_nat optimized_bytes),
      (''x-bytetaper-original-bytes'', show_nat original_bytes),
      (''x-bytetaper-optimized-bytes'', show_nat optimized_bytes),
      (''x-bytetaper-transform-applied'', true_false applied),
      (''x-bytetaper-cached-response'', true_false cache_hit)]"

text \<open>The decision on the small context, with the shared counters.\<close>

definition decide_fast ::
  "'db Service \<Rightarrow> CompressionDecisionContext \<Rightarrow> 'db Service \<times> CompressionDecisionContext" where
  "decide_fast sv fast =
     (let fast = snd (evaluate_compression_decision_fast
            (fast\<lparr>fcd_compression_metrics := map_option mr_compression_metrics (sv_metrics_registry sv)\<rparr>))
      in (sv\<lparr>sv_metrics_registry := (case (fcd_compression_metrics fast, sv_metrics_registry sv) of
               (Some m, Some mr) \<Rightarrow> Some (mr\<lparr>mr_compression_metrics := m\<rparr>) | (_, mr) \<Rightarrow> mr)\<rparr>, fast))"

definition response_stages :: "'db StreamFilterState \<Rightarrow> PipelineStage list" where
  "response_stages st = (case st_runtime st of Some rt \<Rightarrow> crr_response_stages rt | None \<Rightarrow> [CompressionDecide])"

definition response_headers_compression_only ::
  "'db Service \<Rightarrow> 'db StreamFilterState \<Rightarrow> CommonResponse \<Rightarrow> CommonResponse \<times> 'db Service \<times> 'db StreamFilterState" where
  "response_headers_compression_only sv st common =
     (let fast = (compression_context (st_context st))
            \<lparr>fcd_matched_policy := st_policy st, fcd_compression_decision := fcd_compression_decision (st_compression_context st)\<rparr>;
          (sv, fast) = decide_fast sv fast;
          st = st\<lparr>st_compression_context := fast,
                  st_compression_decision_final := (st_compression_decision_final st \<or>
                    fcd_response_body_size_known fast \<and> cdo_evaluated (fcd_compression_decision fast))\<rparr>
      in (if st_compression_decision_final st then apply_compression_decision_headers (fcd_compression_decision fast) common
          else common, sv, st))"

definition response_headers ::
  "'db StageEnv \<Rightarrow> HeaderMap \<Rightarrow> 'db Service \<Rightarrow> 'db StreamFilterState \<Rightarrow>
   ProcessingResponse \<times> 'db Service \<times> 'db StreamFilterState" where
  "response_headers env headers sv st =
     (let st = apply_response_content_type headers st;
          common = (if is_compression_only_route st then CommonResponse_continue
            else add_headers (report_headers 0 0 0 0 False (ctx_cache_hit (st_context st)) @
                   [(''x-bytetaper-route-policy'', case st_policy st of None \<Rightarrow> ''none'' | Some p \<Rightarrow> opt_text (route_id p))])
                 CommonResponse_continue);
          (common, sv, st) =
            (if st_matched_policy st = None then (common, sv, st)
             else if is_compression_only_route st then response_headers_compression_only sv st common
             else
               (let (sv, ctx) = run_on_service env (response_stages st) sv (st_context st);
                    ctx = ctx\<lparr>ctx_compression_decision_final := (ctx_compression_decision_final ctx \<or>
                            ctx_response_body_size_known ctx \<and> cdo_evaluated (ctx_compression_decision ctx))\<rparr>
                in (apply_compression_decision_headers (ctx_compression_decision ctx) common, sv, st\<lparr>st_context := ctx\<rparr>)))
      in (RespResponseHeaders (apply_pagination_response_headers (st_context st) common), sv, st))"

section \<open>Response body\<close>

definition route_needs_response_body_processing :: "'db StreamFilterState \<Rightarrow> bool" where
  "route_needs_response_body_processing st =
     (case st_policy st of
        None \<Rightarrow> True
      | Some pol \<Rightarrow>
          st_has_query_selection st \<or> ff_mode (field_filter pol) \<noteq> FilterNone \<or> cache_behavior (cache pol) = CacheStore \<or>
          (if is_compression_only_route st then \<not> st_compression_decision_final st
           else \<not> ctx_compression_decision_final (st_context st)))"

definition filtering_active :: "'db StreamFilterState \<Rightarrow> bool" where
  "filtering_active st \<longleftrightarrow> st_has_query_selection st \<or> st_has_effective_field_filter st"

text \<open>The checks before the body is looked at: the reason of the first that fails.\<close>

definition body_refused :: "bool \<Rightarrow> string \<Rightarrow> 'db StreamFilterState \<Rightarrow> FailOpenReason option" where
  "body_refused end_of_stream body st =
     (case st_policy st of
        None \<Rightarrow> Some ReasonPolicyNotFound
      | Some pol \<Rightarrow>
          if \<not> fst (validate_route_policy pol) then Some ReasonInvalidPolicy
          else if mutation pol \<noteq> MutationFull then Some ReasonObserveMode
          else if st_is_non_2xx_response st then Some ReasonNon2xxResponse
          else if filtering_active st \<and> st_response_kind st \<noteq> EligibleJson then Some ReasonNonJsonResponse
          else if \<not> filtering_active st \<and> cache_behavior (cache pol) \<noteq> CacheStore then Some ReasonSkipUnsupported
          else if \<not> end_of_stream then Some ReasonSkipUnsupported
          else if exceeds_max_response_bytes pol (of_nat (length body)) then Some ReasonPayloadTooLarge
          else None)"

definition build_filtered_body_response ::
  "bool \<Rightarrow> string \<Rightarrow> 'db StreamFilterState \<Rightarrow> (FailOpenReason + CommonResponse) \<times> 'db StreamFilterState" where
  "build_filtered_body_response end_of_stream body st =
     (case body_refused end_of_stream body st of
        Some reason \<Rightarrow> (Inl reason, st)
      | None \<Rightarrow>
          if \<not> filtering_active st then
            (Inr (add_headers ([(''content-length'', show_nat (length body))] @
                 report_headers (length body) (length body) 0 0 False (ctx_cache_hit (st_context st))) CommonResponse_continue),
             st\<lparr>st_context := (st_context st)\<lparr>ctx_output_payload_bytes := length body\<rparr>\<rparr>)
          else
            (let ctx = (st_context st)\<lparr>ctx_input_payload_bytes := length body\<rparr>;
                 (parse_status, parsed) = parse_flat_json_object (Some (cstr body)) (st_response_kind st);
                 (status, written, removed) =
                   transform_with_status (Some (cstr body)) parse_status (Some parsed) ctx True (Some (length body + 1));
                 ctx = ctx\<lparr>ctx_removed_field_count := removed\<rparr>;
                 decision = evaluate_filter_safety status
             in if \<not> fo_should_mutate decision then (Inl (fo_reason decision), st\<lparr>st_context := ctx\<rparr>)
                else
                  (let filtered = (case written of None \<Rightarrow> [] | Some (out, n) \<Rightarrow> take n out);
                       saved = (if length body \<ge> length filtered then length body - length filtered else 0)
                   in (Inr (add_headers ([(''content-length'', show_nat (length filtered))] @
                          report_headers (length body) (length filtered) removed saved True (ctx_cache_hit ctx))
                          (CommonResponse_continue\<lparr>com_body_mutation := Some filtered\<rparr>)),
                       st\<lparr>st_context := ctx\<lparr>ctx_output_payload_bytes := length filtered\<rparr>\<rparr>))))"

definition store_stages :: "'db StreamFilterState \<Rightarrow> PipelineStage list" where
  "store_stages st = (case st_runtime st of Some rt \<Rightarrow> crr_store_stages rt | None \<Rightarrow> kStoreStages)"

definition fail_closed_response :: "FailOpenReason \<Rightarrow> ProcessingResponse" where
  "fail_closed_response reason =
     RespImmediate \<lparr>imm_status_code = 500, imm_body = ''ByteTaper safety constraint triggered (fail-closed)'',
       imm_set_headers = [(''x-bytetaper-fail-closed-reason'', get_fail_open_reason_string reason)]\<rparr>"

definition fails_closed :: "'db StreamFilterState \<Rightarrow> FailOpenReason \<Rightarrow> bool" where
  "fails_closed st reason \<longleftrightarrow> (case st_policy st of None \<Rightarrow> False | Some pol \<Rightarrow> failure_mode pol = FailClosed) \<and>
     reason \<noteq> ReasonNone \<and> reason \<noteq> ReasonSkipUnsupported"

text \<open>A body left alone: rejected on a fail-closed route, forwarded with the reason otherwise.\<close>

definition unfiltered_response :: "string \<Rightarrow> 'db StreamFilterState \<Rightarrow> FailOpenReason \<Rightarrow> ProcessingResponse" where
  "unfiltered_response body st reason =
     (if fails_closed st reason then fail_closed_response reason
      else RespResponseBody (add_headers
        (report_headers (length body) (length body) 0 0 False (ctx_cache_hit (st_context st)) @
         (if reason \<noteq> ReasonNone then [(''x-bytetaper-fail-open-reason'', get_fail_open_reason_string reason)] else []))
        CommonResponse_continue))"

definition store_response ::
  "'db StageEnv \<Rightarrow> string \<Rightarrow> CommonResponse \<Rightarrow> 'db Service \<Rightarrow> 'db StreamFilterState \<Rightarrow> 'db Service \<times> 'db StreamFilterState" where
  "store_response env body common sv st =
     (if (case st_policy st of None \<Rightarrow> False | Some pol \<Rightarrow> cache_behavior (cache pol) = CacheStore) then
        (let stored = (if filtering_active st then (case com_body_mutation common of None \<Rightarrow> [] | Some b \<Rightarrow> b) else body);
             ctx = (st_context st)\<lparr>ctx_response_body := Some stored, ctx_response_body_len := length stored\<rparr>;
             (sv, ctx) = run_on_service env (store_stages st) sv ctx
         in (sv, st\<lparr>st_context := ctx\<rparr>))
      else (sv, st))"

definition decide_again ::
  "'db StageEnv \<Rightarrow> string \<Rightarrow> ProcessingResponse \<Rightarrow> 'db Service \<Rightarrow> 'db StreamFilterState \<Rightarrow>
   ProcessingResponse \<times> 'db Service \<times> 'db StreamFilterState" where
  "decide_again env body response sv st =
     (if st_matched_policy st \<noteq> None \<and> \<not> ctx_compression_decision_final (st_context st) then
        (let ctx = st_context st;
             ctx = (if \<not> ctx_response_body_size_known ctx
                    then ctx\<lparr>ctx_response_body_len := length body, ctx_response_body_size_known := True\<rparr> else ctx);
             (sv, ctx) = run_on_service env (response_stages st) sv ctx
         in (case response of
               RespResponseBody common \<Rightarrow> RespResponseBody (apply_compression_decision_headers (ctx_compression_decision ctx) common)
             | r \<Rightarrow> r, sv, st\<lparr>st_context := ctx\<rparr>))
      else (response, sv, st))"

definition response_body_compression_only ::
  "string \<Rightarrow> 'db Service \<Rightarrow> 'db StreamFilterState \<Rightarrow> ProcessingResponse \<times> 'db Service \<times> 'db StreamFilterState" where
  "response_body_compression_only body sv st =
     (if st_compression_decision_final st then (RespResponseBody CommonResponse_continue, sv, st)
      else
        (let fast = (st_compression_context st)\<lparr>fcd_response_body_len := length body, fcd_response_body_size_known := True\<rparr>;
             (sv, fast) = decide_fast sv fast
         in (RespResponseBody (apply_compression_decision_headers (fcd_compression_decision fast)
               (add_headers [(''content-length'', show_nat (length body))] CommonResponse_continue)),
             sv, st\<lparr>st_compression_context := fast, st_compression_decision_final := True\<rparr>)))"

definition response_body ::
  "'db StageEnv \<Rightarrow> 'db StageEnv \<Rightarrow> string \<Rightarrow> bool \<Rightarrow> 'db Service \<Rightarrow> 'db StreamFilterState \<Rightarrow>
   ProcessingResponse \<times> 'db Service \<times> 'db StreamFilterState" where
  "response_body env env' body end_of_stream sv st =
     (if is_compression_only_route st then response_body_compression_only body sv st
      else if \<not> route_needs_response_body_processing st then (RespResponseBody CommonResponse_continue, sv, st)
      else
        (case build_filtered_body_response end_of_stream body st of
           (Inl reason, st) \<Rightarrow> decide_again env' body (unfiltered_response body st reason) sv st
         | (Inr common, st) \<Rightarrow>
             (let (sv, st) = store_response env body common sv st
              in decide_again env' body (RespResponseBody common) sv st)))"

section \<open>The stream\<close>

datatype ProcessingRequest =
    ReqRequestHeaders HeaderMap | ReqResponseHeaders HeaderMap | ReqResponseBody string bool | ReqUnsupported

fun process_message ::
  "'db StageEnv \<times> 'db StageEnv \<times> int \<Rightarrow> ProcessingRequest \<Rightarrow> 'db Service \<Rightarrow> 'db StreamFilterState \<Rightarrow>
   ProcessingResponse option \<times> 'db Service \<times> 'db StreamFilterState" where
  "process_message (env, env', now) (ReqRequestHeaders hs) sv st = apfst Some (request_headers env now hs sv st)"
| "process_message (env, env', now) (ReqResponseHeaders hs) sv st = apfst Some (response_headers env hs sv st)"
| "process_message (env, env', now) (ReqResponseBody body eos) sv st = apfst Some (response_body env env' body eos sv st)"
| "process_message (env, env', now) ReqUnsupported sv st = (None, sv, st)"

fun process_stream ::
  "(('db StageEnv \<times> 'db StageEnv \<times> int) \<times> ProcessingRequest) list \<Rightarrow> 'db Service \<Rightarrow> 'db StreamFilterState \<Rightarrow>
   ProcessingResponse list \<times> 'db Service \<times> 'db StreamFilterState" where
  "process_stream [] sv st = ([], sv, st)"
| "process_stream ((env, msg) # msgs) sv st =
     (let (r, sv, st) = process_message env msg sv st; (rs, sv, st) = process_stream msgs sv st
      in ((case r of None \<Rightarrow> [] | Some r \<Rightarrow> [r]) @ rs, sv, st))"

end
