(* ===== verification/Extproc_Safety.thy ===== *)
theory Extproc_Safety
  imports Extproc_Stream
begin

text \<open>
  What the stream guarantees to clients and where its guarantees end: credentials and the caches, what a substituted
  body may contain, fail-closed routes, leaders that fail, and invalidations that are not applied.
\<close>

section \<open>Frames of the handlers\<close>

definition same_stores :: "'db Service \<Rightarrow> 'db Service \<Rightarrow> bool" where
  "same_stores sv sv' \<longleftrightarrow> sv_l1_cache sv' = sv_l1_cache sv \<and> sv_l2_cache sv' = sv_l2_cache sv \<and>
     sv_worker_queue sv' = sv_worker_queue sv"

lemma same_stores_refl [simp]: "same_stores sv sv"
  by (simp add: same_stores_def)

lemma same_stores_trans: "same_stores a b \<Longrightarrow> same_stores b c \<Longrightarrow> same_stores a c"
  by (simp add: same_stores_def)

lemma attach_simps [simp]:
  "unkeyed (attach sv ctx) = unkeyed ctx"
  "shared_view (attach sv ctx) = (sv_l1_cache sv, sv_l2_cache sv, sv_worker_queue sv, sv_coalescing_registry sv)"
  "ctx_route_cache_epoch_store (attach sv ctx) = sv_route_cache_epoch_store sv"
  by (simp_all add: attach_def unkeyed_def shared_view_def)

lemma unkeyed_run_on_service:
  assumes "unkeyed ctx" and "set stages \<subseteq> set kStoreStages \<union> set kResponseStages"
  shows "unkeyed (snd (run_on_service env stages sv ctx)) \<and> same_stores sv (fst (run_on_service env stages sv ctx))"
proof -
  let ?ctx = "snd (run_named env stages (attach sv ctx))"
  have "list_all (\<lambda>st. st \<in> set kStoreStages \<union> set kResponseStages) stages" using assms(2) by (auto simp: list_all_iff)
  then have "unkeyed ?ctx \<and> same_caches (attach sv ctx) ?ctx"
    by (rule unkeyed_store.kept) (simp add: assms(1) same_caches_def)
  then show ?thesis by (simp add: run_on_service_def same_stores_def same_caches_def service_after_def attach_def Let_def)
qed

lemma route_stages_subset:
  "set (crr_store_stages (compile_route_runtime i pol)) \<subseteq> set kStoreStages"
  "set (crr_response_stages (compile_route_runtime i pol)) \<subseteq> set kResponseStages"
  by (auto simp: compile_route_runtime_def kStoreStages_def kResponseStages_def Let_def)

text \<open>Snapshots hold the table compiled from their routes.\<close>

definition compiled_snapshot :: "'db StreamFilterState \<Rightarrow> bool" where
  "compiled_snapshot st \<longleftrightarrow> (\<forall>snap. st_active_policy_snapshot st = Some snap \<longrightarrow>
     sn_route_runtimes snap = compile_route_runtime_table (sn_routes snap))"

lemma find_runtime:
  assumes "i < length routes"
  shows "find_compiled_route_runtime (compile_route_runtime_table routes) (Some i) =
    (if i < kMaxCompiledRoutesCapacity then Some (compile_route_runtime i (routes ! i)) else None)"
proof -
  let ?n = "if length routes > kMaxCompiledRoutesCapacity then kMaxCompiledRoutesCapacity else length routes"
  have p: "crr_policy (compile_route_runtime j pol) = j" for j pol by (simp add: compile_route_runtime_def Let_def)
  let ?rs = "map (\<lambda>j. compile_route_runtime j (routes ! j)) [0..<?n]"
  have "find (\<lambda>r. crr_policy r = i) ?rs = (if i < ?n then Some (compile_route_runtime i (routes ! i)) else None)"
  proof (cases "i < ?n")
    case True
    then have "find (\<lambda>r. crr_policy r = i) ?rs = Some (?rs ! i)" unfolding find_Some_iff by (intro exI [of _ i]) (simp add: p)
    with True show ?thesis by simp
  next
    case False
    then have "find (\<lambda>r. crr_policy r = i) ?rs = None" unfolding find_None_iff by (auto simp: p)
    with False show ?thesis by simp
  qed
  then show ?thesis using assms by (simp add: find_compiled_route_runtime_def compile_route_runtime_table_def Let_def)
qed

lemma find_runtime_compiled:
  "find_compiled_route_runtime (compile_route_runtime_table routes) a = Some rt \<Longrightarrow> \<exists>i pol. rt = compile_route_runtime i pol"
  by (auto simp: find_compiled_route_runtime_def compile_route_runtime_table_def Let_def find_Some_iff split: option.splits) blast

lemma stages_subset:
  assumes "compiled_snapshot st"
  shows "set (store_stages st) \<subseteq> set kStoreStages" "set (response_stages st) \<subseteq> set kResponseStages"
proof -
  have "\<exists>i pol. rt = compile_route_runtime i pol" if "st_runtime st = Some rt" for rt
    using that assms by (auto simp: st_runtime_def compiled_snapshot_def split: option.splits dest: find_runtime_compiled)
  then show "set (store_stages st) \<subseteq> set kStoreStages" "set (response_stages st) \<subseteq> set kResponseStages"
    using route_stages_subset
    by (auto simp: store_stages_def response_stages_def kResponseStages_def split: option.splits) blast+
qed

section \<open>Credentials and the caches\<close>

definition credentials :: "HeaderMap \<Rightarrow> bool" where
  "credentials headers \<longleftrightarrow>
     (let view = scan_request_headers headers; given = (\<lambda>v. v \<noteq> None \<and> v \<noteq> Some [])
      in given (rv_authorization view) \<or> given (rv_cookie view))"

definition keyless :: "'db ApgTransformContext \<Rightarrow> bool" where
  "keyless ctx \<longleftrightarrow> \<not> ctx_cache_key_ready ctx \<and> \<not> ctx_variant_cache_key_ready ctx \<and>
     \<not> ctx_should_return_immediate_response ctx"

lemma keyless_updates [simp]:
  "keyless (ctx\<lparr>ctx_matched_policy := p, ctx_active_routes := rs\<rparr>) = keyless ctx"
  "keyless (ctx\<lparr>ctx_selected_fields := fs\<rparr>) = keyless ctx"
  "keyless (enforce_selected_fields_policy ctx ff) = keyless ctx"
  "keyless (ctx\<lparr>ctx_request_query_view := qv, ctx_request_query_view_ready := b\<rparr>) = keyless ctx"
  "keyless (ctx\<lparr>ctx_request_method := m\<rparr>) = keyless ctx" "keyless (ctx\<lparr>ctx_client_accept_encoding := ae\<rparr>) = keyless ctx"
  "keyless (set_path_and_query path query ctx) = keyless ctx" "keyless (parse_and_store_selected_fields ctx) = keyless ctx"
  by (simp_all add: keyless_def enforce_selected_fields_policy_def set_path_and_query_def parse_and_store_selected_fields_def
      clear_selected_fields_def Let_def split: prod.split)

lemma keyless_default: "keyless ApgTransformContext_default"
  by (simp add: keyless_def ApgTransformContext_default_def)

lemma keyless_selection:
  assumes "apply_request_headers_selection headers st = (view, st')"
  shows "keyless (st_context st')" "view = scan_request_headers headers"
    "st_active_policy_snapshot st' = st_active_policy_snapshot st"
proof -
  define ctx where "ctx = (\<lambda>t. the (snd (extract_raw_path_and_query t (Some (ApgTransformContext_default :: 'a ApgTransformContext)))))"
  have c: "extract_raw_path_and_query t (Some ApgTransformContext_default) = (True, Some (ctx t))" and k: "keyless (ctx t)" for t
    by (simp_all add: ctx_def extract_raw_path_and_query_def keyless_default split: option.split)
  show "view = scan_request_headers headers" "st_active_policy_snapshot st' = st_active_policy_snapshot st"
    using assms by (auto simp: apply_request_headers_selection_def Let_def c split: option.splits)
  show "keyless (st_context st')"
    using assms k keyless_default
    by (cases "rv_path (scan_request_headers headers)"; cases "rv_method (scan_request_headers headers)";
        cases "rv_accept_encoding (scan_request_headers headers)") (auto simp: apply_request_headers_selection_def Let_def c)
qed

lemma keyless_effective:
  "keyless (st_context (prepare_effective_field_selection_from_policy st)) = keyless (st_context st)"
  "st_matched_policy (prepare_effective_field_selection_from_policy st) = st_matched_policy st"
  "st_active_policy_snapshot (prepare_effective_field_selection_from_policy st) = st_active_policy_snapshot st"
  by (auto simp: prepare_effective_field_selection_from_policy_def Let_def split: option.split FieldFilterMode.split)

lemma auth_unkeyed:
  assumes "keyless ctx" and "ctx_matched_policy ctx = Some pol" and "\<not> cache_private (cache pol)" and "credentials headers"
  shows "unkeyed (prepare_cache_auth_context headers (scan_request_headers headers) ctx)"
  using assms
  by (auto simp: prepare_cache_auth_context_def credentials_def keyless_def unkeyed_def cache_auth_bypass_def Let_def)

lemma prepare_request_unkeyed:
  assumes "keyless (st_context st)" and "\<not> cache_private (cache pol)" and "credentials headers"
  shows "unkeyed (st_context (prepare_request now headers (scan_request_headers headers) (i, pol) st))"
    "st_matched_policy (prepare_request now headers (scan_request_headers headers) (i, pol) st) = Some (i, pol)"
    "st_active_policy_snapshot (prepare_request now headers (scan_request_headers headers) (i, pol) st) = st_active_policy_snapshot st"
proof -
  let ?st1 = "st\<lparr>st_matched_policy := Some (i, pol),
      st_context := enforce_selected_fields_policy (st_context st) (field_filter pol)\<rparr>"
  let ?st2 = "?st1\<lparr>st_has_query_selection := ctx_client_query_present (st_context ?st1)\<rparr>"
  let ?st3 = "prepare_effective_field_selection_from_policy ?st2"
  have k: "keyless (st_context ?st3)" using assms(1) by (simp add: keyless_effective)
  let ?c = "(st_context ?st3)\<lparr>ctx_matched_policy := Some pol,
      ctx_active_routes := (case st_active_policy_snapshot ?st3 of
          None \<Rightarrow> ctx_active_routes (st_context ?st3) | Some snap \<Rightarrow> Some (sn_routes snap))\<rparr>"
  have "unkeyed (prepare_cache_auth_context headers (scan_request_headers headers) ?c)"
    by (rule auth_unkeyed [OF _ _ assms(2,3)]) (use k in simp_all)
  moreover have "unkeyed ((prepare_cache_vary_context headers p c)\<lparr>ctx_request_epoch_ms := now\<rparr>) = unkeyed c"
    for p and c :: "'a ApgTransformContext" by (simp add: prepare_cache_vary_context_def unkeyed_def Let_def)
  ultimately show "unkeyed (st_context (prepare_request now headers (scan_request_headers headers) (i, pol) st))"
    unfolding prepare_request_def Let_def snd_conv by simp
  show "st_matched_policy (prepare_request now headers (scan_request_headers headers) (i, pol) st) = Some (i, pol)"
    "st_active_policy_snapshot (prepare_request now headers (scan_request_headers headers) (i, pol) st) = st_active_policy_snapshot st"
    by (simp_all add: prepare_request_def keyless_effective Let_def)
qed

lemma unkeyed_response_fields [simp]:
  "unkeyed (ctx\<lparr>ctx_response_status_code := s, ctx_response_content_type := t, ctx_response_content_type_len := n,
     ctx_response_body_len := m, ctx_response_body_size_known := b\<rparr>) = unkeyed ctx"
  "unkeyed (ctx\<lparr>ctx_response_status_code := s\<rparr>) = unkeyed ctx"
  "unkeyed (ctx\<lparr>ctx_response_content_encoding := ce\<rparr>) = unkeyed ctx"
  "unkeyed (ctx\<lparr>ctx_response_content_type := t, ctx_response_content_type_len := n\<rparr>) = unkeyed ctx"
  "unkeyed (ctx\<lparr>ctx_response_body_len := m, ctx_response_body_size_known := b\<rparr>) = unkeyed ctx"
  "unkeyed (ctx\<lparr>ctx_response_body := rb, ctx_response_body_len := m\<rparr>) = unkeyed ctx"
  "unkeyed (ctx\<lparr>ctx_compression_decision_final := b\<rparr>) = unkeyed ctx"
  "unkeyed (ctx\<lparr>ctx_output_payload_bytes := n\<rparr>) = unkeyed ctx"
  "unkeyed (ctx\<lparr>ctx_input_payload_bytes := n, ctx_removed_field_count := k\<rparr>) = unkeyed ctx"
  "unkeyed (ctx\<lparr>ctx_input_payload_bytes := n, ctx_removed_field_count := k, ctx_output_payload_bytes := m\<rparr>) = unkeyed ctx"
  by (simp_all add: unkeyed_def)

lemma compression_keeps_immediate:
  "ctx_should_return_immediate_response (snd (compression_decision_stage ctx)) = ctx_should_return_immediate_response ctx"
  by (simp add: compression_decision_stage_def Let_def split: prod.split)

lemma unkeyed_hit:
  assumes "map_cache_hit_to_immediate_response ctx = (r, ctx')" and "unkeyed ctx"
  shows "unkeyed ctx'" "r \<noteq> None \<Longrightarrow> ctx_cache_layer ctx' = Some ''COALESCED''"
proof -
  have "unkeyed ctx' \<and> ctx_should_return_immediate_response ctx' = ctx_should_return_immediate_response ctx"
    using assms
    by (auto simp: map_cache_hit_to_immediate_response_def compression_keeps_immediate Let_def intro: unkeyed_headers(2) split: if_splits)
  moreover have "r \<noteq> None \<longleftrightarrow> ctx_should_return_immediate_response ctx"
    using assms(1) by (auto simp: map_cache_hit_to_immediate_response_def Let_def split: if_splits)
  ultimately show "unkeyed ctx'" "r \<noteq> None \<Longrightarrow> ctx_cache_layer ctx' = Some ''COALESCED''" by (auto simp: unkeyed_def)
qed

lemma request_headers_unkeyed:
  assumes "request_headers env now headers sv StreamFilterState_default = (resp, sv1, st1)"
    and "st_matched_policy st1 = Some (i, pol)" and "\<not> cache_private (cache pol)" and "credentials headers"
  shows "unkeyed (st_context st1)" "resp = RespImmediate imm \<Longrightarrow> ctx_cache_layer (st_context st1) = Some ''COALESCED''"
    "st_active_policy_snapshot st1 = (case sv_policy_store sv of None \<Rightarrow> None | Some active \<Rightarrow> active)"
proof -
  define st0 :: "'a StreamFilterState" where "st0 = (case sv_policy_store sv of None \<Rightarrow> StreamFilterState_default
      | Some active \<Rightarrow> StreamFilterState_default\<lparr>st_active_policy_snapshot := active\<rparr>)"
  have s0: "st_active_policy_snapshot st0 = (case sv_policy_store sv of None \<Rightarrow> None | Some active \<Rightarrow> active)"
    "st_matched_policy st0 = None" by (simp_all add: st0_def StreamFilterState_default_def split: option.split)
  have nr: "\<not> reject_requests st0"
    using assms(1,2) s0(2) unfolding request_headers_def Let_def st0_def [symmetric] by (auto split: if_splits)
  obtain view st2 where a: "apply_request_headers_selection headers st0 = (view, st2)" by fastforce
  note k = keyless_selection [OF a]
  obtain matched sv2 where m: "match_request (se_seed env) sv (st2\<lparr>st_matched_policy := None\<rparr>) = (matched, sv2)" by fastforce
  note r = assms(1) [unfolded request_headers_def Let_def st0_def [symmetric] if_not_P [OF nr] a prod.case m]
  have "matched = Some (i, pol)"
  proof (cases matched)
    case None
    with r assms(2) show ?thesis by (auto split: prod.splits option.splits)
  next
    case (Some m)
    with r assms(2) show ?thesis
      by (auto simp: prepare_request_def keyless_effective Let_def split: prod.splits option.splits)
  qed
  let ?st = "prepare_request now headers view (i, pol) (st2\<lparr>st_matched_policy := None\<rparr>)"
  have u: "unkeyed (st_context ?st)" "st_active_policy_snapshot ?st = st_active_policy_snapshot st0"
    using prepare_request_unkeyed [of "st2\<lparr>st_matched_policy := None\<rparr>", OF _ assms(3,4)] k by simp_all
  have "unkeyed (snd (run_on_service env (lookup_stages ?st) sv2 (st_context ?st)))"
    unfolding run_on_service_def Let_def snd_conv by (rule unkeyed_run.kept) (simp_all add: u(1) list_all_iff)
  then show "unkeyed (st_context st1)" "resp = RespImmediate imm \<Longrightarrow> ctx_cache_layer (st_context st1) = Some ''COALESCED''"
    "st_active_policy_snapshot st1 = (case sv_policy_store sv of None \<Rightarrow> None | Some active \<Rightarrow> active)"
    using r u s0 \<open>matched = Some (i, pol)\<close> by (auto dest: unkeyed_hit split: prod.splits option.splits)
qed

definition same_route :: "'db StreamFilterState \<Rightarrow> 'db StreamFilterState \<Rightarrow> bool" where
  "same_route st st' \<longleftrightarrow> st_matched_policy st' = st_matched_policy st \<and>
     st_active_policy_snapshot st' = st_active_policy_snapshot st \<and> st_has_query_selection st' = st_has_query_selection st"

lemma content_type_frame:
  "same_route st (apply_response_content_type headers st)"
  "unkeyed (st_context (apply_response_content_type headers st)) = unkeyed (st_context st)"
  by (simp_all add: same_route_def apply_response_content_type_def Let_def split: option.split)

lemma same_routeD:
  assumes "same_route st st'"
  shows "response_stages st' = response_stages st" "store_stages st' = store_stages st" "compiled_snapshot st' = compiled_snapshot st"
    "is_compression_only_route st' = is_compression_only_route st" "st_runtime st' = st_runtime st"
    "st_matched_policy st' = st_matched_policy st"
proof -
  have e: "st_matched_policy st' = st_matched_policy st" "st_active_policy_snapshot st' = st_active_policy_snapshot st"
    "st_has_query_selection st' = st_has_query_selection st" using assms by (simp_all add: same_route_def)
  show "response_stages st' = response_stages st" "store_stages st' = store_stages st" "compiled_snapshot st' = compiled_snapshot st"
    "is_compression_only_route st' = is_compression_only_route st" "st_runtime st' = st_runtime st"
    "st_matched_policy st' = st_matched_policy st"
    unfolding response_stages_def store_stages_def compiled_snapshot_def is_compression_only_route_def st_runtime_def e
    by (rule refl)+
qed

lemma decide_fast_stores: "decide_fast sv fast = (sv', fast') \<Longrightarrow> same_stores sv sv'"
  by (auto simp: decide_fast_def same_stores_def Let_def)

lemma response_headers_unkeyed:
  assumes "response_headers env headers sv st = (resp, sv', st')" and "unkeyed (st_context st)" and "compiled_snapshot st"
  shows "unkeyed (st_context st')" "same_stores sv sv'" "same_route st st'"
proof -
  define st1 where "st1 = apply_response_content_type headers st"
  have r: "same_route st st1" and u: "unkeyed (st_context st1)" using assms(2) by (simp_all add: st1_def content_type_frame)
  have "set (response_stages st1) \<subseteq> set kStoreStages \<union> set kResponseStages"
    using stages_subset(2) [OF assms(3)] same_routeD(1) [OF r] by auto
  from unkeyed_run_on_service [OF u this, of env sv] obtain sv2 ctx where
    run: "run_on_service env (response_stages st1) sv (st_context st1) = (sv2, ctx)" and "unkeyed ctx" "same_stores sv sv2"
    by (cases "run_on_service env (response_stages st1) sv (st_context st1)") simp
  with assms(1) u r show "unkeyed (st_context st')" "same_stores sv sv'" "same_route st st'"
    unfolding response_headers_def Let_def st1_def [symmetric]
    by (auto simp: run response_headers_compression_only_def Let_def same_route_def dest: decide_fast_stores
        split: if_splits prod.splits)
qed

lemma build_filtered_frame:
  assumes "build_filtered_body_response eos body st = (r, st')"
  shows "same_route st st'" "unkeyed (st_context st') = unkeyed (st_context st)" "filtering_active st' = filtering_active st"
  using assms
  by (auto simp: build_filtered_body_response_def same_route_def filtering_active_def Let_def
      split: option.splits if_splits prod.splits)

lemma decide_again_unkeyed:
  assumes "decide_again env body r sv st = (r', sv', st')" and "unkeyed (st_context st)" and "compiled_snapshot st"
  shows "same_stores sv sv'"
proof -
  let ?ctx = "if \<not> ctx_response_body_size_known (st_context st)
      then (st_context st)\<lparr>ctx_response_body_len := length body, ctx_response_body_size_known := True\<rparr> else st_context st"
  have "unkeyed ?ctx" using assms(2) by simp
  moreover have "set (response_stages st) \<subseteq> set kStoreStages \<union> set kResponseStages" using stages_subset(2) [OF assms(3)] by blast
  ultimately have "same_stores sv (fst (run_on_service env (response_stages st) sv ?ctx))" using unkeyed_run_on_service by blast
  with assms(1) show ?thesis by (auto simp: decide_again_def Let_def split: if_splits prod.splits)
qed

lemma store_response_unkeyed:
  assumes "store_response env body common sv st = (sv', st')" and "unkeyed (st_context st)" and "compiled_snapshot st"
  shows "same_stores sv sv'" "unkeyed (st_context st')" "same_route st st'"
proof -
  let ?b = "if filtering_active st then (case com_body_mutation common of None \<Rightarrow> [] | Some b \<Rightarrow> b) else body"
  let ?ctx = "(st_context st)\<lparr>ctx_response_body := Some ?b, ctx_response_body_len := length ?b\<rparr>"
  have "unkeyed ?ctx" using assms(2) by simp
  from unkeyed_run_on_service [OF this, of "store_stages st" env sv] stages_subset(1) [OF assms(3)]
  have u: "unkeyed (snd (run_on_service env (store_stages st) sv ?ctx)) \<and> same_stores sv (fst (run_on_service env (store_stages st) sv ?ctx))"
    by blast
  obtain sv2 ctx where run: "run_on_service env (store_stages st) sv ?ctx = (sv2, ctx)"
    by (cases "run_on_service env (store_stages st) sv ?ctx")
  from assms(1,2) u show "same_stores sv sv'" "unkeyed (st_context st')" "same_route st st'"
    unfolding store_response_def Let_def run by (auto simp: same_route_def split: if_splits)
qed

lemma response_body_unkeyed:
  assumes "response_body env env' body eos sv st = (resp, sv', st')" and "unkeyed (st_context st)" and "compiled_snapshot st"
  shows "same_stores sv sv'"
proof -
  obtain r st1 where b: "build_filtered_body_response eos body st = (r, st1)" by fastforce
  note f = build_filtered_frame [OF b]
  have u: "unkeyed (st_context st1)" "compiled_snapshot st1" using f(2) assms(2,3) same_routeD(3) [OF f(1)] by auto
  consider (fast) "is_compression_only_route st" | (noop) "\<not> is_compression_only_route st" "\<not> route_needs_response_body_processing st"
    | (refused) reason where "\<not> is_compression_only_route st" "route_needs_response_body_processing st" "r = Inl reason"
    | (built) common where "\<not> is_compression_only_route st" "route_needs_response_body_processing st" "r = Inr common"
    by (cases r) auto
  then show ?thesis
  proof cases
    case fast
    with assms(1) show ?thesis
      by (auto simp: response_body_def response_body_compression_only_def Let_def dest: decide_fast_stores split: if_splits prod.splits)
  next
    case noop
    with assms(1) show ?thesis by (simp add: response_body_def)
  next
    case refused
    with assms(1) b have "decide_again env' body (unfiltered_response body st1 reason) sv st1 = (resp, sv', st')"
      by (simp add: response_body_def)
    from decide_again_unkeyed [OF this u] show ?thesis .
  next
    case built
    obtain sv2 st2 where s: "store_response env body common sv st1 = (sv2, st2)" by fastforce
    note t = store_response_unkeyed [OF s u]
    from built assms(1) b s have "decide_again env' body (RespResponseBody common) sv2 st2 = (resp, sv', st')"
      by (simp add: response_body_def)
    from decide_again_unkeyed [OF this t(2)] u(2) same_routeD(3) [OF t(3)] show ?thesis
      using same_stores_trans [OF t(1)] by simp
  qed
qed

text \<open>
  (C2) Credentials keep a request away from the caches. A request with an authorization header or a cookie on a route
  without a private cache is never answered from a cache (an immediate response can only come from the hand-over
  between coalesced requests), and whatever response headers and body follow on the stream, handling them leaves both
  caches and the queue of asynchronous stores as they were, so its response is never stored for anyone.
\<close>

theorem credentials_never_cached:
  assumes "request_headers env now headers sv StreamFilterState_default = (resp, sv1, st1)"
    and "\<forall>snap. sv_policy_store sv = Some (Some snap) \<longrightarrow> sn_route_runtimes snap = compile_route_runtime_table (sn_routes snap)"
    and "st_matched_policy st1 = Some (i, pol)" and "\<not> cache_private (cache pol)" and "credentials headers"
  shows "(\<forall>imm. resp = RespImmediate imm \<longrightarrow> ctx_cache_layer (st_context st1) = Some ''COALESCED'') \<and>
    (\<forall>env2 hs sv2 r2 sv3 st3. response_headers env2 hs sv2 st1 = (r2, sv3, st3) \<longrightarrow> same_stores sv2 sv3 \<and>
       (\<forall>env3 env4 body eos sv4 r4 sv5 st5. response_body env3 env4 body eos sv4 st3 = (r4, sv5, st5) \<longrightarrow> same_stores sv4 sv5))"
proof -
  note u = request_headers_unkeyed [OF assms(1,3-5)]
  have c: "compiled_snapshot st1" using u(3) assms(2) by (simp add: compiled_snapshot_def split: option.splits)
  show ?thesis
  proof (intro conjI allI impI)
    show "ctx_cache_layer (st_context st1) = Some ''COALESCED''" if "resp = RespImmediate imm" for imm using u(2) that .
    fix env2 hs sv2 r2 sv3 st3
    assume h: "response_headers env2 hs sv2 st1 = (r2, sv3, st3)"
    note r = response_headers_unkeyed [OF h u(1) c]
    show "same_stores sv2 sv3" by (rule r(2))
    fix env3 env4 body eos sv4 r4 sv5 st5
    assume "response_body env3 env4 body eos sv4 st3 = (r4, sv5, st5)"
    then show "same_stores sv4 sv5" by (rule response_body_unkeyed) (use r c same_routeD(3) [OF r(3)] in simp_all)
  qed
qed

lemma request_headers_matched:
  assumes "st0 = (case sv_policy_store sv of None \<Rightarrow> st | Some active \<Rightarrow> st\<lparr>st_active_policy_snapshot := active\<rparr>)"
    and "\<not> reject_requests st0" and "apply_request_headers_selection headers st0 = (view, st2)"
    and "match_request (se_seed env) sv (st2\<lparr>st_matched_policy := None\<rparr>) = (matched, sv2)"
  shows "st_matched_policy (snd (snd (request_headers env now headers sv st))) = matched"
  unfolding request_headers_def Let_def assms(1) [symmetric] if_not_P [OF assms(2)] assms(3) prod.case assms(4)
  by (auto simp: prepare_request_def keyless_effective Let_def split: prod.splits option.splits)

definition orders_headers :: HeaderMap where
  "orders_headers = [\<lparr>hv_key = '':path'', hv_value = ''/orders'', hv_raw_value = []\<rparr>,
     \<lparr>hv_key = ''authorization'', hv_value = ''Bearer t'', hv_raw_value = []\<rparr>]"

definition orders_service :: "RuntimePolicySnapshot \<Rightarrow> (string \<rightharpoonup> string) Service" where
  "orders_service snap = \<lparr>sv_policy_store = Some (Some snap), sv_l1_cache = Some fresh_cache, sv_l2_cache = None,
     sv_metrics_registry = None, sv_coalescing_registry = None, sv_route_cache_epoch_store = Some orders_store,
     sv_worker_queue = None, sv_variant_registry = []\<rparr>"

lemma orders_snapshot_exists:
  "\<exists>snap. build_runtime_policy_snapshot \<lparr>k0 = 1, k1 = 2\<rparr> [orders_get] ''v1'' 1 = Some snap \<and>
     sn_route_runtimes snap = compile_route_runtime_table (sn_routes snap) \<and> sn_routes snap = [orders_get] \<and>
     sn_route_matcher_ready snap \<and> \<not> sn_reject_requests snap \<and>
     map_option fst (match_route_compiled \<lparr>k0 = 1, k1 = 2\<rparr> (sn_route_matcher snap) (Some ''/orders'') None) = Some (Some 0)"
proof -
  obtain m where m: "compile_route_matcher \<lparr>k0 = 1, k1 = 2\<rparr> [orders_get] empty_matcher = Some m"
    "\<And>path mx. map_option fst (match_route_compiled \<lparr>k0 = 1, k1 = 2\<rparr> m path mx) = Some (match_route_by_path (Some [orders_get]) path)"
    using compile_route_matcher_first_match [of "[orders_get]" "\<lparr>k0 = 1, k1 = 2\<rparr>" empty_matcher]
    by (auto simp: count_kind_def orders_defs kMaxCompiledRoutes_def)
  have "match_route_by_path (Some [orders_get]) (Some ''/orders'') = Some 0"
    by (simp add: match_route_by_path_def route_matches_def orders_defs)
  with m(2) [of "Some ''/orders''" None]
  have "map_option fst (match_route_compiled \<lparr>k0 = 1, k1 = 2\<rparr> m (Some ''/orders'') None) = Some (Some 0)" by simp
  with m(1) show ?thesis by (simp add: build_runtime_policy_snapshot_def)
qed

lemma orders_selection:
  assumes "apply_request_headers_selection orders_headers st = (view, st')"
  shows "ctx_raw_path (st_context st') = ''/orders''" "ctx_raw_path_length (st_context st') = 7"
  using assms
  by (auto simp: apply_request_headers_selection_def orders_headers_def scan_request_headers_def RequestHeaderView_default_def
      header_value_def extract_raw_path_and_query_def set_path_and_query_def cstr_def NUL_def bounded_copy_def kRawPathBufferSize_def
      parse_and_store_selected_fields_def clear_selected_fields_def Let_def)

theorem credentials_never_cached_witness:
  "\<exists>snap resp sv1 st1. request_headers quiet_env 1000 orders_headers (orders_service snap) StreamFilterState_default = (resp, sv1, st1) \<and>
     st_matched_policy st1 = Some (0, orders_get) \<and>
     same_stores (orders_service snap) (fst (snd (response_headers quiet_env [] (orders_service snap) st1)))"
proof -
  obtain snap :: RuntimePolicySnapshot where s: "sn_route_runtimes snap = compile_route_runtime_table (sn_routes snap)" "sn_routes snap = [orders_get]"
    "sn_route_matcher_ready snap" "\<not> sn_reject_requests snap"
    "map_option fst (match_route_compiled \<lparr>k0 = 1, k1 = 2\<rparr> (sn_route_matcher snap) (Some ''/orders'') None) = Some (Some 0)"
    using orders_snapshot_exists by blast
  let ?sv = "orders_service snap"
  let ?st0 = "StreamFilterState_default\<lparr>st_active_policy_snapshot := Some snap\<rparr> :: (string \<rightharpoonup> string) StreamFilterState"
  obtain view st2 where a: "apply_request_headers_selection orders_headers ?st0 = (view, st2)" by fastforce
  have m: "fst (match_request (se_seed quiet_env) ?sv (st2\<lparr>st_matched_policy := None\<rparr>)) = Some (0, orders_get)"
    using s orders_selection [OF a] keyless_selection(3) [OF a]
    by (auto simp: match_request_def quiet_env_def orders_service_def)
  obtain resp sv1 st1 where r: "request_headers quiet_env 1000 orders_headers ?sv StreamFilterState_default = (resp, sv1, st1)"
    by (cases "request_headers quiet_env 1000 orders_headers ?sv StreamFilterState_default") auto
  have "st_matched_policy st1 = Some (0, orders_get)"
    using request_headers_matched [OF _ _ a, where sv = ?sv and st = StreamFilterState_default and env = quiet_env
        and matched = "Some (0, orders_get)" and now = 1000] m r s(4)
    by (cases "match_request (se_seed quiet_env) ?sv (st2\<lparr>st_matched_policy := None\<rparr>)")
      (simp add: orders_service_def reject_requests_def)
  moreover have "credentials orders_headers"
    by (simp add: credentials_def orders_headers_def scan_request_headers_def RequestHeaderView_default_def header_value_def Let_def)
  moreover have "\<not> cache_private (cache orders_get)" by (simp add: orders_defs)
  moreover have "\<forall>snap'. sv_policy_store ?sv = Some (Some snap') \<longrightarrow> sn_route_runtimes snap' = compile_route_runtime_table (sn_routes snap')"
    using s(1) by (simp add: orders_service_def)
  ultimately have "same_stores ?sv (fst (snd (response_headers quiet_env [] ?sv st1)))"
    using credentials_never_cached [OF r] by (metis prod.exhaust_sel)
  with r \<open>st_matched_policy st1 = Some (0, orders_get)\<close> show ?thesis by blast
qed

section \<open>Leaders whose response is not rewritten\<close>

lemma response_run_on_service:
  assumes "set stages \<subseteq> set kResponseStages"
  shows "sv_coalescing_registry (fst (run_on_service env stages sv ctx)) = sv_coalescing_registry sv"
proof -
  have "list_all (\<lambda>st. st \<in> set kResponseStages) stages" using assms by (auto simp: list_all_iff)
  from response_run.kept [OF this, of "attach sv ctx" "shared_view (attach sv ctx)" env]
  have "shared_view (snd (run_named env stages (attach sv ctx))) = shared_view (attach sv ctx)" by simp
  then show ?thesis by (simp add: run_on_service_def service_after_def shared_view_def Let_def attach_def)
qed

lemma response_headers_registry:
  assumes "compiled_snapshot st"
  shows "sv_coalescing_registry (fst (snd (response_headers env headers sv st))) = sv_coalescing_registry sv"
proof -
  define st1 where "st1 = apply_response_content_type headers st"
  have "response_stages st1 = response_stages st" unfolding st1_def by (rule same_routeD(1) [OF content_type_frame(1)])
  then have "sv_coalescing_registry (fst (run_on_service env (response_stages st1) sv (st_context st1))) = sv_coalescing_registry sv"
    using stages_subset(2) [OF assms] by (simp add: response_run_on_service)
  then show ?thesis
    unfolding response_headers_def Let_def st1_def [symmetric]
    by (auto simp: response_headers_compression_only_def decide_fast_def Let_def split: prod.splits)
qed

lemma decide_again_registry:
  assumes "compiled_snapshot st"
  shows "sv_coalescing_registry (fst (snd (decide_again env body r sv st))) = sv_coalescing_registry sv"
proof -
  let ?ctx = "if \<not> ctx_response_body_size_known (st_context st)
      then (st_context st)\<lparr>ctx_response_body_len := length body, ctx_response_body_size_known := True\<rparr> else st_context st"
  obtain sv2 ctx2 where run: "run_on_service env (response_stages st) sv ?ctx = (sv2, ctx2)"
    by (cases "run_on_service env (response_stages st) sv ?ctx")
  then have "sv_coalescing_registry sv2 = sv_coalescing_registry sv"
    using response_run_on_service [OF stages_subset(2) [OF assms], of env sv ?ctx] by simp
  then show ?thesis unfolding decide_again_def Let_def run by simp
qed

text \<open>
  (C17) A leader whose response is not rewritten never completes its flight. On a coalescing route, when the body handler
  refuses the body (an error status, a body that is not JSON or too large, a route in observe mode) neither handler
  touches the registry: the store pipeline, whose last stage would report the flight as failed, is not run, so the
  followers of the flight wait for their full budget.
\<close>

theorem refused_leader_never_completes:
  assumes "st_policy st = Some pol" and "co_enabled (coalescing pol)" and "compiled_snapshot st"
    and "body_refused eos body st = Some reason"
  shows "sv_coalescing_registry (fst (snd (response_headers env headers sv st))) = sv_coalescing_registry sv \<and>
    sv_coalescing_registry (fst (snd (response_body env env' body eos sv' st))) = sv_coalescing_registry sv'"
proof -
  have "\<not> is_compression_only_route st" using assms(1,2) by (auto simp: is_compression_only_route_def)
  moreover have "build_filtered_body_response eos body st = (Inl reason, st)"
    using assms(4) by (simp add: build_filtered_body_response_def)
  ultimately have "sv_coalescing_registry (fst (snd (response_body env env' body eos sv' st))) = sv_coalescing_registry sv'"
    by (simp add: response_body_def decide_again_registry [OF assms(3)])
  with response_headers_registry [OF assms(3)] show ?thesis by blast
qed

definition coalesced_get :: RoutePolicy where
  "coalesced_get = RoutePolicy_default\<lparr>route_id := Some ''orders'', match_prefix := Some ''/orders'', allowed_method := MethodGet,
     coalescing := CoalescingPolicy_default\<lparr>co_enabled := True\<rparr>\<rparr>"

definition failed_state :: "(string \<rightharpoonup> string) StreamFilterState" where
  "failed_state = StreamFilterState_default\<lparr>st_matched_policy := Some (0, coalesced_get), st_is_non_2xx_response := True\<rparr>"

theorem refused_leader_never_completes_witness:
  "\<exists>reason. body_refused True ''{}'' failed_state = Some reason \<and>
     sv_coalescing_registry (fst (snd (response_body quiet_env quiet_env ''{}'' True
       ((orders_service (empty_snapshot ''a'' 1))\<lparr>sv_coalescing_registry := Some fresh_registry\<rparr>) failed_state))) = Some fresh_registry"
proof -
  have "body_refused True ''{}'' failed_state \<noteq> None"
    by (auto simp: body_refused_def failed_state_def)
  then obtain reason where r: "body_refused True ''{}'' failed_state = Some reason" by blast
  moreover have "st_policy failed_state = Some coalesced_get" "co_enabled (coalescing coalesced_get)" "compiled_snapshot failed_state"
    by (simp_all add: failed_state_def StreamFilterState_default_def coalesced_get_def compiled_snapshot_def)
  ultimately show ?thesis using refused_leader_never_completes by fastforce
qed

section \<open>What reaches the client\<close>

definition body_mutation :: "ProcessingResponse \<Rightarrow> string option" where
  "body_mutation r = (case r of RespResponseBody common \<Rightarrow> com_body_mutation common | _ \<Rightarrow> None)"

lemma body_mutation_simps [simp]: "body_mutation (RespResponseBody common) = com_body_mutation common"
  by (simp add: body_mutation_def)

lemma decide_again_mutation: "body_mutation (fst (decide_again env body r sv st)) = body_mutation r"
  by (cases r) (simp_all add: decide_again_def body_mutation_def apply_compression_decision_headers_def add_headers_def Let_def
      split: prod.split)

lemma response_body_mutation:
  assumes "body_mutation (fst (response_body env env' body eos sv st)) = Some out"
  shows "\<exists>common st'. build_filtered_body_response eos body st = (Inr common, st') \<and> com_body_mutation common = Some out"
proof -
  obtain r st1 where b: "build_filtered_body_response eos body st = (r, st1)" by fastforce
  have fast: "body_mutation (fst (response_body_compression_only body sv st)) = None"
    by (simp add: response_body_compression_only_def body_mutation_def apply_compression_decision_headers_def add_headers_def
        CommonResponse_continue_def Let_def split: prod.split)
  have un: "body_mutation (unfiltered_response body st1 reason) = None" for reason
    by (simp add: unfiltered_response_def body_mutation_def fail_closed_response_def add_headers_def CommonResponse_continue_def)
  have "body_mutation (RespResponseBody CommonResponse_continue) = None"
    by (simp add: body_mutation_def CommonResponse_continue_def)
  with assms fast un b show ?thesis
    by (cases r) (auto simp: response_body_def decide_again_mutation split: if_splits prod.splits)
qed

lemma filtered_body:
  assumes "build_filtered_body_response eos body st = (Inr common, st')" and "com_body_mutation common = Some out"
  shows "\<exists>status parsed w removed. st_response_kind st = EligibleJson \<and>
    parse_flat_json_object (Some (cstr body)) EligibleJson = (status, parsed) \<and>
    transform_with_status (Some (cstr body)) status (Some parsed) ((st_context st)\<lparr>ctx_input_payload_bytes := length body\<rparr>)
      True (Some (length body + 1)) = (FfOk, w, removed) \<and> out = (case w of None \<Rightarrow> [] | Some (t, n) \<Rightarrow> take n t)"
proof -
  have n: "body_refused eos body st = None" using assms(1) by (auto simp: build_filtered_body_response_def split: option.splits)
  have f: "filtering_active st"
    using assms n by (auto simp: build_filtered_body_response_def add_headers_def CommonResponse_continue_def split: if_splits)
  have k: "st_response_kind st = EligibleJson" using n f by (auto simp: body_refused_def split: option.splits if_splits)
  obtain status parsed where p: "parse_flat_json_object (Some (cstr body)) EligibleJson = (status, parsed)" by fastforce
  obtain s w removed where t: "transform_with_status (Some (cstr body)) status (Some parsed)
      ((st_context st)\<lparr>ctx_input_payload_bytes := length body\<rparr>) True (Some (length body + 1)) = (s, w, removed)"
    by (cases "transform_with_status (Some (cstr body)) status (Some parsed)
        ((st_context st)\<lparr>ctx_input_payload_bytes := length body\<rparr>) True (Some (length body + 1))") auto
  have "s = FfOk" "out = (case w of None \<Rightarrow> [] | Some (t, n) \<Rightarrow> take n t)"
    using assms n f k p t
    by (cases s; auto simp: build_filtered_body_response_def Let_def add_headers_def CommonResponse_continue_def)+
  with k p t show ?thesis by blast
qed

text \<open>
  (C3) End to end: when the body handler substitutes the body on a route with a field policy and the client selected
  nothing, the new body is one JSON object all of whose members have a path the policy permits. For bodies the flat
  parser accepts this needs keys without escapes that fit the key buffer and at most sixteen members. JSON and member
  names are those of the code's own scanner: a name is at most the first 63 characters of the key, and a backslash
  stands for the character after it, so that a \<open>u\<close> escape is not decoded.
\<close>

theorem body_mutation_permitted:
  assumes "fst (response_body env env' body eos sv st) = RespResponseBody common" and "com_body_mutation common = Some out"
    and "policy_mode (st_context st) = Some pol"
    and "fst (parse_flat_json_object (Some (cstr body)) EligibleJson) = FpOk \<Longrightarrow>
      case parse_body (cstr body) of None \<Rightarrow> False | Some ms \<Rightarrow> length ms \<le> kMaxFields \<and> list_all plain_member ms"
  shows "\<exists>ms. parse_body out = Some ms \<and> permitted_members pol [] ms"
proof -
  have "body_mutation (fst (response_body env env' body eos sv st)) = Some out" using assms(1,2) by (simp add: body_mutation_def)
  then obtain common' st' where "build_filtered_body_response eos body st = (Inr common', st')" "com_body_mutation common' = Some out"
    using response_body_mutation by blast
  from filtered_body [OF this] obtain status parsed w removed where
    k: "st_response_kind st = EligibleJson" and p: "parse_flat_json_object (Some (cstr body)) EligibleJson = (status, parsed)"
    and t: "transform_with_status (Some (cstr body)) status (Some parsed) ((st_context st)\<lparr>ctx_input_payload_bytes := length body\<rparr>)
      True (Some (length body + 1)) = (FfOk, w, removed)" and out: "out = (case w of None \<Rightarrow> [] | Some (t, n) \<Rightarrow> take n t)"
    by blast
  have m: "policy_mode ((st_context st)\<lparr>ctx_input_payload_bytes := length body\<rparr>) = Some pol"
    using assms(3) by (auto simp: policy_mode_def split: option.splits if_splits)
  obtain t len where w: "w = Some (t, len)"
    using t m by (auto simp: transform_with_status_def nested_result_def write_invalid_json_safe_error_def Let_def
        filter_flat_json_by_policy_denylist_def filter_flat_json_def write_result_def
        policy_filter_equation text_result_def split: if_splits option.splits prod.splits)
  from transform_permitted [OF m p t [unfolded w]] assms(4) p
  have "\<exists>ms. parse_body t = Some ms \<and> len = length t \<and> permitted_members pol [] ms" by simp
  with out w show ?thesis by auto
qed

lemma response_body_built:
  assumes "st_policy st = Some pol" "ff_mode (field_filter pol) \<noteq> FilterNone" "build_filtered_body_response eos body st = (r, st1)"
  shows "case r of
      Inr common \<Rightarrow> \<exists>c. fst (response_body env env' body eos sv st) = RespResponseBody c \<and> com_body_mutation c = com_body_mutation common
    | Inl reason \<Rightarrow> (if fails_closed st1 reason then fst (response_body env env' body eos sv st) = fail_closed_response reason
        else \<exists>c. fst (response_body env env' body eos sv st) = RespResponseBody c \<and> com_body_mutation c = None)"
proof -
  have n: "\<not> is_compression_only_route st" "route_needs_response_body_processing st"
    using assms(1,2) by (auto simp: is_compression_only_route_def route_needs_response_body_processing_def)
  have d: "\<exists>c'. fst (decide_again env' body (RespResponseBody c) sv st) = RespResponseBody c' \<and> com_body_mutation c' = com_body_mutation c"
    for c sv and st :: "'a StreamFilterState"
    by (simp add: decide_again_def apply_compression_decision_headers_def add_headers_def Let_def split: prod.split)
  have i: "fst (decide_again env' body (fail_closed_response reason) sv st) = fail_closed_response reason"
    for reason sv and st :: "'a StreamFilterState"
    by (simp add: decide_again_def fail_closed_response_def Let_def split: prod.split)
  obtain c where u: "unfiltered_response body st1 reason = (if fails_closed st1 reason then fail_closed_response reason else RespResponseBody (c reason)) \<and>
      com_body_mutation (c reason) = None" for reason
    by (rule that [of "\<lambda>reason. add_headers (report_headers (length body) (length body) 0 0 False (ctx_cache_hit (st_context st1)) @
         (if reason \<noteq> ReasonNone then [(''x-bytetaper-fail-open-reason'', get_fail_open_reason_string reason)] else []))
        CommonResponse_continue"]) (simp add: unfiltered_response_def add_headers_def CommonResponse_continue_def)
  show ?thesis
  proof (cases r)
    case (Inl reason)
    with n assms(3) d [of "c reason"] i u [of reason] show ?thesis by (simp add: response_body_def)
  next
    case (Inr common)
    obtain sv2 st2 where "store_response env body common sv st1 = (sv2, st2)" by fastforce
    with Inr n assms(3) d [of common] show ?thesis by (simp add: response_body_def)
  qed
qed

text \<open>A route with the denylist \<open>s[].k\<close> that fails closed, and a stream of it after its response headers.\<close>

definition guarded_route :: RoutePolicy where
  "guarded_route = RoutePolicy_default\<lparr>route_id := Some ''orders'', match_prefix := Some ''/orders'', mutation := MutationFull,
     failure_mode := FailClosed, field_filter := example_denylist\<rparr>"

definition guarded_state :: "(string \<rightharpoonup> string) StreamFilterState" where
  "guarded_state = StreamFilterState_default\<lparr>st_matched_policy := Some (0, guarded_route), st_response_kind := EligibleJson,
     st_has_effective_field_filter := True, st_context := ApgTransformContext_default\<lparr>ctx_matched_policy := Some guarded_route\<rparr>\<rparr>"

lemma guarded_route_eval:
  "validate_route_policy guarded_route = (True, None)" "mutation guarded_route = MutationFull" "failure_mode guarded_route = FailClosed"
  "field_filter guarded_route = example_denylist" "exceeds_max_response_bytes guarded_route n = False"
  by (code_simp, simp_all add: guarded_route_def exceeds_max_response_bytes_def default_defs)

lemma guarded_state_eval:
  "st_policy guarded_state = Some guarded_route" "policy_mode (st_context guarded_state) = Some example_denylist"
  "filtering_active guarded_state" "st_response_kind guarded_state = EligibleJson" "st_has_effective_field_filter guarded_state"
  "body_refused True body guarded_state = None"
  by (simp_all add: guarded_state_def policy_mode_def ApgTransformContext_default_def guarded_route_eval filtering_active_def
      body_refused_def StreamFilterState_default_def) (simp_all add: example_denylist_def)

lemma guarded_run:
  "\<exists>common st'. build_filtered_body_response True example_body guarded_state = (Inr common, st') \<and>
     com_body_mutation common = Some example_output"
proof -
  obtain parsed where parsed: "parse_flat_json_object (Some example_body) EligibleJson = (FpSkipUnsupported, parsed)"
    using nested_example_status by (cases "parse_flat_json_object (Some example_body) EligibleJson") simp
  then have src: "pj_source parsed = Some example_body"
    by (auto simp: parse_flat_json_object_def Let_def split: if_splits option.splits prod.splits)
  have c: "cstr example_body = example_body" by (simp add: example_body_def cstr_def NUL_def)
  have m: "policy_mode ((st_context guarded_state)\<lparr>ctx_input_payload_bytes := n\<rparr>) = Some example_denylist" for n
    using guarded_state_eval(2) by (auto simp: policy_mode_def split: option.splits if_splits)
  have "filter_nested_json_by_policy_denylist (Some example_body) example_denylist (Suc (length example_body)) =
      (FfOk, Some (example_output, 7, \<lparr>fc_encountered = 3, fc_emitted = 1\<rparr>))"
    by (simp add: policy_filter_equation example_parse example_denylist_def example_output_def deny_member.simps deny_element.simps
        json_path_eval text_result_def mk_object_def member_text_def) (simp add: example_body_def)
  then show ?thesis
    using src by (simp add: build_filtered_body_response_def guarded_state_eval c parsed m transform_with_status_def nested_result_def
        add_headers_def Let_def) (simp add: example_output_def)
qed

theorem body_mutation_permitted_witness:
  "\<exists>common ms. fst (response_body quiet_env quiet_env example_body True (orders_service (empty_snapshot ''a'' 1)) guarded_state) =
       RespResponseBody common \<and> com_body_mutation common = Some example_output \<and>
     parse_body example_output = Some ms \<and> permitted_members example_denylist [] ms"
proof -
  let ?r = "fst (response_body quiet_env quiet_env example_body True (orders_service (empty_snapshot ''a'' 1)) guarded_state)"
  obtain c0 st' where b: "build_filtered_body_response True example_body guarded_state = (Inr c0, st')"
    "com_body_mutation c0 = Some example_output" using guarded_run by blast
  have "ff_mode (field_filter guarded_route) \<noteq> FilterNone" by (simp add: guarded_route_eval example_denylist_def)
  from response_body_built [OF guarded_state_eval(1) this b(1), of quiet_env quiet_env "orders_service (empty_snapshot ''a'' 1)"] b(2)
  obtain common where c: "?r = RespResponseBody common" "com_body_mutation common = Some example_output" by auto
  have "cstr example_body = example_body" by (simp add: example_body_def cstr_def NUL_def)
  then have "fst (parse_flat_json_object (Some (cstr example_body)) EligibleJson) \<noteq> FpOk" by (simp add: nested_example_status)
  from body_mutation_permitted [OF c guarded_state_eval(2)] this
  have "\<exists>ms. parse_body example_output = Some ms \<and> permitted_members example_denylist [] ms" by blast
  with c show ?thesis by blast
qed

text \<open>
  (C13) Failing closed does not keep every unfiltered body from the client. On a route that fails closed and whose policy
  filters fields, a body that arrives in more than one chunk, and a body the flat parser skips and that is not one
  well-formed object (an array of objects at the top level, or an object with a nested value and broken text), are
  answered by a response that leaves the upstream body as it is: the reason \<open>skip_unsupported\<close> is exempt from
  rejection.
\<close>

theorem fail_closed_forwards_unfiltered:
  assumes "st_policy st = Some pol" and "failure_mode pol = FailClosed" and "ff_mode (field_filter pol) \<noteq> FilterNone"
    and "fst (validate_route_policy pol)" and "mutation pol = MutationFull" and "\<not> st_is_non_2xx_response st"
    and "st_response_kind st = EligibleJson" and "filtering_active st"
    and "\<not> eos \<or> \<not> exceeds_max_response_bytes pol (of_nat (length body)) \<and>
      fst (parse_flat_json_object (Some (cstr body)) EligibleJson) = FpSkipUnsupported \<and> parse_body (cstr body) = None"
  shows "\<exists>c. fst (response_body env env' body eos sv st) = RespResponseBody c \<and> com_body_mutation c = None"
proof -
  obtain i where i: "st_matched_policy st = Some (i, pol)" using assms(1) by auto
  have "\<exists>st'. build_filtered_body_response eos body st = (Inl ReasonSkipUnsupported, st')"
  proof (cases eos)
    case False
    with i assms(2-) show ?thesis by (simp add: build_filtered_body_response_def body_refused_def)
  next
    case True
    with i assms(2-) have b: "body_refused eos body st = None" by (simp add: body_refused_def)
    obtain parsed where p: "parse_flat_json_object (Some (cstr body)) EligibleJson = (FpSkipUnsupported, parsed)"
      using True assms(9) by (cases "parse_flat_json_object (Some (cstr body)) EligibleJson") simp
    have t: "transform_with_status (Some (cstr body)) FpSkipUnsupported (Some parsed) ctx True (Some cap) = (FfSkipUnsupported, None, 0)"
      for ctx :: "'a ApgTransformContext" and cap
      using True assms(9)
      by (simp add: transform_with_status_def policy_filter_equation selection_filter_equation nested_result_def split: option.split)
    show ?thesis using b p assms(7,8) t by (simp add: build_filtered_body_response_def Let_def)
  qed
  then obtain st' where b: "build_filtered_body_response eos body st = (Inl ReasonSkipUnsupported, st')" by blast
  from response_body_built [OF assms(1,3) b, of env env' sv] show ?thesis by (simp add: fails_closed_def)
qed

text \<open>\<^verbatim>\<open>[{"s":1}]\<close>.\<close>

definition array_body :: string where
  "array_body = [CHR ''['', CHR ''{'', CHR 0x22, CHR ''s'', CHR 0x22, CHR '':'', CHR ''1'', CHR ''}'', CHR '']'']"

theorem fail_closed_forwards_unfiltered_witness:
  "failure_mode guarded_route = FailClosed \<and>
   (\<exists>c. fst (response_body quiet_env quiet_env array_body True (orders_service (empty_snapshot ''a'' 1)) guarded_state) = RespResponseBody c \<and>
     com_body_mutation c = None)"
proof -
  have "cstr array_body = array_body" by (simp add: array_body_def cstr_def NUL_def)
  moreover have "fst (parse_flat_json_object (Some array_body) EligibleJson) = FpSkipUnsupported" "parse_body array_body = None"
    by (simp_all add: parse_flat_json_object_def parse_body_def array_body_def jvalue.simps jmembers.simps jelements.simps json_token_eval Let_def)
  moreover have "ff_mode (field_filter guarded_route) \<noteq> FilterNone" by (simp add: guarded_route_eval example_denylist_def)
  moreover have "\<not> st_is_non_2xx_response guarded_state" by (simp add: guarded_state_def StreamFilterState_default_def)
  ultimately show ?thesis
    using fail_closed_forwards_unfiltered [OF guarded_state_eval(1) guarded_route_eval(3)]
    by (simp add: guarded_state_eval guarded_route_eval)
qed

section \<open>Routes whose mutations invalidate nothing\<close>

lemma epoch_store_events [simp]:
  "ctx_route_cache_epoch_store (stage_event e ctx) = ctx_route_cache_epoch_store ctx"
  "ctx_route_cache_epoch_store (runtime_event re ctx) = ctx_route_cache_epoch_store ctx"
  "ctx_route_cache_epoch_store (flight_event fe ctx) = ctx_route_cache_epoch_store ctx"
  "ctx_route_cache_epoch_store (put_l1 seed entry ctx) = ctx_route_cache_epoch_store ctx"
  "ctx_route_cache_epoch_store (complete_flight seed state now ctx) = ctx_route_cache_epoch_store ctx"
  "ctx_route_cache_epoch_store (snd (enqueue_store seed now key ttl ctx)) = ctx_route_cache_epoch_store ctx"
  by (simp_all add: stage_event_def runtime_event_def flight_event_def put_l1_def complete_flight_def enqueue_store_def Let_def
      split: prod.split)

lemma epoch_store_kept:
  assumes "st \<in> set kStoreStages \<union> {CompressionDecide}"
  shows "ctx_route_cache_epoch_store (snd (stage_of env st ctx)) = ctx_route_cache_epoch_store ctx"
proof -
  have "ctx_route_cache_epoch_store (snd (l1_cache_store_stage seed ctx)) = ctx_route_cache_epoch_store ctx" for seed
    by (simp add: l1_cache_store_stage_def Let_def split: option.split)
  moreover have "ctx_route_cache_epoch_store (snd (l1_variant_store_stage seed ctx)) = ctx_route_cache_epoch_store ctx" for seed
    by (simp add: l1_variant_store_stage_def Let_def split: option.split)
  moreover have "ctx_route_cache_epoch_store (snd (l2_cache_async_store_enqueue_stage seed now ctx)) = ctx_route_cache_epoch_store ctx"
    for seed now by (simp add: l2_cache_async_store_enqueue_stage_def split: option.split L2Key.split)
  moreover have "ctx_route_cache_epoch_store (snd (coalescing_leader_completion_stage seed now ctx)) = ctx_route_cache_epoch_store ctx"
    for seed now by (simp add: coalescing_leader_completion_stage_def split: CoalescingCompletionHandoffTarget.split)
  moreover have "ctx_route_cache_epoch_store (snd (compression_decision_stage ctx)) = ctx_route_cache_epoch_store ctx"
    by (simp add: compression_decision_stage_def Let_def split: prod.split)
  ultimately show ?thesis using assms by (auto simp: kStoreStages_def)
qed

interpretation epoch_run: confined_stages env "\<lambda>st. st \<in> set kStoreStages \<union> {CompressionDecide}"
  "\<lambda>ctx. ctx_route_cache_epoch_store ctx = s" for env :: "'db StageEnv" and s
  by unfold_locales (simp, simp only: epoch_store_kept)

lemma epoch_run_on_service:
  assumes "set stages \<subseteq> set kStoreStages \<union> {CompressionDecide}"
  shows "sv_route_cache_epoch_store (fst (run_on_service env stages sv ctx)) = sv_route_cache_epoch_store sv"
proof -
  have "list_all (\<lambda>st. st \<in> set kStoreStages \<union> {CompressionDecide}) stages" using assms by (auto simp: list_all_iff)
  from epoch_run.kept [OF this, of "attach sv ctx" "sv_route_cache_epoch_store sv" env]
  show ?thesis by (simp add: run_on_service_def service_after_def Let_def attach_def)
qed

text \<open>
  A stream whose responses run no invalidation: its route counts as compression only, or is matched at a position of the
  table beyond the compiled runtimes.
\<close>

definition beyond_runtimes :: "'db StreamFilterState \<Rightarrow> bool" where
  "beyond_runtimes st \<longleftrightarrow>
     (case (st_active_policy_snapshot st, st_matched_policy st) of
        (Some snap, Some (i, _)) \<Rightarrow> i < length (sn_routes snap) \<and> kMaxCompiledRoutesCapacity \<le> i
      | _ \<Rightarrow> False)"

lemma beyond_runtimes_stages:
  assumes "beyond_runtimes st" "compiled_snapshot st"
  shows "response_stages st = [CompressionDecide]" "store_stages st = kStoreStages"
  using assms find_runtime
  by (auto simp: beyond_runtimes_def compiled_snapshot_def response_stages_def store_stages_def st_runtime_def split: option.splits)

lemma same_route_beyond: "same_route st st' \<Longrightarrow> beyond_runtimes st' = beyond_runtimes st"
  by (simp add: beyond_runtimes_def same_route_def)

lemma decide_again_epochs:
  assumes "response_stages st = [CompressionDecide]"
  shows "sv_route_cache_epoch_store (fst (snd (decide_again env body r sv st))) = sv_route_cache_epoch_store sv"
proof -
  let ?ctx = "if \<not> ctx_response_body_size_known (st_context st)
      then (st_context st)\<lparr>ctx_response_body_len := length body, ctx_response_body_size_known := True\<rparr> else st_context st"
  obtain sv2 ctx2 where run: "run_on_service env [CompressionDecide] sv ?ctx = (sv2, ctx2)"
    by (cases "run_on_service env [CompressionDecide] sv ?ctx")
  then have "sv_route_cache_epoch_store sv2 = sv_route_cache_epoch_store sv"
    using epoch_run_on_service [of "[CompressionDecide]" env sv ?ctx] by simp
  then show ?thesis unfolding decide_again_def Let_def assms run by simp
qed

lemma store_response_epochs:
  assumes "store_response env body common sv st = (sv', st')" and "store_stages st = kStoreStages"
  shows "sv_route_cache_epoch_store sv' = sv_route_cache_epoch_store sv" "same_route st st'"
proof -
  let ?b = "if filtering_active st then (case com_body_mutation common of None \<Rightarrow> [] | Some b \<Rightarrow> b) else body"
  let ?ctx = "(st_context st)\<lparr>ctx_response_body := Some ?b, ctx_response_body_len := length ?b\<rparr>"
  obtain sv2 ctx2 where run: "run_on_service env kStoreStages sv ?ctx = (sv2, ctx2)"
    by (cases "run_on_service env kStoreStages sv ?ctx")
  then have "sv_route_cache_epoch_store sv2 = sv_route_cache_epoch_store sv"
    using epoch_run_on_service [of kStoreStages env sv ?ctx] by auto
  with assms(1) show "sv_route_cache_epoch_store sv' = sv_route_cache_epoch_store sv" "same_route st st'"
    unfolding store_response_def Let_def assms(2) run by (auto simp: same_route_def split: if_splits)
qed

lemma response_headers_epochs:
  assumes "is_compression_only_route st \<or> response_stages st = [CompressionDecide]"
  shows "sv_route_cache_epoch_store (fst (snd (response_headers env headers sv st))) = sv_route_cache_epoch_store sv"
proof -
  define st1 where "st1 = apply_response_content_type headers st"
  note r = same_routeD [OF content_type_frame(1) [of st headers], folded st1_def]
  obtain sv2 ctx2 where run: "run_on_service env (response_stages st1) sv (st_context st1) = (sv2, ctx2)"
    by (cases "run_on_service env (response_stages st1) sv (st_context st1)")
  then have e: "sv_route_cache_epoch_store sv2 = sv_route_cache_epoch_store sv" if "response_stages st = [CompressionDecide]"
    using epoch_run_on_service [of "[CompressionDecide]" env sv "st_context st1"] that r(1) by simp
  show ?thesis
    unfolding response_headers_def Let_def st1_def [symmetric] run
    using assms e r(4)
    by (auto simp: response_headers_compression_only_def decide_fast_def Let_def split: prod.splits)
qed

text \<open>
  (C15) Routes whose mutations invalidate nothing. A route that compresses and has no filter, cache, pagination or
  coalescing of its own counts as compression only, and a route at position 64 or later of the table has no compiled
  runtime. On the stream of such a route no response, whatever its status and whatever invalidation plan the request
  prepared, advances an epoch: entries of the targets stay valid after the mutation.
\<close>

theorem mutation_invalidation_skipped:
  assumes "is_compression_only_route st \<or> beyond_runtimes st \<and> compiled_snapshot st"
  shows "sv_route_cache_epoch_store (fst (snd (response_headers env headers sv st))) = sv_route_cache_epoch_store sv \<and>
    sv_route_cache_epoch_store (fst (snd (response_body env env' body eos sv' st))) = sv_route_cache_epoch_store sv'"
proof (intro conjI)
  show "sv_route_cache_epoch_store (fst (snd (response_headers env headers sv st))) = sv_route_cache_epoch_store sv"
    using assms beyond_runtimes_stages(1) by (intro response_headers_epochs) blast
  obtain r st1 where b: "build_filtered_body_response eos body st = (r, st1)" by fastforce
  note f = build_filtered_frame(1) [OF b]
  show "sv_route_cache_epoch_store (fst (snd (response_body env env' body eos sv' st))) = sv_route_cache_epoch_store sv'"
  proof (cases "is_compression_only_route st")
    case True
    then show ?thesis by (simp add: response_body_def response_body_compression_only_def decide_fast_def Let_def split: prod.split)
  next
    case False
    with assms have "beyond_runtimes st1" "compiled_snapshot st1" using same_route_beyond [OF f] same_routeD(3) [OF f] by auto
    note stages = beyond_runtimes_stages [OF this]
    show ?thesis
    proof (cases r)
      case (Inl reason)
      with False b show ?thesis by (simp add: response_body_def decide_again_epochs [OF stages(1)])
    next
      case (Inr common)
      obtain sv2 st2 where s: "store_response env body common sv' st1 = (sv2, st2)" by fastforce
      note t = store_response_epochs [OF s stages(2)]
      from Inr False b s t(1) same_routeD(1) [OF t(2)] stages(1) show ?thesis
        by (simp add: response_body_def decide_again_epochs)
    qed
  qed
qed

definition compressed_patch :: RoutePolicy where
  "compressed_patch = orders_patch\<lparr>compression := CompressionPolicy_default\<lparr>cmp_enabled := True\<rparr>\<rparr>"

definition patched_state :: "(string \<rightharpoonup> string) StreamFilterState" where
  "patched_state = StreamFilterState_default\<lparr>st_matched_policy := Some (1, compressed_patch),
     st_context := ApgTransformContext_default\<lparr>ctx_mutation_invalidation := plan_of compressed_patch, ctx_response_status_code := 204\<rparr>\<rparr>"

theorem mutation_invalidation_skipped_witness:
  "pending (ctx_mutation_invalidation (st_context patched_state)) \<and> succeeded (ctx_mutation_invalidation (st_context patched_state)) 204 \<and>
   sv_route_cache_epoch_store (fst (snd (response_headers quiet_env [] (orders_service (empty_snapshot ''a'' 1)) patched_state))) =
     Some orders_store"
proof -
  have "is_compression_only_route patched_state"
    by (simp add: is_compression_only_route_def patched_state_def StreamFilterState_default_def compressed_patch_def orders_defs default_defs)
  then have "sv_route_cache_epoch_store (fst (snd (response_headers quiet_env [] (orders_service (empty_snapshot ''a'' 1)) patched_state))) =
      sv_route_cache_epoch_store (orders_service (empty_snapshot ''a'' 1))"
    using mutation_invalidation_skipped [of patched_state quiet_env "[]" "orders_service (empty_snapshot ''a'' 1)"] by blast
  moreover have "ctx_mutation_invalidation (st_context patched_state) = plan_of compressed_patch" by (simp add: patched_state_def)
  moreover have "succeeded (plan_of compressed_patch) 204"
    by (simp add: succeeded_def plan_of_def Let_def compressed_patch_def orders_patch_policy)
  ultimately show ?thesis by (simp add: orders_service_def)
qed

end
