(* ===== verification/Spec2Isabelle.thy ===== *)
theory Spec2Isabelle
  imports Prelude Policy Metrics Hash Route_Matcher Semantic_Validator Cache_Key Cache_Entry L1_Cache Epoch_Store
    Query_View Pagination Compression Inflight_Registry Registry_Wait L2_Cache Coalescing Ring_Buffer Worker_Queue Worker_Drain
    Worker_Wakeup Worker_Store Apg_Context Field_Selection Json_Text Json_Filter Json_Policy
    Json_Selection Json_Transform Invalidation Cache_Stages Coalescing_Stages Header_Stages
    Extproc_Headers Default_Pipelines Pipeline_Safety Policy_Snapshot Extproc_Stream Extproc_Safety
begin

text \<open>
  A verification development for ByteTaper, an external processor for the Envoy proxy that filters JSON responses,
  caches and coalesces requests, rewrites pagination parameters and decides on compression, all under a policy per
  route.

  \<^bold>\<open>How the program works.\<close> Envoy opens a stream per HTTP request and sends the request headers, the response headers
  and the response body. The handler of the request headers takes the active policy snapshot, matches the path to a
  route, reads the client's field selection and runs the lookup pipeline of the route: prepare an invalidation plan,
  prepare the cache keys, look in the first cache level, join or lead a flight of equal requests, queue a lookup in
  the second level, rewrite the target. A hit ends the stream with an immediate response. The response handlers carry
  out the invalidation plan, decide on compression, filter the body and run the store pipeline, which writes the first
  level, queues a write to the second and completes the flight. Worker threads run the queued jobs against RocksDB.

  \<^bold>\<open>Conventions.\<close> A struct is a record, an enumeration a datatype, an unsigned integer a word of its width where it can
  wrap, a timestamp an \<open>int\<close>. A C string is the list of characters before its terminator, a nullable one an option, an
  array with a count a list. Errors and early returns are values. A mutex-protected section is one step; where threads
  matter they are interleaved steps. Function pointers are constructors of \<open>PipelineStage\<close>; a pointer to a route is its
  position in the table. Code outside the repository is a parameter: the database is the record \<open>RocksDb\<close> of its
  operations (with a map as the instance of the witnesses), clocks, entropy and what other threads do during a
  blocking wait are arguments (\<open>StageEnv\<close>, \<open>WaitEnv\<close>).

  \<^bold>\<open>Policies and routing.\<close> \<open>Policy\<close> (\<^verbatim>\<open>include/policy\<close>, \<^verbatim>\<open>src/policy/*_policy*.cpp\<close>) holds the policy structs and the
  validators; \<open>Semantic_Validator\<close> (\<^verbatim>\<open>policy_semantic_validator.cpp\<close>) the issue list and the checks across routes;
  \<open>Route_Matcher\<close> (\<^verbatim>\<open>route_matcher.h\<close>) the compiled matcher with its hash table over \<open>Hash\<close> (\<^verbatim>\<open>src/hash\<close>, SipHash-2-4).
  Shown: a file is accepted exactly under a declarative specification, the compiled lookup is the first match of the
  linear one, a reported shadow is real, and which unreachable routes are not reported. \<open>Policy_Snapshot\<close>
  (\<^verbatim>\<open>src/runtime/policy_snapshot.cpp\<close>) builds snapshots and replaces the active one; shown: the generations of concurrent
  appliers are consecutive.

  \<^bold>\<open>Caches.\<close> \<open>Cache_Key\<close>, \<open>Cache_Entry\<close>, \<open>L1_Cache\<close>, \<open>L2_Cache\<close> (\<^verbatim>\<open>src/cache\<close>) and \<open>Epoch_Store\<close>
  (\<^verbatim>\<open>src/runtime/route_cache_epoch_store.cpp\<close>). Shown: the key builder writes exactly the specified text or fails; keys of
  different epochs differ; the codec round-trips; a hit of the first level is the last accepted store or promotion of that key
  (the locale \<open>coherent_cache\<close>, interpreted on the operations of the cache); an epoch is not reused (locale \<open>epoch_map\<close>);
  and the limits, each for all inputs of its kind: a separator moved from the path to the query gives the same key, the
  decoder reads beyond a record cut off in its body, every \<open>2\<^sup>3\<^sup>2\<close>-th store to a slot is lost.

  \<^bold>\<open>Coalescing.\<close> \<open>Inflight_Registry\<close> and \<open>Coalescing\<close> (\<^verbatim>\<open>src/coalescing\<close>). \<open>Registry_Wait\<close> runs the wait of a follower as
  steps of its condition variable (notification, spurious wake-up, deadline, evaluation of the predicate) between the
  operations of other threads, and shows that it computes \<open>registry_wait_for_completion\<close>. Shown: one leader per key and
  window, a completion reaches every follower that waits for it, and abandoned leaders block their shard.

  \<^bold>\<open>Workers.\<close> \<open>Ring_Buffer\<close>, \<open>Worker_Queue\<close>, \<open>Worker_Drain\<close>, \<open>Worker_Wakeup\<close>, \<open>Worker_Store\<close>
  (\<^verbatim>\<open>src/runtime/worker_queue.cpp\<close>). The rings implement the locale \<open>bounded_queue\<close>, the three job lanes the locale
  \<open>lane\<close>. Shown: under every interleaving (an inductive step relation over the critical sections) no shard with work
  is forgotten; shutdown of a started queue joins its threads, returns and leaves every lane empty; every executed store
  changes the database as putting the entry does that was accepted, whatever reuses the body pool (a simulation by a
  queue of whole entries).

  \<^bold>\<open>JSON.\<close> \<open>Json_Text\<close> has the scanner and the trees it accepts, \<open>Json_Filter\<close> and \<open>Json_Selection\<close> the one-pass filters,
  \<open>Json_Policy\<close> their refinement to parse, filter, print, \<open>Json_Transform\<close> the flat parser, the flat filters and the
  choice between them (\<^verbatim>\<open>src/json_transform\<close>); \<open>Field_Selection\<close> the selection (\<^verbatim>\<open>src/field_selection\<close>). Shown: what is
  released is well formed and permitted or selected, and both policy filters agree on flat bodies of at most sixteen
  members with plain keys; and the limits: what the flat filter writes exactly (keys unescaped, members after the
  sixteenth dropped), that an allowlist must name the parents, that selecting an object releases what is denied inside
  it. JSON and keys are what the code's scanner takes them for: keys are truncated to 63 characters and \<open>u\<close> escapes are
  not decoded.

  \<^bold>\<open>Pagination and compression.\<close> \<open>Query_View\<close>, \<open>Pagination\<close>, \<open>Compression\<close> (\<^verbatim>\<open>src/apg/query_view.cpp\<close>,
  \<^verbatim>\<open>src/pagination\<close>, \<^verbatim>\<open>src/compression\<close>). Shown: for a readable query with one limit the forwarded limit is at most the
  maximum, and how a repeated or huge limit evades it; exactly when a response is a candidate for compression.

  \<^bold>\<open>Stages and pipelines.\<close> \<open>Apg_Context\<close> has the request context and the stage runner (\<^verbatim>\<open>src/apg/pipeline.cpp\<close>);
  \<open>Invalidation\<close>, \<open>Cache_Stages\<close>, \<open>Coalescing_Stages\<close> and \<open>Header_Stages\<close> the stages (\<^verbatim>\<open>src/stages\<close>); \<open>Default_Pipelines\<close>
  (\<^verbatim>\<open>src/extproc/default_pipelines.cpp\<close>) the stage lists of a route and the locale \<open>confined_stages\<close>: what every stage of
  a kind keeps, a run of such stages keeps. It is interpreted in \<open>Pipeline_Safety\<close> and \<open>Extproc_Safety\<close> for requests
  without a key, for the response stages and for the epochs. Shown: a successful mutation bumps its targets once; a
  stored response is served until it expires; a follower always ends; the admitted variants of a route are bounded;
  and on routes with variants the whole body is served instead of the selection.

  \<^bold>\<open>The stream.\<close> \<open>Extproc_Headers\<close> has the messages (\<^verbatim>\<open>src/extproc/header_view.cpp\<close>, \<^verbatim>\<open>request_runtime.cpp\<close>,
  \<^verbatim>\<open>bytetaper_to_envoy.cpp\<close>, \<^verbatim>\<open>src/safety/fail_open.cpp\<close>), \<open>Extproc_Stream\<close> the handlers and the loop
  (\<^verbatim>\<open>src/extproc/grpc_server.cpp\<close>): \<open>request_headers\<close>, \<open>response_headers\<close>, \<open>response_body\<close>, \<open>process_stream\<close>. A \<open>Service\<close>
  holds the shared objects; \<open>attach\<close> gives them to a context and \<open>service_after\<close> takes back what a pipeline made of them.
  \<open>Extproc_Safety\<close> shows: requests with credentials leave the caches alone, a substituted body holds only permitted
  members; and the limits: bodies a fail-closed route forwards unfiltered, leaders whose flight is never completed, mutations that invalidate nothing. This theory adds the property that spans keys,
  epochs, mutations and the first cache level: nothing prepared before a mutation is served after it.

  \<^bold>\<open>Bounds and termination.\<close> Capacities are those of the code. All loops are total functions with a termination proof,
  except three. Probing the matcher's hash table has 128 steps of fuel, one per slot, and is shown to succeed, since at
  most 64 slots are taken. The two loops of the worker shutdown are partial functions with the result \<open>None\<close> for not
  returning, and are shown to return. Statements that need a counter not to wrap (epochs, generations) say so.

  \<^bold>\<open>Not modelled.\<close> Starting and configuring the server (\<^verbatim>\<open>server_main.cpp\<close>, \<^verbatim>\<open>start_grpc_server\<close>), gRPC reads and writes,
  opening and tuning RocksDB, HTTP endpoints and tracing are input and output around the model. The YAML loader is a
  walk over nodes of a library that is not in the repository. Text rendering of metrics and policies only formats.
  The conversions between routes and policy documents in \<^verbatim>\<open>policy_snapshot.cpp\<close> copy fields; their result is an
  argument. The TaperQuery language, the control plane, the runtime policy plane and the operator edit and distribute
  policies outside the request path and meet the model only in the routes of a snapshot. Memory ordering of atomics
  and data races are not modelled: a critical section or an atomic access is one step.
\<close>

section \<open>Mutations, epochs and the cache together\<close>

text \<open>The keys a request can look up or store under once its key stage has run.\<close>

definition prepared_keys :: "'db ApgTransformContext \<Rightarrow> string set" where
  "prepared_keys ctx = (let c = snd (cache_key_prepare_stage ctx)
     in {k. ctx_cache_key_ready c \<and> k = ctx_cache_key c \<or> ctx_variant_cache_key_ready c \<and> k = ctx_variant_cache_key c})"

lemma prepared_keys_epoch:
  assumes "k \<in> prepared_keys ctx" and "ctx_matched_policy ctx = Some p" and "ctx_route_cache_epoch_store ctx = Some s"
  shows "epoch_key s (route_id p) k"
  using assms prepared_epoch_key [of ctx] prepared_variant_key [of ctx]
  by (auto simp: prepared_keys_def cacheable_def Let_def)

lemma prepare_stage_l1: "ctx_l1_cache (snd (cache_key_prepare_stage ctx)) = ctx_l1_cache ctx"
  by (simp add: cache_key_prepare_stage_def Let_def split: option.split prod.split RouteCacheEpochResult.split)

lemma applied_epochs:
  assumes "ctx_route_cache_epoch_store resp = Some s" and "ctx_mutation_invalidation resp = plan" and "pending plan"
    and "succeeded plan (ctx_response_status_code resp)" and "\<forall>r\<in>set (pl_targets plan). epoch_of s r \<noteq> None"
  shows "ctx_route_cache_epoch_store (snd (mutation_invalidation_apply_stage resp)) = Some (fold epoch_bump (pl_targets plan) s)"
proof -
  have "takeWhile (\<lambda>r. epoch_of s r \<noteq> None) (pl_targets plan) = pl_targets plan" using assms(5) by (simp add: takeWhile_eq_all_conv)
  with apply_stage_store [OF assms(1)] assms(2-4) show ?thesis by (simp del: not_None_eq)
qed

text \<open>
  (C1) No stale entry after a mutation. Let the response of a mutation with a pending plan succeed in the plan's status
  range and run the apply stage on the epoch store \<open>s\<close>, which knows every target, and let any further bumps follow (in
  all fewer than \<open>2\<^sup>6\<^sup>4\<close> for the route). A request of a target route that prepared its keys under \<open>s\<close> and a request of
  the route that prepares them afterwards have no key in common, be it raw or of a field variant; so whatever the
  earlier request stores, even after the mutation, is not what a first-level hit of the later request returns.
\<close>

theorem no_stale_after_invalidation:
  assumes "ctx_route_cache_epoch_store resp = Some s" and "ctx_mutation_invalidation resp = plan" and "pending plan"
    and "succeeded plan (ctx_response_status_code resp)" and "\<forall>r\<in>set (pl_targets plan). epoch_of s r \<noteq> None"
    and "ctx_route_cache_epoch_store (snd (mutation_invalidation_apply_stage resp)) = Some s'"
    and "rid \<in> set (pl_targets plan)" and "count_list (pl_targets plan) rid + count_list later rid < 2 ^ 64"
    and "ctx_matched_policy old = Some p" and "route_id p = Some rid" and "ctx_route_cache_epoch_store old = Some s"
    and "ctx_matched_policy new = Some p'" and "route_id p' = Some rid" and "ctx_route_cache_epoch_store new = Some (fold epoch_bump later s')"
    and "ctx_l1_cache new = Some c" and "l1_inv seed c"
  shows "prepared_keys old \<inter> prepared_keys new = {} \<and>
    (let req = snd (cache_key_prepare_stage new)
     in so_result (fst (l1_cache_lookup_stage seed req)) \<noteq> StageContinue \<longrightarrow>
        (\<exists>e. ctx_cached_response (snd (l1_cache_lookup_stage seed req)) = delivered (Some kL2BodyBufSize) e \<and>
          l1_lookup seed c (ctx_cache_key req) = Some e \<and> ent_key e \<in> prepared_keys new - prepared_keys old))"
proof -
  let ?n = "count_list (pl_targets plan) rid + count_list later rid"
  have s': "s' = fold epoch_bump (pl_targets plan) s" using applied_epochs [OF assms(1-5)] assms(6) by simp
  obtain e where e: "epoch_of s rid = Some e" using assms(5,7) by blast
  have "count_list (pl_targets plan) rid \<noteq> 0" using assms(7) by (simp add: count_list_0_iff)
  then have n: "0 < ?n" by simp
  have "(of_nat ?n :: u64) \<noteq> 0"
  proof
    assume "(of_nat ?n :: u64) = 0"
    then have "2 ^ 64 dvd ?n" by (simp add: word_of_nat_eq_0_iff del: of_nat_add)
    with n assms(8) show False by (auto dest: dvd_imp_le)
  qed
  then have "epoch_of s rid \<noteq> epoch_of (fold epoch_bump later s') rid"
    unfolding s' by (simp add: epoch_of_fold_bump e option.map_comp add.assoc flip: of_nat_add)
  then have d: "prepared_keys old \<inter> prepared_keys new = {}"
    using epoch_keys_differ [of s "Some rid" _ "fold epoch_bump later s'"] prepared_keys_epoch [OF _ assms(9,11)]
      prepared_keys_epoch [OF _ assms(12,14)] assms(10,13) by fastforce
  have c: "ctx_l1_cache (snd (cache_key_prepare_stage new)) = Some c" using assms(15) by (simp add: prepare_stage_l1)
  show ?thesis
    using d l1_lookup_stage_hit [OF _ c assms(16)] l1_lookup_key [OF assms(16)]
    by (fastforce simp: Let_def prepared_keys_def)
qed

theorem no_stale_after_invalidation_witness:
  "let old = selecting_ctx\<lparr>ctx_selected_fields := [], ctx_raw_query := [], ctx_l1_cache := Some fresh_cache\<rparr> :: unit ApgTransformContext;
       new = old\<lparr>ctx_route_cache_epoch_store := Some (epoch_bump ''orders'' orders_store)\<rparr>
   in ''GET|orders|epoch:1|/orders|||orders'' \<in> prepared_keys old \<and> prepared_keys old \<inter> prepared_keys new = {}"
proof -
  let ?old = "selecting_ctx\<lparr>ctx_selected_fields := [], ctx_raw_query := [], ctx_l1_cache := Some fresh_cache\<rparr> :: unit ApgTransformContext"
  let ?new = "?old\<lparr>ctx_route_cache_epoch_store := Some (epoch_bump ''orders'' orders_store)\<rparr>"
  let ?resp = "patch_ctx\<lparr>ctx_mutation_invalidation := plan_of orders_patch, ctx_response_status_code := 204\<rparr> :: unit ApgTransformContext"
  have t: "pl_targets (plan_of orders_patch) = [''orders'']"
    by (simp add: plan_of_def Let_def orders_patch_policy target_name_def kInvalidationRouteIdMaxLen_def)
  have e: "epoch_of orders_store ''orders'' \<noteq> None" by (simp add: epoch_of_index epoch_index_def orders_store_def)
  have sc: "succeeded (plan_of orders_patch) 204" by (simp add: succeeded_def plan_of_def Let_def orders_patch_policy)
  have r: "ctx_route_cache_epoch_store ?resp = Some orders_store" "ctx_mutation_invalidation ?resp = plan_of orders_patch"
    "succeeded (plan_of orders_patch) (ctx_response_status_code ?resp)" using sc by (simp_all add: patch_ctx_def)
  have a: "ctx_route_cache_epoch_store (snd (mutation_invalidation_apply_stage ?resp)) = Some (epoch_bump ''orders'' orders_store)"
    using applied_epochs [OF r(1,2) plan_of_pending r(3)] e t by simp
  have p: "ctx_matched_policy ?old = Some variant_route" "route_id variant_route = Some ''orders''"
    "ctx_route_cache_epoch_store ?old = Some orders_store" by (simp_all add: selecting_ctx_def variant_route_def)
  have "prepared_keys ?old \<inter> prepared_keys ?new = {}"
    using no_stale_after_invalidation [OF r(1,2) plan_of_pending r(3) _ a, where rid = "''orders''" and later = "[]" and old = ?old
        and new = ?new and p = variant_route and p' = variant_route and c = fresh_cache and seed = "\<lparr>k0 = 1, k1 = 2\<rparr>"] p e t fresh_cache_inv
    by simp
  then show ?thesis
    using plain_key [of ?old "Some fresh_cache"] by (simp add: prepared_keys_def plain_entry_def Let_def)
qed

end
